(* ===== verification/Core_Error.thy ===== *)
theory Core_Error
  imports Prelude
begin

text \<open>
  The error type of \<open>core/src/error.rs\<close>: a kind and a boxed cause. The cause is the type
  parameter; every component instantiates it with the errors it raises. The seventeen
  constructors \<open>Error::aborted\<close>, \<open>Error::unavailable\<close>, ... differ in the kind only. The
  conversions from errors of the standard library give the kind each of them is reported with.

  A computation that may also panic (arithmetic overflow, an index or slice out of range) has
  the error type \<open>'e fault\<close>.
\<close>

datatype ErrorKind =
    Cancelled | Unknown | InvalidArgument | DeadlineExceeded | NotFound | AlreadyExists
  | PermissionDenied | Unauthenticated | ResourceExhausted | FailedPrecondition | Aborted
  | OutOfRange | Unimplemented | Internal | Unavailable | DataLoss | DoNotUse

fun error_code :: "ErrorKind \<Rightarrow> int" where
  "error_code Cancelled = 1"
| "error_code Unknown = 2"
| "error_code InvalidArgument = 3"
| "error_code DeadlineExceeded = 4"
| "error_code NotFound = 5"
| "error_code AlreadyExists = 6"
| "error_code PermissionDenied = 7"
| "error_code Unauthenticated = 16"
| "error_code ResourceExhausted = 8"
| "error_code FailedPrecondition = 9"
| "error_code Aborted = 10"
| "error_code OutOfRange = 11"
| "error_code Unimplemented = 12"
| "error_code Internal = 13"
| "error_code Unavailable = 14"
| "error_code DataLoss = 15"
| "error_code DoNotUse = - 1"

text \<open>The discriminants order the kinds, as the derived \<open>Ord\<close> does.\<close>

lemma error_code_inject: "error_code a = error_code b \<longleftrightarrow> a = b"
  by (cases a; cases b) simp_all

instantiation ErrorKind :: linorder
begin

definition less_eq_ErrorKind :: "ErrorKind \<Rightarrow> ErrorKind \<Rightarrow> bool" where
  "less_eq_ErrorKind a b \<longleftrightarrow> error_code a \<le> error_code b"

definition less_ErrorKind :: "ErrorKind \<Rightarrow> ErrorKind \<Rightarrow> bool" where
  "less_ErrorKind a b \<longleftrightarrow> error_code a < error_code b"

instance
  by intro_classes
    (auto simp: less_eq_ErrorKind_def less_ErrorKind_def error_code_inject)

end

record 'c Error =
  kind :: ErrorKind
  cause :: 'c

definition error_new :: "ErrorKind \<Rightarrow> 'c \<Rightarrow> 'c Error" where
  "error_new k c = \<lparr>kind = k, cause = c\<rparr>"

definition aborted :: "'c \<Rightarrow> 'c Error" where
  "aborted = error_new Aborted"

definition already_exists :: "'c \<Rightarrow> 'c Error" where
  "already_exists = error_new AlreadyExists"

definition cancelled :: "'c \<Rightarrow> 'c Error" where
  "cancelled = error_new Cancelled"

definition data_loss :: "'c \<Rightarrow> 'c Error" where
  "data_loss = error_new DataLoss"

definition deadline_exceeded :: "'c \<Rightarrow> 'c Error" where
  "deadline_exceeded = error_new DeadlineExceeded"

definition do_not_use :: "'c \<Rightarrow> 'c Error" where
  "do_not_use = error_new DoNotUse"

definition failed_precondition :: "'c \<Rightarrow> 'c Error" where
  "failed_precondition = error_new FailedPrecondition"

definition internal :: "'c \<Rightarrow> 'c Error" where
  "internal = error_new Internal"

definition invalid_argument :: "'c \<Rightarrow> 'c Error" where
  "invalid_argument = error_new InvalidArgument"

definition not_found :: "'c \<Rightarrow> 'c Error" where
  "not_found = error_new NotFound"

definition out_of_range :: "'c \<Rightarrow> 'c Error" where
  "out_of_range = error_new OutOfRange"

definition permission_denied :: "'c \<Rightarrow> 'c Error" where
  "permission_denied = error_new PermissionDenied"

definition resource_exhausted :: "'c \<Rightarrow> 'c Error" where
  "resource_exhausted = error_new ResourceExhausted"

definition unauthenticated :: "'c \<Rightarrow> 'c Error" where
  "unauthenticated = error_new Unauthenticated"

definition unavailable :: "'c \<Rightarrow> 'c Error" where
  "unavailable = error_new Unavailable"

definition unimplemented :: "'c \<Rightarrow> 'c Error" where
  "unimplemented = error_new Unimplemented"

definition unknown :: "'c \<Rightarrow> 'c Error" where
  "unknown = error_new Unknown"

lemmas error_constructors =
  aborted_def already_exists_def cancelled_def data_loss_def deadline_exceeded_def do_not_use_def
  failed_precondition_def internal_def invalid_argument_def not_found_def out_of_range_def
  permission_denied_def resource_exhausted_def unauthenticated_def unavailable_def
  unimplemented_def unknown_def error_new_def

text \<open>The kinds of \<open>std::io::ErrorKind\<close> that the conversion tells apart.\<close>

datatype IoErrorKind =
    IoNotFound | IoPermissionDenied | IoAddrInUse | IoAlreadyExists | IoAddrNotAvailable
  | IoConnectionRefused | IoNotConnected | IoBrokenPipe | IoConnectionReset
  | IoConnectionAborted | IoInterrupted | IoWouldBlock | IoInvalidData | IoUnexpectedEof
  | IoTimedOut | IoInvalidInput | IoWriteZero | IoOther

fun io_kind :: "IoErrorKind \<Rightarrow> ErrorKind" where
  "io_kind IoNotFound = NotFound"
| "io_kind IoPermissionDenied = PermissionDenied"
| "io_kind IoAddrInUse = AlreadyExists"
| "io_kind IoAlreadyExists = AlreadyExists"
| "io_kind IoAddrNotAvailable = Unavailable"
| "io_kind IoConnectionRefused = Unavailable"
| "io_kind IoNotConnected = Unavailable"
| "io_kind IoBrokenPipe = Aborted"
| "io_kind IoConnectionReset = Aborted"
| "io_kind IoConnectionAborted = Aborted"
| "io_kind IoInterrupted = Cancelled"
| "io_kind IoWouldBlock = Cancelled"
| "io_kind IoInvalidData = FailedPrecondition"
| "io_kind IoUnexpectedEof = FailedPrecondition"
| "io_kind IoTimedOut = DeadlineExceeded"
| "io_kind IoInvalidInput = InvalidArgument"
| "io_kind IoWriteZero = ResourceExhausted"
| "io_kind IoOther = Unknown"

datatype 'e fault = Fail 'e | Panic

type_synonym ('e, 'a) fallible = "'e fault + 'a"

text \<open>Subtraction of \<open>usize\<close> values with the overflow check that panics.\<close>

definition usize_sub :: "usize \<Rightarrow> usize \<Rightarrow> ('e, usize) fallible" where
  "usize_sub a b = (if b \<le> a then Ok (a - b) else Err Panic)"

lemma usize_sub_Ok [simp]: "b \<le> a \<Longrightarrow> usize_sub a b = Inr (a - b)"
  by (simp add: usize_sub_def)

lemma usize_sub_Panic [simp]: "a < b \<Longrightarrow> usize_sub a b = Inl Panic"
  by (simp add: usize_sub_def)

end
