(* ===== verification/Numerals.thy ===== *)
theory Numerals
  imports Prelude
begin

text \<open>
  Positional numerals as Rust's standard library reads and prints them: the checked
  accumulation loop of \<open>from_str_radix\<close> and \<open>from_str\<close> on unsigned integers, and the
  decimal and zero-padded hexadecimal formatting of \<open>to_string\<close> and \<open>format!\<close>. The
  lemmas relate both directions to the value of a digit list, so that every identifier and
  header format built on them gets its round trip from the same facts.

  The locale \<open>codec\<close> is the contract of an encoder with a fallible decoder; the identifier
  and URI theories interpret it.
\<close>

section \<open>Digit lists and their values\<close>

text \<open>Most significant digit first.\<close>

definition horner :: "nat \<Rightarrow> nat list \<Rightarrow> nat" where
  "horner b ds = foldl (\<lambda>acc d. acc * b + d) 0 ds"

text \<open>Least significant digit first.\<close>

fun le_value :: "nat \<Rightarrow> nat list \<Rightarrow> nat" where
  "le_value b [] = 0"
| "le_value b (d # ds) = d + b * le_value b ds"

fun radix_digits :: "nat \<Rightarrow> nat \<Rightarrow> nat list" where
  "radix_digits b n = (if b < 2 \<or> n < b then [n] else radix_digits b (n div b) @ [n mod b])"

declare radix_digits.simps [simp del]

lemma foldl_horner: "foldl (\<lambda>acc d. acc * b + d) a ds = a * b ^ length ds + horner b ds"
proof (induction ds arbitrary: a)
  case Nil
  then show ?case by (simp add: horner_def)
next
  case (Cons d ds)
  from Cons.IH [of "a * b + d"] Cons.IH [of d] show ?case
    by (simp add: horner_def algebra_simps)
qed

lemma horner_simps [simp]:
  "horner b [] = 0"
  "horner b (d # ds) = d * b ^ length ds + horner b ds"
  "horner b (ds @ [d]) = horner b ds * b + d"
  using foldl_horner [of b d ds] by (simp_all add: horner_def)

lemma horner_append: "horner b (xs @ ys) = horner b xs * b ^ length ys + horner b ys"
  using foldl_horner [of b "horner b xs" ys] by (simp add: horner_def)

lemma horner_rev: "horner b (rev ds) = le_value b ds"
  by (induction ds) simp_all

lemma le_value_append: "le_value b (xs @ ys) = le_value b xs + b ^ length xs * le_value b ys"
  by (induction xs) (simp_all add: algebra_simps)

lemma le_value_zeros [simp]: "le_value b (replicate k 0) = 0"
  by (induction k) simp_all

lemma horner_zeros: "horner b (replicate k 0 @ ds) = horner b ds"
  using horner_rev [of b "replicate k 0"] by (simp add: horner_append)

lemma le_value_bound: "\<forall>d \<in> set ds. d < b \<Longrightarrow> le_value b ds < b ^ length ds"
proof (induction ds)
  case Nil
  then show ?case by simp
next
  case (Cons d ds)
  then have "Suc (le_value b ds) \<le> b ^ length ds" and "d < b" by simp_all
  then have "d + b * le_value b ds < b * Suc (le_value b ds)" by simp
  also have "\<dots> \<le> b * b ^ length ds" using \<open>Suc _ \<le> _\<close> by (rule mult_le_mono2)
  finally show ?case by simp
qed

lemma horner_bound: "\<forall>d \<in> set ds. d < b \<Longrightarrow> horner b ds < b ^ length ds"
  using le_value_bound [of "rev ds" b] by (simp flip: horner_rev)

text \<open>Digit lists of the same length with the same value are the same.\<close>

lemma le_value_inj:
  "length xs = length ys \<Longrightarrow> \<forall>d \<in> set xs. d < b \<Longrightarrow> \<forall>d \<in> set ys. d < b \<Longrightarrow>
   le_value b xs = le_value b ys \<Longrightarrow> xs = ys"
proof (induction xs ys rule: list_induct2)
  case Nil
  then show ?case by simp
next
  case (Cons x xs y ys)
  then have "x mod b = x" "y mod b = y" "x div b = 0" "y div b = 0" "0 < b" by auto
  moreover have "(x + b * le_value b xs) mod b = (y + b * le_value b ys) mod b"
    "(x + b * le_value b xs) div b = (y + b * le_value b ys) div b"
    using Cons.prems(3) by simp_all
  ultimately have "x = y" "le_value b xs = le_value b ys" by simp_all
  with Cons show ?case by simp
qed

lemma horner_inj:
  assumes "length xs = length ys" "\<forall>d \<in> set xs. d < b" "\<forall>d \<in> set ys. d < b"
    "horner b xs = horner b ys"
  shows "xs = ys"
  using le_value_inj [of "rev xs" "rev ys" b] assms by (simp flip: horner_rev)

lemma horner_radix_digits [simp]: "horner b (radix_digits b n) = n"
proof (induction b n rule: radix_digits.induct)
  case (1 b n)
  then show ?case by (subst radix_digits.simps) simp
qed

lemma radix_digits_less: "2 \<le> b \<Longrightarrow> d \<in> set (radix_digits b n) \<Longrightarrow> d < b"
proof (induction b n rule: radix_digits.induct)
  case (1 b n)
  show ?case
  proof (cases "n < b")
    case True
    with 1 show ?thesis by (simp add: radix_digits.simps [of b n])
  next
    case False
    with 1 show ?thesis by (auto simp: radix_digits.simps [of b n])
  qed
qed

lemma radix_digits_length: "2 \<le> b \<Longrightarrow> n < b ^ k \<Longrightarrow> 0 < k \<Longrightarrow> length (radix_digits b n) \<le> k"
proof (induction k arbitrary: n)
  case 0
  then show ?case by simp
next
  case (Suc k)
  show ?case
  proof (cases "n < b")
    case True
    then show ?thesis by (simp add: radix_digits.simps [of b n])
  next
    case False
    with Suc.prems have "0 < k" by (cases k) auto
    moreover have "n div b < b ^ k" using Suc.prems by (simp add: less_mult_imp_div_less mult.commute)
    ultimately show ?thesis
      using False Suc.IH [of "n div b"] Suc.prems(1) by (simp add: radix_digits.simps [of b n])
  qed
qed

lemma radix_digits_not_Nil [simp]: "radix_digits b n \<noteq> []"
  by (subst radix_digits.simps) simp

section \<open>Digits as characters\<close>

text \<open>\<open>char::to_digit(radix)\<close>: ASCII digits and letters of either case.\<close>

definition to_digit :: "nat \<Rightarrow> char \<Rightarrow> nat option" where
  "to_digit radix c =
     (let n = (of_char c :: nat);
          d = (if 48 \<le> n \<and> n \<le> 57 then Some (n - 48)
               else if 97 \<le> n \<and> n \<le> 122 then Some (n - 97 + 10)
               else if 65 \<le> n \<and> n \<le> 90 then Some (n - 65 + 10)
               else None)
      in case d of None \<Rightarrow> None | Some v \<Rightarrow> if v < radix then Some v else None)"

definition digit_char :: "nat \<Rightarrow> char" where
  "digit_char d = (if d < 10 then char_of (48 + d) else char_of (87 + d))"

lemma of_char_digit_char: "d < 36 \<Longrightarrow> of_char (digit_char d) = (if d < 10 then 48 + d else 87 + d)"
  by (simp add: digit_char_def)

lemma to_digit_digit_char [simp]: "d < r \<Longrightarrow> r \<le> 36 \<Longrightarrow> to_digit r (digit_char d) = Some d"
  by (simp add: to_digit_def of_char_digit_char Let_def)

lemma to_digit_less: "to_digit r c = Some d \<Longrightarrow> d < r"
  by (auto simp: to_digit_def Let_def split: if_splits option.splits)

lemma plus_no_digit [simp]: "to_digit r CHR ''+'' = None"
  by (simp add: to_digit_def)

lemma colon_no_digit [simp]: "to_digit r CHR '':'' = None"
  by (simp add: to_digit_def)

lemma digit_char_plain: "d < 36 \<Longrightarrow> digit_char d \<noteq> CHR ''+'' \<and> digit_char d \<noteq> CHR '':''"
  using to_digit_digit_char [of d 36] by fastforce

section \<open>Checked accumulation\<close>

text \<open>
  The loop of \<open>from_str_radix\<close>: for each character a digit lookup, a checked multiplication by
  the radix and a checked addition, each of which may end the parse.
\<close>

fun accumulate :: "(char \<Rightarrow> nat option) \<Rightarrow> nat \<Rightarrow> string \<Rightarrow> 'w::len word \<Rightarrow> 'w word option" where
  "accumulate digit b [] acc = Some acc"
| "accumulate digit b (c # cs) acc =
     (case digit c of None \<Rightarrow> None
      | Some d \<Rightarrow>
          (case checked_mul acc (word_of_nat b) of None \<Rightarrow> None
           | Some m \<Rightarrow>
               (case checked_add m (word_of_nat d) of None \<Rightarrow> None
                | Some s \<Rightarrow> accumulate digit b cs s)))"

text \<open>
  \<open>from_str_radix\<close> on an unsigned type: an empty string and a lone sign are errors, one
  leading plus sign is skipped, a minus sign is not a digit.
\<close>

definition from_str_radix :: "nat \<Rightarrow> string \<Rightarrow> 'w::len word option" where
  "from_str_radix radix s =
     (if s = [] then None
      else if s = ''+'' then None
      else if hd s = CHR ''+'' then accumulate (to_digit radix) radix (tl s) 0
      else accumulate (to_digit radix) radix s 0)"

text \<open>\<open>u64::to_string\<close> and \<open>format!("{:0wx}", n)\<close>.\<close>

definition show_dec :: "nat \<Rightarrow> string" where
  "show_dec n = map digit_char (radix_digits 10 n)"

definition show_hex_padded :: "nat \<Rightarrow> nat \<Rightarrow> string" where
  "show_hex_padded w n =
     (let s = map digit_char (radix_digits 16 n) in replicate (w - length s) CHR ''0'' @ s)"

lemma unat_small: "n < 2 ^ LENGTH('w) \<Longrightarrow> unat (word_of_nat n :: 'w::len word) = n"
  by (simp add: unat_of_nat take_bit_eq_mod)

lemma horner_step_ge: "(0::nat) < b \<Longrightarrow> a \<le> foldl (\<lambda>acc d. acc * b + d) a ds"
  by (simp add: foldl_horner) (metis One_nat_def Suc_leI le_add1 mult.right_neutral mult_le_mono2
      order.trans zero_less_power)

lemma accumulate_Some_iff:
  fixes acc v :: "'w::len word"
  assumes b: "0 < b" "b < 2 ^ LENGTH('w)"
    and dig: "\<And>c d. digit c = Some d \<Longrightarrow> d < b"
  shows "accumulate digit b cs acc = Some v \<longleftrightarrow>
    (\<exists>ds. list_all2 (\<lambda>c d. digit c = Some d) cs ds \<and>
      foldl (\<lambda>a d. a * b + d) (unat acc) ds < 2 ^ LENGTH('w) \<and>
      unat v = foldl (\<lambda>a d. a * b + d) (unat acc) ds)"
proof (induction cs arbitrary: acc)
  case Nil
  then show ?case by (auto simp: word_unat_eq_iff)
next
  case (Cons c cs)
  show ?case
  proof (cases "digit c")
    case None
    then show ?thesis by (auto simp: list_all2_Cons1)
  next
    case (Some d)
    have small: "unat (word_of_nat b :: 'w word) = b" "unat (word_of_nat d :: 'w word) = d"
      using b dig [OF Some] by (simp_all add: unat_small)
    let ?a = "unat acc * b + d"
    show ?thesis
    proof (cases "?a < 2 ^ LENGTH('w)")
      case True
      then have "unat acc * b < 2 ^ LENGTH('w)" by simp
      then obtain m where m: "checked_mul acc (word_of_nat b) = Some m" "unat m = unat acc * b"
        using small by (metis checked_mul_None checked_mul_Some not_le option.exhaust)
      with True obtain s where s: "checked_add m (word_of_nat d) = Some s" "unat s = ?a"
        using small by (metis checked_add_None checked_add_Some not_le option.exhaust)
      with Some m Cons.IH [of s] show ?thesis by (auto simp: list_all2_Cons1)
    next
      case False
      then have none: "accumulate digit b (c # cs) acc = None"
        using Some small by (auto simp: checked_simps split: option.splits)
      have "\<not> foldl (\<lambda>a d. a * b + d) ?a ds < 2 ^ LENGTH('w)" for ds
        using False horner_step_ge [OF b(1), of ?a ds] by linarith
      with none Some show ?thesis by (auto simp: list_all2_Cons1)
    qed
  qed
qed

lemma accumulate_map_Some_iff:
  fixes v :: "'w::len word"
  assumes b: "0 < b" "b < 2 ^ LENGTH('w)"
    and dig: "\<And>c d. digit c = Some d \<Longrightarrow> d < b"
    and enc: "\<And>d. d \<in> set ds \<Longrightarrow> digit (f d) = Some d"
  shows "accumulate digit b (map f ds) 0 = Some v \<longleftrightarrow>
    horner b ds < 2 ^ LENGTH('w) \<and> unat v = horner b ds"
proof -
  have "list_all2 (\<lambda>c d. digit c = Some d) (map f ds) es \<longleftrightarrow> es = ds" for es
    using enc by (induction ds arbitrary: es) (auto simp: list_all2_Cons1)
  then show ?thesis
    by (simp add: accumulate_Some_iff [OF b dig] horner_def)
qed

lemma accumulate_digits:
  fixes n :: nat
  assumes "0 < b" "b < 2 ^ LENGTH('w)" "\<And>c d. digit c = Some d \<Longrightarrow> d < b"
    "\<And>d. d \<in> set ds \<Longrightarrow> digit (f d) = Some d" "horner b ds < 2 ^ LENGTH('w)"
  shows "accumulate digit b (map f ds) 0 = Some (word_of_nat (horner b ds) :: 'w::len word)"
  using assms(5) by (simp add: accumulate_map_Some_iff [OF assms(1-4)] unat_small)

lemma map_digit_char_not_plus:
  "\<forall>d \<in> set ds. d < 36 \<Longrightarrow> ds \<noteq> [] \<Longrightarrow>
   map digit_char ds \<noteq> ''+'' \<and> hd (map digit_char ds) \<noteq> CHR ''+''"
  by (cases ds) (auto simp: digit_char_plain)

text \<open>Reading back what was printed.\<close>

lemma from_str_radix_digits:
  assumes "2 \<le> r" "r \<le> 36" "r < 2 ^ LENGTH('w)" "ds \<noteq> []" "\<forall>d \<in> set ds. d < r"
    "horner r ds < 2 ^ LENGTH('w)"
  shows "from_str_radix r (map digit_char ds) = Some (word_of_nat (horner r ds) :: 'w::len word)"
proof -
  have "\<forall>d \<in> set ds. d < 36" using assms(2,5) by auto
  note np = map_digit_char_not_plus [OF this assms(4)]
  have "accumulate (to_digit r) r (map digit_char ds) 0 = Some (word_of_nat (horner r ds) :: 'w word)"
    using assms by (intro accumulate_digits) (auto simp: to_digit_less)
  with np assms(4) show ?thesis by (simp add: from_str_radix_def)
qed

lemma parse_show_dec:
  "n < 2 ^ LENGTH('w) \<Longrightarrow> 10 < (2::nat) ^ LENGTH('w) \<Longrightarrow>
   from_str_radix 10 (show_dec n) = Some (word_of_nat n :: 'w::len word)"
  using from_str_radix_digits [of 10 "radix_digits 10 n", where 'w = 'w] radix_digits_less [of 10]
  by (simp add: show_dec_def)

lemma show_dec_no_colon: "CHR '':'' \<notin> set (show_dec n)"
proof
  assume "CHR '':'' \<in> set (show_dec n)"
  then obtain d where "d \<in> set (radix_digits 10 n)" "digit_char d = CHR '':''"
    by (auto simp: show_dec_def)
  with radix_digits_less [of 10 d n] digit_char_plain [of d] show False by auto
qed

lemma show_hex_padded_digits:
  "show_hex_padded w n = map digit_char (replicate (w - length (radix_digits 16 n)) 0 @ radix_digits 16 n)"
proof -
  have "digit_char 0 = CHR ''0''" by code_simp
  then show ?thesis by (simp add: show_hex_padded_def)
qed

lemma length_show_hex_padded: "n < 16 ^ w \<Longrightarrow> 0 < w \<Longrightarrow> length (show_hex_padded w n) = w"
  using radix_digits_length [of 16 n w] by (simp add: show_hex_padded_def Let_def)

lemma parse_show_hex_padded:
  assumes "n < 2 ^ LENGTH('w)" "16 < (2::nat) ^ LENGTH('w)"
  shows "from_str_radix 16 (show_hex_padded w n) = Some (word_of_nat n :: 'w::len word)"
proof -
  let ?ds = "replicate (w - length (radix_digits 16 n)) 0 @ radix_digits 16 n"
  have "\<forall>d \<in> set ?ds. d < 16" using radix_digits_less [of 16 _ n] by auto
  with assms from_str_radix_digits [of 16 ?ds, where 'w = 'w] show ?thesis
    unfolding show_hex_padded_digits by (simp add: horner_zeros del: map_append)
qed

section \<open>The contract of an encoder\<close>

text \<open>
  \<open>enc\<close> prints a value, \<open>dec\<close> reads one back or fails; on the valid values the decoder
  undoes the encoder. A canonical codec is one whose decoder accepts nothing but encodings.
\<close>

locale codec =
  fixes valid :: "'a \<Rightarrow> bool"
    and enc :: "'a \<Rightarrow> 'b"
    and dec :: "'b \<Rightarrow> ('e, 'a) result"
  assumes dec_enc: "valid x \<Longrightarrow> dec (enc x) = Inr x"
begin

lemma enc_inj: "valid x \<Longrightarrow> valid y \<Longrightarrow> enc x = enc y \<longleftrightarrow> x = y"
  using dec_enc by (metis sum.inject(2))

lemma inj_on_enc: "inj_on enc {x. valid x}"
  by (rule inj_onI) (simp add: enc_inj)

end

locale canonical_codec = codec +
  assumes enc_dec: "dec y = Inr x \<Longrightarrow> enc x = y"
    and dec_valid: "dec y = Inr x \<Longrightarrow> valid x"
begin

lemma dec_iff: "dec y = Inr x \<longleftrightarrow> valid x \<and> y = enc x"
  using dec_enc enc_dec dec_valid by blast

lemma dec_unique: "dec y = Inr x \<Longrightarrow> dec z = Inr x \<Longrightarrow> y = z"
  using enc_dec by metis

end

end
