(* ===== verification/Player_Messages.thy ===== *)
theory Player_Messages
  imports Numerals
begin

text \<open>
  The protocol messages the connect state is made of, and the conversions between the two
  families of them: \<open>player.proto\<close> (the state sent to the server) and the \<open>context*.proto\<close>,
  \<open>restrictions.proto\<close>, \<open>play_origin.proto\<close> messages (what the server sends). The conversions are
  \<open>protocol/src/impl_trait/player.rs\<close>; the metadata and provider traits of the messages are
  \<open>connect/src/state/metadata.rs\<close> and \<open>connect/src/state/provider.rs\<close>.

  A message is a record of the fields its \<open>.proto\<close> file declares, without the cached size and
  unknown fields the runtime keeps beside them and without the fields the connect code never
  reads or writes. An optional message field is an option; reading through an
  unset one gives the default message. A \<open>map<string, string>\<close> is a HOL map, a \<open>double\<close> or a
  \<open>float\<close> its bit pattern.
\<close>

type_synonym metadata = "string \<rightharpoonup> string"

section \<open>Restrictions\<close>

record RestrictionReasons =
  reasons :: "string list"

record ModeRestrictions =
  mode_values :: "string \<rightharpoonup> RestrictionReasons"

text \<open>\<open>Restrictions\<close> of \<open>player.proto\<close>.\<close>

record Restrictions =
  disallow_pausing_reasons :: "string list"
  disallow_resuming_reasons :: "string list"
  disallow_seeking_reasons :: "string list"
  disallow_peeking_prev_reasons :: "string list"
  disallow_peeking_next_reasons :: "string list"
  disallow_skipping_prev_reasons :: "string list"
  disallow_skipping_next_reasons :: "string list"
  disallow_toggling_repeat_context_reasons :: "string list"
  disallow_toggling_repeat_track_reasons :: "string list"
  disallow_toggling_shuffle_reasons :: "string list"
  disallow_set_queue_reasons :: "string list"
  disallow_interrupting_playback_reasons :: "string list"
  disallow_transferring_playback_reasons :: "string list"
  disallow_remote_control_reasons :: "string list"
  disallow_inserting_into_next_tracks_reasons :: "string list"
  disallow_inserting_into_context_tracks_reasons :: "string list"
  disallow_reordering_in_next_tracks_reasons :: "string list"
  disallow_reordering_in_context_tracks_reasons :: "string list"
  disallow_removing_from_next_tracks_reasons :: "string list"
  disallow_removing_from_context_tracks_reasons :: "string list"
  disallow_updating_context_reasons :: "string list"
  disallow_playing_reasons :: "string list"
  disallow_stopping_reasons :: "string list"
  disallow_add_to_queue_reasons :: "string list"
  disallow_setting_playback_speed_reasons :: "string list"
  disallow_setting_modes :: "string \<rightharpoonup> ModeRestrictions"
  disallow_signals :: "string \<rightharpoonup> RestrictionReasons"

text \<open>\<open>Restrictions\<close> of \<open>restrictions.proto\<close>, the form contexts carry.\<close>

record ContextRestrictions =
  ctx_disallow_pausing_reasons :: "string list"
  ctx_disallow_resuming_reasons :: "string list"
  ctx_disallow_seeking_reasons :: "string list"
  ctx_disallow_peeking_prev_reasons :: "string list"
  ctx_disallow_peeking_next_reasons :: "string list"
  ctx_disallow_skipping_prev_reasons :: "string list"
  ctx_disallow_skipping_next_reasons :: "string list"
  ctx_disallow_toggling_repeat_context_reasons :: "string list"
  ctx_disallow_toggling_repeat_track_reasons :: "string list"
  ctx_disallow_toggling_shuffle_reasons :: "string list"
  ctx_disallow_set_queue_reasons :: "string list"
  ctx_disallow_interrupting_playback_reasons :: "string list"
  ctx_disallow_transferring_playback_reasons :: "string list"
  ctx_disallow_remote_control_reasons :: "string list"
  ctx_disallow_inserting_into_next_tracks_reasons :: "string list"
  ctx_disallow_inserting_into_context_tracks_reasons :: "string list"
  ctx_disallow_reordering_in_next_tracks_reasons :: "string list"
  ctx_disallow_reordering_in_context_tracks_reasons :: "string list"
  ctx_disallow_removing_from_next_tracks_reasons :: "string list"
  ctx_disallow_removing_from_context_tracks_reasons :: "string list"
  ctx_disallow_updating_context_reasons :: "string list"
  ctx_disallow_add_to_queue_reasons :: "string list"
  ctx_disallow_setting_playback_speed :: "string list"
  ctx_disallow_setting_modes :: "string \<rightharpoonup> ModeRestrictions"
  ctx_disallow_signals :: "string \<rightharpoonup> RestrictionReasons"

text \<open>
  The two \<open>RestrictionReasons\<close> messages and the two \<open>ModeRestrictions\<close> messages have the same
  fields in both families; \<open>hashmap_into\<close> rebuilds a map value by value.
\<close>

definition hashmap_into :: "('a \<Rightarrow> 'b) \<Rightarrow> (string \<rightharpoonup> 'a) \<Rightarrow> (string \<rightharpoonup> 'b)" where
  "hashmap_into f m = (\<lambda>k. map_option f (m k))"

definition reasons_into :: "RestrictionReasons \<Rightarrow> RestrictionReasons" where
  "reasons_into r = \<lparr>reasons = reasons r\<rparr>"

definition modes_into :: "ModeRestrictions \<Rightarrow> ModeRestrictions" where
  "modes_into m = \<lparr>mode_values = hashmap_into reasons_into (mode_values m)\<rparr>"

definition restrictions_new :: Restrictions where
  "restrictions_new = \<lparr>
     disallow_pausing_reasons = [],
     disallow_resuming_reasons = [],
     disallow_seeking_reasons = [],
     disallow_peeking_prev_reasons = [],
     disallow_peeking_next_reasons = [],
     disallow_skipping_prev_reasons = [],
     disallow_skipping_next_reasons = [],
     disallow_toggling_repeat_context_reasons = [],
     disallow_toggling_repeat_track_reasons = [],
     disallow_toggling_shuffle_reasons = [],
     disallow_set_queue_reasons = [],
     disallow_interrupting_playback_reasons = [],
     disallow_transferring_playback_reasons = [],
     disallow_remote_control_reasons = [],
     disallow_inserting_into_next_tracks_reasons = [],
     disallow_inserting_into_context_tracks_reasons = [],
     disallow_reordering_in_next_tracks_reasons = [],
     disallow_reordering_in_context_tracks_reasons = [],
     disallow_removing_from_next_tracks_reasons = [],
     disallow_removing_from_context_tracks_reasons = [],
     disallow_updating_context_reasons = [],
     disallow_playing_reasons = [], disallow_stopping_reasons = [],
     disallow_add_to_queue_reasons = [], disallow_setting_playback_speed_reasons = [],
     disallow_setting_modes = Map.empty, disallow_signals = Map.empty\<rparr>"

definition to_context_restrictions :: "Restrictions \<Rightarrow> ContextRestrictions" where
  "to_context_restrictions v = \<lparr>
     ctx_disallow_pausing_reasons = disallow_pausing_reasons v,
     ctx_disallow_resuming_reasons = disallow_resuming_reasons v,
     ctx_disallow_seeking_reasons = disallow_seeking_reasons v,
     ctx_disallow_peeking_prev_reasons = disallow_peeking_prev_reasons v,
     ctx_disallow_peeking_next_reasons = disallow_peeking_next_reasons v,
     ctx_disallow_skipping_prev_reasons = disallow_skipping_prev_reasons v,
     ctx_disallow_skipping_next_reasons = disallow_skipping_next_reasons v,
     ctx_disallow_toggling_repeat_context_reasons = disallow_toggling_repeat_context_reasons v,
     ctx_disallow_toggling_repeat_track_reasons = disallow_toggling_repeat_track_reasons v,
     ctx_disallow_toggling_shuffle_reasons = disallow_toggling_shuffle_reasons v,
     ctx_disallow_set_queue_reasons = disallow_set_queue_reasons v,
     ctx_disallow_interrupting_playback_reasons = disallow_interrupting_playback_reasons v,
     ctx_disallow_transferring_playback_reasons = disallow_transferring_playback_reasons v,
     ctx_disallow_remote_control_reasons = disallow_remote_control_reasons v,
     ctx_disallow_inserting_into_next_tracks_reasons = disallow_inserting_into_next_tracks_reasons v,
     ctx_disallow_inserting_into_context_tracks_reasons = disallow_inserting_into_context_tracks_reasons v,
     ctx_disallow_reordering_in_next_tracks_reasons = disallow_reordering_in_next_tracks_reasons v,
     ctx_disallow_reordering_in_context_tracks_reasons = disallow_reordering_in_context_tracks_reasons v,
     ctx_disallow_removing_from_next_tracks_reasons = disallow_removing_from_next_tracks_reasons v,
     ctx_disallow_removing_from_context_tracks_reasons = disallow_removing_from_context_tracks_reasons v,
     ctx_disallow_updating_context_reasons = disallow_updating_context_reasons v,
     ctx_disallow_add_to_queue_reasons = disallow_add_to_queue_reasons v,
     ctx_disallow_setting_playback_speed = disallow_setting_playback_speed_reasons v,
     ctx_disallow_setting_modes = hashmap_into modes_into (disallow_setting_modes v),
     ctx_disallow_signals = hashmap_into reasons_into (disallow_signals v)\<rparr>"

definition to_player_restrictions :: "ContextRestrictions \<Rightarrow> Restrictions" where
  "to_player_restrictions v = \<lparr>
     disallow_pausing_reasons = ctx_disallow_pausing_reasons v,
     disallow_resuming_reasons = ctx_disallow_resuming_reasons v,
     disallow_seeking_reasons = ctx_disallow_seeking_reasons v,
     disallow_peeking_prev_reasons = ctx_disallow_peeking_prev_reasons v,
     disallow_peeking_next_reasons = ctx_disallow_peeking_next_reasons v,
     disallow_skipping_prev_reasons = ctx_disallow_skipping_prev_reasons v,
     disallow_skipping_next_reasons = ctx_disallow_skipping_next_reasons v,
     disallow_toggling_repeat_context_reasons = ctx_disallow_toggling_repeat_context_reasons v,
     disallow_toggling_repeat_track_reasons = ctx_disallow_toggling_repeat_track_reasons v,
     disallow_toggling_shuffle_reasons = ctx_disallow_toggling_shuffle_reasons v,
     disallow_set_queue_reasons = ctx_disallow_set_queue_reasons v,
     disallow_interrupting_playback_reasons = ctx_disallow_interrupting_playback_reasons v,
     disallow_transferring_playback_reasons = ctx_disallow_transferring_playback_reasons v,
     disallow_remote_control_reasons = ctx_disallow_remote_control_reasons v,
     disallow_inserting_into_next_tracks_reasons = ctx_disallow_inserting_into_next_tracks_reasons v,
     disallow_inserting_into_context_tracks_reasons = ctx_disallow_inserting_into_context_tracks_reasons v,
     disallow_reordering_in_next_tracks_reasons = ctx_disallow_reordering_in_next_tracks_reasons v,
     disallow_reordering_in_context_tracks_reasons = ctx_disallow_reordering_in_context_tracks_reasons v,
     disallow_removing_from_next_tracks_reasons = ctx_disallow_removing_from_next_tracks_reasons v,
     disallow_removing_from_context_tracks_reasons = ctx_disallow_removing_from_context_tracks_reasons v,
     disallow_updating_context_reasons = ctx_disallow_updating_context_reasons v,
     disallow_playing_reasons = [], disallow_stopping_reasons = [],
     disallow_add_to_queue_reasons = ctx_disallow_add_to_queue_reasons v,
     disallow_setting_playback_speed_reasons = ctx_disallow_setting_playback_speed v,
     disallow_setting_modes = hashmap_into modes_into (ctx_disallow_setting_modes v),
     disallow_signals = hashmap_into reasons_into (ctx_disallow_signals v)\<rparr>"

section \<open>Options, origin and suppressions\<close>

type_synonym f64 = u64
type_synonym f32 = u32

record ContextPlayerOptions =
  shuffling_context :: bool
  repeating_context :: bool
  repeating_track :: bool
  modes :: metadata
  options_playback_speed :: "f32 option"

definition context_player_options_new :: ContextPlayerOptions where
  "context_player_options_new =
     \<lparr>shuffling_context = False, repeating_context = False, repeating_track = False,
      modes = Map.empty, options_playback_speed = None\<rparr>"

record TransferOptions =
  to_shuffling_context :: "bool option"
  to_repeating_context :: "bool option"
  to_repeating_track :: "bool option"
  to_playback_speed :: "f32 option"
  to_modes :: metadata

definition unwrap_or :: "'a option \<Rightarrow> 'a \<Rightarrow> 'a" where
  "unwrap_or x d = (case x of None \<Rightarrow> d | Some v \<Rightarrow> v)"

lemma unwrap_or_simps [simp]: "unwrap_or None d = d" "unwrap_or (Some v) d = v"
  by (simp_all add: unwrap_or_def)

definition to_player_options :: "TransferOptions \<Rightarrow> ContextPlayerOptions" where
  "to_player_options v =
     \<lparr>shuffling_context = unwrap_or (to_shuffling_context v) False,
      repeating_context = unwrap_or (to_repeating_context v) False,
      repeating_track = unwrap_or (to_repeating_track v) False,
      modes = to_modes v, options_playback_speed = to_playback_speed v\<rparr>"

record PlayOrigin =
  feature_identifier :: string
  feature_version :: string
  view_uri :: string
  external_referrer :: string
  referrer_identifier :: string
  device_identifier :: string
  feature_classes :: "string list"
  restriction_identifier :: string

definition play_origin_new :: PlayOrigin where
  "play_origin_new =
     \<lparr>feature_identifier = [], feature_version = [], view_uri = [], external_referrer = [],
      referrer_identifier = [], device_identifier = [], feature_classes = [],
      restriction_identifier = []\<rparr>"

record TransferPlayOrigin =
  to_feature_identifier :: "string option"
  to_feature_version :: "string option"
  to_view_uri :: "string option"
  to_external_referrer :: "string option"
  to_referrer_identifier :: "string option"
  to_device_identifier :: "string option"
  to_feature_classes :: "string list"
  to_restriction_identifier :: "string option"

definition to_player_origin :: "TransferPlayOrigin \<Rightarrow> PlayOrigin" where
  "to_player_origin v =
     \<lparr>feature_identifier = unwrap_or (to_feature_identifier v) [],
      feature_version = unwrap_or (to_feature_version v) [],
      view_uri = unwrap_or (to_view_uri v) [],
      external_referrer = unwrap_or (to_external_referrer v) [],
      referrer_identifier = unwrap_or (to_referrer_identifier v) [],
      device_identifier = unwrap_or (to_device_identifier v) [],
      feature_classes = to_feature_classes v,
      restriction_identifier = unwrap_or (to_restriction_identifier v) []\<rparr>"

record Suppressions =
  suppressed_providers :: "string list"

definition to_player_suppressions :: "Suppressions \<Rightarrow> Suppressions" where
  "to_player_suppressions v = \<lparr>suppressed_providers = suppressed_providers v\<rparr>"

section \<open>Metadata\<close>

text \<open>
  The \<open>Metadata\<close> trait reads and writes known keys of the metadata map a message carries. Its
  accessors are generated by the \<open>metadata_entry!\<close> macro, one getter and setter per key.
\<close>

definition show_bool :: "bool \<Rightarrow> string" where
  "show_bool b = (if b then ''true'' else ''false'')"

definition get_bool :: "string \<Rightarrow> metadata \<Rightarrow> bool" where
  "get_bool entry m \<longleftrightarrow> m entry = Some ''true''"

definition get_usize :: "string \<Rightarrow> metadata \<Rightarrow> usize option" where
  "get_usize entry m =
     (case m entry of None \<Rightarrow> None
      | Some s \<Rightarrow> map_option unat (from_str_radix 10 s :: u64 option))"

definition is_from_queue :: "metadata \<Rightarrow> bool" where
  "is_from_queue = get_bool ''is_queued''"

definition set_from_queue :: "bool \<Rightarrow> metadata \<Rightarrow> metadata" where
  "set_from_queue b m = m(''is_queued'' \<mapsto> show_bool b)"

definition is_from_autoplay :: "metadata \<Rightarrow> bool" where
  "is_from_autoplay = get_bool ''autoplay.is_autoplay''"

definition set_from_autoplay :: "bool \<Rightarrow> metadata \<Rightarrow> metadata" where
  "set_from_autoplay b m = m(''autoplay.is_autoplay'' \<mapsto> show_bool b)"

definition set_hidden :: "bool \<Rightarrow> metadata \<Rightarrow> metadata" where
  "set_hidden b m = m(''hidden'' \<mapsto> show_bool b)"

definition get_context_index :: "metadata \<Rightarrow> usize option" where
  "get_context_index = get_usize ''context_index''"

definition set_context_index :: "usize \<Rightarrow> metadata \<Rightarrow> metadata" where
  "set_context_index i m = m(''context_index'' \<mapsto> show_dec i)"

definition set_context_uri :: "string \<Rightarrow> metadata \<Rightarrow> metadata" where
  "set_context_uri v m = m(''context_uri'' \<mapsto> v)"

definition set_entity_uri :: "string \<Rightarrow> metadata \<Rightarrow> metadata" where
  "set_entity_uri v m = m(''entity_uri'' \<mapsto> v)"

definition set_iteration :: "nat \<Rightarrow> metadata \<Rightarrow> metadata" where
  "set_iteration i m = m(''iteration'' \<mapsto> show_dec i)"

definition get_shuffle_seed :: "metadata \<Rightarrow> string option" where
  "get_shuffle_seed m = m ''shuffle_seed''"

definition set_shuffle_seed :: "u64 \<Rightarrow> metadata \<Rightarrow> metadata" where
  "set_shuffle_seed seed m = m(''shuffle_seed'' \<mapsto> show_dec (unat seed))"

definition remove_shuffle_seed :: "metadata \<Rightarrow> metadata" where
  "remove_shuffle_seed m = m(''shuffle_seed'' := None)"

definition get_initial_track :: "metadata \<Rightarrow> string option" where
  "get_initial_track m = m ''initial_track''"

definition set_initial_track :: "string \<Rightarrow> metadata \<Rightarrow> metadata" where
  "set_initial_track v m = m(''initial_track'' \<mapsto> v)"

definition remove_initial_track :: "metadata \<Rightarrow> metadata" where
  "remove_initial_track m = m(''initial_track'' := None)"

lemmas metadata_key_defs =
  is_from_queue_def set_from_queue_def is_from_autoplay_def set_from_autoplay_def set_hidden_def
  get_context_index_def set_context_index_def set_context_uri_def set_entity_uri_def
  set_iteration_def get_shuffle_seed_def set_shuffle_seed_def remove_shuffle_seed_def
  get_initial_track_def set_initial_track_def remove_initial_track_def

lemma get_set_context_index [simp]:
  "i < 2 ^ 64 \<Longrightarrow> get_context_index (set_context_index i m) = Some i"
  using parse_show_dec [of i, where 'w = 64]
  by (simp add: metadata_key_defs get_usize_def unat_small)

lemma shuffle_seed_reads_back:
  "map_option (\<lambda>s. from_str_radix 10 s) (get_shuffle_seed (set_shuffle_seed seed m)) = Some (Some seed)"
  using parse_show_dec [of "unat seed", where 'w = 64] unsigned_less [of seed, where 'a = nat]
  by (simp add: metadata_key_defs)

lemma get_set_from_queue [simp]: "is_from_queue (set_from_queue b m) = b"
  by (simp add: metadata_key_defs get_bool_def show_bool_def)

section \<open>Tracks, pages and contexts\<close>

datatype Provider = ProviderContext | ProviderQueue | ProviderAutoplay | ProviderUnavailable

fun provider_to_string :: "Provider \<Rightarrow> string" where
  "provider_to_string ProviderContext = ''context''"
| "provider_to_string ProviderQueue = ''queue''"
| "provider_to_string ProviderAutoplay = ''autoplay''"
| "provider_to_string ProviderUnavailable = ''unavailable''"

record ProvidedTrack =
  uri :: string
  uid :: string
  metadata :: metadata
  provider :: string

definition provided_track_new :: ProvidedTrack where
  "provided_track_new = \<lparr>uri = [], uid = [], metadata = Map.empty, provider = []\<rparr>"

definition is_autoplay :: "ProvidedTrack \<Rightarrow> bool" where
  "is_autoplay t \<longleftrightarrow> provider t = ''autoplay''"

definition is_context :: "ProvidedTrack \<Rightarrow> bool" where
  "is_context t \<longleftrightarrow> provider t = ''context''"

definition is_queue :: "ProvidedTrack \<Rightarrow> bool" where
  "is_queue t \<longleftrightarrow> provider t = ''queue''"

definition is_unavailable :: "ProvidedTrack \<Rightarrow> bool" where
  "is_unavailable t \<longleftrightarrow> provider t = ''unavailable''"

definition set_provider :: "Provider \<Rightarrow> ProvidedTrack \<Rightarrow> ProvidedTrack" where
  "set_provider p t = t\<lparr>provider := provider_to_string p\<rparr>"

lemmas provider_defs =
  is_autoplay_def is_context_def is_queue_def is_unavailable_def set_provider_def

record ContextTrack =
  ct_uri :: "string option"
  ct_uid :: "string option"
  ct_gid :: "u8 list option"
  ct_metadata :: metadata

definition context_track_new :: ContextTrack where
  "context_track_new = \<lparr>ct_uri = None, ct_uid = None, ct_gid = None, ct_metadata = Map.empty\<rparr>"

record ContextPage =
  page_url :: "string option"
  next_page_url :: "string option"
  page_metadata :: metadata
  page_tracks :: "ContextTrack list"

definition context_page_new :: ContextPage where
  "context_page_new =
     \<lparr>page_url = None, next_page_url = None, page_metadata = Map.empty, page_tracks = []\<rparr>"

definition page_from_uris :: "string list \<Rightarrow> ContextPage" where
  "page_from_uris v =
     context_page_new\<lparr>page_tracks := map (\<lambda>u. context_track_new\<lparr>ct_uri := Some u\<rparr>) v\<rparr>"

definition page_from_tracks :: "ContextTrack list \<Rightarrow> ContextPage" where
  "page_from_tracks ts = context_page_new\<lparr>page_tracks := ts\<rparr>"

record Context =
  c_uri :: "string option"
  c_url :: "string option"
  c_metadata :: metadata
  c_restrictions :: "ContextRestrictions option"
  c_pages :: "ContextPage list"

definition context_new :: Context where
  "context_new =
     \<lparr>c_uri = None, c_url = None, c_metadata = Map.empty, c_restrictions = None, c_pages = []\<rparr>"

record ContextIndex =
  index_page :: nat
  index_track :: nat

definition context_index_new :: ContextIndex where
  "context_index_new = \<lparr>index_page = 0, index_track = 0\<rparr>"

text \<open>\<open>TransferState\<close> with its playback, session and queue parts.\<close>

record Playback =
  pb_timestamp :: "64 word option"
  pb_position_as_of_timestamp :: "32 word option"
  pb_playback_speed :: "f64 option"
  pb_is_paused :: "bool option"
  pb_current_track :: "ContextTrack option"

record Session =
  s_play_origin :: "TransferPlayOrigin option"
  s_context :: "Context option"
  s_current_uid :: "string option"
  s_suppressions :: "Suppressions option"

record Queue =
  q_tracks :: "ContextTrack list"
  q_is_playing_queue :: "bool option"

record TransferState =
  t_options :: "TransferOptions option"
  t_playback :: "Playback option"
  t_current_session :: "Session option"
  t_queue :: "Queue option"

definition playback_of :: "TransferState \<Rightarrow> Playback" where
  "playback_of t =
     unwrap_or (t_playback t) \<lparr>pb_timestamp = None, pb_position_as_of_timestamp = None, pb_playback_speed = None,
       pb_is_paused = None, pb_current_track = None\<rparr>"

definition session_of :: "TransferState \<Rightarrow> Session" where
  "session_of t =
     unwrap_or (t_current_session t)
       \<lparr>s_play_origin = None, s_context = None, s_current_uid = None, s_suppressions = None\<rparr>"

definition queue_of :: "TransferState \<Rightarrow> Queue" where
  "queue_of t = unwrap_or (t_queue t) \<lparr>q_tracks = [], q_is_playing_queue = None\<rparr>"

section \<open>Conversions\<close>

lemma hashmap_into_id: "(\<And>x. f x = x) \<Longrightarrow> hashmap_into f m = m"
  by (rule ext) (auto simp: hashmap_into_def map_option_case split: option.splits)

lemma reasons_into_id [simp]: "reasons_into r = r"
  by (simp add: reasons_into_def)

lemma modes_into_id [simp]: "modes_into m = m"
  by (simp add: modes_into_def hashmap_into_id)

text \<open>
  Restrictions converted from the context form to the player form and back are unchanged;
  in the other direction exactly the playing and stopping reasons are lost, which
  \<open>restrictions.proto\<close> has no field for.
\<close>

theorem restrictions_conversion:
  "to_context_restrictions (to_player_restrictions c) = c \<and>
   to_player_restrictions (to_context_restrictions r) =
     r\<lparr>disallow_playing_reasons := [], disallow_stopping_reasons := []\<rparr>"
  by (simp add: to_context_restrictions_def to_player_restrictions_def hashmap_into_id)

end
