(* ===== verification/Shuffle_Vec.thy ===== *)
theory Shuffle_Vec
  imports Prelude "HOL-Library.Multiset"
begin

text \<open>
  The shuffled track list of \<open>connect/src/shuffle_vec.rs\<close>: a vector with the swap indices that
  were drawn when it was shuffled, so that the shuffle can be undone. The random generator is
  the \<open>rand\<close> crate, outside the repository: a parameter of the operations, with the documented
  contract of \<open>random_range(0..n)\<close> as the hypothesis \<open>rng_in_range\<close>.

  A swap index out of range would panic; the invariant \<open>shuffle_ok\<close> rules that out for
  vectors that are not resized while shuffled. What happens to one that is resized is the
  last property.
\<close>

section \<open>The data structure\<close>

record 'g Rng =
  random_range :: "'g \<Rightarrow> nat \<Rightarrow> nat \<times> 'g"
  seed_from_u64 :: "u64 \<Rightarrow> 'g"

text \<open>\<open>random_range(0..n)\<close> on a non-empty range returns a value below \<open>n\<close>.\<close>

definition rng_in_range :: "'g Rng \<Rightarrow> bool" where
  "rng_in_range R \<longleftrightarrow> (\<forall>g n. 0 < n \<longrightarrow> fst (random_range R g n) < n)"

record 'a ShuffleVec =
  vec :: "'a list"
  indices :: "nat list option"
  original_first_position :: "nat option"

definition from_vec :: "'a list \<Rightarrow> 'a ShuffleVec" where
  "from_vec v = \<lparr>vec = v, indices = None, original_first_position = None\<rparr>"

text \<open>The \<open>map\<close> that draws one index per position, from the last position to the first.\<close>

fun draw_indices :: "'g Rng \<Rightarrow> 'g \<Rightarrow> nat list \<Rightarrow> nat list" where
  "draw_indices R g [] = []"
| "draw_indices R g (i # is) =
     (let (r, g') = random_range R g (i + 1) in r # draw_indices R g' is)"

definition apply_swaps :: "(nat \<times> nat) list \<Rightarrow> 'a list \<Rightarrow> 'a list" where
  "apply_swaps ps v = fold (\<lambda>(i, j) v. vec_swap v i j) ps v"

text \<open>The \<open>for i in 1..len\<close> loop of \<open>unshuffle\<close>, which returns when an index is missing.\<close>

fun unshuffle_loop :: "nat list \<Rightarrow> nat list \<Rightarrow> 'a list \<Rightarrow> 'a list" where
  "unshuffle_loop [] idx v = v"
| "unshuffle_loop (i # is) idx v =
     (case get idx (length v - i - 1) of
        None \<Rightarrow> v
      | Some n \<Rightarrow> unshuffle_loop is idx (vec_swap v n i))"

definition unshuffle :: "'a ShuffleVec \<Rightarrow> 'a ShuffleVec" where
  "unshuffle s =
     (case indices s of
        None \<Rightarrow> s
      | Some idx \<Rightarrow>
          (let v = (case original_first_position s of
                      Some first_pos \<Rightarrow> vec_swap (vec s) 0 first_pos
                    | None \<Rightarrow> vec s)
           in s\<lparr>indices := None, original_first_position := None,
                vec := unshuffle_loop [1 ..< length v] idx v\<rparr>))"

definition shuffle_with_rng :: "'g Rng \<Rightarrow> 'g \<Rightarrow> ('a \<Rightarrow> bool) \<Rightarrow> 'a ShuffleVec \<Rightarrow> 'a ShuffleVec" where
  "shuffle_with_rng R g is_first s =
     (if length (vec s) \<le> 1 then s
      else
        (let s1 = (if indices s \<noteq> None then unshuffle s else s);
             n = length (vec s1);
             idx = draw_indices R g (rev [1 ..< n]);
             v = apply_swaps (zip (rev [1 ..< n]) idx) (vec s1);
             first = position is_first v
         in s1\<lparr>indices := Some idx, original_first_position := first,
               vec := (case first of Some p \<Rightarrow> vec_swap v 0 p | None \<Rightarrow> v)\<rparr>))"

definition shuffle_with_seed :: "'g Rng \<Rightarrow> u64 \<Rightarrow> ('a \<Rightarrow> bool) \<Rightarrow> 'a ShuffleVec \<Rightarrow> 'a ShuffleVec" where
  "shuffle_with_seed R seed is_first s = shuffle_with_rng R (seed_from_u64 R seed) is_first s"

text \<open>\<open>push\<close> through \<open>DerefMut\<close>: the vector grows, the recorded indices do not.\<close>

definition vec_push :: "'a \<Rightarrow> 'a ShuffleVec \<Rightarrow> 'a ShuffleVec" where
  "vec_push x s = s\<lparr>vec := vec s @ [x]\<rparr>"

section \<open>Invariant\<close>

definition draws_ok :: "nat \<Rightarrow> nat list \<Rightarrow> bool" where
  "draws_ok n idx \<longleftrightarrow> length idx = n - 1 \<and> (\<forall>k < length idx. idx ! k < n)"

definition shuffle_ok :: "'a ShuffleVec \<Rightarrow> bool" where
  "shuffle_ok s \<longleftrightarrow>
     (case indices s of
        None \<Rightarrow> original_first_position s = None
      | Some idx \<Rightarrow> 2 \<le> length (vec s) \<and> draws_ok (length (vec s)) idx \<and>
          (case original_first_position s of None \<Rightarrow> True | Some p \<Rightarrow> p < length (vec s)))"

section \<open>Swaps and their inverse\<close>

lemma length_apply_swaps [simp]: "length (apply_swaps ps v) = length v"
  by (induction ps arbitrary: v) (auto simp: apply_swaps_def split: prod.splits)

lemma apply_swaps_append: "apply_swaps (ps @ qs) v = apply_swaps qs (apply_swaps ps v)"
  by (simp add: apply_swaps_def)

lemma apply_swaps_simps [simp]:
  "apply_swaps [] v = v"
  "apply_swaps ((i, j) # ps) v = apply_swaps ps (vec_swap v i j)"
  by (simp_all add: apply_swaps_def)

lemma apply_swaps_rev:
  "\<forall>(i, j) \<in> set ps. i < length v \<and> j < length v \<Longrightarrow> apply_swaps (rev ps) (apply_swaps ps v) = v"
  by (induction ps arbitrary: v) (auto simp: apply_swaps_append vec_swap_swap)

lemma mset_vec_swap: "i < length v \<Longrightarrow> j < length v \<Longrightarrow> mset (vec_swap v i j) = mset v"
  by (simp add: vec_swap_def mset_swap)

lemma mset_apply_swaps:
  "\<forall>(i, j) \<in> set ps. i < length v \<and> j < length v \<Longrightarrow> mset (apply_swaps ps v) = mset v"
  by (induction ps arbitrary: v) (auto simp: mset_vec_swap)

lemma length_draw_indices [simp]: "length (draw_indices R g is) = length is"
  by (induction R g "is" rule: draw_indices.induct) (auto split: prod.splits)

lemma draw_indices_nth:
  "rng_in_range R \<Longrightarrow> k < length is \<Longrightarrow> draw_indices R g is ! k \<le> is ! k"
proof (induction R g "is" arbitrary: k rule: draw_indices.induct)
  case (1 R g)
  then show ?case by simp
next
  case (2 R g i "is")
  obtain r g' where rg: "random_range R g (i + 1) = (r, g')" by fastforce
  with 2(2) have "r < i + 1" unfolding rng_in_range_def by (metis fst_conv zero_less_Suc Suc_eq_plus1)
  with 2 rg show ?case by (cases k) auto
qed

lemma draws_ok_draw_indices:
  "rng_in_range R \<Longrightarrow> 2 \<le> n \<Longrightarrow> draws_ok n (draw_indices R g (rev [1 ..< n]))"
  unfolding draws_ok_def
proof (intro conjI allI impI)
  assume R: "rng_in_range R" and n: "2 \<le> n"
  fix k assume "k < length (draw_indices R g (rev [1 ..< n]))"
  then have k: "k < n - 1" by simp
  then have "draw_indices R g (rev [1 ..< n]) ! k \<le> rev [1 ..< n] ! k"
    using draw_indices_nth [OF R, of k "rev [1 ..< n]"] by simp
  also have "\<dots> < n" using k n by (simp add: rev_nth)
  finally show "draw_indices R g (rev [1 ..< n]) ! k < n" .
qed simp

text \<open>The swap pairs of a shuffle, all within the vector.\<close>

lemma swap_pairs_in_range:
  "draws_ok n idx \<Longrightarrow> (i, j) \<in> set (zip (rev [1 ..< n]) idx) \<Longrightarrow> i < n \<and> j < n"
  by (auto simp: draws_ok_def set_zip rev_nth)

lemma unshuffle_loop_swaps:
  assumes "draws_ok n idx" "length v = n" "1 \<le> k"
  shows "unshuffle_loop [k ..< n] idx v = apply_swaps (map (\<lambda>i. (idx ! (n - i - 1), i)) [k ..< n]) v"
  using assms(2,3)
proof (induction "n - k" arbitrary: k v)
  case 0
  then show ?case by simp
next
  case (Suc m)
  then have k: "[k ..< n] = k # [Suc k ..< n]" "n - k - 1 < length idx"
    using assms(1) by (simp_all add: upt_conv_Cons draws_ok_def)
  with Suc show ?case by (simp add: get_def)
qed

lemma rev_swap_pairs:
  assumes "length idx = n - 1"
  shows "rev (zip (rev [1 ..< n]) idx) = map (\<lambda>i. (i, idx ! (n - i - 1))) [1 ..< n]"
  using assms by (intro nth_equalityI) (simp_all add: rev_nth)

lemma apply_swaps_flip:
  "\<forall>(i, j) \<in> set ps. i < length v \<and> j < length v \<Longrightarrow>
   apply_swaps (map prod.swap ps) v = apply_swaps ps v"
  by (induction ps arbitrary: v) (auto simp: vec_swap_commute)

lemma unshuffle_loop_inverse:
  assumes "draws_ok (length v) idx"
  shows "unshuffle_loop [1 ..< length v] idx (apply_swaps (zip (rev [1 ..< length v]) idx) v) = v"
proof -
  let ?n = "length v"
  let ?ps = "zip (rev [1 ..< ?n]) idx"
  let ?w = "apply_swaps ?ps v"
  have range: "\<forall>(i, j) \<in> set ?ps. i < ?n \<and> j < ?n"
    using swap_pairs_in_range [OF assms] by blast
  have rev: "rev ?ps = map (\<lambda>i. (i, idx ! (?n - i - 1))) [1 ..< ?n]"
    using assms by (intro rev_swap_pairs) (simp add: draws_ok_def)
  have "unshuffle_loop [1 ..< ?n] idx ?w = apply_swaps (map prod.swap (rev ?ps)) ?w"
    using unshuffle_loop_swaps [OF assms, of ?w 1] unfolding rev by (simp add: comp_def)
  also have "\<dots> = apply_swaps (rev ?ps) ?w"
    using range by (intro apply_swaps_flip) auto
  also have "\<dots> = v" using range by (rule apply_swaps_rev)
  finally show ?thesis .
qed

section \<open>Every operation keeps the invariant\<close>

text \<open>What a vector holds once its shuffle is undone.\<close>

definition unshuffled_vec :: "'a ShuffleVec \<Rightarrow> 'a list" where
  "unshuffled_vec s = vec (unshuffle s)"

lemma length_unshuffle_loop [simp]: "length (unshuffle_loop is idx v) = length v"
  by (induction "is" idx v rule: unshuffle_loop.induct) (auto split: option.splits)

lemma shuffle_ok_from_vec [simp]: "shuffle_ok (from_vec v)" "unshuffled_vec (from_vec v) = v"
  by (simp_all add: shuffle_ok_def from_vec_def unshuffled_vec_def unshuffle_def)

lemma shuffle_ok_unshuffle: "shuffle_ok s \<Longrightarrow> shuffle_ok (unshuffle s)"
  by (auto simp: shuffle_ok_def unshuffle_def Let_def split: option.splits)

lemma length_vec_unshuffle [simp]: "length (vec (unshuffle s)) = length (vec s)"
  by (simp add: unshuffle_def Let_def split: option.splits)

lemma unshuffle_indices [simp]: "indices (unshuffle s) = None"
  by (simp add: unshuffle_def Let_def split: option.splits)

lemma unshuffle_unshuffled: "indices s = None \<Longrightarrow> unshuffle s = s"
  by (simp add: unshuffle_def)

lemma unshuffle_before_shuffle: "(if indices s \<noteq> None then unshuffle s else s) = unshuffle s"
  by (simp add: unshuffle_unshuffled)

lemma short_not_shuffled: "shuffle_ok s \<Longrightarrow> length (vec s) \<le> 1 \<Longrightarrow> indices s = None"
  by (cases "indices s") (auto simp: shuffle_ok_def)

lemma shuffle_fields:
  fixes R :: "'g Rng" and g :: 'g and s :: "'a ShuffleVec"
  assumes "1 < length (vec s)"
  defines "idx \<equiv> draw_indices R g (rev [1 ..< length (vec s)])"
  defines "v \<equiv> apply_swaps (zip (rev [1 ..< length (vec s)]) idx) (unshuffled_vec s)"
  shows "indices (shuffle_with_rng R g f s) = Some idx"
    and "original_first_position (shuffle_with_rng R g f s) = position f v"
    and "vec (shuffle_with_rng R g f s) =
           (case position f v of Some p \<Rightarrow> vec_swap v 0 p | None \<Rightarrow> v)"
  unfolding v_def idx_def shuffle_with_rng_def unshuffle_before_shuffle Let_def unshuffled_vec_def
    length_vec_unshuffle
  using assms(1) by simp_all

lemma length_vec_shuffle [simp]: "length (vec (shuffle_with_rng R g f s)) = length (vec s)"
  by (cases "length (vec s) \<le> 1")
     (simp_all add: shuffle_with_rng_def Let_def split: option.splits)

lemma shuffle_ok_shuffle:
  assumes "rng_in_range R" "shuffle_ok s"
  shows "shuffle_ok (shuffle_with_rng R g f s)"
proof (cases "1 < length (vec s)")
  case True
  then have "draws_ok (length (vec s)) (draw_indices R g (rev [1 ..< length (vec s)]))"
    by (intro draws_ok_draw_indices assms) simp
  moreover have "p < length (vec s)"
    if "position f (apply_swaps ps (unshuffled_vec s)) = Some p" for p ps
    using position_less [OF that] by (simp add: unshuffled_vec_def)
  ultimately show ?thesis using True
    by (simp add: shuffle_ok_def shuffle_fields(1,2) split: option.split)
qed (use assms in \<open>simp add: shuffle_with_rng_def\<close>)

lemma unshuffled_vec_shuffle:
  assumes R: "rng_in_range R" and ok: "shuffle_ok s"
  shows "unshuffled_vec (shuffle_with_rng R g f s) = unshuffled_vec s"
proof (cases "1 < length (vec s)")
  case True
  let ?u = "unshuffled_vec s"
  let ?n = "length ?u"
  let ?idx = "draw_indices R g (rev [1 ..< ?n])"
  let ?v = "apply_swaps (zip (rev [1 ..< ?n]) ?idx) ?u"
  have n: "length (vec s) = ?n" by (simp add: unshuffled_vec_def)
  have undo: "unshuffle_loop [1 ..< ?n] ?idx ?v = ?u"
    using True R n by (intro unshuffle_loop_inverse draws_ok_draw_indices) simp_all
  have "vec_swap (vec_swap ?v 0 p) 0 p = ?v" if "position f ?v = Some p" for p
    using that True n position_less [OF that] by (intro vec_swap_swap) auto
  with True undo show ?thesis
    by (cases "position f ?v") (simp_all add: unshuffled_vec_def [of "shuffle_with_rng R g f s"]
        unshuffle_def shuffle_fields n Let_def del: One_nat_def)
next
  case False
  then show ?thesis by (simp add: shuffle_with_rng_def)
qed

lemma mset_unshuffle:
  assumes "shuffle_ok s"
  shows "mset (vec (unshuffle s)) = mset (vec s)"
proof (cases "indices s")
  case (Some idx)
  define v where "v = (case original_first_position s of
      Some p \<Rightarrow> vec_swap (vec s) 0 p | None \<Rightarrow> vec s)"
  let ?ps = "map (\<lambda>i. (idx ! (length v - i - 1), i)) [1 ..< length v]"
  have len: "length v = length (vec s)" by (simp add: v_def split: option.splits)
  have d: "draws_ok (length v) idx" using assms Some len by (simp add: shuffle_ok_def)
  have "vec (unshuffle s) = apply_swaps ?ps v"
    using unshuffle_loop_swaps [OF d refl order_refl] Some
    by (simp add: unshuffle_def v_def Let_def)
  moreover have "mset (apply_swaps ?ps v) = mset v"
    using d by (intro mset_apply_swaps) (auto simp: draws_ok_def)
  moreover have "mset v = mset (vec s)"
    using assms Some by (auto simp: v_def shuffle_ok_def intro!: mset_vec_swap split: option.splits)
  ultimately show ?thesis by simp
qed (simp add: unshuffle_unshuffled)

lemma mset_shuffle:
  assumes "rng_in_range R" "shuffle_ok s"
  shows "mset (vec (shuffle_with_rng R g f s)) = mset (vec s)"
  using mset_unshuffle [OF shuffle_ok_shuffle [OF assms]] mset_unshuffle [OF assms(2)]
    unshuffled_vec_shuffle [OF assms] by (metis unshuffled_vec_def)

lemma shuffle_first:
  assumes "rng_in_range R" "shuffle_ok s" "1 < length (vec s)" "\<exists>x \<in> set (vec s). f x"
  shows "f (vec (shuffle_with_rng R g f s) ! 0)"
proof -
  let ?n = "length (vec s)"
  let ?idx = "draw_indices R g (rev [1 ..< ?n])"
  let ?v = "apply_swaps (zip (rev [1 ..< ?n]) ?idx) (unshuffled_vec s)"
  have len: "length ?v = ?n" by (simp add: unshuffled_vec_def)
  have "draws_ok ?n ?idx" using assms by (intro draws_ok_draw_indices) simp_all
  then have "mset ?v = mset (unshuffled_vec s)"
    using swap_pairs_in_range by (intro mset_apply_swaps) (auto simp: unshuffled_vec_def)
  also have "\<dots> = mset (vec s)" using mset_unshuffle [OF assms(2)] by (simp add: unshuffled_vec_def)
  finally have "set ?v = set (vec s)" by (rule mset_eq_setD)
  with assms(4) obtain p where p: "position f ?v = Some p"
    by (metis position_None_iff not_None_eq)
  then have "vec (shuffle_with_rng R g f s) = vec_swap ?v 0 p"
    using assms(3) by (simp add: shuffle_fields del: One_nat_def)
  moreover have "vec_swap ?v 0 p ! 0 = ?v ! p"
    using position_less [OF p] len assms(3) by (subst vec_swap_nth) auto
  ultimately show ?thesis using position_holds [OF p] by simp
qed

text \<open>
  A weaker invariant, which also \<open>push\<close> keeps: every recorded position is within the vector. It is
  enough for undoing a shuffle to stay in range and to permute.
\<close>

definition swaps_ok :: "'a ShuffleVec \<Rightarrow> bool" where
  "swaps_ok s \<longleftrightarrow>
     (case indices s of None \<Rightarrow> True | Some idx \<Rightarrow> list_all (\<lambda>i. i < length (vec s)) idx) \<and>
     (case original_first_position s of None \<Rightarrow> True | Some p \<Rightarrow> p < length (vec s))"

lemma swaps_ok_from_vec [simp]: "swaps_ok (from_vec v)"
  by (simp add: swaps_ok_def from_vec_def)

lemma swaps_ok_push: "swaps_ok s \<Longrightarrow> swaps_ok (vec_push x s)"
  by (auto simp: swaps_ok_def vec_push_def list_all_iff less_Suc_eq split: option.splits)

lemma mset_unshuffle_loop:
  assumes "list_all (\<lambda>i. i < length v) idx" "\<forall>i \<in> set is. i < length v"
  shows "mset (unshuffle_loop is idx v) = mset v"
  using assms
proof (induction "is" idx v rule: unshuffle_loop.induct)
  case (2 i "is" idx v)
  show ?case
  proof (cases "get idx (length v - i - 1)")
    case (Some n)
    then have n: "n < length v" "i < length v"
      using "2.prems" nth_mem [of "length v - i - 1" idx] by (auto simp: list_all_iff)
    with 2 Some show ?thesis by (simp add: mset_vec_swap del: get_Some_iff)
  qed (simp add: get_def)
qed simp

lemma swaps_ok_unshuffle:
  assumes "swaps_ok s"
  shows "swaps_ok (unshuffle s)" "mset (vec (unshuffle s)) = mset (vec s)"
proof -
  show "swaps_ok (unshuffle s)"
    using assms by (simp add: swaps_ok_def unshuffle_def Let_def split: option.splits)
  show "mset (vec (unshuffle s)) = mset (vec s)"
  proof (cases "indices s")
    case (Some idx)
    define v where "v = (case original_first_position s of
        Some p \<Rightarrow> vec_swap (vec s) 0 p | None \<Rightarrow> vec s)"
    have v: "length v = length (vec s)" "mset v = mset (vec s)"
      using assms by (auto simp: v_def swaps_ok_def intro!: mset_vec_swap split: option.splits)
    with Some assms show ?thesis
      using mset_unshuffle_loop [of v idx "[1 ..< length v]"]
      by (simp add: unshuffle_def Let_def swaps_ok_def v_def [symmetric])
  qed (simp add: unshuffle_unshuffled)
qed

lemma swaps_ok_shuffle:
  assumes R: "rng_in_range R" and ok: "swaps_ok s"
  shows "swaps_ok (shuffle_with_rng R g f s)" "mset (vec (shuffle_with_rng R g f s)) = mset (vec s)"
proof -
  have "swaps_ok (shuffle_with_rng R g f s) \<and> mset (vec (shuffle_with_rng R g f s)) = mset (vec s)"
  proof (cases "1 < length (vec s)")
    case True
    let ?idx = "draw_indices R g (rev [1 ..< length (vec s)])"
    let ?v = "apply_swaps (zip (rev [1 ..< length (vec s)]) ?idx) (unshuffled_vec s)"
    have len: "length ?v = length (vec s)" by (simp add: unshuffled_vec_def)
    have d: "draws_ok (length (vec s)) ?idx" using True by (intro draws_ok_draw_indices R) simp
    then have "mset ?v = mset (unshuffled_vec s)"
      using swap_pairs_in_range by (intro mset_apply_swaps) (auto simp: unshuffled_vec_def)
    then have v: "mset ?v = mset (vec s)"
      using swaps_ok_unshuffle(2) [OF ok] by (simp add: unshuffled_vec_def)
    have p: "p < length (vec s)" if "position f ?v = Some p" for p
      using position_less [OF that] len by simp
    have "mset (vec_swap ?v 0 p) = mset ?v" if "position f ?v = Some p" for p
      using p [OF that] len by (intro mset_vec_swap) linarith+
    with v have "mset (vec (shuffle_with_rng R g f s)) = mset (vec s)"
      using True by (simp add: shuffle_fields del: One_nat_def split: option.split)
    moreover have "list_all (\<lambda>i. i < length (vec s)) ?idx"
      using d by (auto simp: draws_ok_def list_all_length)
    ultimately show ?thesis
      using True p by (simp add: swaps_ok_def shuffle_fields(1,2) del: One_nat_def split: option.split)
  qed (use ok in \<open>simp add: shuffle_with_rng_def\<close>)
  then show "swaps_ok (shuffle_with_rng R g f s)" "mset (vec (shuffle_with_rng R g f s)) = mset (vec s)"
    by simp_all
qed

section \<open>The contract of a list that can be shuffled and restored\<close>

text \<open>
  What the connect state relies on: reordering with an admissible source of randomness keeps
  the elements, and undoing any number of reorderings gives back the order before the first.
\<close>

locale reorderable =
  fixes ok :: "'s \<Rightarrow> bool"
    and content :: "'s \<Rightarrow> 'a list"
    and admissible :: "'k \<Rightarrow> bool"
    and reorder :: "'k \<Rightarrow> 's \<Rightarrow> 's"
    and restore :: "'s \<Rightarrow> 's"
  assumes reorder_ok: "ok s \<Longrightarrow> admissible k \<Longrightarrow> ok (reorder k s)"
    and restore_ok: "ok s \<Longrightarrow> ok (restore s)"
    and reorder_mset: "ok s \<Longrightarrow> admissible k \<Longrightarrow> mset (content (reorder k s)) = mset (content s)"
    and restore_mset: "ok s \<Longrightarrow> mset (content (restore s)) = mset (content s)"
    and restore_reorder: "ok s \<Longrightarrow> admissible k \<Longrightarrow>
           content (restore (reorder k s)) = content (restore s)"
begin

lemma reorders_ok: "ok s \<Longrightarrow> list_all admissible ks \<Longrightarrow> ok (fold reorder ks s)"
  by (induction ks arbitrary: s) (auto simp: reorder_ok)

lemma reorders_mset:
  "ok s \<Longrightarrow> list_all admissible ks \<Longrightarrow> mset (content (fold reorder ks s)) = mset (content s)"
  by (induction ks arbitrary: s) (auto simp: reorder_ok reorder_mset)

lemma restore_reorders:
  "ok s \<Longrightarrow> list_all admissible ks \<Longrightarrow>
   content (restore (fold reorder ks s)) = content (restore s)"
  by (induction ks arbitrary: s) (auto simp: reorder_ok restore_reorder)

lemma reorder_length: "ok s \<Longrightarrow> admissible k \<Longrightarrow> length (content (reorder k s)) = length (content s)"
  using reorder_mset mset_eq_length by blast

lemma reorder_set: "ok s \<Longrightarrow> admissible k \<Longrightarrow> set (content (reorder k s)) = set (content s)"
  using reorder_mset mset_eq_setD by blast

end

definition shuffle_by ::
    "'g Rng \<times> 'g \<times> ('a \<Rightarrow> bool) \<Rightarrow> 'a ShuffleVec \<Rightarrow> 'a ShuffleVec" where
  "shuffle_by k s = (case k of (R, g, is_first) \<Rightarrow> shuffle_with_rng R g is_first s)"

interpretation sv: reorderable shuffle_ok vec "\<lambda>k. rng_in_range (fst k)" shuffle_by unshuffle
  by unfold_locales
     (auto simp: shuffle_by_def shuffle_ok_shuffle shuffle_ok_unshuffle mset_shuffle mset_unshuffle
       unshuffled_vec_shuffle [unfolded unshuffled_vec_def])

section \<open>Properties\<close>

text \<open>A concrete generator for the witnesses: a linear congruence reduced to the range.\<close>

definition lcg :: "nat Rng" where
  "lcg = \<lparr>random_range = (\<lambda>g n. (g mod n, (5 * g + 3) mod 64)), seed_from_u64 = unat\<rparr>"

lemma lcg_in_range: "rng_in_range lcg"
  by (simp add: rng_in_range_def lcg_def)

text \<open>
  C10. Undoing a shuffle gives back the order the tracks had before, however often the vector
  was shuffled in between and whichever track was asked to come first.
\<close>

theorem unshuffle_restores:
  assumes "\<forall>k \<in> set ks. rng_in_range (fst k)"
  shows "vec (unshuffle (fold shuffle_by ks (from_vec v))) = v"
  using sv.restore_reorders [of "from_vec v" ks] assms
  by (simp add: list_all_iff shuffle_ok_from_vec(2) [unfolded unshuffled_vec_def])

theorem unshuffle_restores_witness:
  "vec (unshuffle (fold shuffle_by
     [(lcg, 9, \<lambda>c. c = CHR ''c''), (lcg, 30, \<lambda>c. c = CHR ''e'')] (from_vec ''abcdef''))) = ''abcdef''"
  by (rule unshuffle_restores) (simp add: lcg_in_range)

text \<open>
  A shuffle loses and duplicates no track, starts with a track the caller asked to come
  first when there is one, and performs only swaps within the vector.
\<close>

theorem shuffle_permutes:
  assumes "rng_in_range R"
  shows "let s = shuffle_with_seed R seed is_first (from_vec v) in
         mset (vec s) = mset v \<and> shuffle_ok s \<and>
         (1 < length v \<longrightarrow> (\<exists>x \<in> set v. is_first x) \<longrightarrow> is_first (vec s ! 0))"
proof -
  note R = assms(1) shuffle_ok_from_vec(1) [of v]
  have "vec (from_vec v) = v" by (simp add: from_vec_def)
  then show ?thesis
    using mset_shuffle [OF R] shuffle_ok_shuffle [OF R]
      shuffle_first [OF R, of is_first "seed_from_u64 R seed"]
    by (simp add: Let_def shuffle_with_seed_def)
qed

theorem shuffle_permutes_witness:
  "vec (shuffle_with_seed lcg 9 (\<lambda>c. c = CHR ''c'') (from_vec ''abcdef'')) ! 0 = CHR ''c'' \<and>
   vec (shuffle_with_seed lcg 9 (\<lambda>c. c = CHR ''c'') (from_vec ''abcdef'')) \<noteq> ''cbadef''"
proof
  show "vec (shuffle_with_seed lcg 9 (\<lambda>c. c = CHR ''c'') (from_vec ''abcdef'')) ! 0 = CHR ''c''"
    using shuffle_permutes [OF lcg_in_range, of 9 "\<lambda>c. c = CHR ''c''" "''abcdef''"]
    by (simp add: Let_def)
qed code_simp

text \<open>
  The vector hands out its \<open>push\<close> through \<open>DerefMut\<close>, and one that grew while it was shuffled
  is not unshuffled: the first recorded index is already missing, so \<open>unshuffle\<close> returns after
  undoing the swap of the first track and forgets the indices.
\<close>

theorem unshuffle_after_push:
  assumes "rng_in_range R" "1 < length v"
  shows "let s = shuffle_with_seed R seed is_first (from_vec v) in
         vec (unshuffle (vec_push x s)) =
           (case original_first_position s of
              Some p \<Rightarrow> vec_swap (vec s @ [x]) 0 p
            | None \<Rightarrow> vec s @ [x]) \<and>
         indices (unshuffle (vec_push x s)) = None"
proof -
  define s where "s = shuffle_with_seed R seed is_first (from_vec v)"
  have len: "1 < length (vec (from_vec v))" using assms(2) by (simp add: from_vec_def)
  have n: "length (vec s) = length v"
    by (simp add: s_def shuffle_with_seed_def from_vec_def)
  obtain idx where idx: "indices s = Some idx" "length idx = length v - 1"
    using shuffle_fields(1) [OF len, of R "seed_from_u64 R seed" is_first]
    by (simp add: s_def shuffle_with_seed_def from_vec_def)
  have keep: "unshuffle_loop [1 ..< Suc (length v)] idx w = w" if "length w = Suc (length v)" for w
    using that idx(2) assms(2) by (subst upt_conv_Cons) (auto simp: get_def)
  show ?thesis
    using n idx unfolding s_def [symmetric]
    by (simp add: unshuffle_def vec_push_def Let_def keep [unfolded One_nat_def] del: upt_Suc
        split: option.splits)
qed

theorem unshuffle_after_push_witness:
  "vec (unshuffle (vec_push CHR ''g'' (shuffle_with_seed lcg 9 (\<lambda>c. c = CHR ''z'') (from_vec ''abcdef''))))
     \<noteq> ''abcdefg''"
proof -
  let ?s = "shuffle_with_seed lcg 9 (\<lambda>c. c = CHR ''z'') (from_vec ''abcdef'')"
  have "original_first_position ?s = None" "vec ?s @ ''g'' \<noteq> ''abcdefg''" by code_simp+
  then show ?thesis
    using unshuffle_after_push [OF lcg_in_range, of "''abcdef''" 9 "\<lambda>c. c = CHR ''z''" "CHR ''g''"]
    by (simp add: Let_def)
qed

end
