(* ===== verification/Spotify_Id.thy ===== *)
theory Spotify_Id
  imports Numerals
begin

text \<open>
  Spotify identifiers, \<open>core/src/spotify_id.rs\<close>, and file identifiers, \<open>core/src/file_id.rs\<close>.
  A \<open>SpotifyId\<close> is a 128-bit integer with three textual or binary forms: 22 base-62
  characters, 32 hexadecimal characters and 16 big-endian bytes. The conversion to base 62
  works on four 32-bit limbs with 64-bit arithmetic and is proved equal to positional
  notation; an index past the end of its 22-byte buffer, which would panic, is \<open>None\<close>.
\<close>

section \<open>Data\<close>

record SpotifyId =
  id_u128 :: u128

datatype SpotifyIdError = InvalidId | InvalidFormat

definition BASE62_DIGITS :: string where
  "BASE62_DIGITS = ''0123456789abcdefghijklmnopqrstuvwxyzABCDEFGHIJKLMNOPQRSTUVWXYZ''"

definition SIZE :: nat where
  "SIZE = 16"

definition SIZE_BASE62 :: nat where
  "SIZE_BASE62 = 22"

section \<open>Parsing\<close>

definition from_base16 :: "string \<Rightarrow> (SpotifyIdError, SpotifyId) result" where
  "from_base16 src =
     (if length src \<noteq> 32 then Err InvalidId
      else (case from_str_radix 16 src of
              None \<Rightarrow> Err InvalidId
            | Some n \<Rightarrow> Ok \<lparr>id_u128 = n\<rparr>))"

text \<open>The \<open>match c\<close> of the base-62 loop.\<close>

definition base62_digit :: "char \<Rightarrow> nat option" where
  "base62_digit c =
     (let n = (of_char c :: nat) in
      if 48 \<le> n \<and> n \<le> 57 then Some (n - 48)
      else if 97 \<le> n \<and> n \<le> 122 then Some (n - 97 + 10)
      else if 65 \<le> n \<and> n \<le> 90 then Some (n - 65 + 36)
      else None)"

fun from_base62_loop :: "string \<Rightarrow> u128 \<Rightarrow> (SpotifyIdError, u128) result" where
  "from_base62_loop [] dst = Ok dst"
| "from_base62_loop (c # cs) dst =
     (case base62_digit c of None \<Rightarrow> Err InvalidId
      | Some p \<Rightarrow>
          (case checked_mul dst 62 of None \<Rightarrow> Err InvalidId
           | Some dst1 \<Rightarrow>
               (case checked_add dst1 (word_of_nat p) of None \<Rightarrow> Err InvalidId
                | Some dst2 \<Rightarrow> from_base62_loop cs dst2)))"

definition from_base62 :: "string \<Rightarrow> (SpotifyIdError, SpotifyId) result" where
  "from_base62 src =
     (if length src \<noteq> SIZE_BASE62 then Err InvalidId
      else (case from_base62_loop src 0 of Inl e \<Rightarrow> Err e | Inr dst \<Rightarrow> Ok \<lparr>id_u128 = dst\<rparr>))"

text \<open>\<open>u128::from_be_bytes\<close> on a slice that converts to an array of exactly 16 bytes.\<close>

definition from_raw :: "u8 list \<Rightarrow> (SpotifyIdError, SpotifyId) result" where
  "from_raw src =
     (if length src = SIZE then Ok \<lparr>id_u128 = word_of_nat (horner 256 (map unat src))\<rparr>
      else Err InvalidId)"

section \<open>Printing\<close>

definition to_base16 :: "SpotifyId \<Rightarrow> string" where
  "to_base16 i = show_hex_padded 32 (unat (id_u128 i))"

text \<open>The \<open>for b in &mut dst[..i]\<close> loop: multiply the digits so far by \<open>2^32\<close> and add the limb.\<close>

fun carry_loop :: "u8 list \<Rightarrow> u64 \<Rightarrow> u8 list \<times> u64" where
  "carry_loop [] carry = ([], carry)"
| "carry_loop (b # bs) carry =
     (let c = carry + push_bit 32 (ucast b);
          (bs', c') = carry_loop bs (c div 62)
      in (ucast (c mod 62) # bs', c'))"

text \<open>The \<open>while carry > 0\<close> loop: append the digits of what is left over.\<close>

function emit_loop :: "u8 list \<Rightarrow> nat \<Rightarrow> u64 \<Rightarrow> (u8 list \<times> nat) option" where
  "emit_loop dst i carry =
     (if 0 < carry then
        if i < length dst then emit_loop (dst[i := ucast (carry mod 62)]) (i + 1) (carry div 62)
        else None
      else Some (dst, i))"
  by pat_completeness auto
termination
  by (relation "measure (\<lambda>(dst, i, carry). unat carry)") (auto simp: word_less_nat_alt unat_div)

declare emit_loop.simps [simp del]

definition base62_limb :: "u128 \<Rightarrow> nat \<Rightarrow> u8 list \<times> nat \<Rightarrow> (u8 list \<times> nat) option" where
  "base62_limb n shift st =
     (let (dst, i) = st;
          carry = ucast (ucast (drop_bit shift n) :: u32) :: u64;
          (pre, c) = carry_loop (take i dst) carry
      in emit_loop (pre @ drop i dst) i c)"

definition to_base62 :: "SpotifyId \<Rightarrow> string option" where
  "to_base62 i =
     (let n = id_u128 i;
          st = fold (\<lambda>shift st. Option.bind st (base62_limb n shift)) [96, 64, 32, 0]
                 (Some (replicate 22 0, 0))
      in case st of None \<Rightarrow> None
         | Some (dst, _) \<Rightarrow> those (map (\<lambda>b. get BASE62_DIGITS (unat b)) (rev dst)))"

text \<open>\<open>to_be_bytes\<close>: byte \<open>k\<close> from the left is bits \<open>8 * (15 - k)\<close> upwards.\<close>

definition to_raw :: "SpotifyId \<Rightarrow> u8 list" where
  "to_raw i = map (\<lambda>k. ucast (drop_bit (8 * (15 - k)) (id_u128 i))) [0 ..< SIZE]"

section \<open>File identifiers\<close>

definition RAW_LEN :: nat where
  "RAW_LEN = 20"

record FileId =
  file_bytes :: "u8 list"

definition file_id_from_raw :: "u8 list \<Rightarrow> FileId" where
  "file_id_from_raw src =
     (let dst = replicate RAW_LEN 0; len = length src
      in if len \<le> RAW_LEN then \<lparr>file_bytes = src @ drop len dst\<rparr> else \<lparr>file_bytes = dst\<rparr>)"

definition file_id_to_base16 :: "FileId \<Rightarrow> string" where
  "file_id_to_base16 f = concat (map (\<lambda>b. show_hex_padded 2 (unat b)) (file_bytes f))"

section \<open>Base 62, reading\<close>

lemma unat_u128: "unat w < 2 ^ 128" for w :: u128
  using unsigned_less [of w, where 'a = nat] by simp

lemma base62_digit_less: "base62_digit c = Some d \<Longrightarrow> d < 62"
  by (auto simp: base62_digit_def Let_def split: if_splits)

lemma from_base62_loop_accumulate:
  "from_base62_loop cs dst = ok_or (accumulate base62_digit 62 cs dst) InvalidId"
  by (induction cs arbitrary: dst) (simp_all split: option.split)

lemma length_BASE62_DIGITS [simp]: "length BASE62_DIGITS = 62"
  by (simp add: BASE62_DIGITS_def)

lemma base62_digits_table: "map base62_digit BASE62_DIGITS = map Some [0 ..< 62]"
  by (simp add: base62_digit_def BASE62_DIGITS_def Let_def upt_conv_Cons)

lemma base62_digit_table [simp]: "d < 62 \<Longrightarrow> base62_digit (BASE62_DIGITS ! d) = Some d"
  using arg_cong [OF base62_digits_table, of "\<lambda>xs. xs ! d"] by simp

lemma base62_digit_cancel:
  assumes "base62_digit c = Some d" "base62_digit c' = Some d"
  shows "c = c'"
proof -
  have "(of_char c :: nat) = of_char c'"
    using assms by (auto simp: base62_digit_def Let_def simp del: of_char_eq_iff split: if_splits)
  then show ?thesis by simp
qed

lemma base62_digit_inj: "base62_digit c = Some d \<Longrightarrow> c = BASE62_DIGITS ! d"
  using base62_digit_cancel base62_digit_table base62_digit_less by blast

lemma from_base62_eq_Ok:
  "from_base62 s = Ok i \<longleftrightarrow>
     (\<exists>ds. s = map (\<lambda>d. BASE62_DIGITS ! d) ds \<and> length ds = 22 \<and> (\<forall>d \<in> set ds. d < 62) \<and>
           horner 62 ds < 2 ^ 128 \<and> unat (id_u128 i) = horner 62 ds)"
proof -
  have rel: "list_all2 (\<lambda>c d. base62_digit c = Some d) s ds \<longleftrightarrow>
      s = map (\<lambda>d. BASE62_DIGITS ! d) ds \<and> (\<forall>d \<in> set ds. d < 62)" for ds
    by (induction ds arbitrary: s)
      (auto simp: list_all2_Cons2 base62_digit_inj base62_digit_less)
  have acc: "accumulate base62_digit 62 s 0 = Some v \<longleftrightarrow>
      (\<exists>ds. list_all2 (\<lambda>c d. base62_digit c = Some d) s ds \<and>
        horner 62 ds < 2 ^ 128 \<and> unat v = horner 62 ds)" for v :: u128
    using accumulate_Some_iff [of 62 base62_digit s "0 :: u128" v] base62_digit_less
    by (simp add: horner_def)
  have "from_base62 s = Ok i \<longleftrightarrow> length s = 22 \<and> accumulate base62_digit 62 s 0 = Some (id_u128 i)"
    by (cases i; cases "accumulate base62_digit 62 s 0 :: u128 option")
      (auto simp: from_base62_def SIZE_BASE62_def from_base62_loop_accumulate)
  also have "\<dots> \<longleftrightarrow> (\<exists>ds. s = map (\<lambda>d. BASE62_DIGITS ! d) ds \<and> length ds = 22 \<and>
      (\<forall>d \<in> set ds. d < 62) \<and> horner 62 ds < 2 ^ 128 \<and> unat (id_u128 i) = horner 62 ds)"
    unfolding acc rel by auto
  finally show ?thesis .
qed

section \<open>Base 62, printing\<close>

abbreviation le62 :: "u8 list \<Rightarrow> nat" where
  "le62 bs \<equiv> le_value 62 (map unat bs)"

text \<open>
  One step of the carry loop in natural numbers: with digits below 62 and a carry below
  \<open>2^32\<close> nothing wraps around.
\<close>

lemma carry_step:
  fixes carry :: u64 and b :: u8
  assumes "unat carry < 2 ^ 32" "unat b < 62"
  defines "c \<equiv> carry + push_bit 32 (ucast b)"
  shows "unat c = unat carry + unat b * 2 ^ 32"
    "unat (c div 62) < 2 ^ 32"
    "unat (ucast (c mod 62) :: u8) = unat c mod 62"
proof -
  have up: "unat (ucast b :: u64) = unat b" by (simp add: unat_ucast_up)
  have "unat b * 2 ^ 32 \<le> 61 * 2 ^ 32" using assms(2) by simp
  then have small: "unat carry + unat b * 2 ^ 32 < 62 * 2 ^ 32" using assms(1) by linarith
  have "unat (push_bit 32 (ucast b :: u64)) = unat b * 2 ^ 32"
    using up \<open>unat b * _ \<le> _\<close>
    by (simp add: push_bit_eq_mult unat_word_ariths)
  with small show c: "unat c = unat carry + unat b * 2 ^ 32"
    by (simp add: c_def unat_word_ariths)
  with small show "unat (c div 62) < 2 ^ 32" by (simp add: unat_div)
  show "unat (ucast (c mod 62) :: u8) = unat c mod 62"
    by (simp add: unat_ucast_mod unat_mod)
qed

lemma carry_loop_correct:
  "carry_loop bs carry = (bs', c') \<Longrightarrow> unat carry < 2 ^ 32 \<Longrightarrow> \<forall>b \<in> set bs. unat b < 62 \<Longrightarrow>
   length bs' = length bs \<and> (\<forall>b \<in> set bs'. unat b < 62) \<and> unat c' < 2 ^ 32 \<and>
   le62 bs' + 62 ^ length bs * unat c' = le62 bs * 2 ^ 32 + unat carry"
proof (induction bs arbitrary: carry bs' c')
  case Nil
  then show ?case by simp
next
  case (Cons b bs)
  define c where "c = carry + push_bit 32 (ucast b)"
  obtain ds d where rec: "carry_loop bs (c div 62) = (ds, d)" by fastforce
  with Cons.prems(1) have res: "bs' = ucast (c mod 62) # ds" "c' = d"
    by (simp_all add: c_def [symmetric] Let_def)
  have b: "unat b < 62" and bs: "\<forall>b \<in> set bs. unat b < 62" using Cons.prems(3) by simp_all
  note step = carry_step [OF Cons.prems(2) b, folded c_def]
  note IH = Cons.IH [OF rec step(2) bs]
  have "unat c mod 62 + 62 * unat (c div 62) = unat c" by (simp add: unat_div)
  with IH step(1) have "unat c mod 62 + 62 * (le62 ds + 62 ^ length bs * unat d)
      = (unat b + 62 * le62 bs) * 2 ^ 32 + unat carry"
    by (simp add: algebra_simps)
  with IH res step(3) show ?case by (simp add: algebra_simps)
qed

lemma emit_loop_correct:
  "length dst = 22 \<Longrightarrow> i \<le> 22 \<Longrightarrow> \<forall>b \<in> set (take i dst). unat b < 62 \<Longrightarrow>
   le62 (take i dst) + 62 ^ i * unat carry < 62 ^ 22 \<Longrightarrow>
   \<exists>dst' i'. emit_loop dst i carry = Some (dst', i') \<and> length dst' = 22 \<and> i \<le> i' \<and> i' \<le> 22 \<and>
     drop i' dst' = drop i' dst \<and> (\<forall>b \<in> set (take i' dst'). unat b < 62) \<and>
     le62 (take i' dst') = le62 (take i dst) + 62 ^ i * unat carry"
proof (induction dst i carry rule: emit_loop.induct)
  case (1 dst i carry)
  show ?case
  proof (cases "0 < carry")
    case False
    then have "carry = 0" by (simp add: word_gt_0)
    with 1 show ?thesis by (simp add: emit_loop.simps [of dst i 0])
  next
    case True
    then have "0 < unat carry" by (simp add: word_less_nat_alt)
    then have "(62::nat) ^ i * 1 \<le> 62 ^ i * unat carry" by (intro mult_le_mono2) simp
    then have "(62::nat) ^ i < 62 ^ 22" using "1.prems"(4) by linarith
    then have i: "i < 22" by (rule power_less_imp_less_exp [rotated]) simp
    let ?b = "ucast (carry mod 62) :: u8"
    let ?dst = "dst[i := ?b]"
    have b: "unat ?b = unat carry mod 62"
      by (simp add: unat_ucast_mod unat_mod)
    have take: "take (i + 1) ?dst = take i dst @ [?b]"
      using i "1.prems"(1) by (simp add: take_Suc_conv_app_nth)
    have "62 ^ i * (unat carry mod 62) + 62 ^ (i + 1) * (unat carry div 62)
        = 62 ^ i * (unat carry mod 62 + 62 * (unat carry div 62))"
      by (simp only: distrib_left power_add power_one_right mult.assoc)
    then have split: "62 ^ i * (unat carry mod 62) + 62 ^ (i + 1) * (unat carry div 62)
        = 62 ^ i * unat carry"
      by simp
    have val: "le62 (take (i + 1) ?dst) + 62 ^ (i + 1) * unat (carry div 62)
        = le62 (take i dst) + 62 ^ i * unat carry"
      using i "1.prems"(1) unfolding take
      by (simp add: le_value_append b unat_div) (use split in simp)
    have "\<forall>b \<in> set (take (i + 1) ?dst). unat b < 62"
      using "1.prems"(3) unfolding take by (auto simp: b)
    with "1.IH" [OF True] i "1.prems"(1,4) val obtain dst' i' where
      "emit_loop ?dst (i + 1) (carry div 62) = Some (dst', i')" "length dst' = 22" "i + 1 \<le> i'" "i' \<le> 22"
      "drop i' dst' = drop i' ?dst" "\<forall>b \<in> set (take i' dst'). unat b < 62"
      "le62 (take i' dst') = le62 (take i dst) + 62 ^ i * unat carry"
      by auto
    with True i "1.prems"(1) show ?thesis
      by (simp add: emit_loop.simps [of dst i carry])
  qed
qed

text \<open>The buffer holds the digits of a value, least significant first, and zeros after them.\<close>

definition base62_state :: "nat \<Rightarrow> u8 list \<times> nat \<Rightarrow> bool" where
  "base62_state v st \<longleftrightarrow>
     (let (dst, i) = st in
      length dst = 22 \<and> i \<le> 22 \<and> (\<forall>b \<in> set (take i dst). unat b < 62) \<and>
      drop i dst = replicate (22 - i) 0 \<and> le62 (take i dst) = v)"

lemma unat_limb:
  "unat (ucast (ucast (drop_bit shift n) :: u32) :: u64) = unat n div 2 ^ shift mod 2 ^ 32"
  for n :: u128
  by (simp add: unat_ucast_mod unat_drop_bit_eq) (simp add: drop_bit_eq_div)

lemma base62_limb_correct:
  assumes "base62_state v st" "v * 2 ^ 32 + unat n div 2 ^ shift mod 2 ^ 32 < 62 ^ 22"
  shows "\<exists>st'. base62_limb n shift st = Some st' \<and>
    base62_state (v * 2 ^ 32 + unat n div 2 ^ shift mod 2 ^ 32) st'"
proof -
  obtain dst i where st: "st = (dst, i)" by fastforce
  let ?w = "ucast (ucast (drop_bit shift n) :: u32) :: u64"
  obtain pre c where loop: "carry_loop (take i dst) ?w = (pre, c)" by fastforce
  have inv: "length dst = 22" "i \<le> 22" "\<forall>b \<in> set (take i dst). unat b < 62"
    "drop i dst = replicate (22 - i) 0" "le62 (take i dst) = v"
    using assms(1) by (simp_all add: base62_state_def st)
  have carry: "length pre = i" "\<forall>b \<in> set pre. unat b < 62"
    "le62 pre + 62 ^ i * unat c = v * 2 ^ 32 + unat n div 2 ^ shift mod 2 ^ 32"
    using carry_loop_correct [OF loop] inv by (simp_all add: unat_limb)
  have "\<exists>dst' i'. emit_loop (pre @ drop i dst) i c = Some (dst', i') \<and> length dst' = 22 \<and>
      i \<le> i' \<and> i' \<le> 22 \<and> drop i' dst' = drop i' (pre @ drop i dst) \<and>
      (\<forall>b \<in> set (take i' dst'). unat b < 62) \<and>
      le62 (take i' dst') = le62 (take i (pre @ drop i dst)) + 62 ^ i * unat c"
    using carry inv assms(2) by (intro emit_loop_correct) simp_all
  then obtain dst' i' where emit: "emit_loop (pre @ drop i dst) i c = Some (dst', i')"
    "length dst' = 22" "i \<le> i'" "i' \<le> 22" "drop i' dst' = drop i' (pre @ drop i dst)"
    "\<forall>b \<in> set (take i' dst'). unat b < 62"
    "le62 (take i' dst') = le62 (take i (pre @ drop i dst)) + 62 ^ i * unat c"
    by blast
  have "drop i' dst' = replicate (22 - i') 0"
    using emit(3,5) carry(1) inv(4) by simp
  with emit carry loop show ?thesis
    by (simp add: base62_limb_def st base62_state_def)
qed

lemma limb_join: "n div 2 ^ (s + 32) * 2 ^ 32 + n div 2 ^ s mod 2 ^ 32 = n div 2 ^ s" for n :: nat
  by (simp add: power_add div_mult2_eq)

lemma two_128_le: "(2::nat) ^ 128 \<le> 62 ^ 22"
  by simp

lemma base62_states:
  fixes n :: u128
  shows "\<exists>st. fold (\<lambda>shift st. Option.bind st (base62_limb n shift)) [96, 64, 32, 0]
      (Some (replicate 22 0, 0)) = Some st \<and> base62_state (unat n) st"
proof -
  have n: "unat n < 2 ^ 128" by (rule unat_u128)
  have step: "\<exists>st'. base62_limb n s st = Some st' \<and> base62_state (unat n div 2 ^ s) st'"
    if "base62_state (unat n div 2 ^ (s + 32)) st" for s st
  proof -
    have "unat n div 2 ^ s < 62 ^ 22"
      using n two_128_le by (meson div_le_dividend le_less_trans less_le_trans)
    with base62_limb_correct [OF that, of n s] show ?thesis by (simp only: limb_join)
  qed
  have "unat n div 2 ^ (96 + 32) = 0" using n by simp
  then have "base62_state (unat n div 2 ^ (96 + 32)) (replicate 22 0, 0)"
    by (simp add: base62_state_def)
  from step [OF this] obtain s1 where s1: "base62_limb n 96 (replicate 22 0, 0) = Some s1"
    "base62_state (unat n div 2 ^ (64 + 32)) s1" by auto
  from step [OF s1(2)] obtain s2 where s2: "base62_limb n 64 s1 = Some s2"
    "base62_state (unat n div 2 ^ (32 + 32)) s2" by auto
  from step [OF s2(2)] obtain s3 where s3: "base62_limb n 32 s2 = Some s3"
    "base62_state (unat n div 2 ^ (0 + 32)) s3" by auto
  from step [OF s3(2)] obtain s4 where s4: "base62_limb n 0 s3 = Some s4"
    "base62_state (unat n div 2 ^ 0) s4" by auto
  from s1(1) s2(1) s3(1) s4 show ?thesis by simp
qed

lemma to_base62_digits:
  "\<exists>ds. to_base62 i = Some (map (\<lambda>d. BASE62_DIGITS ! d) ds) \<and> length ds = 22 \<and>
     (\<forall>d \<in> set ds. d < 62) \<and> horner 62 ds = unat (id_u128 i)"
proof -
  obtain dst k where st: "fold (\<lambda>shift st. Option.bind st (base62_limb (id_u128 i) shift))
      [96, 64, 32, 0] (Some (replicate 22 0, 0)) = Some (dst, k)"
    "base62_state (unat (id_u128 i)) (dst, k)"
    using base62_states [of "id_u128 i"] by fastforce
  then have inv: "length dst = 22" "\<forall>b \<in> set (take k dst). unat b < 62"
    "drop k dst = replicate (22 - k) 0" "le62 (take k dst) = unat (id_u128 i)"
    by (simp_all add: base62_state_def)
  have dst: "dst = take k dst @ replicate (22 - k) 0"
    using inv(3) by (metis append_take_drop_id)
  have small: "\<forall>b \<in> set dst. unat b < 62"
    using inv(2) by (subst dst) auto
  have "le62 dst = unat (id_u128 i)"
    using inv(4) by (subst dst) (simp add: le_value_append)
  then have val: "horner 62 (map unat (rev dst)) = unat (id_u128 i)"
    by (simp add: horner_rev flip: rev_map)
  have "those (map (\<lambda>b. get BASE62_DIGITS (unat b)) (rev dst))
      = Some (map (\<lambda>b. BASE62_DIGITS ! unat b) (rev dst))"
    using small by (intro those_map_Some) simp
  with st(1) have "to_base62 i = Some (map (\<lambda>d. BASE62_DIGITS ! d) (map unat (rev dst)))"
    by (simp add: to_base62_def Let_def comp_def)
  with val inv(1) small show ?thesis by (intro exI [of _ "map unat (rev dst)"]) auto
qed

lemma from_to_base62: "to_base62 i = Some s \<Longrightarrow> from_base62 s = Ok i"
proof -
  assume s: "to_base62 i = Some s"
  obtain ds where "to_base62 i = Some (map (\<lambda>d. BASE62_DIGITS ! d) ds)" "length ds = 22"
    "\<forall>d \<in> set ds. d < 62" "horner 62 ds = unat (id_u128 i)"
    using to_base62_digits by blast
  with s show ?thesis
    using unat_u128 [of "id_u128 i"] by (auto simp: from_base62_eq_Ok)
qed

lemma to_from_base62:
  assumes "from_base62 s = Ok i"
  shows "to_base62 i = Some s"
proof -
  obtain ds where ds: "s = map (\<lambda>d. BASE62_DIGITS ! d) ds" "length ds = 22"
    "\<forall>d \<in> set ds. d < 62" "unat (id_u128 i) = horner 62 ds"
    using assms by (auto simp: from_base62_eq_Ok)
  obtain es where es: "to_base62 i = Some (map (\<lambda>d. BASE62_DIGITS ! d) es)" "length es = 22"
    "\<forall>d \<in> set es. d < 62" "horner 62 es = unat (id_u128 i)"
    using to_base62_digits by blast
  have "ds = es" using ds es by (intro horner_inj [of ds es 62]) simp_all
  with ds(1) es(1) show ?thesis by simp
qed

lemma to_base62_Some: "\<exists>s. to_base62 i = Some s \<and> length s = 22 \<and> set s \<subseteq> set BASE62_DIGITS"
  using to_base62_digits [of i] by fastforce

text \<open>The encoder as a total function, which the previous lemma justifies.\<close>

definition base62_string :: "SpotifyId \<Rightarrow> string" where
  "base62_string i = (case to_base62 i of Some s \<Rightarrow> s | None \<Rightarrow> [])"

lemma to_base62_eq: "to_base62 i = Some (base62_string i)"
  using to_base62_Some [of i] by (auto simp: base62_string_def)

interpretation b62: canonical_codec "\<lambda>_. True" base62_string from_base62
  by unfold_locales (auto simp: from_to_base62 to_base62_eq dest!: to_from_base62)

lemma base62_string_no_colon: "CHR '':'' \<notin> set (base62_string i)"
proof -
  have "CHR '':'' \<notin> set BASE62_DIGITS" by (simp add: BASE62_DIGITS_def)
  then show ?thesis using to_base62_Some [of i] by (auto simp: to_base62_eq)
qed

section \<open>Base 16 and raw bytes\<close>

interpretation b16: codec "\<lambda>_. True" to_base16 from_base16
proof unfold_locales
  fix i :: SpotifyId
  have "unat (id_u128 i) < 2 ^ 128" by (rule unat_u128)
  then show "from_base16 (to_base16 i) = Ok i"
    using length_show_hex_padded [of "unat (id_u128 i)" 32]
      parse_show_hex_padded [of "unat (id_u128 i)" 32, where 'w = 128]
    by (simp add: from_base16_def to_base16_def)
qed

lemma nth_to_raw: "k < 16 \<Longrightarrow> unat (to_raw i ! k) = unat (id_u128 i) div 256 ^ (15 - k) mod 256"
proof -
  assume "k < 16"
  have "(2::nat) ^ (8 * (15 - k)) = 256 ^ (15 - k)" by (simp add: power_mult)
  with \<open>k < 16\<close> show ?thesis
    by (simp add: to_raw_def SIZE_def unat_ucast_mod unat_drop_bit_eq) (simp add: drop_bit_eq_div)
qed

lemma length_to_raw [simp]: "length (to_raw i) = 16"
  by (simp add: to_raw_def SIZE_def)

text \<open>The bytes of a number, most significant first, add up to it.\<close>

lemma horner_digits_of:
  "horner b (map (\<lambda>k. n div b ^ (m - Suc k) mod b) [0 ..< m]) = n mod b ^ m" for n :: nat
proof (induction m arbitrary: n)
  case 0
  then show ?case by simp
next
  case (Suc m)
  have "map (\<lambda>k. n div b ^ (Suc m - Suc k) mod b) [0 ..< Suc m]
      = map (\<lambda>k. n div b div b ^ (m - Suc k) mod b) [0 ..< m] @ [n mod b]"
    by (auto simp: div_mult2_eq [symmetric] Suc_diff_Suc simp flip: power_Suc)
  then have "horner b (map (\<lambda>k. n div b ^ (Suc m - Suc k) mod b) [0 ..< Suc m])
      = (n div b mod b ^ m) * b + n mod b"
    by (simp only: horner_simps(3) Suc.IH [of "n div b"])
  then show ?case
    by (simp only: power_Suc mod_mult2_eq mult.commute add.commute)
qed

lemma horner_to_raw: "horner 256 (map unat (to_raw i)) = unat (id_u128 i)"
proof -
  let ?n = "unat (id_u128 i)"
  have "map unat (to_raw i) = map (\<lambda>k. ?n div 256 ^ (16 - Suc k) mod 256) [0 ..< 16]"
    by (rule nth_equalityI) (simp_all add: nth_to_raw)
  moreover have "?n mod 256 ^ 16 = ?n" using unat_u128 [of "id_u128 i"] by simp
  ultimately show ?thesis using horner_digits_of [of 256 ?n 16] by simp
qed

lemma from_to_raw: "from_raw (to_raw i) = Ok i"
  by (simp add: from_raw_def SIZE_def horner_to_raw)

lemma inj_unat: "inj (unat :: 'w::len word \<Rightarrow> nat)"
  by (rule injI) (simp add: word_unat_eq_iff)

lemma to_from_raw:
  assumes "from_raw bs = Ok i"
  shows "to_raw i = bs"
proof -
  have len: "length bs = 16" and i: "id_u128 i = word_of_nat (horner 256 (map unat bs))"
    using assms by (auto simp: from_raw_def SIZE_def split: if_splits)
  have byte: "\<forall>d \<in> set (map unat cs). d < 256" for cs :: "u8 list"
    using unsigned_less [where 'b = 8 and 'a = nat] by auto
  have "horner 256 (map unat bs) < 2 ^ 128"
    using horner_bound [OF byte, of bs] len by simp
  then have "unat (id_u128 i) = horner 256 (map unat bs)"
    unfolding i by (intro unat_small) simp
  with horner_to_raw [of i] have "map unat (to_raw i) = map unat bs"
    using horner_inj [OF _ byte byte, of "to_raw i" bs] len by simp
  then show ?thesis by (simp add: inj_map_eq_map [OF inj_unat])
qed

interpretation raw: canonical_codec "\<lambda>_. True" to_raw from_raw
  by unfold_locales (simp_all add: from_to_raw to_from_raw)

lemma length_file_bytes [simp]: "length (file_bytes (file_id_from_raw src)) = RAW_LEN"
  by (simp add: file_id_from_raw_def Let_def)

lemma length_file_id_to_base16: "length (file_id_to_base16 f) = 2 * length (file_bytes f)"
proof -
  have "length (show_hex_padded 2 (unat b)) = 2" for b :: u8
    using unsigned_less [of b, where 'a = nat] by (intro length_show_hex_padded) simp_all
  then show ?thesis by (simp add: file_id_to_base16_def length_concat comp_def sum_list_triv)
qed

section \<open>Properties\<close>

text \<open>
  Printing any identifier in base 62 succeeds without an out-of-bounds write, gives exactly
  22 characters of the base-62 alphabet, and reading them back returns the identifier: the
  limb-wise conversion computes positional notation.
\<close>

theorem to_base62_roundtrip:
  "\<exists>s. to_base62 i = Some s \<and> length s = 22 \<and> set s \<subseteq> set BASE62_DIGITS \<and> from_base62 s = Ok i"
  using to_base62_Some [of i] from_to_base62 [of i] by blast

text \<open>
  Reading base 62 succeeds exactly on the 22-character strings of alphabet characters whose
  value fits 128 bits, returns that value, and never accepts two spellings of one identifier:
  printing what was read gives the string back.
\<close>

theorem from_base62_exact:
  "(from_base62 s = Ok i \<longleftrightarrow>
     (\<exists>ds. s = map (\<lambda>d. BASE62_DIGITS ! d) ds \<and> length ds = 22 \<and> (\<forall>d \<in> set ds. d < 62) \<and>
           horner 62 ds < 2 ^ 128 \<and> unat (id_u128 i) = horner 62 ds)) \<and>
   (from_base62 s = Ok i \<longleftrightarrow> to_base62 i = Some s)"
  using from_base62_eq_Ok [of s i] from_to_base62 [of i s] to_from_base62 [of s i] by argo

theorem from_base62_exact_witness:
  "from_base62 ''0000000000000000000001'' = Ok \<lparr>id_u128 = 1\<rparr> \<and>
   to_base62 \<lparr>id_u128 = 1\<rparr> = Some ''0000000000000000000001''"
proof -
  have "from_base62 ''0000000000000000000001'' = Ok \<lparr>id_u128 = 1\<rparr>"
    by (simp add: from_base62_def SIZE_BASE62_def base62_digit_def checked_mul_def checked_add_def)
  with from_base62_exact [of "''0000000000000000000001''" "\<lparr>id_u128 = 1\<rparr>"] show ?thesis by blast
qed

text \<open>
  The 16 raw bytes and the identifier determine each other: reading the printed bytes
  returns the identifier, and any slice that is accepted is the printed form of what was read;
  a slice of another length is an error.
\<close>

theorem raw_roundtrip:
  "from_raw (to_raw i) = Ok i \<and> (from_raw bs = Ok i \<longleftrightarrow> bs = to_raw i) \<and>
   (length bs \<noteq> 16 \<longleftrightarrow> from_raw bs = Err InvalidId)"
  using raw.dec_iff [of bs i] from_to_raw [of i] by (simp add: from_raw_def SIZE_def)

text \<open>
  Reading the 32 printed hexadecimal digits returns the identifier. The converse fails: the
  integer parser behind \<open>from_base16\<close> skips a leading plus sign, so a plus sign followed by 31
  digits is accepted as an identifier that prints differently.
\<close>

theorem base16_roundtrip_not_canonical:
  "from_base16 (to_base16 i) = Ok i \<and> length (to_base16 i) = 32 \<and>
   from_base16 (CHR ''+'' # replicate 31 CHR ''0'') = Ok \<lparr>id_u128 = 0\<rparr> \<and>
   to_base16 \<lparr>id_u128 = 0\<rparr> \<noteq> CHR ''+'' # replicate 31 CHR ''0''"
proof -
  have "unat (id_u128 i) < 16 ^ 32" using unat_u128 [of "id_u128 i"] by simp
  then have len: "length (to_base16 i) = 32"
    by (simp add: to_base16_def length_show_hex_padded)
  have z: "accumulate (to_digit 16) 16 (replicate k CHR ''0'') 0 = Some (0 :: u128)" for k
    by (induction k) (simp_all add: to_digit_def checked_mul_def checked_add_def)
  have "from_base16 (CHR ''+'' # replicate 31 CHR ''0'') = Ok \<lparr>id_u128 = 0\<rparr>"
    using z [of 31] by (simp add: from_base16_def from_str_radix_def)
  moreover have "to_base16 \<lparr>id_u128 = 0\<rparr> = replicate 32 CHR ''0''"
    by (simp add: to_base16_def show_hex_padded_def radix_digits.simps digit_char_def) code_simp
  ultimately show ?thesis using b16.dec_enc [of i] len by (simp add: numeral_eq_Suc)
qed

end
