(* ===== verification/Spotify_Uri.thy ===== *)
theory Spotify_Uri
  imports Spotify_Id
begin

text \<open>
  Spotify URIs, \<open>core/src/spotify_uri.rs\<close>: the parser over the colon-separated parts, the
  printer, and the conversions from metadata messages. A \<open>Duration\<close> has whole seconds and a
  sub-second part, of which a local file's URI keeps only the seconds. The printer uses
  \<^const>\<open>base62_string\<close>, the value \<^const>\<open>to_base62\<close> always returns.
\<close>

section \<open>Data\<close>

record Duration =
  secs :: u64
  nanos :: u32

definition duration_from_secs :: "u64 \<Rightarrow> Duration" where
  "duration_from_secs s = \<lparr>secs = s, nanos = 0\<rparr>"

datatype SpotifyUri =
    Album SpotifyId
  | Artist SpotifyId
  | Episode SpotifyId
  | Playlist "string option" SpotifyId
  | Show SpotifyId
  | Track SpotifyId
  | Local string string string Duration
  | Unknown string string

datatype SpotifyUriError = UriInvalidFormat | UriInvalidRoot | UriInvalidId SpotifyIdError

section \<open>Operations\<close>

fun is_playable :: "SpotifyUri \<Rightarrow> bool" where
  "is_playable (Episode _) = True"
| "is_playable (Track _) = True"
| "is_playable (Local _ _ _ _) = True"
| "is_playable _ = False"

fun item_type :: "SpotifyUri \<Rightarrow> string" where
  "item_type (Album _) = ''album''"
| "item_type (Artist _) = ''artist''"
| "item_type (Episode _) = ''episode''"
| "item_type (Playlist _ _) = ''playlist''"
| "item_type (Show _) = ''show''"
| "item_type (Track _) = ''track''"
| "item_type (Local _ _ _ _) = ''local''"
| "item_type (Unknown _ _) = ''unknown''"

fun to_id :: "SpotifyUri \<Rightarrow> string" where
  "to_id (Album i) = base62_string i"
| "to_id (Artist i) = base62_string i"
| "to_id (Episode i) = base62_string i"
| "to_id (Playlist _ i) = base62_string i"
| "to_id (Show i) = base62_string i"
| "to_id (Track i) = base62_string i"
| "to_id (Local artist album_title track_title duration) =
     artist @ '':'' @ album_title @ '':'' @ track_title @ '':'' @ show_dec (unat (secs duration))"
| "to_id (Unknown _ i) = i"

text \<open>\<open>SpotifyId::from_base62(name)?\<close> inside a variant.\<close>

definition with_id :: "(SpotifyId \<Rightarrow> SpotifyUri) \<Rightarrow> string \<Rightarrow> (SpotifyUriError, SpotifyUri) result" where
  "with_id f name =
     (case from_base62 name of Inl e \<Rightarrow> Err (UriInvalidId e) | Inr i \<Rightarrow> Ok (f i))"

text \<open>The \<open>SPOTIFY_ITEM_TYPE_LOCAL\<close> branch: three more parts, the last one a number.\<close>

definition from_uri_local :: "string \<Rightarrow> string list \<Rightarrow> (SpotifyUriError, SpotifyUri) result" where
  "from_uri_local artist parts =
     (case parts of
        album_title # track_title # secs_part # _ \<Rightarrow>
          (case from_str_radix 10 secs_part of
             None \<Rightarrow> Err UriInvalidFormat
           | Some s \<Rightarrow> Ok (Local artist album_title track_title (duration_from_secs s)))
      | _ \<Rightarrow> Err UriInvalidFormat)"

definition from_uri_item ::
  "string option \<Rightarrow> string \<Rightarrow> string list \<Rightarrow> (SpotifyUriError, SpotifyUri) result" where
  "from_uri_item username ty parts =
     (case parts of [] \<Rightarrow> Err UriInvalidFormat
      | name # rest \<Rightarrow>
          if ty = ''album'' then with_id Album name
          else if ty = ''artist'' then with_id Artist name
          else if ty = ''episode'' then with_id Episode name
          else if ty = ''playlist'' then with_id (Playlist username) name
          else if ty = ''show'' then with_id Show name
          else if ty = ''track'' then with_id Track name
          else if ty = ''local'' then from_uri_local name rest
          else Ok (Unknown ty name))"

definition from_uri :: "string \<Rightarrow> (SpotifyUriError, SpotifyUri) result" where
  "from_uri src =
     (case split_on CHR '':'' src of [] \<Rightarrow> Err UriInvalidFormat
      | scheme # p1 \<Rightarrow>
          if scheme \<noteq> ''spotify'' then Err UriInvalidRoot
          else (case p1 of [] \<Rightarrow> Err UriInvalidFormat
                | nxt # p2 \<Rightarrow>
                    if nxt = ''user'' then
                      (case p2 of [] \<Rightarrow> Err UriInvalidFormat
                       | user # p3 \<Rightarrow>
                           (case p3 of [] \<Rightarrow> Err UriInvalidFormat
                            | ty # p4 \<Rightarrow> from_uri_item (Some user) ty p4))
                    else from_uri_item None nxt p2))"

fun to_uri :: "SpotifyUri \<Rightarrow> string" where
  "to_uri (Playlist (Some user) i) =
     ''spotify:user:'' @ user @ '':'' @ item_type (Playlist (Some user) i) @ '':'' @ base62_string i"
| "to_uri u = ''spotify:'' @ item_type u @ '':'' @ to_id u"

text \<open>\<open>TryFrom<&SpotifyUri> for SpotifyId\<close>.\<close>

fun id_try_from_uri :: "SpotifyUri \<Rightarrow> (SpotifyIdError, SpotifyId) result" where
  "id_try_from_uri (Album i) = Ok i"
| "id_try_from_uri (Artist i) = Ok i"
| "id_try_from_uri (Episode i) = Ok i"
| "id_try_from_uri (Playlist _ i) = Ok i"
| "id_try_from_uri (Show i) = Ok i"
| "id_try_from_uri (Track i) = Ok i"
| "id_try_from_uri (Local _ _ _ _) = Err InvalidFormat"
| "id_try_from_uri (Unknown _ _) = Err InvalidFormat"

text \<open>
  The conversions from metadata messages: the message's \<open>gid()\<close> or \<open>revision()\<close> bytes, or its
  \<open>uri()\<close>, are the arguments.
\<close>

definition uri_from_album :: "u8 list \<Rightarrow> (SpotifyIdError, SpotifyUri) result" where
  "uri_from_album gid = and_then (from_raw gid) (\<lambda>i. Ok (Album i))"

definition uri_from_artist :: "u8 list \<Rightarrow> (SpotifyIdError, SpotifyUri) result" where
  "uri_from_artist gid = and_then (from_raw gid) (\<lambda>i. Ok (Artist i))"

definition uri_from_episode :: "u8 list \<Rightarrow> (SpotifyIdError, SpotifyUri) result" where
  "uri_from_episode gid = and_then (from_raw gid) (\<lambda>i. Ok (Episode i))"

definition uri_from_track :: "u8 list \<Rightarrow> (SpotifyIdError, SpotifyUri) result" where
  "uri_from_track gid = and_then (from_raw gid) (\<lambda>i. Ok (Track i))"

definition uri_from_show :: "u8 list \<Rightarrow> (SpotifyIdError, SpotifyUri) result" where
  "uri_from_show gid = and_then (from_raw gid) (\<lambda>i. Ok (Show i))"

definition uri_from_meta_item :: "u8 list \<Rightarrow> (SpotifyIdError, SpotifyUri) result" where
  "uri_from_meta_item revision =
     and_then (from_raw revision) (\<lambda>i. Ok (Unknown ''MetaItem'' (base62_string i)))"

definition uri_from_selected_list_content :: "u8 list \<Rightarrow> (SpotifyIdError, SpotifyUri) result" where
  "uri_from_selected_list_content revision =
     and_then (from_raw revision) (\<lambda>i. Ok (Unknown ''SelectedListContent'' (base62_string i)))"

definition uri_from_transcoded_picture :: "string \<Rightarrow> (SpotifyIdError, SpotifyUri) result" where
  "uri_from_transcoded_picture uri = Ok (Unknown ''TranscodedPicture'' uri)"

section \<open>Round trips\<close>

abbreviation no_colon :: "string \<Rightarrow> bool" where
  "no_colon s \<equiv> CHR '':'' \<notin> set s"

text \<open>The URIs that their printed form identifies.\<close>

fun uri_valid :: "SpotifyUri \<Rightarrow> bool" where
  "uri_valid (Playlist (Some user) _) = no_colon user"
| "uri_valid (Local artist album_title track_title duration) =
     (no_colon artist \<and> no_colon album_title \<and> no_colon track_title \<and> nanos duration = 0)"
| "uri_valid (Unknown kind i) = (kind = ''unknown'' \<and> no_colon i)"
| "uri_valid _ = True"

lemma with_id_base62 [simp]: "with_id f (base62_string i) = Ok (f i)"
  by (simp add: with_id_def b62.dec_enc)

lemma parse_seconds: "from_str_radix 10 (show_dec (unat s)) = Some s" for s :: u64
  using parse_show_dec [of "unat s", where 'w = 64] unsigned_less [of s, where 'a = nat] by simp

text \<open>Splitting a printed URI: the fixed words contain no colon.\<close>

lemma split_spotify: "split_on CHR '':'' (''spotify:'' @ s) = ''spotify'' # split_on CHR '':'' s"
  using split_on_append [of "CHR '':''" "''spotify''" s] by simp

lemma split_part: "no_colon w \<Longrightarrow> split_on CHR '':'' (w @ '':'' @ s) = w # split_on CHR '':'' s"
  using split_on_append [of "CHR '':''" w s] by simp

lemma item_type_no_colon: "no_colon (item_type u)"
  by (cases u) simp_all

lemma item_type_not_user: "item_type u \<noteq> ''user''"
  by (cases u) simp_all

lemma from_uri_item_printed:
  "from_uri (''spotify:'' @ item_type u @ '':'' @ s)
     = from_uri_item None (item_type u) (split_on CHR '':'' s)"
  using item_type_not_user [of u]
  by (simp add: from_uri_def split_spotify split_part [OF item_type_no_colon] del: append_Cons append.simps)

lemma from_uri_user_printed:
  "no_colon user \<Longrightarrow> no_colon ty \<Longrightarrow>
   from_uri (''spotify:user:'' @ user @ '':'' @ ty @ '':'' @ s)
     = from_uri_item (Some user) ty (split_on CHR '':'' s)"
  using split_spotify [of "''user:'' @ user @ '':'' @ ty @ '':'' @ s"]
    split_part [of "''user''" "user @ '':'' @ ty @ '':'' @ s"]
    split_part [of user "ty @ '':'' @ s"] split_part [of ty s]
  by (simp add: from_uri_def)

lemma from_to_uri: "uri_valid u \<Longrightarrow> from_uri (to_uri u) = Ok u"
proof (cases u)
  case (Playlist user i)
  assume "uri_valid u"
  with Playlist show ?thesis
    using from_uri_item_printed [of u "base62_string i"]
      from_uri_user_printed [of "the user" "''playlist''" "base62_string i"]
    by (cases user) (simp_all add: from_uri_item_def base62_string_no_colon)
next
  case (Local artist album_title track_title duration)
  assume "uri_valid u"
  moreover have "split_on CHR '':'' (to_id u) = [artist, album_title, track_title,
      show_dec (unat (secs duration))]"
    using \<open>uri_valid u\<close> Local by (simp add: split_part show_dec_no_colon del: append_Cons)
  ultimately show ?thesis
    using Local from_uri_item_printed [of u "to_id u"]
    by (cases duration) (simp add: from_uri_item_def from_uri_local_def parse_seconds duration_from_secs_def)
next
  case (Unknown kind i)
  assume "uri_valid u"
  with Unknown from_uri_item_printed [of u i] show ?thesis by (simp add: from_uri_item_def)
qed (use from_uri_item_printed [of u "to_id u"] in
      \<open>simp_all add: from_uri_item_def base62_string_no_colon\<close>)

interpretation uri: codec uri_valid to_uri from_uri
  by unfold_locales (rule from_to_uri)

text \<open>What a parsed URI becomes when it is printed and parsed again.\<close>

fun uri_reprint :: "SpotifyUri \<Rightarrow> SpotifyUri" where
  "uri_reprint (Unknown kind i) = Unknown ''unknown'' i"
| "uri_reprint u = u"

lemma to_uri_reprint: "to_uri (uri_reprint u) = to_uri u"
  by (cases u rule: uri_reprint.cases) simp_all

lemma with_id_valid: "with_id f name = Ok u \<Longrightarrow> (\<And>i. uri_valid (uri_reprint (f i))) \<Longrightarrow> uri_valid (uri_reprint u)"
  by (auto simp: with_id_def split: sum.splits)

lemma from_uri_local_valid:
  "from_uri_local artist parts = Ok u \<Longrightarrow> no_colon artist \<Longrightarrow> \<forall>p \<in> set parts. no_colon p \<Longrightarrow>
   uri_valid (uri_reprint u)"
  by (auto simp: from_uri_local_def duration_from_secs_def split: list.splits option.splits)

lemma from_uri_item_valid:
  "from_uri_item user ty parts = Ok u \<Longrightarrow> \<forall>p \<in> set parts. no_colon p \<Longrightarrow> \<forall>n. user = Some n \<longrightarrow> no_colon n \<Longrightarrow>
   uri_valid (uri_reprint u)"
  by (cases user) (simp_all add: from_uri_item_def with_id_valid from_uri_local_valid
      split: list.splits if_splits, auto)

text \<open>An accepted URI went through the item parser, on parts of the source string.\<close>

lemma from_uri_OkE:
  assumes "from_uri src = Ok u"
  obtains user ty parts where "from_uri_item user ty parts = Ok u"
    "set parts \<subseteq> set (split_on CHR '':'' src)" "set_option user \<subseteq> set (split_on CHR '':'' src)"
proof (cases "split_on CHR '':'' src")
  case Nil
  with assms show ?thesis by (simp add: from_uri_def)
next
  case (Cons scheme p1)
  with assms have root: "scheme = ''spotify''" by (simp add: from_uri_def split: if_splits)
  with assms Cons obtain nxt p2 where p1: "p1 = nxt # p2"
    by (cases p1) (simp_all add: from_uri_def)
  show ?thesis
  proof (cases "nxt = ''user''")
    case False
    with assms Cons root p1 have "from_uri_item None nxt p2 = Ok u" by (simp add: from_uri_def)
    then show ?thesis by (rule that) (auto simp: Cons p1)
  next
    case True
    with assms Cons root p1 obtain user ty p4 where p2: "p2 = user # ty # p4"
      by (cases p2; cases "tl p2") (simp_all add: from_uri_def)
    with assms Cons root p1 True have "from_uri_item (Some user) ty p4 = Ok u"
      by (simp add: from_uri_def)
    then show ?thesis by (rule that) (auto simp: Cons p1 p2)
  qed
qed

lemma parsed_uri_valid:
  assumes "from_uri src = Ok u"
  shows "uri_valid (uri_reprint u)"
  using assms
proof (rule from_uri_OkE)
  fix user ty parts
  assume "from_uri_item user ty parts = Ok u" "set parts \<subseteq> set (split_on CHR '':'' src)"
    "set_option user \<subseteq> set (split_on CHR '':'' src)"
  then show ?thesis
    using split_on_parts [of _ "CHR '':''" src] by (intro from_uri_item_valid) auto
qed

section \<open>Properties\<close>

text \<open>
  C34. Every URI whose fields do not contain the separator prints to a string that parses to the
  same URI: the six identifier kinds, a playlist with or without its user, and local files with
  whole-second durations. Different such URIs print differently.
\<close>

theorem uri_roundtrip:
  assumes "uri_valid u"
  shows "from_uri (to_uri u) = Ok u \<and> (\<forall>v. uri_valid v \<longrightarrow> to_uri v = to_uri u \<longrightarrow> v = u)"
  using uri.dec_enc [OF assms] uri.enc_inj [OF _ assms] by simp

theorem uri_roundtrip_witness:
  "from_uri (to_uri (Local ''David+Wise'' ''Tropical+Freeze'' ''Snomads+Island'' (duration_from_secs 127)))
     = Ok (Local ''David+Wise'' ''Tropical+Freeze'' ''Snomads+Island'' (duration_from_secs 127)) \<and>
   from_uri (to_uri (Playlist (Some ''spotify'') \<lparr>id_u128 = 7\<rparr>)) = Ok (Playlist (Some ''spotify'') \<lparr>id_u128 = 7\<rparr>)"
proof -
  have "uri_valid (Local ''David+Wise'' ''Tropical+Freeze'' ''Snomads+Island'' (duration_from_secs 127))"
    "uri_valid (Playlist (Some ''spotify'') \<lparr>id_u128 = 7\<rparr>)"
    by (simp_all add: duration_from_secs_def)
  then show ?thesis using uri_roundtrip by blast
qed

text \<open>
  Whatever the parser accepts, printing and parsing it again returns the same URI, except
  that the kind of an unrecognised type becomes \<open>unknown\<close>, as the documentation of \<open>to_uri\<close>
  says. Parsing fails with the foreign-root error exactly when the first part is not \<open>spotify\<close>.
\<close>

theorem parsed_uri_stable:
  "(from_uri src = Ok u \<longrightarrow> from_uri (to_uri u) = Ok (uri_reprint u)) \<and>
   (from_uri src = Err UriInvalidRoot \<longleftrightarrow> hd (split_on CHR '':'' src) \<noteq> ''spotify'')"
proof -
  have "from_uri src = Ok u \<Longrightarrow> from_uri (to_uri u) = Ok (uri_reprint u)"
    using from_to_uri [OF parsed_uri_valid, of src u] by (simp add: to_uri_reprint)
  moreover have "from_uri_item user ty ps \<noteq> Err UriInvalidRoot" for user ty ps
    by (auto simp: from_uri_item_def from_uri_local_def with_id_def
        split: list.splits option.splits sum.splits if_splits)
  then have "from_uri src = Err UriInvalidRoot \<longleftrightarrow> hd (split_on CHR '':'' src) \<noteq> ''spotify''"
    by (auto simp: from_uri_def split: list.splits)
  ultimately show ?thesis by blast
qed

theorem parsed_uri_stable_witness:
  "from_uri ''spotify:artistwhatever:5sWHDYs'' = Ok (Unknown ''artistwhatever'' ''5sWHDYs'') \<and>
   from_uri (to_uri (Unknown ''artistwhatever'' ''5sWHDYs'')) = Ok (Unknown ''unknown'' ''5sWHDYs'')"
proof -
  have "from_uri ''spotify:artistwhatever:5sWHDYs'' = Ok (Unknown ''artistwhatever'' ''5sWHDYs'')"
    by (simp add: from_uri_def from_uri_item_def)
  with parsed_uri_stable [of "''spotify:artistwhatever:5sWHDYs''" "Unknown ''artistwhatever'' ''5sWHDYs''"]
  show ?thesis by simp
qed

end
