(* ===== verification/Connect_State.thy ===== *)
theory Connect_State
  imports Core_Error Player_Messages Shuffle_Vec Spotify_Uri
begin

text \<open>
  The playback state a connect device publishes: \<open>connect/src/state.rs\<close> and the files of
  \<open>connect/src/state/\<close>. This theory holds the state and every operation on it, in the order the
  code needs them; the properties are proved in the theories that import it.

  An operation that takes \<open>&mut self\<close> returns its result and the state as it left it, also when
  it fails: an early return keeps the changes made before it. Values from outside are arguments:
  the clock (\<open>now\<close>), fresh uuids (\<open>U\<close>), the random generator (\<open>R\<close>) and its draws, and the
  hash of the queue (\<open>H\<close>, a \<open>DefaultHasher\<close>). The request's device and player state are always
  set (\<open>ConnectState::new\<close> sets them and nothing unsets them), so they are plain fields.
  \<open>u32\<close> indices are naturals cut by \<open>as_u32\<close> where the code casts. An arithmetic underflow and a
  draw from an empty range, which panic, are the errors \<open>ArithmeticOverflow\<close> and \<open>EmptyRange\<close>.
  Logging is left out.
\<close>

section \<open>Results with a state\<close>

definition sr_bind ::
  "('e, 'a) result \<times> 's \<Rightarrow> ('a \<Rightarrow> 's \<Rightarrow> ('e, 'b) result \<times> 's) \<Rightarrow> ('e, 'b) result \<times> 's" where
  "sr_bind r f = (case r of (res, s) \<Rightarrow> (case res of Inl e \<Rightarrow> (Inl e, s) | Inr x \<Rightarrow> f x s))"

lemma sr_bind_simps [simp]:
  "sr_bind (Inl e, s) f = (Inl e, s)"
  "sr_bind (Inr x, s) f = f x s"
  by (simp_all add: sr_bind_def)

lemma sr_bind_eq_Ok:
  "sr_bind r f = (Inr y, s'') \<longleftrightarrow> (\<exists>x s'. r = (Inr x, s') \<and> f x s' = (Inr y, s''))"
  by (auto simp: sr_bind_def split: prod.splits sum.splits)

lemma sr_bind_state_inv:
  "P (snd r) \<Longrightarrow> (\<And>x s. r = (Inr x, s) \<Longrightarrow> P (snd (f x s))) \<Longrightarrow> P (snd (sr_bind r f))"
  by (auto simp: sr_bind_def split: prod.splits sum.splits)

section \<open>State\<close>

definition SPOTIFY_MAX_PREV_TRACKS_SIZE :: nat where
  "SPOTIFY_MAX_PREV_TRACKS_SIZE = 10"

definition SPOTIFY_MAX_NEXT_TRACKS_SIZE :: nat where
  "SPOTIFY_MAX_NEXT_TRACKS_SIZE = 80"

lemmas track_limits = SPOTIFY_MAX_PREV_TRACKS_SIZE_def SPOTIFY_MAX_NEXT_TRACKS_SIZE_def

definition as_u32 :: "usize \<Rightarrow> nat" where
  "as_u32 n = n mod 2 ^ 32"

lemma as_u32_small [simp]: "n < 2 ^ 32 \<Longrightarrow> as_u32 n = n"
  by (simp add: as_u32_def)

datatype ContextType = DefaultContext | AutoplayContext

datatype StateError =
    CouldNotResolveTrackFromTransfer
  | NoContext ContextType
  | CanNotFindTrackInContext "usize option" usize
  | CurrentlyDisallowed string string
  | ContextHasNoTracks
  | UnsupportedLocalPlayback
  | InvalidTrackUri "string option"

datatype ConnectError =
    StateErr StateError
  | UriErr SpotifyUriError
  | IdErr SpotifyIdError
  | ArithmeticOverflow
  | EmptyRange

text \<open>\<open>From<StateError> for Error\<close>.\<close>

fun error_kind :: "StateError \<Rightarrow> ErrorKind" where
  "error_kind (CurrentlyDisallowed _ _) = Unavailable"
| "error_kind UnsupportedLocalPlayback = Unavailable"
| "error_kind _ = FailedPrecondition"

record StateContext =
  tracks :: "ProvidedTrack ShuffleVec"
  sc_metadata :: metadata
  sc_restrictions :: "ContextRestrictions option"
  sc_index :: ContextIndex

abbreviation track_list :: "StateContext \<Rightarrow> ProvidedTrack list" where
  "track_list ctx \<equiv> vec (tracks ctx)"

record ShuffleState =
  ss_seed :: u64
  ss_initial_track :: string

record PlayerState =
  timestamp :: "64 word"
  context_uri :: string
  context_url :: string
  context_restrictions :: "Restrictions option"
  play_origin :: "PlayOrigin option"
  index :: "ContextIndex option"
  track :: "ProvidedTrack option"
  playback_speed :: f64
  position_as_of_timestamp :: "64 word"
  duration :: "64 word"
  is_playing_flag :: bool
  is_paused :: bool
  is_buffering :: bool
  is_system_initiated :: bool
  options :: "ContextPlayerOptions option"
  restrictions :: "Restrictions option"
  suppressions :: "Suppressions option"
  prev_tracks :: "ProvidedTrack list"
  next_tracks :: "ProvidedTrack list"
  context_metadata :: metadata
  session_id :: string
  queue_revision :: string

record ConnectState =
  player :: PlayerState
  is_active :: bool
  client_side_timestamp :: u64
  started_playing_at :: u64
  last_command_message_id :: u32
  last_command_sent_by_device_id :: string
  volume :: u32
  unavailable_uri :: "string list"
  active_since :: "u128 option"
  queue_count :: nat
  active_context :: ContextType
  fill_up_context :: ContextType
  context_field :: "StateContext option"
  transfer_shuffle :: "ShuffleState option"
  autoplay_context :: "StateContext option"
  volume_step_size :: u16

text \<open>The bit patterns of the doubles 0 and 1; a double equals 0 when it is a signed zero.\<close>

definition f64_zero :: f64 where
  "f64_zero = 0"

definition f64_one :: f64 where
  "f64_one = 0x3FF0000000000000"

definition f64_is_zero :: "f64 \<Rightarrow> bool" where
  "f64_is_zero x \<longleftrightarrow> x = 0 \<or> x = 0x8000000000000000"

definition player_state_default :: PlayerState where
  "player_state_default =
     \<lparr>timestamp = 0, context_uri = [], context_url = [], context_restrictions = None,
      play_origin = None, index = None, track = None, playback_speed = f64_zero,
      position_as_of_timestamp = 0, duration = 0, is_playing_flag = False, is_paused = False,
      is_buffering = False, is_system_initiated = False, options = None, restrictions = None,
      suppressions = None, prev_tracks = [], next_tracks = [], context_metadata = Map.empty,
      session_id = [], queue_revision = []\<rparr>"

definition connect_state_default :: ConnectState where
  "connect_state_default =
     \<lparr>player = player_state_default, is_active = False, client_side_timestamp = 0,
      started_playing_at = 0, last_command_message_id = 0, last_command_sent_by_device_id = [],
      volume = 0, unavailable_uri = [], active_since = None, queue_count = 0,
      active_context = DefaultContext, fill_up_context = DefaultContext, context_field = None,
      transfer_shuffle = None, autoplay_context = None, volume_step_size = 0\<rparr>"

abbreviation next_of :: "ConnectState \<Rightarrow> ProvidedTrack list" where
  "next_of st \<equiv> next_tracks (player st)"

abbreviation prev_of :: "ConnectState \<Rightarrow> ProvidedTrack list" where
  "prev_of st \<equiv> prev_tracks (player st)"

definition set_next :: "ProvidedTrack list \<Rightarrow> ConnectState \<Rightarrow> ConnectState" where
  "set_next ts st = st\<lparr>player := (player st)\<lparr>next_tracks := ts\<rparr>\<rparr>"

definition set_prev :: "ProvidedTrack list \<Rightarrow> ConnectState \<Rightarrow> ConnectState" where
  "set_prev ts st = st\<lparr>player := (player st)\<lparr>prev_tracks := ts\<rparr>\<rparr>"

text \<open>The current track read through its message field: the default track when it is unset.\<close>

definition current_track :: "ConnectState \<Rightarrow> ProvidedTrack" where
  "current_track st = unwrap_or (track (player st)) provided_track_new"

definition set_track :: "ProvidedTrack \<Rightarrow> ConnectState \<Rightarrow> ConnectState" where
  "set_track t st = st\<lparr>player := (player st)\<lparr>track := Some t\<rparr>\<rparr>"

section \<open>Activity, status and simple fields\<close>

definition set_active :: "u128 \<Rightarrow> bool \<Rightarrow> ConnectState \<Rightarrow> ConnectState" where
  "set_active now value st =
     (if value then
        (if is_active st then st else st\<lparr>is_active := True, active_since := Some now\<rparr>)
      else st\<lparr>is_active := False, active_since := None\<rparr>)"

definition reset :: "u128 \<Rightarrow> ConnectState \<Rightarrow> ConnectState" where
  "reset now st =
     (let st1 = (set_active now False st)\<lparr>queue_count := 0\<rparr>
      in st1\<lparr>player := player_state_default
               \<lparr>session_id := session_id (player st1), is_system_initiated := True,
                playback_speed := f64_one, play_origin := Some play_origin_new,
                suppressions := Some \<lparr>suppressed_providers = []\<rparr>,
                options := Some context_player_options_new\<rparr>\<rparr>)"

text \<open>
  \<open>ConnectState::new\<close>, with the initial volume and the volume steps of the configuration and
  the id of the session; the device description it also fills in is never read back.
\<close>

definition connect_state_new :: "u128 \<Rightarrow> u16 \<Rightarrow> u16 \<Rightarrow> string \<Rightarrow> ConnectState" where
  "connect_state_new now initial_volume volume_steps session =
     (let step_size = (if volume_steps = 0 then 1024 else 0xFFFF div volume_steps)
      in reset now (connect_state_default
           \<lparr>volume := ucast initial_volume, volume_step_size := step_size,
            player := player_state_default\<lparr>session_id := session\<rparr>\<rparr>))"

definition is_playing :: "ConnectState \<Rightarrow> bool" where
  "is_playing st \<longleftrightarrow> is_playing_flag (player st) \<and> \<not> is_paused (player st)"

definition is_pause :: "ConnectState \<Rightarrow> bool" where
  "is_pause st \<longleftrightarrow>
     is_playing_flag (player st) \<and> is_paused (player st) \<and> is_buffering (player st)"

definition set_volume :: "u32 \<Rightarrow> ConnectState \<Rightarrow> ConnectState" where
  "set_volume v st = st\<lparr>volume := v\<rparr>"

definition set_last_command :: "u32 \<Rightarrow> string \<Rightarrow> ConnectState \<Rightarrow> ConnectState" where
  "set_last_command message_id sent_by st =
     st\<lparr>last_command_message_id := message_id, last_command_sent_by_device_id := sent_by\<rparr>"

text \<open>\<open>active_since\<close> is kept in milliseconds since the epoch.\<close>

definition set_now :: "u64 \<Rightarrow> ConnectState \<Rightarrow> ConnectState" where
  "set_now now st =
     (let st1 = st\<lparr>client_side_timestamp := now\<rparr>
      in case active_since st1 of
           None \<Rightarrow> st1
         | Some ms \<Rightarrow> if unat ms < 2 ^ 64 then st1\<lparr>started_playing_at := ucast ms\<rparr> else st1)"

definition set_origin :: "PlayOrigin \<Rightarrow> ConnectState \<Rightarrow> ConnectState" where
  "set_origin origin st = st\<lparr>player := (player st)\<lparr>play_origin := Some origin\<rparr>\<rparr>"

definition set_session_id :: "string \<Rightarrow> ConnectState \<Rightarrow> ConnectState" where
  "set_session_id s st = st\<lparr>player := (player st)\<lparr>session_id := s\<rparr>\<rparr>"

definition update_position :: "u32 \<Rightarrow> 64 word \<Rightarrow> ConnectState \<Rightarrow> ConnectState" where
  "update_position position_ms ts st =
     st\<lparr>player := (player st)\<lparr>position_as_of_timestamp := ucast position_ms, timestamp := ts\<rparr>\<rparr>"

definition update_duration :: "u32 \<Rightarrow> ConnectState \<Rightarrow> ConnectState" where
  "update_duration d st = st\<lparr>player := (player st)\<lparr>duration := ucast d\<rparr>\<rparr>"

definition update_position_in_relation :: "64 word \<Rightarrow> ConnectState \<Rightarrow> ConnectState" where
  "update_position_in_relation ts st =
     (let p = player st; diff = ts - timestamp p
      in st\<lparr>player := p\<lparr>position_as_of_timestamp := position_as_of_timestamp p + diff,
                        timestamp := ts\<rparr>\<rparr>)"

definition update_current_index :: "(ContextIndex \<Rightarrow> ContextIndex) \<Rightarrow> ConnectState \<Rightarrow> ConnectState" where
  "update_current_index f st =
     st\<lparr>player := (player st)\<lparr>index := Some (f (unwrap_or (index (player st)) context_index_new))\<rparr>\<rparr>"

definition update_queue_revision :: "(string list \<Rightarrow> u64) \<Rightarrow> ConnectState \<Rightarrow> ConnectState" where
  "update_queue_revision H st =
     st\<lparr>player := (player st)\<lparr>queue_revision := show_dec (unat (H (map uri (next_of st))))\<rparr>\<rparr>"

section \<open>Playback options (\<open>options.rs\<close>) and restrictions (\<open>restrictions.rs\<close>)\<close>

definition add_options_if_empty :: "ConnectState \<Rightarrow> ConnectState" where
  "add_options_if_empty st =
     (if options (player st) = None
      then st\<lparr>player := (player st)\<lparr>options := Some context_player_options_new\<rparr>\<rparr>
      else st)"

definition update_options ::
  "(ContextPlayerOptions \<Rightarrow> ContextPlayerOptions) \<Rightarrow> ConnectState \<Rightarrow> ConnectState" where
  "update_options f st =
     (let st1 = add_options_if_empty st
      in st1\<lparr>player := (player st1)\<lparr>options := map_option f (options (player st1))\<rparr>\<rparr>)"

definition set_repeat_context :: "bool \<Rightarrow> ConnectState \<Rightarrow> ConnectState" where
  "set_repeat_context b = update_options (\<lambda>opts. opts\<lparr>repeating_context := b\<rparr>)"

definition set_repeat_track :: "bool \<Rightarrow> ConnectState \<Rightarrow> ConnectState" where
  "set_repeat_track b = update_options (\<lambda>opts. opts\<lparr>repeating_track := b\<rparr>)"

definition set_shuffle :: "bool \<Rightarrow> ConnectState \<Rightarrow> ConnectState" where
  "set_shuffle b = update_options (\<lambda>opts. opts\<lparr>shuffling_context := b\<rparr>)"

definition reset_options :: "ConnectState \<Rightarrow> ConnectState" where
  "reset_options st = set_repeat_context False (set_repeat_track False (set_shuffle False st))"

definition player_options :: "ConnectState \<Rightarrow> ContextPlayerOptions" where
  "player_options st = unwrap_or (options (player st)) context_player_options_new"

definition shuffling :: "ConnectState \<Rightarrow> bool" where
  "shuffling st = shuffling_context (player_options st)"

definition repeat_context :: "ConnectState \<Rightarrow> bool" where
  "repeat_context st = repeating_context (player_options st)"

definition repeat_track :: "ConnectState \<Rightarrow> bool" where
  "repeat_track st = repeating_track (player_options st)"

definition clear_restrictions :: "ConnectState \<Rightarrow> ConnectState" where
  "clear_restrictions st =
     st\<lparr>player := (player st)\<lparr>context_restrictions := Some restrictions_new,
                             restrictions := Some restrictions_new\<rparr>\<rparr>"

text \<open>The pause and resume reasons, updated only when restrictions are present.\<close>

definition restrict_playback :: "bool \<Rightarrow> bool \<Rightarrow> Restrictions \<Rightarrow> Restrictions" where
  "restrict_playback playing paused r =
     (let r1 = (if playing
                then r\<lparr>disallow_pausing_reasons := [], disallow_resuming_reasons := [''not_paused'']\<rparr>
                else r)
      in if paused
         then r1\<lparr>disallow_resuming_reasons := [], disallow_pausing_reasons := [''not_playing'']\<rparr>
         else r1)"

definition restrict_skipping :: "bool \<Rightarrow> Restrictions \<Rightarrow> Restrictions" where
  "restrict_skipping no_prev r =
     (let why = (if no_prev then [''no previous tracks''] else [])
      in r\<lparr>disallow_peeking_prev_reasons := why, disallow_skipping_prev_reasons := why\<rparr>)"

definition restrict_options :: "bool \<Rightarrow> Restrictions \<Rightarrow> Restrictions" where
  "restrict_options autoplay r =
     (let why = (if autoplay then [''autoplay''] else [])
      in r\<lparr>disallow_toggling_shuffle_reasons := why,
           disallow_toggling_repeat_context_reasons := why,
           disallow_toggling_repeat_track_reasons := why\<rparr>)"

definition update_restrictions :: "ConnectState \<Rightarrow> ConnectState" where
  "update_restrictions st =
     (let r1 = map_option (restrict_playback (is_playing st) (is_pause st)) (restrictions (player st));
          r2 = unwrap_or r1 restrictions_new;
          r3 = restrict_skipping (prev_of st = []) r2;
          r4 = restrict_options (is_autoplay (current_track st)) r3
      in st\<lparr>player := (player st)\<lparr>restrictions := Some r4\<rparr>\<rparr>)"

datatype SpircPlayStatus =
    Stopped
  | LoadingPlay u32
  | LoadingPause u32
  | Playing "64 word" bool
  | Paused u32 bool

fun status_is_paused :: "SpircPlayStatus \<Rightarrow> bool" where
  "status_is_paused (LoadingPause _) = True"
| "status_is_paused (Paused _ _) = True"
| "status_is_paused Stopped = True"
| "status_is_paused _ = False"

fun status_is_loading :: "SpircPlayStatus \<Rightarrow> bool" where
  "status_is_loading (LoadingPause _) = True"
| "status_is_loading (LoadingPlay _) = True"
| "status_is_loading _ = False"

fun status_is_playing :: "SpircPlayStatus \<Rightarrow> bool" where
  "status_is_playing (LoadingPlay _) = True"
| "status_is_playing (Playing _ _) = True"
| "status_is_playing _ = False"

definition set_status :: "SpircPlayStatus \<Rightarrow> ConnectState \<Rightarrow> ConnectState" where
  "set_status status st =
     (let paused = status_is_paused status;
          p = (player st)\<lparr>is_paused := paused,
                          playback_speed := (if paused then f64_zero else f64_one),
                          is_buffering := paused \<or> status_is_loading status,
                          is_playing_flag := paused \<or> status_is_playing status\<rparr>
      in update_restrictions (st\<lparr>player := p\<rparr>))"

section \<open>Contexts (\<open>context.rs\<close>)\<close>

definition LOCAL_FILES_IDENTIFIER :: string where
  "LOCAL_FILES_IDENTIFIER = ''spotify:local-files''"

definition SEARCH_IDENTIFIER :: string where
  "SEARCH_IDENTIFIER = ''spotify:search''"

definition page_url_to_uri :: "string \<Rightarrow> string" where
  "page_url_to_uri url =
     (let rest = (if starts_with url ''hm://'' then drop 5 url else url)
      in join_with CHR '':'' (take 3 (dropWhile (\<lambda>s. s \<noteq> ''spotify'') (split_on CHR ''/'' rest))))"

definition find_index_in_context ::
  "StateContext \<Rightarrow> (ProvidedTrack \<Rightarrow> bool) \<Rightarrow> (ConnectError, usize) result" where
  "find_index_in_context ctx f =
     ok_or (position f (track_list ctx))
       (StateErr (CanNotFindTrackInContext None (length (track_list ctx))))"

definition context_of :: "ContextType \<Rightarrow> ConnectState \<Rightarrow> StateContext option" where
  "context_of ty st =
     (case ty of DefaultContext \<Rightarrow> context_field st | AutoplayContext \<Rightarrow> autoplay_context st)"

definition get_context :: "ConnectState \<Rightarrow> ContextType \<Rightarrow> (ConnectError, StateContext) result" where
  "get_context st ty = ok_or (context_of ty st) (StateErr (NoContext ty))"

text \<open>Writing through \<open>get_context_mut\<close>.\<close>

definition put_context :: "ContextType \<Rightarrow> StateContext \<Rightarrow> ConnectState \<Rightarrow> ConnectState" where
  "put_context ty ctx st =
     (case ty of
        DefaultContext \<Rightarrow> st\<lparr>context_field := Some ctx\<rparr>
      | AutoplayContext \<Rightarrow> st\<lparr>autoplay_context := Some ctx\<rparr>)"

definition different_context_uri :: "ConnectState \<Rightarrow> string \<Rightarrow> bool" where
  "different_context_uri st u \<longleftrightarrow>
     context_uri (player st) \<noteq> u \<or> starts_with u SEARCH_IDENTIFIER"

definition set_active_context :: "ContextType \<Rightarrow> ConnectState \<Rightarrow> ConnectState" where
  "set_active_context new_context st =
     (let st1 = st\<lparr>active_context := new_context,
                   player := (player st)\<lparr>context_metadata := Map.empty,
                                         context_restrictions := Some restrictions_new,
                                         restrictions := Some restrictions_new\<rparr>\<rparr>
      in case get_context st1 new_context of
           Inl _ \<Rightarrow> st1
         | Inr ctx \<Rightarrow>
             (let p = player st1;
                  p1 = (case sc_restrictions ctx of
                          None \<Rightarrow> p
                        | Some r \<Rightarrow> p\<lparr>restrictions := Some (to_player_restrictions r)\<rparr>)
              in st1\<lparr>player := p1\<lparr>context_metadata := context_metadata p1 ++ sc_metadata ctx\<rparr>\<rparr>))"

datatype ResetContext = Completely | DefaultIndex | WhenDifferent string

definition reset_index :: "StateContext \<Rightarrow> StateContext" where
  "reset_index ctx = ctx\<lparr>sc_index := \<lparr>index_page = 0, index_track = 0\<rparr>\<rparr>"

definition reset_context :: "ResetContext \<Rightarrow> ConnectState \<Rightarrow> ConnectState" where
  "reset_context reset_as st =
     (let how = (case reset_as of
                   WhenDifferent ctx \<Rightarrow> if different_context_uri st ctx then Completely else reset_as
                 | _ \<Rightarrow> reset_as);
          st1 = (case get_context st DefaultContext of
                   Inl _ \<Rightarrow> st
                 | Inr ctx \<Rightarrow>
                     put_context DefaultContext
                       (ctx\<lparr>sc_metadata := remove_initial_track (remove_shuffle_seed (sc_metadata ctx)),
                            tracks := unshuffle (tracks ctx)\<rparr>) st);
          st2 = (case how of
                   WhenDifferent _ \<Rightarrow> st1
                 | Completely \<Rightarrow>
                     st1\<lparr>context_field := None, autoplay_context := None,
                         player := (player st1)\<lparr>context_uri := [], context_url := []\<rparr>\<rparr>
                 | DefaultIndex \<Rightarrow>
                     st1\<lparr>context_field := map_option reset_index (context_field st1),
                         autoplay_context := map_option reset_index (autoplay_context st1)\<rparr>)
      in update_restrictions (set_active_context DefaultContext (st2\<lparr>fill_up_context := DefaultContext\<rparr>)))"

definition valid_resolve_uri :: "string \<Rightarrow> string option" where
  "valid_resolve_uri u = (if u = [] \<or> starts_with u SEARCH_IDENTIFIER then None else Some u)"

definition find_valid_uri :: "string option \<Rightarrow> ContextPage option \<Rightarrow> string option" where
  "find_valid_uri ctx_uri first_page =
     (case Option.bind ctx_uri valid_resolve_uri of
        Some u \<Rightarrow> Some u
      | None \<Rightarrow>
          (case first_page of
             None \<Rightarrow> None
           | Some p \<Rightarrow> (case page_tracks p of [] \<Rightarrow> None | t # _ \<Rightarrow> ct_uri t)))"

definition update_context_index ::
  "ContextType \<Rightarrow> usize \<Rightarrow> ConnectState \<Rightarrow> (ConnectError, unit) result \<times> ConnectState" where
  "update_context_index ty new_index st =
     (case get_context st ty of
        Inl e \<Rightarrow> (Err e, st)
      | Inr ctx \<Rightarrow>
          (Ok (), put_context ty (ctx\<lparr>sc_index := (sc_index ctx)\<lparr>index_track := as_u32 new_index\<rparr>\<rparr>) st))"

definition is_skip_track :: "ConnectState \<Rightarrow> ProvidedTrack \<Rightarrow> nat option \<Rightarrow> bool" where
  "is_skip_track st t iteration =
     (case get_context st (active_context st) of
        Inl _ \<Rightarrow> False
      | Inr ctx \<Rightarrow>
          (if get_initial_track (sc_metadata ctx) \<noteq> Some (uri t) then False
           else (case iteration of None \<Rightarrow> True | Some i \<Rightarrow> i = 0)))"

text \<open>\<open>str::replace\<close>: every occurrence of the pattern, from left to right.\<close>

function str_replace :: "string \<Rightarrow> string \<Rightarrow> string \<Rightarrow> string" where
  "str_replace pat rep [] = []"
| "str_replace pat rep (c # cs) =
     (if pat \<noteq> [] \<and> starts_with (c # cs) pat
      then rep @ str_replace pat rep (drop (length pat) (c # cs))
      else c # str_replace pat rep cs)"
  by pat_completeness auto
termination
  by (relation "measure (\<lambda>(_, _, s). length s)") auto

definition track_gid_uri :: "u8 list option \<Rightarrow> (ConnectError, SpotifyUri) result" where
  "track_gid_uri gid =
     (case gid of
        None \<Rightarrow> Err (StateErr (InvalidTrackUri None))
      | Some g \<Rightarrow>
          (if g = [] then Err (StateErr (InvalidTrackUri None))
           else (case from_raw g of Inl e \<Rightarrow> Err (IdErr e) | Inr i \<Rightarrow> Ok (Track i))))"

definition track_spotify_uri :: "ContextTrack \<Rightarrow> (ConnectError, SpotifyUri) result" where
  "track_spotify_uri t =
     (case ct_uri t of
        Some u \<Rightarrow>
          (if CHR ''?'' \<in> set u then Err (StateErr (InvalidTrackUri (Some u)))
           else if u \<noteq> [] then (case from_uri u of Inl e \<Rightarrow> Err (UriErr e) | Inr i \<Rightarrow> Ok i)
           else track_gid_uri (ct_gid t))
      | None \<Rightarrow> track_gid_uri (ct_gid t))"

definition context_to_provided_track ::
  "string \<Rightarrow> ConnectState \<Rightarrow> ContextTrack \<Rightarrow> string option \<Rightarrow> usize option \<Rightarrow> metadata option \<Rightarrow>
   Provider option \<Rightarrow> (ConnectError, ProvidedTrack) result" where
  "context_to_provided_track uuid st ctx_track ctx_uri ctx_index page_meta prov =
     and_then (track_spotify_uri ctx_track) (\<lambda>i.
       let u = str_replace ''unknown'' ''track'' (to_uri i);
           p = (if u \<in> set (unavailable_uri st) then ProviderUnavailable
                else unwrap_or prov ProviderContext);
           d = (case ct_uid ctx_track of
                  Some d \<Rightarrow> if d \<noteq> [] then d else uuid
                | None \<Rightarrow> uuid);
           m0 = unwrap_or page_meta Map.empty ++ ct_metadata ctx_track;
           m1 = (case ctx_uri of
                   Some c \<Rightarrow> set_context_uri c (set_entity_uri c m0)
                 | None \<Rightarrow> m0);
           m2 = (case ctx_index of Some k \<Rightarrow> set_context_index k m1 | None \<Rightarrow> m1);
           m3 = (if p = ProviderAutoplay then set_from_autoplay True m2 else m2)
       in Ok \<lparr>uri = u, uid = d, metadata = m3, provider = provider_to_string p\<rparr>)"

text \<open>The tracks of a page that convert, each with its position in the page (\<open>enumerate\<close>).\<close>

fun convert_tracks ::
  "(nat \<Rightarrow> string) \<Rightarrow> ConnectState \<Rightarrow> string \<Rightarrow> usize option \<Rightarrow> metadata \<Rightarrow> Provider option \<Rightarrow>
   nat \<Rightarrow> ContextTrack list \<Rightarrow> ProvidedTrack list" where
  "convert_tracks U st ctx_uri len page_meta prov i [] = []"
| "convert_tracks U st ctx_uri len page_meta prov i (t # ts) =
     (case context_to_provided_track (U i) st t (Some ctx_uri) (map_option (\<lambda>l. l + i) len)
             (Some page_meta) prov of
        Inr p \<Rightarrow> p # convert_tracks U st ctx_uri len page_meta prov (i + 1) ts
      | Inl _ \<Rightarrow> convert_tracks U st ctx_uri len page_meta prov (i + 1) ts)"

definition state_context_from_page ::
  "(nat \<Rightarrow> string) \<Rightarrow> ConnectState \<Rightarrow> ContextPage \<Rightarrow> metadata \<Rightarrow> ContextRestrictions option \<Rightarrow>
   string option \<Rightarrow> usize option \<Rightarrow> Provider option \<Rightarrow> StateContext" where
  "state_context_from_page U st page meta restr new_context_uri context_length prov =
     (let u = unwrap_or new_context_uri (context_uri (player st))
      in \<lparr>tracks = from_vec (convert_tracks U st u context_length (page_metadata page) prov 0 (page_tracks page)),
          sc_metadata = meta, sc_restrictions = restr, sc_index = context_index_new\<rparr>)"

definition fill_context_from_page ::
  "(nat \<Rightarrow> string) \<Rightarrow> ContextPage \<Rightarrow> ConnectState \<Rightarrow> (ConnectError, unit) result \<times> ConnectState" where
  "fill_context_from_page U page st =
     (let ctx_len = map_option (\<lambda>c. length (track_list c)) (context_field st);
          new = state_context_from_page U st page Map.empty None None ctx_len None
      in case context_field st of
           None \<Rightarrow> (Err (StateErr (NoContext DefaultContext)), st)
         | Some ctx \<Rightarrow>
             (Ok (), st\<lparr>context_field := Some (ctx\<lparr>tracks := fold vec_push (track_list new) (tracks ctx)\<rparr>)\<rparr>))"

fun first_prev_track_loop :: "StateContext \<Rightarrow> ProvidedTrack list \<Rightarrow> usize option" where
  "first_prev_track_loop ctx [] = None"
| "first_prev_track_loop ctx (p # ps) =
     (case find_index_in_context ctx (\<lambda>t. uri p = uri t) of
        Inr idx \<Rightarrow> Some idx
      | Inl _ \<Rightarrow> first_prev_track_loop ctx ps)"

definition find_first_prev_track_index :: "ConnectState \<Rightarrow> StateContext \<Rightarrow> usize option" where
  "find_first_prev_track_index st ctx = first_prev_track_loop ctx (rev (prev_of st))"

text \<open>\<open>Some (Inr i)\<close> is a position found, \<open>Some (Inl i)\<close> the fallback to the player's index.\<close>

definition find_last_index_in_new_context ::
  "ConnectState \<Rightarrow> StateContext \<Rightarrow> (nat + nat) option" where
  "find_last_index_in_new_context st new_context =
     (case context_field st of
        None \<Rightarrow> None
      | Some ctx \<Rightarrow>
          (let t = current_track st;
               is_queued_item = is_queue t \<or> is_from_queue (metadata t);
               found =
                 (if index_track (sc_index ctx) \<ge> SPOTIFY_MAX_NEXT_TRACKS_SIZE
                  then Some (index_track (sc_index ctx) - SPOTIFY_MAX_NEXT_TRACKS_SIZE)
                  else if is_queued_item then find_first_prev_track_index st new_context
                  else (case find_index_in_context new_context (\<lambda>c. uri t = uri c) of
                          Inr k \<Rightarrow> Some k | Inl _ \<Rightarrow> None))
           in Some (case found of
                      Some i \<Rightarrow> Inr (as_u32 i + 1)
                    | None \<Rightarrow> Inl (index_track (unwrap_or (index (player st)) context_index_new)))))"

definition clear_prev_track :: "ConnectState \<Rightarrow> ConnectState" where
  "clear_prev_track st = set_prev [] st"

text \<open>\<open>while len > n { pop() }\<close>.\<close>

function pop_while_longer :: "nat \<Rightarrow> 'a list \<Rightarrow> 'a list" where
  "pop_while_longer n xs = (if length xs > n then pop_while_longer n (butlast xs) else xs)"
  by pat_completeness auto
termination
  by (relation "measure (\<lambda>(_, xs). length xs)") auto

declare pop_while_longer.simps [simp del]

definition clear_next_tracks :: "ConnectState \<Rightarrow> ConnectState" where
  "clear_next_tracks st =
     (case position (\<lambda>t. \<not> is_queue t) (next_of st) of
        None \<Rightarrow> st
      | Some non_queued_track \<Rightarrow> set_next (pop_while_longer non_queued_track (next_of st)) st)"

text \<open>The loop that takes the first page with tracks out of the pages.\<close>

fun split_first_page :: "ContextPage list \<Rightarrow> ContextPage option \<times> ContextPage list" where
  "split_first_page [] = (None, [])"
| "split_first_page (p # ps) =
     (if page_tracks p \<noteq> [] then (Some p, ps)
      else (let (first, rest) = split_first_page ps in (first, p # rest)))"

text \<open>The \<open>flat_map\<close> over the remaining pages: load those with tracks, collect the urls of the others.\<close>

fun load_next_contexts ::
  "(nat \<Rightarrow> nat \<Rightarrow> string) \<Rightarrow> nat \<Rightarrow> ContextPage list \<Rightarrow> ConnectState \<Rightarrow> string list \<times> ConnectState" where
  "load_next_contexts U k [] st = ([], st)"
| "load_next_contexts U k (p # ps) st =
     (if page_tracks p \<noteq> [] then
        load_next_contexts U (k + 1) ps (snd (fill_context_from_page (U k) p st))
      else
        (let (uris, st') = load_next_contexts U (k + 1) ps st
         in case page_url p of
              Some url \<Rightarrow> if url \<noteq> [] then (page_url_to_uri url # uris, st') else (uris, st')
            | None \<Rightarrow> (uris, st')))"

definition preserve_position :: "StateContext \<Rightarrow> ConnectState \<Rightarrow> StateContext \<times> ConnectState" where
  "preserve_position new_context st =
     (case find_last_index_in_new_context st new_context of
        None \<Rightarrow> (new_context, st)
      | Some new_index \<Rightarrow>
          (let (i, st1) = (case new_index of
                             Inr i \<Rightarrow> (i, st)
                           | Inl i \<Rightarrow> (i, st\<lparr>player := (player st)\<lparr>index := None\<rparr>\<rparr>));
               ctx = new_context\<lparr>sc_index := (sc_index new_context)\<lparr>index_track := i\<rparr>\<rparr>;
               st2 = (case get_context st1 AutoplayContext of
                        Inl _ \<Rightarrow> st1
                      | Inr a \<Rightarrow> put_context AutoplayContext
                                  (a\<lparr>sc_index := (sc_index a)\<lparr>index_track := 0\<rparr>\<rparr>) st1)
           in (ctx, clear_next_tracks st2)))"

definition update_default_context ::
  "(nat \<Rightarrow> string) \<Rightarrow> Context \<Rightarrow> ContextPage \<Rightarrow> ConnectState \<Rightarrow> ConnectState" where
  "update_default_context U context page st =
     (let new = state_context_from_page U st page (c_metadata context) (c_restrictions context)
                  (c_uri context) (Some 0) None;
          same = (\<not> starts_with (context_uri (player st)) SEARCH_IDENTIFIER \<and>
                  c_uri context = Some (context_uri (player st)));
          (new1, st1) = (if same then preserve_position new st else (new, st));
          st2 = st1\<lparr>context_field := Some new1\<rparr>;
          search_url = (case c_url context of
                          Some url \<Rightarrow> str_contains url SEARCH_IDENTIFIER
                        | None \<Rightarrow> False)
      in st2\<lparr>player := (player st2)
               \<lparr>context_url := (if search_url then [] else unwrap_or (c_url context) []),
                context_uri := unwrap_or (c_uri context) []\<rparr>\<rparr>)"

definition update_autoplay_context ::
  "(nat \<Rightarrow> string) \<Rightarrow> Context \<Rightarrow> ContextPage \<Rightarrow> ConnectState \<Rightarrow> ConnectState" where
  "update_autoplay_context U context page st =
     st\<lparr>autoplay_context :=
          Some (state_context_from_page U st page (c_metadata context) (c_restrictions context)
                  (c_uri context) None (Some ProviderAutoplay))\<rparr>"

definition update_context ::
  "(nat \<Rightarrow> nat \<Rightarrow> string) \<Rightarrow> Context \<Rightarrow> ContextType \<Rightarrow> ConnectState \<Rightarrow>
   (ConnectError, string list option) result \<times> ConnectState" where
  "update_context U context ty st =
     (if list_all (\<lambda>p. page_tracks p = []) (c_pages context) then
        (Err (StateErr ContextHasNoTracks), st)
      else if (case c_uri context of Some u \<Rightarrow> starts_with u LOCAL_FILES_IDENTIFIER | None \<Rightarrow> False) then
        (Err (StateErr UnsupportedLocalPlayback), st)
      else
        (case split_first_page (c_pages context) of
           (None, _) \<Rightarrow> (Err (StateErr ContextHasNoTracks), st)
         | (Some page, next_contexts) \<Rightarrow>
             (let st1 = (case ty of
                           DefaultContext \<Rightarrow> update_default_context (U 0) context page st
                         | AutoplayContext \<Rightarrow> update_autoplay_context (U 0) context page st)
              in if next_contexts = [] then (Ok None, st1)
                 else (let (uris, st2) = load_next_contexts U 1 next_contexts st1
                       in (Ok (Some uris), st2)))))"

definition merge_track :: "ContextTrack \<Rightarrow> StateContext \<Rightarrow> StateContext" where
  "merge_track new_track ctx =
     (case ct_uri new_track of
        None \<Rightarrow> ctx
      | Some u \<Rightarrow>
          (if u = [] then ctx
           else (case find_index_in_context ctx (\<lambda>t. uri t = u) of
                   Inl _ \<Rightarrow> ctx
                 | Inr p \<Rightarrow>
                     (let t = track_list ctx ! p;
                          t1 = t\<lparr>metadata := metadata t ++ ct_metadata new_track\<rparr>;
                          t2 = (case ct_uid new_track of Some d \<Rightarrow> t1\<lparr>uid := d\<rparr> | None \<Rightarrow> t1)
                      in ctx\<lparr>tracks := (tracks ctx)\<lparr>vec := (track_list ctx)[p := t2]\<rparr>\<rparr>))))"

definition merge_context :: "ContextPage option \<Rightarrow> ConnectState \<Rightarrow> unit option \<times> ConnectState" where
  "merge_context new_page st =
     (case get_context st DefaultContext of
        Inl _ \<Rightarrow> (None, st)
      | Inr ctx \<Rightarrow>
          (case new_page of
             None \<Rightarrow> (None, st)
           | Some page \<Rightarrow>
               (Some (), put_context DefaultContext (fold merge_track (page_tracks page) ctx) st)))"

section \<open>Tracks (\<open>tracks.rs\<close>)\<close>

definition IDENTIFIER_DELIMITER :: string where
  "IDENTIFIER_DELIMITER = ''delimiter''"

definition is_delimiter :: "ProvidedTrack \<Rightarrow> bool" where
  "is_delimiter t \<longleftrightarrow> starts_with (uid t) IDENTIFIER_DELIMITER"

definition new_delimiter :: "nat \<Rightarrow> ProvidedTrack" where
  "new_delimiter iteration =
     \<lparr>uri = ''spotify:'' @ IDENTIFIER_DELIMITER, uid = IDENTIFIER_DELIMITER @ show_dec iteration,
      metadata = set_iteration iteration (set_hidden True Map.empty),
      provider = provider_to_string ProviderContext\<rparr>"

definition push_prev :: "ProvidedTrack \<Rightarrow> ConnectState \<Rightarrow> ConnectState" where
  "push_prev t st =
     (let prev = (if length (prev_of st) \<ge> SPOTIFY_MAX_PREV_TRACKS_SIZE
                  then vec_remove 0 (prev_of st) else prev_of st)
      in set_prev (prev @ [t]) st)"

definition get_next_track :: "ConnectState \<Rightarrow> ProvidedTrack option \<times> ConnectState" where
  "get_next_track st =
     (if next_of st = [] then (None, st)
      else (Some (next_of st ! 0), set_next (vec_remove 0 (next_of st)) st))"

definition set_current_track ::
  "usize \<Rightarrow> ConnectState \<Rightarrow> (ConnectError, unit) result \<times> ConnectState" where
  "set_current_track i st =
     (case get_context st (active_context st) of
        Inl e \<Rightarrow> (Err e, st)
      | Inr ctx \<Rightarrow>
          (case get (track_list ctx) i of
             None \<Rightarrow>
               (Err (StateErr (CanNotFindTrackInContext (Some i) (length (track_list ctx)))), st)
           | Some new_track \<Rightarrow>
               (Ok (), update_current_index (\<lambda>x. x\<lparr>index_track := as_u32 i\<rparr>) (set_track new_track st))))"

text \<open>\<open>draw n\<close> is the value of \<open>rand::rng().random_range(0..n)\<close>, which panics on an empty range.\<close>

definition set_current_track_random ::
  "(nat \<Rightarrow> nat) \<Rightarrow> ConnectState \<Rightarrow> (ConnectError, unit) result \<times> ConnectState" where
  "set_current_track_random draw st =
     (case get_context st (active_context st) of
        Inl e \<Rightarrow> (Err e, st)
      | Inr ctx \<Rightarrow>
          (let max_tracks = length (track_list ctx)
           in if max_tracks = 0 then (Err EmptyRange, st)
              else set_current_track (draw max_tracks) st))"

text \<open>
  One round of the loop of \<open>fill_up_next_tracks\<close>: it fails, breaks, skips a track, or pushes a
  track, after which the context to fill up from, the position in it and the iteration may have changed.
\<close>

datatype fill_round =
    FillFail ConnectError
  | FillBreak
  | FillSkip
  | FillPush ProvidedTrack ConnectState usize nat

definition fill_up_round :: "ConnectState \<Rightarrow> usize \<Rightarrow> nat \<Rightarrow> fill_round" where
  "fill_up_round st new_index iteration =
     (case get_context st (fill_up_context st) of
        Inl e \<Rightarrow> FillFail e
      | Inr ctx \<Rightarrow>
          (case get (track_list ctx) new_index of
             None \<Rightarrow>
               (if repeat_context st then
                  FillPush (new_delimiter iteration) st 0 (iteration + 1)
                else if fill_up_context st \<noteq> AutoplayContext \<and> autoplay_context st \<noteq> None then
                  (case update_context_index (fill_up_context st) new_index st of
                     (Inl e, _) \<Rightarrow> FillFail e
                   | (Inr _, st1) \<Rightarrow>
                       (let st2 = st1\<lparr>fill_up_context := AutoplayContext\<rparr>
                        in case get_context st2 AutoplayContext of
                             Inl e \<Rightarrow> FillFail e
                           | Inr a \<Rightarrow>
                               FillPush (new_delimiter iteration) st2 (index_track (sc_index a)) iteration))
                else if autoplay_context st \<noteq> None then
                  (case get_context st AutoplayContext of
                     Inl e \<Rightarrow> FillFail e
                   | Inr a \<Rightarrow>
                       (case get (track_list a) new_index of
                          None \<Rightarrow> FillBreak
                        | Some ct \<Rightarrow> FillPush ct st (new_index + 1) iteration))
                else FillBreak)
           | Some ct \<Rightarrow>
               (if is_unavailable ct \<or> is_skip_track st ct (Some iteration) then FillSkip
                else FillPush ct st (new_index + 1) iteration)))"

lemma fill_up_round_next:
  "fill_up_round st i it = FillPush t st' i' it' \<Longrightarrow> next_of st' = next_of st"
  by (auto simp: fill_up_round_def update_context_index_def put_context_def Let_def
      split: sum.splits option.splits if_splits ContextType.splits)

lemma fill_up_round_skip:
  assumes "fill_up_round st i it = FillSkip"
  obtains ctx where "get_context st (fill_up_context st) = Ok ctx" "i < length (track_list ctx)"
  using assms
  by (auto simp: fill_up_round_def update_context_index_def Let_def
      split: sum.splits option.splits if_splits ContextType.splits)

definition tracks_left :: "ConnectState \<Rightarrow> usize \<Rightarrow> nat" where
  "tracks_left st i =
     (case get_context st (fill_up_context st) of Inl _ \<Rightarrow> 0 | Inr ctx \<Rightarrow> length (track_list ctx) - i)"

function fill_up_loop ::
  "ConnectState \<Rightarrow> usize \<Rightarrow> nat \<Rightarrow> (ConnectError, usize) result \<times> ConnectState" where
  "fill_up_loop st new_index iteration =
     (if length (next_of st) < SPOTIFY_MAX_NEXT_TRACKS_SIZE then
        (case fill_up_round st new_index iteration of
           FillFail e \<Rightarrow> (Err e, st)
         | FillBreak \<Rightarrow> (Ok new_index, st)
         | FillSkip \<Rightarrow> fill_up_loop st (new_index + 1) iteration
         | FillPush t st' new_index' iteration' \<Rightarrow>
             fill_up_loop (set_next (next_of st' @ [t]) st') new_index' iteration')
      else (Ok new_index, st))"
  by pat_completeness auto
termination
proof (relation "measures [\<lambda>(st, i, it). SPOTIFY_MAX_NEXT_TRACKS_SIZE - length (next_of st),
                           \<lambda>(st, i, it). tracks_left st i]")
  fix st i it
  assume "fill_up_round st i it = FillSkip"
  then show "((st, i + 1, it), (st, i, it)) \<in> measures
      [\<lambda>(st, i, it). SPOTIFY_MAX_NEXT_TRACKS_SIZE - length (next_of st), \<lambda>(st, i, it). tracks_left st i]"
    by (rule fill_up_round_skip) (simp add: tracks_left_def)
next
  fix st i it t st' i' it'
  assume len: "length (next_of st) < SPOTIFY_MAX_NEXT_TRACKS_SIZE"
    and "fill_up_round st i it = FillPush t st' i' it'"
  then have "next_of st' = next_of st" by (intro fill_up_round_next)
  with len show "((set_next (next_of st' @ [t]) st', i', it'), (st, i, it)) \<in> measures
      [\<lambda>(st, i, it). SPOTIFY_MAX_NEXT_TRACKS_SIZE - length (next_of st), \<lambda>(st, i, it). tracks_left st i]"
    by (simp add: set_next_def diff_less_mono2)
qed simp

declare fill_up_loop.simps [simp del]

definition fill_up_next_tracks ::
  "(string list \<Rightarrow> u64) \<Rightarrow> ConnectState \<Rightarrow> (ConnectError, unit) result \<times> ConnectState" where
  "fill_up_next_tracks H st =
     (case get_context st (fill_up_context st) of
        Inl e \<Rightarrow> (Err e, st)
      | Inr ctx \<Rightarrow>
          sr_bind (fill_up_loop st (index_track (sc_index ctx)) (index_page (sc_index ctx))) (\<lambda>new_index st1.
          sr_bind (update_context_index (fill_up_context st1) new_index st1) (\<lambda>_ st2.
          (Ok (), update_queue_revision H st2))))"

text \<open>The loop of \<open>next_track\<close> that takes tracks until one can be played.\<close>

function next_track_loop :: "ConnectState \<Rightarrow> ProvidedTrack option \<times> ConnectState" where
  "next_track_loop st =
     (case get_next_track st of
        (Some t, st1) \<Rightarrow>
          (if is_delimiter t then next_track_loop (push_prev t st1)
           else if is_unavailable t then next_track_loop st1
           else (Some t, st1))
      | (None, st1) \<Rightarrow> (None, st1))"
  by pat_completeness auto
termination
  by (relation "measure (\<lambda>st. length (next_of st))")
     (auto simp: get_next_track_def push_prev_def set_next_def set_prev_def vec_remove_def Let_def
       split: if_splits)

declare next_track_loop.simps [simp del]

definition take_track :: "ConnectState \<Rightarrow> ProvidedTrack option \<times> ConnectState" where
  "take_track st = (track (player st), st\<lparr>player := (player st)\<lparr>track := None\<rparr>\<rparr>)"

definition next_track ::
  "(string list \<Rightarrow> u64) \<Rightarrow> ConnectState \<Rightarrow> (ConnectError, nat option) result \<times> ConnectState" where
  "next_track H st =
     (let st0 = (if repeat_track st then set_repeat_track False st else st);
          (old_track, st1) = take_track st0;
          st2 = (case old_track of
                   Some t \<Rightarrow> if is_context t \<or> is_autoplay t then push_prev t st1 else st1
                 | None \<Rightarrow> st1);
          (new_track, st3) = next_track_loop st2
      in case new_track of
           None \<Rightarrow> (Ok None, st3)
         | Some t \<Rightarrow>
             sr_bind (fill_up_next_tracks H st3) (\<lambda>_ st4.
               let (update_index, st5) =
                     (if is_queue t then (None, st4)
                      else if is_autoplay t then (None, set_active_context AutoplayContext st4)
                      else (map_option as_u32 (get_context_index (metadata t)), st4));
                   st6 = (case update_index of
                            Some i \<Rightarrow> update_current_index (\<lambda>x. x\<lparr>index_track := i\<rparr>) st5
                          | None \<Rightarrow> st5\<lparr>player := (player st5)\<lparr>index := None\<rparr>\<rparr>);
                   st7 = update_restrictions (set_track t st6)
               in (Ok (Some (index_track (unwrap_or (index (player st7)) context_index_new))), st7)))"

definition take_delimiter_back :: "ConnectState \<Rightarrow> ConnectState" where
  "take_delimiter_back st =
     (if prev_of st \<noteq> [] \<and> is_delimiter (last (prev_of st)) then
        (let delimiter = last (prev_of st);
             st1 = set_prev (butlast (prev_of st)) st;
             next = (if length (next_of st1) \<ge> SPOTIFY_MAX_NEXT_TRACKS_SIZE
                     then butlast (next_of st1) else next_of st1)
         in set_next (vec_insert 0 delimiter next) st1)
      else st)"

definition prev_track ::
  "(string list \<Rightarrow> u64) \<Rightarrow> ConnectState \<Rightarrow> (ConnectError, ProvidedTrack option) result \<times> ConnectState" where
  "prev_track H st =
     (let (old_track, st1) = take_track st;
          st2 = (case old_track of
                   Some t \<Rightarrow> if is_context t \<or> is_autoplay t
                             then set_next (vec_insert 0 t (next_of st1)) st1 else st1
                 | None \<Rightarrow> st1);
          st3 = take_delimiter_back st2;
          st4 = set_next (pop_while_longer SPOTIFY_MAX_NEXT_TRACKS_SIZE (next_of st3)) st3
      in if prev_of st4 = [] then (Ok None, st4)
         else
           (let new_track = last (prev_of st4);
                st5 = set_prev (butlast (prev_of st4)) st4;
                st6 = (if active_context st5 = AutoplayContext \<and> is_context new_track
                       then set_active_context DefaultContext st5 else st5)
            in sr_bind (fill_up_next_tracks H st6) (\<lambda>_ st7.
                 let st8 = set_track new_track st7;
                     st9 = (if index_track (unwrap_or (index (player st8)) context_index_new) = 0 then st8
                            else update_current_index (\<lambda>x. x\<lparr>index_track := index_track x - 1\<rparr>) st8);
                     st10 = update_restrictions st9
                 in (Ok (track (player st10)), st10))))"

text \<open>The pass of \<open>set_next_tracks\<close> that relabels the queued tracks, with the queue counter.\<close>

fun relabel_queued :: "nat \<Rightarrow> ProvidedTrack list \<Rightarrow> ProvidedTrack list \<times> nat" where
  "relabel_queued n [] = ([], n)"
| "relabel_queued n (t # ts) =
     (if is_from_queue (metadata t) then
        (let (ts', n') = relabel_queued (n + 1) ts
         in ((set_provider ProviderQueue t)\<lparr>uid := CHR ''q'' # show_dec n\<rparr> # ts', n'))
      else (let (ts', n') = relabel_queued n ts in (t # ts', n')))"

definition set_next_tracks :: "ProvidedTrack list \<Rightarrow> ConnectState \<Rightarrow> ConnectState" where
  "set_next_tracks ts st =
     (let (ts1, n) = relabel_queued (queue_count st) ts;
          st1 = st\<lparr>queue_count := n\<rparr>;
          ts2 = map (\<lambda>t. if uri t = [] then t\<lparr>uri := uri (current_track st1)\<rparr> else t) ts1
      in set_next ts2 st1)"

definition set_prev_tracks :: "ProvidedTrack list \<Rightarrow> ConnectState \<Rightarrow> ConnectState" where
  "set_prev_tracks ts st = set_prev ts st"

definition preview_next_track :: "ConnectState \<Rightarrow> SpotifyUri option" where
  "preview_next_track st =
     (case (if repeat_track st then Some (uri (current_track st))
            else map_option uri (get (next_of st) 0)) of
        None \<Rightarrow> None
      | Some u \<Rightarrow> (case from_uri u of Inr i \<Rightarrow> Some i | Inl _ \<Rightarrow> None))"

definition has_next_tracks :: "ConnectState \<Rightarrow> usize option \<Rightarrow> bool" where
  "has_next_tracks st least =
     (case least of Some n \<Rightarrow> length (next_of st) \<ge> n | None \<Rightarrow> next_of st \<noteq> [])"

definition recent_track_uris :: "ConnectState \<Rightarrow> string list" where
  "recent_track_uris st = map uri (prev_of st) @ [uri (current_track st)]"

text \<open>\<open>while let Some(pos) = position(..) { remove(pos) }\<close>.\<close>

function remove_uri :: "string \<Rightarrow> ProvidedTrack list \<Rightarrow> ProvidedTrack list" where
  "remove_uri u ts =
     (case position (\<lambda>t. uri t = u) ts of
        Some pos \<Rightarrow> remove_uri u (vec_remove pos ts)
      | None \<Rightarrow> ts)"
  by pat_completeness auto
termination
  by (relation "measure (\<lambda>(_, ts). length ts)") (auto simp: length_vec_remove dest: position_less)

declare remove_uri.simps [simp del]

definition mark_as_unavailable_for_match :: "string \<Rightarrow> ProvidedTrack \<Rightarrow> ProvidedTrack" where
  "mark_as_unavailable_for_match u t = (if uri t = u then set_provider ProviderUnavailable t else t)"

definition mark_unavailable ::
  "(string list \<Rightarrow> u64) \<Rightarrow> SpotifyUri \<Rightarrow> ConnectState \<Rightarrow> (ConnectError, unit) result \<times> ConnectState" where
  "mark_unavailable H i st =
     (let u = to_uri i;
          st1 = set_next (map (mark_as_unavailable_for_match u) (remove_uri u (next_of st))) st;
          st2 = set_prev (map (mark_as_unavailable_for_match u) (remove_uri u (prev_of st1))) st1;
          st3 = st2\<lparr>unavailable_uri := unavailable_uri st2 @ [u]\<rparr>
      in sr_bind (fill_up_next_tracks H st3) (\<lambda>_ st4. (Ok (), update_queue_revision H st4)))"

definition add_to_queue ::
  "(string list \<Rightarrow> u64) \<Rightarrow> ProvidedTrack \<Rightarrow> bool \<Rightarrow> ConnectState \<Rightarrow> ConnectState" where
  "add_to_queue H t0 rev_update st =
     (let t1 = t0\<lparr>uid := CHR ''q'' # show_dec (queue_count st)\<rparr>;
          st1 = st\<lparr>queue_count := queue_count st + 1\<rparr>;
          t2 = set_provider ProviderQueue t1;
          t3 = (if \<not> is_from_queue (metadata t2)
                then t2\<lparr>metadata := set_from_queue True (metadata t2)\<rparr> else t2);
          next = (case position (\<lambda>t. \<not> is_queue t) (next_of st1) of
                    Some k \<Rightarrow> vec_insert k t3 (next_of st1)
                  | None \<Rightarrow> next_of st1 @ [t3]);
          st2 = set_next (pop_while_longer SPOTIFY_MAX_NEXT_TRACKS_SIZE next) st1;
          st3 = (if rev_update then update_queue_revision H st2 else st2)
      in update_restrictions st3)"

section \<open>Repositioning and shuffling\<close>

text \<open>\<open>rev().skip(len - new_index).take(10).rev()\<close>; the subtraction can underflow.\<close>

definition prev_tracks_before :: "usize \<Rightarrow> StateContext \<Rightarrow> (ConnectError, ProvidedTrack list) result" where
  "prev_tracks_before new_index ctx =
     (let n = length (track_list ctx)
      in if n < new_index then Err ArithmeticOverflow
         else Ok (rev (take SPOTIFY_MAX_PREV_TRACKS_SIZE (drop (n - new_index) (rev (track_list ctx))))))"

definition reset_playback_to_position ::
  "(string list \<Rightarrow> u64) \<Rightarrow> usize option \<Rightarrow> ConnectState \<Rightarrow> (ConnectError, unit) result \<times> ConnectState" where
  "reset_playback_to_position H new_index_opt st =
     (let new_index = unwrap_or new_index_opt 0;
          st1 = update_current_index (\<lambda>x. x\<lparr>index_track := as_u32 new_index\<rparr>) st
      in sr_bind (update_context_index (active_context st1) (new_index + 1) st1) (\<lambda>_ st2.
           let st3 = st2\<lparr>fill_up_context := active_context st2\<rparr>
           in sr_bind (if \<not> (is_queue (current_track st3) \<or> is_skip_track st3 (current_track st3) None)
                       then set_current_track new_index st3 else (Ok (), st3)) (\<lambda>_ st4.
           let st5 = clear_prev_track st4
           in sr_bind (if new_index > 0 then
                         (case and_then (get_context st5 (active_context st5)) (prev_tracks_before new_index) of
                            Inl e \<Rightarrow> (Err e, st5)
                          | Inr prev \<Rightarrow> (Ok (), set_prev prev st5))
                       else (Ok (), st5)) (\<lambda>_ st6.
           sr_bind (fill_up_next_tracks H (clear_next_tracks st6)) (\<lambda>_ st7.
           (Ok (), update_restrictions st7))))))"

definition validate_shuffle_allowed :: "ConnectState \<Rightarrow> (ConnectError, unit) result" where
  "validate_shuffle_allowed st =
     (case disallow_toggling_shuffle_reasons (unwrap_or (restrictions (player st)) restrictions_new) of
        reason # _ \<Rightarrow> Err (StateErr (CurrentlyDisallowed ''shuffle'' reason))
      | [] \<Rightarrow> Ok ())"

definition shuffle ::
  "(string list \<Rightarrow> u64) \<Rightarrow> 'g Rng \<Rightarrow> u64 \<Rightarrow> string \<Rightarrow> ConnectState \<Rightarrow> (ConnectError, unit) result \<times> ConnectState" where
  "shuffle H R seed initial st =
     (let st1 = reset_context DefaultIndex (clear_next_tracks (clear_prev_track st))
      in case get_context st1 DefaultContext of
           Inl e \<Rightarrow> (Err e, st1)
         | Inr ctx \<Rightarrow>
             fill_up_next_tracks H
               (put_context DefaultContext
                  (ctx\<lparr>tracks := shuffle_with_seed R seed (\<lambda>f. uri f = initial) (tracks ctx),
                       sc_metadata := set_shuffle_seed seed (set_initial_track initial (sc_metadata ctx))\<rparr>) st1))"

definition shuffle_restore ::
  "(string list \<Rightarrow> u64) \<Rightarrow> 'g Rng \<Rightarrow> ShuffleState \<Rightarrow> ConnectState \<Rightarrow> (ConnectError, unit) result \<times> ConnectState" where
  "shuffle_restore H R s st =
     (case validate_shuffle_allowed st of
        Inl e \<Rightarrow> (Err e, st)
      | Inr _ \<Rightarrow> shuffle H R (ss_seed s) (ss_initial_track s) st)"

definition shuffle_new ::
  "(string list \<Rightarrow> u64) \<Rightarrow> 'g Rng \<Rightarrow> u64 \<Rightarrow> ConnectState \<Rightarrow> (ConnectError, unit) result \<times> ConnectState" where
  "shuffle_new H R new_seed st =
     (case validate_shuffle_allowed st of
        Inl e \<Rightarrow> (Err e, st)
      | Inr _ \<Rightarrow> shuffle H R new_seed (uri (current_track st)) st)"

section \<open>Command handlers (\<open>handle.rs\<close>)\<close>

definition handle_shuffle ::
  "(string list \<Rightarrow> u64) \<Rightarrow> 'g Rng \<Rightarrow> u64 \<Rightarrow> bool \<Rightarrow> ConnectState \<Rightarrow> (ConnectError, unit) result \<times> ConnectState" where
  "handle_shuffle H R new_seed b st =
     (let st1 = set_shuffle b st
      in if b then shuffle_new H R new_seed st1
         else
           (let st2 = reset_context DefaultIndex st1
            in case track (player st2) of
                 None \<Rightarrow> (Ok (), st2)
               | Some t \<Rightarrow>
                   (case get_context_index (metadata t) of
                      Some i \<Rightarrow> reset_playback_to_position H (Some i) st2
                    | None \<Rightarrow>
                        (case and_then (get_context st2 DefaultContext)
                                (\<lambda>ctx. find_index_in_context ctx (\<lambda>c. uri c = uri t)) of
                           Inl e \<Rightarrow> (Err e, st2)
                         | Inr i \<Rightarrow> reset_playback_to_position H (Some i) st2))))"

definition handle_set_queue ::
  "(string list \<Rightarrow> u64) \<Rightarrow> ProvidedTrack list \<Rightarrow> ProvidedTrack list \<Rightarrow> ConnectState \<Rightarrow> ConnectState" where
  "handle_set_queue H next prev st =
     update_queue_revision H (set_prev_tracks prev (set_next_tracks next st))"

definition handle_set_repeat_context ::
  "(string list \<Rightarrow> u64) \<Rightarrow> bool \<Rightarrow> ConnectState \<Rightarrow> (ConnectError, unit) result \<times> ConnectState" where
  "handle_set_repeat_context H b st =
     (let st1 = set_repeat_context b st;
          st2 = (if b \<and> fill_up_context st1 = AutoplayContext
                 then st1\<lparr>fill_up_context := DefaultContext\<rparr> else st1)
      in case and_then (get_context st2 DefaultContext)
                (\<lambda>ctx. find_index_in_context ctx (\<lambda>t. uri (current_track st2) = uri t)) of
           Inl e \<Rightarrow> (Err e, st2)
         | Inr i \<Rightarrow> reset_playback_to_position H (Some i) st2)"

text \<open>\<open>became_inactive\<close>, up to the request that reports it.\<close>

definition became_inactive :: "u128 \<Rightarrow> ConnectState \<Rightarrow> ConnectState" where
  "became_inactive now st = reset_context Completely (reset now st)"

section \<open>Transfers (\<open>transfer.rs\<close>)\<close>

definition playing_queue :: "TransferState \<Rightarrow> bool" where
  "playing_queue t = unwrap_or (q_is_playing_queue (queue_of t)) False"

definition session_context :: "Session \<Rightarrow> Context" where
  "session_context s = unwrap_or (s_context s) context_new"

definition current_track_from_transfer ::
  "string \<Rightarrow> ConnectState \<Rightarrow> TransferState \<Rightarrow> (ConnectError, ProvidedTrack) result" where
  "current_track_from_transfer uuid st t =
     and_then
       (ok_or (if playing_queue t then get (q_tracks (queue_of t)) 0
               else pb_current_track (playback_of t))
          (StateErr CouldNotResolveTrackFromTransfer))
       (\<lambda>ct. context_to_provided_track uuid st ct (c_uri (session_context (session_of t))) None None
               (if playing_queue t then Some ProviderQueue else None))"

text \<open>What the session of a transfer changes in the player, and what is left of the session.\<close>

definition transfer_session :: "Session \<Rightarrow> PlayerState \<Rightarrow> Session \<times> PlayerState" where
  "transfer_session s p =
     (let p1 = p\<lparr>play_origin := map_option to_player_origin (s_play_origin s),
                 suppressions := map_option to_player_suppressions (s_suppressions s)\<rparr>;
          p2 = (case s_context s of
                  None \<Rightarrow> p1
                | Some ctx \<Rightarrow>
                    p1\<lparr>restrictions := map_option to_player_restrictions (c_restrictions ctx),
                       context_metadata := context_metadata p1 ++ c_metadata ctx\<rparr>)
      in (s\<lparr>s_play_origin := None, s_suppressions := None, s_context := None\<rparr>, p2))"

definition transfer_shuffle_state :: "Session \<Rightarrow> ShuffleState option" where
  "transfer_shuffle_state s =
     (let m = c_metadata (session_context s)
      in case (Option.bind (get_shuffle_seed m) (from_str_radix 10), get_initial_track m) of
           (Some seed, Some initial) \<Rightarrow> Some \<lparr>ss_seed = seed, ss_initial_track = initial\<rparr>
         | _ \<Rightarrow> None)"

definition handle_initial_transfer ::
  "(string list \<Rightarrow> u64) \<Rightarrow> TransferState \<Rightarrow> string option \<Rightarrow> ConnectState \<Rightarrow> TransferState \<times> ConnectState" where
  "handle_initial_transfer H t ctx_uri st =
     (let p0 = (player st)\<lparr>is_buffering := False\<rparr>;
          p1 = (case t_options t of
                  Some opts \<Rightarrow> p0\<lparr>options := Some (to_player_options opts)\<rparr>
                | None \<Rightarrow> p0);
          paused = unwrap_or (pb_is_paused (playback_of t)) False;
          speed = (case pb_playback_speed (playback_of t) of
                     Some x \<Rightarrow> if f64_is_zero x then f64_one else x
                   | None \<Rightarrow> f64_one);
          p2 = p1\<lparr>is_paused := paused, is_playing_flag := \<not> paused, playback_speed := speed\<rparr>;
          (session, p3) = (case t_current_session t of
                             Some s \<Rightarrow> (let (s', p) = transfer_session s p2 in (Some s', p))
                           | None \<Rightarrow> (None, p2));
          u = unwrap_or ctx_uri ''spotify:unknown'';
          p4 = p3\<lparr>context_url := ''context://'' @ u, context_uri := u\<rparr>;
          p5 = (case context_field st of
                  Some c \<Rightarrow> p4\<lparr>context_metadata := context_metadata p4 ++ sc_metadata c\<rparr>
                | None \<Rightarrow> p4);
          st1 = st\<lparr>player := p5,
                   transfer_shuffle := (case t_current_session t of
                                          Some s \<Rightarrow> transfer_shuffle_state s
                                        | None \<Rightarrow> None)\<rparr>
      in (t\<lparr>t_options := None, t_current_session := session\<rparr>,
          update_queue_revision H (clear_next_tracks (clear_prev_track st1))))"

text \<open>The loop over the transferred queue; the track being played from it is not queued again.\<close>

fun queue_transferred ::
  "(string list \<Rightarrow> u64) \<Rightarrow> (nat \<Rightarrow> string) \<Rightarrow> bool \<Rightarrow> nat \<Rightarrow> ContextTrack list \<Rightarrow> ConnectState \<Rightarrow> ConnectState" where
  "queue_transferred H U playing i [] st = st"
| "queue_transferred H U playing i (t # ts) st =
     queue_transferred H U playing (i + 1) ts
       (if playing \<and> i = 0 then st
        else (case context_to_provided_track (U i) st t (Some (context_uri (player st))) None None
                     (Some ProviderQueue) of
                Inr queued \<Rightarrow> add_to_queue H queued False st
              | Inl _ \<Rightarrow> st))"

definition transfer_index ::
  "StateContext \<Rightarrow> TransferState \<Rightarrow> ProvidedTrack \<Rightarrow> usize option" where
  "transfer_index ctx t tr =
     (let by_track = position (\<lambda>c. uri c = uri tr \<or> uid c = uid tr) (track_list ctx)
      in case s_current_uid (session_of t) of
           Some d \<Rightarrow>
             (if is_queue tr
              then map_option (\<lambda>i. if i > 0 then i - 1 else i) (position (\<lambda>c. uid c = d) (track_list ctx))
              else by_track)
         | None \<Rightarrow> by_track)"

definition finish_transfer ::
  "(string list \<Rightarrow> u64) \<Rightarrow> 'g Rng \<Rightarrow> u64 \<Rightarrow> (nat \<Rightarrow> string) \<Rightarrow> TransferState \<Rightarrow> ConnectState \<Rightarrow>
   (ConnectError, unit) result \<times> ConnectState" where
  "finish_transfer H R new_seed U t st =
     sr_bind (case track (player st) of
                None \<Rightarrow> (current_track_from_transfer (U 0) st t, st)
              | Some tr \<Rightarrow> (Ok tr, st)) (\<lambda>tr st0.
       let ty = (if is_from_autoplay (metadata (current_track st0)) then AutoplayContext else DefaultContext);
           st1 = (set_active_context ty st0)\<lparr>fill_up_context := ty\<rparr>
       in sr_bind (get_context st1 (active_context st1), st1) (\<lambda>ctx st1.
       let current_index = transfer_index ctx t tr;
           st2 = (if track (player st1) = None then set_track tr st1 else st1);
           st3 = (case current_index of
                    Some i \<Rightarrow> update_current_index (\<lambda>x. x\<lparr>index_track := as_u32 i\<rparr>) st2
                  | None \<Rightarrow> st2);
           st4 = queue_transferred H (\<lambda>i. U (i + 1)) (playing_queue t) 0 (q_tracks (queue_of t)) st3
       in sr_bind
            (if shuffling st4 then
               sr_bind (set_current_track (unwrap_or current_index 0) st4) (\<lambda>_ st5.
                 let st6 = set_shuffle True st5;
                     st7 = st6\<lparr>transfer_shuffle := None\<rparr>
                 in case transfer_shuffle st6 of
                      None \<Rightarrow> shuffle_new H R new_seed st7
                    | Some s \<Rightarrow> shuffle_restore H R s st7)
             else reset_playback_to_position H current_index st4)
            (\<lambda>_ st8. (Ok (), update_restrictions st8))))"

end
