(* ===== verification/Connect_Queue.thy ===== *)
theory Connect_Queue
  imports Connect_State "HOL-Library.Sublist"
begin

text \<open>
  The queue of upcoming tracks: what \<open>fill_up_next_tracks\<close>, \<open>clear_next_tracks\<close>, \<open>add_to_queue\<close>,
  \<open>next_track\<close>, \<open>prev_track\<close>, \<open>mark_unavailable\<close> and \<open>reset_playback_to_position\<close> do to the lists of
  next and previous tracks. The specification \<open>upcoming\<close> says in one expression which tracks a
  state has to offer; the loop that fetches them one by one is shown to compute it.
\<close>

section \<open>Frames\<close>

lemma next_prev_set [simp]:
  "next_of (set_next ts st) = ts"
  "prev_of (set_next ts st) = prev_of st"
  "next_of (set_prev ts st) = next_of st"
  "prev_of (set_prev ts st) = ts"
  "next_of (set_track t st) = next_of st"
  "prev_of (set_track t st) = prev_of st"
  "track (player (set_track t st)) = Some t"
  "track (player (set_next ts st)) = track (player st)"
  "track (player (set_prev ts st)) = track (player st)"
  by (simp_all add: set_next_def set_prev_def set_track_def)

text \<open>What the fill-up reads apart from the list of next tracks.\<close>

definition same_contexts :: "ConnectState \<Rightarrow> ConnectState \<Rightarrow> bool" where
  "same_contexts st st' \<longleftrightarrow>
     context_field st' = context_field st \<and> autoplay_context st' = autoplay_context st \<and>
     fill_up_context st' = fill_up_context st \<and> active_context st' = active_context st \<and>
     repeat_context st' = repeat_context st"

lemma same_contexts_refl [simp]: "same_contexts st st"
  by (simp add: same_contexts_def)

lemma same_contexts_set [simp]:
  "same_contexts st (set_next ts st)"
  "same_contexts st (set_prev ts st)"
  "same_contexts st (set_track t st)"
  by (simp_all add: same_contexts_def set_next_def set_prev_def set_track_def repeat_context_def
      player_options_def)

lemma same_contexts_trans: "same_contexts a b \<Longrightarrow> same_contexts b c \<Longrightarrow> same_contexts a c"
  by (simp add: same_contexts_def)

lemma same_contexts_eqs:
  assumes "same_contexts st st'"
  shows "context_of ty st' = context_of ty st"
    and "get_context st' ty = get_context st ty"
    and "fill_up_context st' = fill_up_context st"
    and "active_context st' = active_context st"
    and "autoplay_context st' = autoplay_context st"
    and "context_field st' = context_field st"
    and "repeat_context st' = repeat_context st"
    and "is_skip_track st' t it = is_skip_track st t it"
  using assms
  by (auto simp: same_contexts_def context_of_def get_context_def is_skip_track_def
      split: ContextType.split)

lemmas set_next_frame [simp] = same_contexts_eqs [OF same_contexts_set(1)]
lemmas set_prev_frame [simp] = same_contexts_eqs [OF same_contexts_set(2)]
lemmas set_track_frame [simp] = same_contexts_eqs [OF same_contexts_set(3)]

lemma get_context_Ok [simp]: "get_context st ty = Inr ctx \<longleftrightarrow> context_of ty st = Some ctx"
  by (simp add: get_context_def)

lemma set_next_collapse [simp]:
  "set_next a (set_next b st) = set_next a st"
  "set_next (next_of st) st = st"
  by (simp_all add: set_next_def)

section \<open>Lists: popping, clearing and removing\<close>

lemma pop_while_longer_take: "pop_while_longer n xs = take n xs"
proof (induction n xs rule: pop_while_longer.induct)
  case (1 n xs)
  then show ?case
    by (subst pop_while_longer.simps) (auto simp: butlast_conv_take min_def)
qed

lemma position_not: "position (\<lambda>x. \<not> P x) xs =
    (if \<forall>x \<in> set xs. P x then None else Some (length (takeWhile P xs)))"
  by (induction xs) auto

lemma clear_next_tracks_next [simp]: "next_of (clear_next_tracks st) = takeWhile is_queue (next_of st)"
  by (simp add: clear_next_tracks_def position_not pop_while_longer_take takeWhile_eq_take [symmetric])
     (metis takeWhile_eq_all_conv)

lemma clear_next_tracks_eq: "clear_next_tracks st = set_next (takeWhile is_queue (next_of st)) st"
  using clear_next_tracks_next [of st]
  by (auto simp: clear_next_tracks_def split: option.splits)

lemma vec_remove_filter:
  "position P xs = Some i \<Longrightarrow> filter (\<lambda>x. \<not> P x) (vec_remove i xs) = filter (\<lambda>x. \<not> P x) xs"
proof (induction xs arbitrary: i)
  case (Cons x xs)
  then show ?case by (cases i) (auto simp: vec_remove_def split: if_splits option.splits)
qed simp

lemma remove_uri_filter: "remove_uri u ts = filter (\<lambda>t. uri t \<noteq> u) ts"
proof (induction u ts rule: remove_uri.induct)
  case (1 u ts)
  show ?case
  proof (cases "position (\<lambda>t. uri t = u) ts")
    case None
    then have "filter (\<lambda>t. uri t \<noteq> u) ts = ts" by (simp add: position_None_iff filter_id_conv)
    with None show ?thesis by (subst remove_uri.simps) simp
  next
    case (Some i)
    with 1 vec_remove_filter [OF Some] show ?thesis by (subst remove_uri.simps) simp
  qed
qed

lemma marking_is_dead:
  "map (mark_as_unavailable_for_match u) (filter (\<lambda>t. uri t \<noteq> u) ts) = filter (\<lambda>t. uri t \<noteq> u) ts"
  by (rule map_idI) (auto simp: mark_as_unavailable_for_match_def)

section \<open>Filling up: the specification\<close>

text \<open>A track is loaded unless it is unavailable or the one the shuffle started with.\<close>

definition loads :: "ConnectState \<Rightarrow> nat \<Rightarrow> ProvidedTrack \<Rightarrow> bool" where
  "loads st it t \<longleftrightarrow> \<not> is_unavailable t \<and> \<not> is_skip_track st t (Some it)"

text \<open>A repeated context: a delimiter and all its tracks, \<open>n\<close> times.\<close>

primrec repeated :: "ConnectState \<Rightarrow> ProvidedTrack list \<Rightarrow> nat \<Rightarrow> nat \<Rightarrow> ProvidedTrack list" where
  "repeated st ts it 0 = []"
| "repeated st ts it (Suc n) =
     new_delimiter it # filter (loads st (it + 1)) ts @ repeated st ts (it + 1) n"

definition upcoming_from :: "ConnectState \<Rightarrow> StateContext \<Rightarrow> usize \<Rightarrow> nat \<Rightarrow> nat \<Rightarrow> ProvidedTrack list" where
  "upcoming_from st ctx i it n =
     filter (loads st it) (drop i (track_list ctx)) @
     (if repeat_context st then repeated st (track_list ctx) it n
      else if fill_up_context st = DefaultContext then
        (case autoplay_context st of
           None \<Rightarrow> []
         | Some a \<Rightarrow>
             new_delimiter it # filter (loads st it) (drop (index_track (sc_index a)) (track_list a)))
      else [])"

text \<open>The tracks the state offers after its list of next tracks.\<close>

definition upcoming :: "ConnectState \<Rightarrow> ProvidedTrack list" where
  "upcoming st =
     (case context_of (fill_up_context st) st of
        None \<Rightarrow> []
      | Some ctx \<Rightarrow>
          upcoming_from st ctx (index_track (sc_index ctx)) (index_page (sc_index ctx))
            (SPOTIFY_MAX_NEXT_TRACKS_SIZE - length (next_of st)))"

lemma loads_set_next [simp]: "loads (set_next ts st) = loads st"
  by (simp add: loads_def fun_eq_iff)

lemma repeated_set_next [simp]: "repeated (set_next ts st) = repeated st"
proof (intro ext)
  fix xs it n
  show "repeated (set_next ts st) xs it n = repeated st xs it n"
    by (induction n arbitrary: it) simp_all
qed

lemma upcoming_from_set_next [simp]: "upcoming_from (set_next ts st) = upcoming_from st"
  by (intro ext) (simp add: upcoming_from_def split: option.split)

lemma take_repeated:
  "m \<le> n \<Longrightarrow> m \<le> n' \<Longrightarrow> take m (repeated st ts it n) = take m (repeated st ts it n')"
proof (induction m arbitrary: it n n' rule: less_induct)
  case (less m)
  show ?case
  proof (cases m)
    case (Suc k)
    then obtain j j' where "n = Suc j" "n' = Suc j'" "k \<le> j" "k \<le> j'"
      using less.prems by (metis Suc_le_D Suc_le_mono)
    then show ?thesis using Suc by (simp add: less.IH)
  qed simp
qed

lemma take_upcoming_from:
  "m \<le> n \<Longrightarrow> m \<le> n' \<Longrightarrow> take m (upcoming_from st ctx i it n) = take m (upcoming_from st ctx i it n')"
  by (simp add: upcoming_from_def take_repeated)

section \<open>Filling up: the loop computes the specification\<close>

lemma loads_cong_contexts:
  "active_context st' = active_context st \<Longrightarrow>
   map_option sc_metadata (context_of (active_context st) st') =
     map_option sc_metadata (context_of (active_context st) st) \<Longrightarrow> loads st' = loads st"
  by (intro ext) (auto simp: loads_def is_skip_track_def get_context_def ok_or_def split: option.splits)

text \<open>
  What filling up may change: the list of next tracks with its revision, which context it fills
  from, and the positions in the contexts.
\<close>

definition reindexed :: "StateContext option \<Rightarrow> StateContext option \<Rightarrow> bool" where
  "reindexed c c' \<longleftrightarrow> (\<exists>k. c' = map_option (\<lambda>x. x\<lparr>sc_index := k\<rparr>) c)"

lemma reindexed_refl [simp]: "reindexed c c"
proof -
  have "c = map_option (\<lambda>x. x\<lparr>sc_index := sc_index (the c)\<rparr>) c" by (cases c) simp_all
  then show ?thesis unfolding reindexed_def by blast
qed

lemma reindexed_trans: "reindexed a b \<Longrightarrow> reindexed b c \<Longrightarrow> reindexed a c"
  by (auto simp: reindexed_def option.map_comp comp_def)

lemma reindexed_Some [simp]: "reindexed (Some x) (Some (x\<lparr>sc_index := k\<rparr>))"
  by (auto simp: reindexed_def)

lemma reindexed_tracks: "reindexed c c' \<Longrightarrow> map_option tracks c' = map_option tracks c"
  by (auto simp: reindexed_def option.map_comp comp_def)

definition fill_frame :: "ConnectState \<Rightarrow> ConnectState \<Rightarrow> bool" where
  "fill_frame st st' \<longleftrightarrow>
     (\<exists>ts r ty c a. st' = st\<lparr>player := (player st)\<lparr>next_tracks := ts, queue_revision := r\<rparr>,
                             fill_up_context := ty, context_field := c, autoplay_context := a\<rparr> \<and>
        reindexed (context_field st) c \<and> reindexed (autoplay_context st) a)"

lemma fill_frameI:
  "st' = st\<lparr>player := (player st)\<lparr>next_tracks := ts, queue_revision := r\<rparr>,
            fill_up_context := ty, context_field := c, autoplay_context := a\<rparr> \<Longrightarrow>
   reindexed (context_field st) c \<Longrightarrow> reindexed (autoplay_context st) a \<Longrightarrow> fill_frame st st'"
  unfolding fill_frame_def by blast

lemma fill_frame_refl [simp]: "fill_frame st st"
  by (rule fill_frameI [where ts = "next_of st" and r = "queue_revision (player st)" and
        ty = "fill_up_context st" and c = "context_field st" and a = "autoplay_context st"]) simp_all

lemma fill_frame_trans: "fill_frame a b \<Longrightarrow> fill_frame b c \<Longrightarrow> fill_frame a c"
proof -
  assume "fill_frame a b" "fill_frame b c"
  then obtain ts r ty x y ts' r' ty' x' y' where
    b: "b = a\<lparr>player := (player a)\<lparr>next_tracks := ts, queue_revision := r\<rparr>,
            fill_up_context := ty, context_field := x, autoplay_context := y\<rparr>"
      "reindexed (context_field a) x" "reindexed (autoplay_context a) y" and
    c: "c = b\<lparr>player := (player b)\<lparr>next_tracks := ts', queue_revision := r'\<rparr>,
            fill_up_context := ty', context_field := x', autoplay_context := y'\<rparr>"
      "reindexed (context_field b) x'" "reindexed (autoplay_context b) y'"
    unfolding fill_frame_def by blast
  from b c show ?thesis
    by (intro fill_frameI [where ts = ts' and r = r' and ty = ty' and c = x' and a = y']) (auto intro: reindexed_trans)
qed

lemma fill_frame_set_next [simp]: "fill_frame st (set_next ts st)"
  by (rule fill_frameI [where ts = ts and r = "queue_revision (player st)" and
        ty = "fill_up_context st" and c = "context_field st" and a = "autoplay_context st"])
     (simp_all add: set_next_def)

lemma fill_frame_fields:
  assumes "fill_frame st st'"
  shows "prev_of st' = prev_of st" "track (player st') = track (player st)"
    and "index (player st') = index (player st)" "options (player st') = options (player st)"
    and "active_context st' = active_context st" "queue_count st' = queue_count st"
    and "unavailable_uri st' = unavailable_uri st"
    and "map_option tracks (context_field st') = map_option tracks (context_field st)"
    and "map_option tracks (autoplay_context st') = map_option tracks (autoplay_context st)"
  using assms reindexed_tracks by (auto simp: fill_frame_def)

text \<open>The state in which the loop has moved on to the autoplay context.\<close>

definition to_autoplay :: "usize \<Rightarrow> StateContext \<Rightarrow> ConnectState \<Rightarrow> ConnectState" where
  "to_autoplay i ctx st =
     st\<lparr>context_field := Some (ctx\<lparr>sc_index := (sc_index ctx)\<lparr>index_track := as_u32 i\<rparr>\<rparr>),
        fill_up_context := AutoplayContext\<rparr>"

lemma fill_up_round_cases:
  assumes ctx: "context_of (fill_up_context st) st = Some ctx"
  obtains (load) "i < length (track_list ctx)" "loads st it (track_list ctx ! i)"
      "fill_up_round st i it = FillPush (track_list ctx ! i) st (i + 1) it"
    | (skip) "i < length (track_list ctx)" "\<not> loads st it (track_list ctx ! i)"
      "fill_up_round st i it = FillSkip"
    | (repeat) "length (track_list ctx) \<le> i" "repeat_context st"
      "fill_up_round st i it = FillPush (new_delimiter it) st 0 (it + 1)"
    | (autoplay) a where "length (track_list ctx) \<le> i" "\<not> repeat_context st"
      "fill_up_context st = DefaultContext" "autoplay_context st = Some a"
      "fill_up_round st i it =
         FillPush (new_delimiter it) (to_autoplay i ctx st) (index_track (sc_index a)) it"
    | (stop) "length (track_list ctx) \<le> i" "\<not> repeat_context st"
      "fill_up_context st = AutoplayContext \<or> autoplay_context st = None"
      "fill_up_round st i it = FillBreak"
proof -
  have get: "get_context st (fill_up_context st) = Inr ctx" using ctx by simp
  consider "i < length (track_list ctx)" | "length (track_list ctx) \<le> i" "repeat_context st"
    | a where "length (track_list ctx) \<le> i" "\<not> repeat_context st"
        "fill_up_context st = DefaultContext" "autoplay_context st = Some a"
    | "length (track_list ctx) \<le> i" "\<not> repeat_context st"
        "fill_up_context st = AutoplayContext \<or> autoplay_context st = None"
    by (cases "fill_up_context st"; cases "autoplay_context st") (auto simp: not_less [symmetric])
  then show thesis
  proof cases
    case 1
    then show thesis
      using load skip get by (cases "loads st it (track_list ctx ! i)")
        (auto simp: fill_up_round_def loads_def get_def)
  next
    case 2
    then show thesis using repeat get by (simp add: fill_up_round_def get_def)
  next
    case (3 a)
    then show thesis
      using autoplay get ctx
      by (simp add: fill_up_round_def get_def update_context_index_def put_context_def to_autoplay_def
          get_context_def context_of_def)
  next
    case 4
    then show thesis
      using stop get ctx
      by (cases "fill_up_context st")
         (auto simp: fill_up_round_def get_def get_context_def context_of_def)
  qed
qed

lemma upcoming_from_next:
  assumes "i < length (track_list ctx)"
  shows "upcoming_from st ctx i it n =
    (if loads st it (track_list ctx ! i) then [track_list ctx ! i] else []) @ upcoming_from st ctx (i + 1) it n"
  using assms by (simp add: upcoming_from_def Cons_nth_drop_Suc [symmetric])

lemma upcoming_from_repeat:
  "length (track_list ctx) \<le> i \<Longrightarrow> repeat_context st \<Longrightarrow>
   upcoming_from st ctx i it (Suc n) = new_delimiter it # upcoming_from st ctx 0 (it + 1) n"
  by (simp add: upcoming_from_def)

lemma loads_to_autoplay [simp]:
  "context_field st = Some ctx \<Longrightarrow> loads (to_autoplay i ctx st) = loads st"
  by (rule loads_cong_contexts) (auto simp: to_autoplay_def context_of_def split: ContextType.splits)

lemma upcoming_from_autoplay:
  assumes "length (track_list ctx) \<le> i" "\<not> repeat_context st" "fill_up_context st = DefaultContext"
    and "autoplay_context st = Some a" "context_field st = Some ctx"
  shows "upcoming_from st ctx i it n =
    new_delimiter it # upcoming_from (to_autoplay i ctx st) a (index_track (sc_index a)) it n"
proof -
  have "\<not> repeat_context (to_autoplay i ctx st)" "fill_up_context (to_autoplay i ctx st) = AutoplayContext"
    using assms(2) by (simp_all add: to_autoplay_def repeat_context_def player_options_def)
  with assms show ?thesis by (simp add: upcoming_from_def)
qed

lemma fill_frame_to_autoplay:
  "context_field st = Some ctx \<Longrightarrow> fill_frame st (to_autoplay i ctx st)"
  by (rule fill_frameI [where ts = "next_of st" and r = "queue_revision (player st)" and
        ty = AutoplayContext and a = "autoplay_context st" and
        c = "Some (ctx\<lparr>sc_index := (sc_index ctx)\<lparr>index_track := as_u32 i\<rparr>\<rparr>)"])
     (simp_all add: to_autoplay_def)

text \<open>The loop, from a state whose fill-up context is there, always ends with a result.\<close>

lemma fill_up_loop_spec:
  assumes "context_of (fill_up_context st) st = Some ctx"
  shows "\<exists>i' st'. fill_up_loop st i it = (Ok i', st') \<and> fill_frame st st' \<and>
           context_of (fill_up_context st') st' \<noteq> None \<and>
           (let m = SPOTIFY_MAX_NEXT_TRACKS_SIZE - length (next_of st)
            in next_of st' = next_of st @ take m (upcoming_from st ctx i it m))"
  using assms
proof (induction st i it arbitrary: ctx rule: fill_up_loop.induct)
  case (1 st i it)
  let ?m = "SPOTIFY_MAX_NEXT_TRACKS_SIZE - length (next_of st)"
  show ?case
  proof (cases "length (next_of st) < SPOTIFY_MAX_NEXT_TRACKS_SIZE")
    case False
    then show ?thesis using 1 by (subst fill_up_loop.simps) simp
  next
    case True
    then obtain m where m: "?m = Suc m" by (metis Suc_diff_Suc)
    have push: ?thesis
      if round: "fill_up_round st i it = FillPush t st' i' it'"
        and ctx': "context_of (fill_up_context st') st' = Some ctx'"
        and frame: "fill_frame st st'"
        and up: "take ?m (upcoming_from st ctx i it ?m) = t # take m (upcoming_from st' ctx' i' it' m)"
      for t st' i' it' ctx'
    proof -
      let ?st1 = "set_next (next_of st' @ [t]) st'"
      have next': "next_of st' = next_of st" using round by (rule fill_up_round_next)
      have "fill_up_loop st i it = fill_up_loop ?st1 i' it'"
        using True round by (subst fill_up_loop.simps) simp
      moreover have "SPOTIFY_MAX_NEXT_TRACKS_SIZE - length (next_of ?st1) = m"
        using m next' by simp
      moreover have "fill_frame st ?st1" using fill_frame_trans [OF frame] by simp
      moreover obtain j st2 where "fill_up_loop ?st1 i' it' = (Ok j, st2)" "fill_frame ?st1 st2"
          "context_of (fill_up_context st2) st2 \<noteq> None"
          "next_of st2 = next_of ?st1 @ take m (upcoming_from st' ctx' i' it' m)"
        using "1.IH"(2) [OF True round, of ctx'] ctx' calculation(2) by (auto simp: Let_def)
      ultimately show ?thesis
        using up next' by (auto simp: Let_def intro: fill_frame_trans)
    qed
    from 1(3) show ?thesis
    proof (cases rule: fill_up_round_cases [where i = i and it = it])
      case load
      then show ?thesis
        using 1(3) take_upcoming_from [of m "Suc m" m]
        by (intro push [OF load(3)]) (simp_all add: m upcoming_from_next)
    next
      case skip
      then show ?thesis
        using "1.IH"(1) [OF True skip(3) 1(3)] True
        by (subst fill_up_loop.simps) (simp add: upcoming_from_next)
    next
      case repeat
      then show ?thesis
        using 1(3) by (intro push [OF repeat(3)]) (simp_all add: m upcoming_from_repeat)
    next
      case (autoplay a)
      then have c: "context_field st = Some ctx" using 1(3) by (simp add: context_of_def)
      show ?thesis
        using autoplay c take_upcoming_from [of m "Suc m" m]
        by (intro push [OF autoplay(5)])
           (simp_all add: m upcoming_from_autoplay fill_frame_to_autoplay,
            simp add: to_autoplay_def context_of_def)
    next
      case stop
      then have "upcoming_from st ctx i it ?m = []"
        by (auto simp: upcoming_from_def dest: ContextType.exhaust split: option.split)
      with stop True 1(3) show ?thesis by (subst fill_up_loop.simps) simp
    qed
  qed
qed

lemma put_context_frame:
  assumes "context_of ty st = Some ctx"
  shows "fill_frame st (put_context ty (ctx\<lparr>sc_index := k\<rparr>) st)"
proof (cases ty)
  case DefaultContext
  with assms show ?thesis
    by (intro fill_frameI [where ts = "next_of st" and r = "queue_revision (player st)" and
          ty = "fill_up_context st" and a = "autoplay_context st" and c = "Some (ctx\<lparr>sc_index := k\<rparr>)"])
       (simp_all add: put_context_def context_of_def)
next
  case AutoplayContext
  with assms show ?thesis
    by (intro fill_frameI [where ts = "next_of st" and r = "queue_revision (player st)" and
          ty = "fill_up_context st" and c = "context_field st" and a = "Some (ctx\<lparr>sc_index := k\<rparr>)"])
       (simp_all add: put_context_def context_of_def)
qed

lemma next_of_put_context [simp]: "player (put_context ty ctx st) = player st"
  by (simp add: put_context_def split: ContextType.split)

lemma update_context_index_frame:
  "context_of ty st = Some ctx \<Longrightarrow>
   \<exists>st'. update_context_index ty k st = (Ok (), st') \<and> fill_frame st st' \<and> next_of st' = next_of st \<and>
         context_of ty st' \<noteq> None \<and> fill_up_context st' = fill_up_context st"
  by (simp add: update_context_index_def get_context_def put_context_frame)
     (simp add: put_context_def context_of_def split: ContextType.split)

lemma update_queue_revision_frame [simp]:
  "fill_frame st (update_queue_revision H st)" "next_of (update_queue_revision H st) = next_of st"
  by (rule fill_frameI [where ts = "next_of st" and r = "show_dec (unat (H (map uri (next_of st))))" and
        ty = "fill_up_context st" and c = "context_field st" and a = "autoplay_context st"])
     (simp_all add: update_queue_revision_def)

lemma fill_up_next_tracks_spec:
  assumes "context_of (fill_up_context st) st = Some ctx"
  obtains st' where "fill_up_next_tracks H st = (Ok (), st')" "fill_frame st st'"
    "context_of (fill_up_context st') st' \<noteq> None"
    "next_of st' = next_of st @ take (SPOTIFY_MAX_NEXT_TRACKS_SIZE - length (next_of st)) (upcoming st)"
proof -
  let ?idx = "sc_index ctx"
  from fill_up_loop_spec [OF assms, of "index_track ?idx" "index_page ?idx"] obtain i' st1 where
    loop: "fill_up_loop st (index_track ?idx) (index_page ?idx) = (Ok i', st1)" "fill_frame st st1"
      "context_of (fill_up_context st1) st1 \<noteq> None"
      "next_of st1 = next_of st @ take (SPOTIFY_MAX_NEXT_TRACKS_SIZE - length (next_of st)) (upcoming st)"
    using assms by (auto simp: Let_def upcoming_def)
  then obtain st2 where st2: "update_context_index (fill_up_context st1) i' st1 = (Ok (), st2)"
      "fill_frame st1 st2" "next_of st2 = next_of st1"
      "context_of (fill_up_context st2) st2 \<noteq> None"
    using update_context_index_frame by (metis not_None_eq)
  show thesis
  proof (rule that)
    show "fill_up_next_tracks H st = (Ok (), update_queue_revision H st2)"
      using assms loop st2 by (simp add: fill_up_next_tracks_def get_context_def)
    show "fill_frame st (update_queue_revision H st2)"
      using loop(2) st2(2) fill_frame_trans update_queue_revision_frame(1) by blast
    show "context_of (fill_up_context (update_queue_revision H st2)) (update_queue_revision H st2) \<noteq> None"
      using st2(4) by (simp add: update_queue_revision_def context_of_def split: ContextType.splits)
  qed (simp add: loop st2)
qed

lemma fill_up_next_tracks_no_context:
  "context_of (fill_up_context st) st = None \<Longrightarrow>
   fill_up_next_tracks H st = (Err (StateErr (NoContext (fill_up_context st))), st)"
  by (simp add: fill_up_next_tracks_def get_context_def)

lemma upcoming_same_contexts:
  assumes "same_contexts st st'" "length (next_of st') = length (next_of st)"
  shows "upcoming st' = upcoming st"
proof -
  note eqs = same_contexts_eqs [OF assms(1)]
  have loads: "loads st' = loads st" by (intro ext) (simp add: loads_def eqs)
  have "repeated st' ts it n = repeated st ts it n" for ts it n
    by (induction n arbitrary: it) (simp_all add: loads)
  then show ?thesis
    by (simp add: upcoming_def upcoming_from_def eqs loads assms(2) split: option.split)
qed

section \<open>Moving on to the next track\<close>

definition playable :: "ProvidedTrack \<Rightarrow> bool" where
  "playable t \<longleftrightarrow> \<not> is_delimiter t \<and> \<not> is_unavailable t"

text \<open>The last ten elements: the previous tracks the state keeps.\<close>

definition keep_last :: "nat \<Rightarrow> 'a list \<Rightarrow> 'a list" where
  "keep_last n xs = drop (length xs - n) xs"

lemma length_keep_last [simp]: "length (keep_last n xs) = min n (length xs)"
  by (simp add: keep_last_def)

lemma keep_last_id: "length xs \<le> n \<Longrightarrow> keep_last n xs = xs"
  by (simp add: keep_last_def)

lemma keep_last_append: "keep_last n (keep_last n xs @ ys) = keep_last n (xs @ ys)"
  by (cases "length xs \<le> n") (auto simp: keep_last_def add.commute)

lemma push_prev_eq:
  "length (prev_of st) \<le> SPOTIFY_MAX_PREV_TRACKS_SIZE \<Longrightarrow>
   push_prev t st = set_prev (keep_last SPOTIFY_MAX_PREV_TRACKS_SIZE (prev_of st @ [t])) st"
  by (auto simp: push_prev_def keep_last_def vec_remove_def drop_Suc track_limits)

lemma set_prev_set_next: "set_prev ps (set_next ns st) = set_next ns (set_prev ps st)"
  by (simp add: set_prev_def set_next_def)

lemma set_prev_collapse [simp]: "set_prev a (set_prev b st) = set_prev a st" "set_prev (prev_of st) st = st"
  by (simp_all add: set_prev_def)

lemma next_track_loop_spec:
  assumes "length (prev_of st) \<le> SPOTIFY_MAX_PREV_TRACKS_SIZE"
  shows "next_track_loop st =
     (let skipped = takeWhile (\<lambda>t. \<not> playable t) (next_of st);
          rest = dropWhile (\<lambda>t. \<not> playable t) (next_of st);
          st' = set_prev (keep_last SPOTIFY_MAX_PREV_TRACKS_SIZE (prev_of st @ filter is_delimiter skipped)) st
      in case rest of [] \<Rightarrow> (None, set_next [] st') | t # ts \<Rightarrow> (Some t, set_next ts st'))"
  using assms
proof (induction "next_of st" arbitrary: st)
  case Nil
  then show ?case
    by (subst next_track_loop.simps) (simp add: get_next_track_def keep_last_id, simp add: set_next_def)
next
  case (Cons t ts)
  have nx: "next_of st = t # ts" using Cons.hyps(2) by simp
  have get: "get_next_track st = (Some t, set_next ts st)"
    by (simp add: get_next_track_def nx vec_remove_def)
  consider "is_delimiter t" | "\<not> is_delimiter t" "is_unavailable t" | "playable t"
    by (auto simp: playable_def)
  then show ?case
  proof cases
    case 1
    let ?st1 = "push_prev t (set_next ts st)"
    have "next_track_loop st = next_track_loop ?st1"
      using 1 by (subst next_track_loop.simps) (simp add: get)
    also have "?st1 = set_next ts (set_prev (keep_last SPOTIFY_MAX_PREV_TRACKS_SIZE (prev_of st @ [t])) st)"
      using Cons.prems by (simp add: push_prev_eq set_prev_set_next)
    finally show ?thesis
      using 1 Cons.hyps(1) [of ?st1] Cons.prems
      by (cases "dropWhile (\<lambda>t. \<not> playable t) ts")
         (simp_all add: nx playable_def push_prev_eq set_prev_set_next keep_last_append Let_def
          del: dropWhile_eq_Nil_conv)
  next
    case 2
    then have "next_track_loop st = next_track_loop (set_next ts st)"
      by (subst next_track_loop.simps) (simp add: get)
    with 2 Cons.hyps(1) [of "set_next ts st"] Cons.prems show ?thesis
      by (cases "dropWhile (\<lambda>t. \<not> playable t) ts")
         (simp_all add: nx playable_def set_prev_set_next Let_def del: dropWhile_eq_Nil_conv)
  next
    case 3
    with Cons.prems show ?thesis
      by (subst next_track_loop.simps) (simp add: get nx playable_def keep_last_id)
  qed
qed

text \<open>Operations that leave both lists and the current track alone.\<close>

lemma player_frames [simp]:
  "next_of (set_active_context ty st) = next_of st"
  "prev_of (set_active_context ty st) = prev_of st"
  "track (player (set_active_context ty st)) = track (player st)"
  "next_of (update_current_index f st) = next_of st"
  "prev_of (update_current_index f st) = prev_of st"
  "track (player (update_current_index f st)) = track (player st)"
  "next_of (update_restrictions st) = next_of st"
  "prev_of (update_restrictions st) = prev_of st"
  "track (player (update_restrictions st)) = track (player st)"
  "next_of (update_options g st) = next_of st"
  "prev_of (update_options g st) = prev_of st"
  "track (player (update_options g st)) = track (player st)"
  by (simp_all add: set_active_context_def update_current_index_def update_restrictions_def
      update_options_def add_options_if_empty_def Let_def split: sum.split option.split)

lemma same_contexts_update_options:
  "(\<And>x. repeating_context (g x) = repeating_context x) \<Longrightarrow> same_contexts st (update_options g st)"
  by (simp add: same_contexts_def update_options_def add_options_if_empty_def repeat_context_def
      player_options_def Let_def split: option.split) (auto simp: unwrap_or_def split: option.split)

lemma same_contexts_untracked: "same_contexts st (st\<lparr>player := (player st)\<lparr>track := None\<rparr>\<rparr>)"
  by (simp add: same_contexts_def repeat_context_def player_options_def)

definition joins_prev :: "ProvidedTrack option \<Rightarrow> ProvidedTrack list" where
  "joins_prev old =
     (case old of None \<Rightarrow> [] | Some t \<Rightarrow> if is_context t \<or> is_autoplay t then [t] else [])"

text \<open>The state \<open>next_track\<close> has built when it enters its loop.\<close>

definition leave_track :: "ConnectState \<Rightarrow> ConnectState" where
  "leave_track st =
     (let st1 = snd (take_track (if repeat_track st then set_repeat_track False st else st))
      in set_prev (keep_last SPOTIFY_MAX_PREV_TRACKS_SIZE (prev_of st @ joins_prev (track (player st)))) st1)"

lemma leave_track_fields:
  "next_of (leave_track st) = next_of st" "track (player (leave_track st)) = None"
  "prev_of (leave_track st) =
     keep_last SPOTIFY_MAX_PREV_TRACKS_SIZE (prev_of st @ joins_prev (track (player st)))"
  by (simp_all add: leave_track_def take_track_def set_repeat_track_def Let_def)

lemma same_contexts_leave_track: "same_contexts st (leave_track st)"
  unfolding leave_track_def take_track_def Let_def snd_conv set_repeat_track_def
  by (cases "repeat_track st")
     (auto intro!: same_contexts_trans [OF _ same_contexts_set(2)]
       same_contexts_trans [OF _ same_contexts_untracked] same_contexts_update_options
       same_contexts_untracked)

text \<open>What \<open>next_track\<close> does once the track is chosen and the list is filled up.\<close>

definition arrive :: "ProvidedTrack \<Rightarrow> ConnectState \<Rightarrow> ConnectState" where
  "arrive t st4 =
     (let (update_index, st5) =
            (if is_queue t then (None, st4)
             else if is_autoplay t then (None, set_active_context AutoplayContext st4)
             else (map_option as_u32 (get_context_index (metadata t)), st4));
          st6 = (case update_index of
                   Some i \<Rightarrow> update_current_index (\<lambda>x. x\<lparr>index_track := i\<rparr>) st5
                 | None \<Rightarrow> st5\<lparr>player := (player st5)\<lparr>index := None\<rparr>\<rparr>)
      in update_restrictions (set_track t st6))"

lemma next_track_unfold:
  assumes "length (prev_of st) \<le> SPOTIFY_MAX_PREV_TRACKS_SIZE"
  shows "next_track H st =
    (case next_track_loop (leave_track st) of
       (None, st3) \<Rightarrow> (Ok None, st3)
     | (Some t, st3) \<Rightarrow>
         sr_bind (fill_up_next_tracks H st3) (\<lambda>_ st4.
           (Ok (Some (index_track (unwrap_or (index (player (arrive t st4))) context_index_new))),
            arrive t st4)))"
proof -
  define st0 where "st0 = (if repeat_track st then set_repeat_track False st else st)"
  define st1 where "st1 = snd (take_track st0)"
  have take: "take_track st0 = (track (player st), st1)"
    by (simp add: st1_def st0_def take_track_def set_repeat_track_def)
  have prev: "prev_of st1 = prev_of st"
    by (simp add: st1_def st0_def take_track_def set_repeat_track_def)
  have leave: "leave_track st =
      set_prev (keep_last SPOTIFY_MAX_PREV_TRACKS_SIZE (prev_of st @ joins_prev (track (player st)))) st1"
    by (simp add: leave_track_def st1_def st0_def Let_def)
  have old: "(case track (player st) of
           Some t \<Rightarrow> if is_context t \<or> is_autoplay t then push_prev t st1 else st1
         | None \<Rightarrow> st1) = leave_track st"
    unfolding leave using assms prev set_prev_collapse(2) [of st1]
    by (cases "track (player st)") (simp_all add: joins_prev_def push_prev_eq keep_last_id)
  obtain nt st3 where "next_track_loop (leave_track st) = (nt, st3)" by fastforce
  then show ?thesis
    unfolding next_track_def Let_def st0_def [symmetric] take prod.case old
    by (cases nt) (simp_all add: arrive_def Let_def split_beta)
qed

lemma context_frames [simp]:
  "context_of ty' (set_active_context ty st) = context_of ty' st"
  "fill_up_context (set_active_context ty st) = fill_up_context st"
  "context_of ty' (update_current_index f st) = context_of ty' st"
  "fill_up_context (update_current_index f st) = fill_up_context st"
  "context_of ty' (update_restrictions st) = context_of ty' st"
  "fill_up_context (update_restrictions st) = fill_up_context st"
  "context_of ty' (st\<lparr>player := p\<rparr>) = context_of ty' st"
  by (simp_all add: context_of_def set_active_context_def update_current_index_def
      update_restrictions_def Let_def split: sum.split option.split ContextType.split)

lemma arrive_fields [simp]:
  "next_of (arrive t st) = next_of st" "prev_of (arrive t st) = prev_of st"
  "track (player (arrive t st)) = Some t" "fill_up_context (arrive t st) = fill_up_context st"
  "context_of ty (arrive t st) = context_of ty st"
  by (simp_all add: arrive_def Let_def split: option.split)

lemma next_track_Some:
  assumes len: "length (prev_of st) \<le> SPOTIFY_MAX_PREV_TRACKS_SIZE"
    and ctx: "context_of (fill_up_context st) st \<noteq> None"
    and t: "dropWhile (\<lambda>t. \<not> playable t) (next_of st) = t # rest"
  obtains i st' where "next_track H st = (Ok (Some i), st')" "track (player st') = Some t"
    "prev_of st' = keep_last SPOTIFY_MAX_PREV_TRACKS_SIZE
       (prev_of st @ joins_prev (track (player st)) @
        filter is_delimiter (takeWhile (\<lambda>t. \<not> playable t) (next_of st)))"
    "next_of st' = rest @ take (SPOTIFY_MAX_NEXT_TRACKS_SIZE - length rest) (upcoming (set_next rest st))"
    "context_of (fill_up_context st') st' \<noteq> None"
proof -
  let ?prev = "keep_last SPOTIFY_MAX_PREV_TRACKS_SIZE (prev_of st @ joins_prev (track (player st)) @
        filter is_delimiter (takeWhile (\<lambda>t. \<not> playable t) (next_of st)))"
  let ?st3 = "set_next rest (set_prev ?prev (leave_track st))"
  have loop: "next_track_loop (leave_track st) = (Some t, ?st3)"
    using next_track_loop_spec [of "leave_track st"] t
    by (simp add: leave_track_fields keep_last_append Let_def)
  have same: "same_contexts st ?st3"
    using same_contexts_leave_track same_contexts_set same_contexts_trans by meson
  have up: "upcoming ?st3 = upcoming (set_next rest st)"
    using same by (intro upcoming_same_contexts) (simp_all add: same_contexts_def repeat_context_def
        player_options_def set_next_def)
  from ctx obtain c where "context_of (fill_up_context ?st3) ?st3 = Some c"
    using same_contexts_eqs [OF same] by auto
  then obtain st4 where st4: "fill_up_next_tracks H ?st3 = (Ok (), st4)" "fill_frame ?st3 st4"
      "context_of (fill_up_context st4) st4 \<noteq> None"
      "next_of st4 = rest @ take (SPOTIFY_MAX_NEXT_TRACKS_SIZE - length rest) (upcoming (set_next rest st))"
    using fill_up_next_tracks_spec [of ?st3 c H] up by auto
  show thesis
    using len loop st4 fill_frame_fields(1) [OF st4(2)]
    by (intro that [where st' = "arrive t st4"]) (simp_all add: next_track_unfold)
qed

lemma next_track_None:
  assumes len: "length (prev_of st) \<le> SPOTIFY_MAX_PREV_TRACKS_SIZE"
    and "dropWhile (\<lambda>t. \<not> playable t) (next_of st) = []"
  shows "next_track H st =
    (Ok None, set_next [] (set_prev (keep_last SPOTIFY_MAX_PREV_TRACKS_SIZE
       (prev_of st @ joins_prev (track (player st)) @
        filter is_delimiter (takeWhile (\<lambda>t. \<not> playable t) (next_of st)))) (leave_track st)))"
  using assms next_track_loop_spec [of "leave_track st"]
  by (simp add: next_track_unfold leave_track_fields keep_last_append Let_def del: dropWhile_eq_Nil_conv)

section \<open>Going back to the previous track\<close>

definition trailing_delimiter :: "ConnectState \<Rightarrow> ProvidedTrack list" where
  "trailing_delimiter st =
     (if prev_of st \<noteq> [] \<and> is_delimiter (last (prev_of st)) then [last (prev_of st)] else [])"

definition before_delimiter :: "ConnectState \<Rightarrow> ProvidedTrack list" where
  "before_delimiter st =
     (if prev_of st \<noteq> [] \<and> is_delimiter (last (prev_of st)) then butlast (prev_of st) else prev_of st)"

text \<open>The tracks in front of what is filled up after going back.\<close>

definition returned :: "ConnectState \<Rightarrow> ProvidedTrack list" where
  "returned st =
     take SPOTIFY_MAX_NEXT_TRACKS_SIZE
       (trailing_delimiter st @ joins_prev (track (player st)) @ next_of st)"

text \<open>The state \<open>prev_track\<close> has built before it takes the previous track.\<close>

definition go_back :: "ConnectState \<Rightarrow> ConnectState" where
  "go_back st = set_next (returned st) (set_prev (before_delimiter st) (snd (take_track st)))"

lemma take_butlast_longer: "n < length xs \<Longrightarrow> take n (butlast xs) = take n xs"
  by (simp add: butlast_conv_take)

lemma prev_track_unfold:
  "prev_track H st =
     (if before_delimiter st = [] then (Ok None, go_back st)
      else
        (let p = last (before_delimiter st);
             st5 = set_prev (butlast (before_delimiter st)) (go_back st);
             st6 = (if active_context st5 = AutoplayContext \<and> is_context p
                    then set_active_context DefaultContext st5 else st5)
         in sr_bind (fill_up_next_tracks H st6) (\<lambda>_ st7.
              let st8 = set_track p st7;
                  st9 = (if index_track (unwrap_or (index (player st8)) context_index_new) = 0 then st8
                         else update_current_index (\<lambda>x. x\<lparr>index_track := index_track x - 1\<rparr>) st8);
                  st10 = update_restrictions st9
              in (Ok (track (player st10)), st10))))"
proof -
  define st1 where "st1 = snd (take_track st)"
  define st2 where "st2 = set_next (joins_prev (track (player st)) @ next_of st) st1"
  have take: "take_track st = (track (player st), st1)" by (simp add: st1_def take_track_def)
  have fields: "prev_of st1 = prev_of st" "next_of st1 = next_of st"
    by (simp_all add: st1_def take_track_def)
  have old: "(case track (player st) of
      Some t \<Rightarrow> if is_context t \<or> is_autoplay t then set_next (vec_insert 0 t (next_of st1)) st1 else st1
    | None \<Rightarrow> st1) = st2"
    using set_next_collapse(2) [of st1] fields
    by (simp add: st2_def joins_prev_def vec_insert_def split: option.split)
  have went: "set_next (pop_while_longer SPOTIFY_MAX_NEXT_TRACKS_SIZE (next_of (take_delimiter_back st2)))
          (take_delimiter_back st2) = go_back st"
  proof (cases "prev_of st \<noteq> [] \<and> is_delimiter (last (prev_of st))")
    case True
    then show ?thesis
      using fields st1_def take_butlast_longer [of 79 "joins_prev (track (player st)) @ next_of st"]
      by (auto simp: take_delimiter_back_def st2_def go_back_def returned_def before_delimiter_def
          trailing_delimiter_def pop_while_longer_take set_prev_set_next vec_insert_def Let_def
          track_limits take_Cons')
  next
    case False
    then show ?thesis
      using fields st1_def set_prev_collapse(2) [of st1]
      by (auto simp: take_delimiter_back_def st2_def go_back_def returned_def before_delimiter_def
          trailing_delimiter_def pop_while_longer_take)
  qed
  have prev: "prev_of (go_back st) = before_delimiter st" by (simp add: go_back_def)
  show ?thesis
    unfolding prev_track_def Let_def take prod.case old went prev by (rule refl)
qed

lemma fill_up_prefix:
  assumes "context_of (fill_up_context st) st \<noteq> None"
  obtains st' where "fill_up_next_tracks H st = (Ok (), st')" "fill_frame st st'"
    "prefix (next_of st) (next_of st')" "context_of (fill_up_context st') st' \<noteq> None"
  using assms fill_up_next_tracks_spec [of st _ H] by (metis not_None_eq prefixI)

lemma prev_track_Some:
  assumes p: "before_delimiter st = ps @ [p]"
    and ctx: "context_of (fill_up_context st) st \<noteq> None"
  obtains st' where "prev_track H st = (Ok (Some p), st')" "track (player st') = Some p"
    "prev_of st' = ps" "prefix (returned st) (next_of st')"
proof -
  let ?st5 = "set_prev ps (go_back st)"
  define st6 where "st6 = (if active_context ?st5 = AutoplayContext \<and> is_context p
                           then set_active_context DefaultContext ?st5 else ?st5)"
  have st6: "next_of st6 = returned st" "prev_of st6 = ps"
    by (simp_all add: st6_def go_back_def)
  have "context_of (fill_up_context st6) st6 \<noteq> None"
    using ctx by (simp add: st6_def go_back_def take_track_def)
  then obtain st7 where st7: "fill_up_next_tracks H st6 = (Ok (), st7)" "fill_frame st6 st7"
      "prefix (next_of st6) (next_of st7)"
    using fill_up_prefix by blast
  define st9 where "st9 = (if index_track (unwrap_or (index (player (set_track p st7))) context_index_new) = 0
      then set_track p st7 else update_current_index (\<lambda>x. x\<lparr>index_track := index_track x - 1\<rparr>) (set_track p st7))"
  have "track (player st9) = Some p" "prev_of st9 = ps" "next_of st9 = next_of st7"
    using fill_frame_fields(1) [OF st7(2)] st6 by (simp_all add: st9_def)
  moreover have "prev_track H st = (Ok (track (player (update_restrictions st9))), update_restrictions st9)"
    unfolding prev_track_unfold Let_def p last_snoc butlast_snoc st6_def [symmetric] st7(1)
      sr_bind_simps st9_def [symmetric] by simp
  ultimately show thesis
    using st7(3) st6 by (intro that [of "update_restrictions st9"]) simp_all
qed

section \<open>Queueing, repositioning\<close>

definition queued_track :: "nat \<Rightarrow> ProvidedTrack \<Rightarrow> ProvidedTrack" where
  "queued_track n t =
     t\<lparr>uid := CHR ''q'' # show_dec n, provider := ''queue'',
       metadata := (if is_from_queue (metadata t) then metadata t else set_from_queue True (metadata t))\<rparr>"

lemma queued_track_simps [simp]:
  "is_queue (queued_track n t)" "is_from_queue (metadata (queued_track n t))"
  "uid (queued_track n t) = CHR ''q'' # show_dec n" "uri (queued_track n t) = uri t"
  by (simp_all add: queued_track_def is_queue_def)

lemma insert_at_position:
  "(case position (\<lambda>t. \<not> P t) xs of Some k \<Rightarrow> vec_insert k y xs | None \<Rightarrow> xs @ [y]) =
   takeWhile P xs @ y # dropWhile P xs"
  by (induction xs) (auto simp: vec_insert_def split: option.splits)

lemma add_to_queue_fields:
  "next_of (add_to_queue H t b st) =
     take SPOTIFY_MAX_NEXT_TRACKS_SIZE
       (takeWhile is_queue (next_of st) @ queued_track (queue_count st) t # dropWhile is_queue (next_of st))"
  "prev_of (add_to_queue H t b st) = prev_of st"
  "track (player (add_to_queue H t b st)) = track (player st)"
  "queue_count (add_to_queue H t b st) = queue_count st + 1"
proof -
  have t: "(if \<not> is_from_queue (metadata (set_provider ProviderQueue (t\<lparr>uid := CHR ''q'' # show_dec (queue_count st)\<rparr>)))
        then (set_provider ProviderQueue (t\<lparr>uid := CHR ''q'' # show_dec (queue_count st)\<rparr>))
               \<lparr>metadata := set_from_queue True (metadata (set_provider ProviderQueue (t\<lparr>uid := CHR ''q'' # show_dec (queue_count st)\<rparr>)))\<rparr>
        else set_provider ProviderQueue (t\<lparr>uid := CHR ''q'' # show_dec (queue_count st)\<rparr>))
      = queued_track (queue_count st) t"
    by (simp add: queued_track_def set_provider_def)
  have count: "player (st\<lparr>queue_count := n\<rparr>) = player st" for n by simp
  show "next_of (add_to_queue H t b st) =
     take SPOTIFY_MAX_NEXT_TRACKS_SIZE
       (takeWhile is_queue (next_of st) @ queued_track (queue_count st) t # dropWhile is_queue (next_of st))"
    unfolding add_to_queue_def Let_def t count insert_at_position
    by (simp add: pop_while_longer_take)
  show "prev_of (add_to_queue H t b st) = prev_of st"
    "track (player (add_to_queue H t b st)) = track (player st)"
    "queue_count (add_to_queue H t b st) = queue_count st + 1"
    by (simp_all add: add_to_queue_def Let_def update_queue_revision_def update_restrictions_def
        set_next_def)
qed

lemma prev_tracks_before_eq:
  "i \<le> length (track_list ctx) \<Longrightarrow>
   prev_tracks_before i ctx = Ok (keep_last SPOTIFY_MAX_PREV_TRACKS_SIZE (take i (track_list ctx)))"
  by (simp add: prev_tracks_before_def Let_def keep_last_def drop_rev take_rev)

lemma mark_unavailable_eq:
  "mark_unavailable H i st =
     (let u = to_uri i;
          st3 = (set_prev (filter (\<lambda>t. uri t \<noteq> u) (prev_of st))
                   (set_next (filter (\<lambda>t. uri t \<noteq> u) (next_of st)) st))
                \<lparr>unavailable_uri := unavailable_uri st @ [u]\<rparr>
      in sr_bind (fill_up_next_tracks H st3) (\<lambda>_ st4. (Ok (), update_queue_revision H st4)))"
  unfolding mark_unavailable_def remove_uri_filter marking_is_dead Let_def
  by (simp add: set_prev_def set_next_def)

section \<open>Properties\<close>

text \<open>A small state for the witnesses: a context of six tracks, the first one playing.\<close>

definition sample_track :: "char \<Rightarrow> nat \<Rightarrow> ProvidedTrack" where
  "sample_track c i =
     \<lparr>uri = [c], uid = [c], metadata = set_context_index i Map.empty, provider = ''context''\<rparr>"

definition sample_context :: StateContext where
  "sample_context =
     \<lparr>tracks = from_vec (map (\<lambda>i. sample_track (''abcdef'' ! i) i) [0 ..< 6]), sc_metadata = Map.empty,
      sc_restrictions = None, sc_index = \<lparr>index_page = 0, index_track = 3\<rparr>\<rparr>"

definition sample_state :: ConnectState where
  "sample_state =
     connect_state_default
       \<lparr>context_field := Some sample_context,
        player := player_state_default
          \<lparr>track := Some (sample_track CHR ''a'' 0),
           next_tracks := [sample_track CHR ''b'' 1, sample_track CHR ''c'' 2]\<rparr>\<rparr>"

definition sample_hash :: "string list \<Rightarrow> u64" where
  "sample_hash us = of_nat (length (concat us))"

text \<open>
  C4. Filling up computes its specification: with the context it fills from at hand it succeeds and
  appends to the next tracks, up to the limit of 80, the loadable tracks from its position on,
  then, when the context is repeated, a delimiter and the whole context again and again, or
  otherwise, when there is an autoplay context, a delimiter and the autoplay tracks. Without the context it
  fails and changes nothing.
\<close>

theorem fill_up_refines_upcoming:
  "fst (fill_up_next_tracks H st) =
     (if context_of (fill_up_context st) st = None
      then Err (StateErr (NoContext (fill_up_context st))) else Ok ()) \<and>
   next_of (snd (fill_up_next_tracks H st)) =
     next_of st @ take (SPOTIFY_MAX_NEXT_TRACKS_SIZE - length (next_of st)) (upcoming st)"
proof (cases "context_of (fill_up_context st) st")
  case None
  then show ?thesis by (simp add: fill_up_next_tracks_no_context upcoming_def)
next
  case (Some ctx)
  then obtain st' where "fill_up_next_tracks H st = (Ok (), st')"
      "next_of st' = next_of st @ take (SPOTIFY_MAX_NEXT_TRACKS_SIZE - length (next_of st)) (upcoming st)"
    using fill_up_next_tracks_spec by blast
  with Some show ?thesis by simp
qed

lemma length_repeated: "n \<le> length (repeated st ts it n)"
proof (induction n arbitrary: it)
  case (Suc n)
  from Suc.IH [of "it + 1"] show ?case by simp
qed simp

text \<open>
  A repeated context always fills the list of next tracks to exactly its limit, even when none
  of its tracks can be loaded.
\<close>

theorem repeat_fills_up:
  assumes "repeat_context st" "context_of (fill_up_context st) st = Some ctx"
    and "length (next_of st) \<le> SPOTIFY_MAX_NEXT_TRACKS_SIZE"
  shows "length (next_of (snd (fill_up_next_tracks H st))) = SPOTIFY_MAX_NEXT_TRACKS_SIZE"
proof -
  let ?m = "SPOTIFY_MAX_NEXT_TRACKS_SIZE - length (next_of st)"
  have "?m \<le> length (upcoming st)"
    using assms(1,2) length_repeated [of ?m st "track_list ctx" "index_page (sc_index ctx)"]
    by (simp add: upcoming_def upcoming_from_def)
  moreover obtain st' where "fill_up_next_tracks H st = (Ok (), st')"
      "next_of st' = next_of st @ take ?m (upcoming st)"
    using fill_up_next_tracks_spec [OF assms(2)] by blast
  ultimately show ?thesis using assms(3) by simp
qed

theorem repeat_fills_up_witness:
  "length (next_of (snd (fill_up_next_tracks sample_hash (set_repeat_context True sample_state)))) = 80"
proof -
  have "repeat_context (set_repeat_context True sample_state)"
    "context_of DefaultContext (set_repeat_context True sample_state) = Some sample_context"
    "fill_up_context (set_repeat_context True sample_state) = DefaultContext"
    "length (next_of (set_repeat_context True sample_state)) = 2"
    by (simp_all add: sample_state_def connect_state_default_def player_state_default_def
        set_repeat_context_def update_options_def add_options_if_empty_def repeat_context_def
        player_options_def context_of_def context_player_options_new_def)
  then show ?thesis
    using repeat_fills_up [of "set_repeat_context True sample_state" sample_context sample_hash]
    by (simp add: track_limits)
qed

text \<open>
  C11. \<open>next_track\<close>: delimiters and unavailable tracks in front are passed over, the first playable
  track becomes the current one, the remaining tracks are topped up from the contexts, and
  the track that was playing (unless it was queued) and the delimiters passed join the
  previous tracks, of which the last ten are kept. When nothing is playable, nothing plays.
\<close>

theorem next_track_advances:
  assumes "length (prev_of st) \<le> SPOTIFY_MAX_PREV_TRACKS_SIZE"
    and "context_of (fill_up_context st) st \<noteq> None"
  shows "let (r, st') = next_track H st; skipped = takeWhile (\<lambda>t. \<not> playable t) (next_of st)
         in prev_of st' = keep_last SPOTIFY_MAX_PREV_TRACKS_SIZE
              (prev_of st @ joins_prev (track (player st)) @ filter is_delimiter skipped) \<and>
            (case dropWhile (\<lambda>t. \<not> playable t) (next_of st) of
               [] \<Rightarrow> r = Ok None \<and> track (player st') = None \<and> next_of st' = []
             | t # rest \<Rightarrow> (\<exists>i. r = Ok (Some i)) \<and> track (player st') = Some t \<and>
                 next_of st' =
                   rest @ take (SPOTIFY_MAX_NEXT_TRACKS_SIZE - length rest) (upcoming (set_next rest st)))"
proof (cases "dropWhile (\<lambda>t. \<not> playable t) (next_of st)")
  case Nil
  show ?thesis
    unfolding next_track_None [OF assms(1) Nil] Nil by (simp add: leave_track_fields)
next
  case (Cons t rest)
  obtain i st' where "next_track H st = (Ok (Some i), st')" "track (player st') = Some t"
    "prev_of st' = keep_last SPOTIFY_MAX_PREV_TRACKS_SIZE
       (prev_of st @ joins_prev (track (player st)) @
        filter is_delimiter (takeWhile (\<lambda>t. \<not> playable t) (next_of st)))"
    "next_of st' = rest @ take (SPOTIFY_MAX_NEXT_TRACKS_SIZE - length rest) (upcoming (set_next rest st))"
    by (rule next_track_Some [OF assms Cons, of H])
  then show ?thesis unfolding Cons by simp
qed

theorem next_track_advances_witness:
  "track (player (snd (next_track sample_hash sample_state))) = Some (sample_track CHR ''b'' 1) \<and>
   map uri (next_of (snd (next_track sample_hash sample_state))) = [''c'', ''d'', ''e'', ''f'']"
proof -
  have prem: "length (prev_of sample_state) \<le> SPOTIFY_MAX_PREV_TRACKS_SIZE"
    "context_of (fill_up_context sample_state) sample_state \<noteq> None"
    by (simp_all add: sample_state_def connect_state_default_def player_state_default_def context_of_def)
  have rest: "dropWhile (\<lambda>t. \<not> playable t) (next_of sample_state) =
      [sample_track CHR ''b'' 1, sample_track CHR ''c'' 2]"
    by (simp add: sample_state_def playable_def is_delimiter_def is_unavailable_def sample_track_def
        starts_with_def IDENTIFIER_DELIMITER_def)
  have up: "map uri (upcoming (set_next [sample_track CHR ''c'' 2] sample_state)) = [''d'', ''e'', ''f'']"
    by code_simp
  then have "map uri (take 79 (upcoming (set_next [sample_track CHR ''c'' 2] sample_state))) = [''d'', ''e'', ''f'']"
    by (simp flip: take_map)
  with next_track_advances [OF prem, of sample_hash] rest show ?thesis
    by (simp add: Let_def split_beta track_limits) (simp add: sample_track_def)
qed



text \<open>
  A track added to the queue comes after the queued tracks at the front and before all others,
  gets the provider and the mark of a queued track and the next free queue id, and the list
  stays within its limit by dropping tracks at its end.
\<close>

theorem add_to_queue_position:
  "let st' = add_to_queue H t b st; t' = queued_track (queue_count st) t
   in next_of st' = take SPOTIFY_MAX_NEXT_TRACKS_SIZE
        (takeWhile is_queue (next_of st) @ t' # dropWhile is_queue (next_of st)) \<and>
      is_queue t' \<and> is_from_queue (metadata t') \<and> uri t' = uri t \<and>
      uid t' = CHR ''q'' # show_dec (queue_count st) \<and> queue_count st' = queue_count st + 1 \<and>
      prev_of st' = prev_of st \<and> track (player st') = track (player st)"
  by (simp add: Let_def add_to_queue_fields)

text \<open>
  \<open>clear_next_tracks\<close> is meant to keep queued tracks, but it keeps only those before the first
  track that is not queued. Going back puts the track that was playing in front of the queue, so clearing
  after it throws every queued track away.
\<close>

theorem clear_after_prev_drops_queue:
  assumes "track (player st) = Some t" "is_context t"
    and "prev_of st = ps @ [p]" "\<not> is_delimiter p"
    and "context_of (fill_up_context st) st \<noteq> None"
    and "q \<in> set (take 79 (next_of st))" "is_queue q"
  shows "let st' = snd (prev_track H st)
         in q \<in> set (next_of st') \<and> next_of (clear_next_tracks st') = []"
proof -
  have before: "before_delimiter st = ps @ [p]" and "trailing_delimiter st = []"
    using assms(3,4) by (simp_all add: before_delimiter_def trailing_delimiter_def)
  then have ret: "returned st = t # take 79 (next_of st)"
    using assms(1,2) by (simp add: returned_def joins_prev_def track_limits)
  obtain st' where "prev_track H st = (Ok (Some p), st')" "prefix (returned st) (next_of st')"
    by (rule prev_track_Some [OF before assms(5), of H])
  moreover from this(2) obtain more where "next_of st' = t # take 79 (next_of st) @ more"
    unfolding ret by (auto simp: prefix_def)
  ultimately show ?thesis using assms(2,6) by (simp add: Let_def is_queue_def is_context_def)
qed

theorem clear_after_prev_drops_queue_witness:
  "next_of (clear_next_tracks (snd (prev_track sample_hash
     (set_prev [sample_track CHR ''z'' 7]
       (set_next [queued_track 0 (sample_track CHR ''x'' 9)] sample_state))))) = []"
  using clear_after_prev_drops_queue [of "set_prev [sample_track CHR ''z'' 7]
       (set_next [queued_track 0 (sample_track CHR ''x'' 9)] sample_state)" "sample_track CHR ''a'' 0"
       "[]" "sample_track CHR ''z'' 7" "queued_track 0 (sample_track CHR ''x'' 9)" sample_hash]
  by (simp add: sample_state_def connect_state_default_def player_state_default_def context_of_def
      is_delimiter_def is_context_def sample_track_def starts_with_def IDENTIFIER_DELIMITER_def Let_def)

text \<open>
  Marking a track unavailable removes it from the next and previous tracks and tops up the
  next tracks. The entries of the context are not marked, so the top-up may list the track again.
\<close>

theorem mark_unavailable_lists:
  assumes "context_of (fill_up_context st) st \<noteq> None"
  shows "let u = to_uri i; (r, st') = mark_unavailable H i st; kept = filter (\<lambda>t. uri t \<noteq> u) (next_of st)
         in r = Ok () \<and> u \<in> set (unavailable_uri st') \<and>
            prev_of st' = filter (\<lambda>t. uri t \<noteq> u) (prev_of st) \<and>
            next_of st' = kept @ take (SPOTIFY_MAX_NEXT_TRACKS_SIZE - length kept) (upcoming (set_next kept st))"
proof -
  let ?u = "to_uri i"
  let ?kept = "filter (\<lambda>t. uri t \<noteq> ?u) (next_of st)"
  define st3 where "st3 = (set_prev (filter (\<lambda>t. uri t \<noteq> ?u) (prev_of st)) (set_next ?kept st))
      \<lparr>unavailable_uri := unavailable_uri st @ [?u]\<rparr>"
  have st3: "next_of st3 = ?kept" "prev_of st3 = filter (\<lambda>t. uri t \<noteq> ?u) (prev_of st)"
    "same_contexts (set_next ?kept st) st3"
    by (simp_all add: st3_def same_contexts_def set_prev_def repeat_context_def player_options_def)
  then have up: "upcoming st3 = upcoming (set_next ?kept st)"
    by (intro upcoming_same_contexts) simp_all
  have "context_of (fill_up_context st3) st3 \<noteq> None"
    using assms same_contexts_eqs [OF st3(3)] by simp
  then obtain ctx where ctx: "context_of (fill_up_context st3) st3 = Some ctx" by blast
  obtain st4 where st4: "fill_up_next_tracks H st3 = (Ok (), st4)" "fill_frame st3 st4"
      "next_of st4 = next_of st3 @ take (SPOTIFY_MAX_NEXT_TRACKS_SIZE - length (next_of st3)) (upcoming st3)"
    by (rule fill_up_next_tracks_spec [OF ctx, of H])
  have "mark_unavailable H i st = (Ok (), update_queue_revision H st4)"
    unfolding mark_unavailable_eq Let_def st3_def [symmetric] st4(1) by simp
  moreover have "unavailable_uri (update_queue_revision H st4) = unavailable_uri st @ [?u]"
    using fill_frame_fields(7) [OF st4(2)] by (simp add: update_queue_revision_def st3_def)
  moreover have "prev_of (update_queue_revision H st4) = filter (\<lambda>t. uri t \<noteq> ?u) (prev_of st)"
    using fill_frame_fields(1) [OF st4(2)] st3(2) by (simp add: update_queue_revision_def)
  ultimately show ?thesis using st4(3) st3(1) up by (simp add: Let_def)
qed

text \<open>A context whose next entry is the track that is marked.\<close>

definition marked_state :: ConnectState where
  "marked_state =
     (let t = (sample_track CHR ''y'' 3)\<lparr>uri := ''spotify:unknown:y''\<rparr>
      in sample_state
           \<lparr>context_field := Some (sample_context\<lparr>tracks := from_vec [sample_track CHR ''a'' 0,
              sample_track CHR ''b'' 1, sample_track CHR ''c'' 2, t]\<rparr>)\<rparr>)"

theorem mark_unavailable_lists_witness:
  "''spotify:unknown:y'' \<in>
     uri ` set (next_of (snd (mark_unavailable sample_hash (Unknown ''kind'' ''y'') marked_state)))"
proof -
  let ?kept = "next_of marked_state"
  have ctx: "context_of (fill_up_context marked_state) marked_state \<noteq> None"
    by (simp add: marked_state_def sample_state_def connect_state_default_def context_of_def Let_def)
  have kept: "filter (\<lambda>t. uri t \<noteq> ''spotify:unknown:y'') ?kept = ?kept" "length ?kept = 2"
    by (simp_all add: marked_state_def sample_state_def sample_track_def Let_def)
  have u: "to_uri (Unknown ''kind'' ''y'') = ''spotify:unknown:y''" by simp
  have "map uri (upcoming (set_next ?kept marked_state)) = [''spotify:unknown:y'']" by code_simp
  then have "map uri (take 78 (upcoming (set_next ?kept marked_state))) = [''spotify:unknown:y'']"
    by (simp flip: take_map)
  then have "''spotify:unknown:y'' \<in> uri ` set (take 78 (upcoming (set_next ?kept marked_state)))"
    by (metis list.set_intros(1) list.set_map)
  moreover have "next_of (snd (mark_unavailable sample_hash (Unknown ''kind'' ''y'') marked_state)) =
      ?kept @ take 78 (upcoming (set_next ?kept marked_state))"
    using mark_unavailable_lists [OF ctx, of "Unknown ''kind'' ''y''" sample_hash]
    unfolding u kept Let_def by (simp only: split_beta kept track_limits) simp
  ultimately show ?thesis by (simp only: set_append image_Un Un_iff simp_thms)
qed

lemma upcoming_from_cong:
  assumes "loads st' = loads st" "repeat_context st' = repeat_context st"
    and "fill_up_context st' = fill_up_context st" "track_list ctx' = track_list ctx"
    and "fill_up_context st = DefaultContext \<Longrightarrow> autoplay_context st' = autoplay_context st"
  shows "upcoming_from st' ctx' i it n = upcoming_from st ctx i it n"
proof -
  have "repeated st' ts it n = repeated st ts it n" for ts it n
    by (induction n arbitrary: it) (simp_all add: assms(1))
  then show ?thesis using assms by (auto simp: upcoming_from_def split: option.split)
qed

text \<open>The state \<open>reset_playback_to_position\<close> has built before it fills up.\<close>

definition moved_to :: "usize \<Rightarrow> StateContext \<Rightarrow> StateContext" where
  "moved_to i ctx = ctx\<lparr>sc_index := (sc_index ctx)\<lparr>index_track := as_u32 (i + 1)\<rparr>\<rparr>"

definition select_context :: "usize \<Rightarrow> StateContext \<Rightarrow> ConnectState \<Rightarrow> ConnectState" where
  "select_context i ctx st =
     (put_context (active_context st) (moved_to i ctx)
        (update_current_index (\<lambda>x. x\<lparr>index_track := as_u32 i\<rparr>) st))
     \<lparr>fill_up_context := active_context st\<rparr>"

definition repositioned :: "usize \<Rightarrow> StateContext \<Rightarrow> ConnectState \<Rightarrow> ConnectState" where
  "repositioned i ctx st =
     set_next (takeWhile is_queue (next_of st))
       (set_prev (keep_last SPOTIFY_MAX_PREV_TRACKS_SIZE (take i (track_list ctx)))
         (update_current_index (\<lambda>x. x\<lparr>index_track := as_u32 i\<rparr>)
           (set_track (track_list ctx ! i) (select_context i ctx st))))"

lemma select_context_fields:
  "context_of (active_context st) (select_context i ctx st) = Some (moved_to i ctx)"
  "fill_up_context (select_context i ctx st) = active_context st"
  "active_context (select_context i ctx st) = active_context st"
  "current_track (select_context i ctx st) = current_track st"
  "next_of (select_context i ctx st) = next_of st"
  "options (player (select_context i ctx st)) = options (player st)"
  by (simp_all add: select_context_def put_context_def context_of_def update_current_index_def
      current_track_def split: ContextType.split)

lemma is_skip_track_select_context:
  "context_of (active_context st) st = Some ctx \<Longrightarrow>
   is_skip_track (select_context i ctx st) t it = is_skip_track st t it"
  by (simp add: is_skip_track_def get_context_def select_context_fields moved_to_def)

lemma repositioned_fields:
  "next_of (repositioned i ctx st) = takeWhile is_queue (next_of st)"
  "prev_of (repositioned i ctx st) = keep_last SPOTIFY_MAX_PREV_TRACKS_SIZE (take i (track_list ctx))"
  "track (player (repositioned i ctx st)) = Some (track_list ctx ! i)"
  "fill_up_context (repositioned i ctx st) = active_context st"
  "active_context (repositioned i ctx st) = active_context st"
  "context_of (active_context st) (repositioned i ctx st) = Some (moved_to i ctx)"
  "repeat_context (repositioned i ctx st) = repeat_context st"
  by (simp_all add: repositioned_def select_context_fields)
     (simp_all add: update_current_index_def select_context_fields repeat_context_def player_options_def
       set_track_def)

lemma upcoming_repositioned:
  assumes "context_of (active_context st) st = Some ctx"
  shows "upcoming (repositioned i ctx st) =
    upcoming_from (st\<lparr>fill_up_context := active_context st\<rparr>) ctx (as_u32 (i + 1)) (index_page (sc_index ctx))
      (SPOTIFY_MAX_NEXT_TRACKS_SIZE - length (takeWhile is_queue (next_of st)))"
proof -
  have "loads (repositioned i ctx st) = loads (st\<lparr>fill_up_context := active_context st\<rparr>)"
  proof (rule loads_cong_contexts)
    have "context_of ty (st\<lparr>fill_up_context := x\<rparr>) = context_of ty st" for ty x
      by (simp add: context_of_def split: ContextType.split)
    then show "map_option sc_metadata (context_of (active_context (st\<lparr>fill_up_context := active_context st\<rparr>))
          (repositioned i ctx st)) =
        map_option sc_metadata (context_of (active_context (st\<lparr>fill_up_context := active_context st\<rparr>))
          (st\<lparr>fill_up_context := active_context st\<rparr>))"
      using assms by (simp add: repositioned_fields moved_to_def)
  qed (simp add: repositioned_fields)
  moreover have "repeat_context (st\<lparr>fill_up_context := x\<rparr>) = repeat_context st" for x
    by (simp add: repeat_context_def player_options_def)
  moreover have "active_context st = DefaultContext \<Longrightarrow>
      autoplay_context (repositioned i ctx st) = autoplay_context st"
    by (simp add: repositioned_def select_context_def put_context_def update_current_index_def
        set_track_def)
  ultimately show ?thesis
    by (auto simp: upcoming_def repositioned_fields moved_to_def intro!: upcoming_from_cong)
qed

lemma reset_playback_unfold:
  assumes ctx: "context_of (active_context st) st = Some ctx" "i < length (track_list ctx)"
    and cur: "\<not> is_queue (current_track st)" "\<not> is_skip_track st (current_track st) None"
  shows "reset_playback_to_position H (Some i) st =
    sr_bind (fill_up_next_tracks H (repositioned i ctx st)) (\<lambda>_ st7. (Ok (), update_restrictions st7))"
proof -
  let ?set = "update_current_index (\<lambda>x. x\<lparr>index_track := as_u32 i\<rparr>)"
  let ?st3 = "select_context i ctx st" and ?st4 = "?set (set_track (track_list ctx ! i) (select_context i ctx st))"
  have act: "active_context (?set st) = active_context st"
    "active_context (clear_prev_track ?st4) = active_context st"
    by (simp_all add: update_current_index_def select_context_fields set_track_def clear_prev_track_def)
  have cond: "\<not> (is_queue (current_track ?st3) \<or> is_skip_track ?st3 (current_track ?st3) None)"
    using cur ctx(1) by (simp add: select_context_fields is_skip_track_select_context)
  have upd: "update_context_index (active_context st) (i + 1) (?set st) =
      (Ok (), put_context (active_context st) (moved_to i ctx) (?set st))"
    using ctx by (simp add: update_context_index_def get_context_def moved_to_def)
  have put: "active_context (put_context (active_context st) (moved_to i ctx) (?set st)) = active_context st"
    by (simp add: put_context_def update_current_index_def split: ContextType.split)
  have cur3: "set_current_track i ?st3 = (Ok (), ?st4)"
    using ctx by (simp add: set_current_track_def get_context_def select_context_fields get_def moved_to_def)
  have "context_of (active_context st) (clear_prev_track ?st4) = Some (moved_to i ctx)"
    by (simp add: clear_prev_track_def select_context_fields)
  then have prev: "(if 0 < i then
        (case and_then (get_context (clear_prev_track ?st4) (active_context st)) (prev_tracks_before i) of
           Inl e \<Rightarrow> (Err e, clear_prev_track ?st4) | Inr prev \<Rightarrow> (Ok (), set_prev prev (clear_prev_track ?st4)))
      else (Ok (), clear_prev_track ?st4)) =
      (Ok (), set_prev (keep_last SPOTIFY_MAX_PREV_TRACKS_SIZE (take i (track_list ctx))) ?st4)"
    using ctx(2) by (simp add: get_context_def prev_tracks_before_eq moved_to_def clear_prev_track_def keep_last_id)
  have "reset_playback_to_position H (Some i) st =
      sr_bind (fill_up_next_tracks H (clear_next_tracks
        (set_prev (keep_last SPOTIFY_MAX_PREV_TRACKS_SIZE (take i (track_list ctx))) ?st4)))
        (\<lambda>_ st7. (Ok (), update_restrictions st7))"
    unfolding reset_playback_to_position_def Let_def unwrap_or_simps act(1) upd sr_bind_simps put
      select_context_def [symmetric] if_P [OF cond] cur3 act(2) prev by (rule refl)
  then show ?thesis by (simp add: clear_next_tracks_eq repositioned_def select_context_fields)
qed

text \<open>
  Repositioning in the active context: the track at the given index plays, the (at most ten)
  tracks before it are the previous tracks, and the next tracks are the queued ones followed
  by what the context offers after the index.
\<close>

theorem reset_playback_repositions:
  assumes "context_of (active_context st) st = Some ctx" "i < length (track_list ctx)"
    and "\<not> is_queue (current_track st)" "\<not> is_skip_track st (current_track st) None"
  shows "let (r, st') = reset_playback_to_position H (Some i) st; q = takeWhile is_queue (next_of st);
             m = SPOTIFY_MAX_NEXT_TRACKS_SIZE - length q
         in r = Ok () \<and> track (player st') = Some (track_list ctx ! i) \<and>
            prev_of st' = keep_last SPOTIFY_MAX_PREV_TRACKS_SIZE (take i (track_list ctx)) \<and>
            next_of st' = q @ take m (upcoming_from (st\<lparr>fill_up_context := active_context st\<rparr>) ctx
                                        (as_u32 (i + 1)) (index_page (sc_index ctx)) m)"
proof -
  note fields = repositioned_fields [where i = i and ctx = ctx and st = st]
  obtain st7 where st7: "fill_up_next_tracks H (repositioned i ctx st) = (Ok (), st7)"
      "fill_frame (repositioned i ctx st) st7"
      "next_of st7 = next_of (repositioned i ctx st) @
         take (SPOTIFY_MAX_NEXT_TRACKS_SIZE - length (next_of (repositioned i ctx st)))
           (upcoming (repositioned i ctx st))"
    using fill_up_next_tracks_spec [of "repositioned i ctx st" "moved_to i ctx" H] fields by metis
  then have "reset_playback_to_position H (Some i) st = (Ok (), update_restrictions st7)"
    using reset_playback_unfold [OF assms] by simp
  then show ?thesis
    using st7(3) fill_frame_fields(1,2) [OF st7(2)] fields upcoming_repositioned [OF assms(1)]
    by (simp add: Let_def)
qed

theorem reset_playback_repositions_witness:
  "track (player (snd (reset_playback_to_position sample_hash (Some 4) sample_state))) =
     Some (sample_track CHR ''e'' 4) \<and>
   prev_of (snd (reset_playback_to_position sample_hash (Some 4) sample_state)) =
     map (\<lambda>i. sample_track (''abcdef'' ! i) i) [0 ..< 4]"
proof -
  have "context_of (active_context sample_state) sample_state = Some sample_context"
    "4 < length (track_list sample_context)"
    "\<not> is_queue (current_track sample_state)" "\<not> is_skip_track sample_state (current_track sample_state) None"
    by (simp_all add: sample_state_def sample_context_def connect_state_default_def player_state_default_def
        context_of_def from_vec_def current_track_def is_queue_def sample_track_def is_skip_track_def
        get_context_def get_initial_track_def)
  note reset_playback_repositions [OF this, of sample_hash]
  moreover have "track_list sample_context ! 4 = sample_track CHR ''e'' 4"
    "take 4 (track_list sample_context) = map (\<lambda>i. sample_track (''abcdef'' ! i) i) [0 ..< 4]"
    by (simp_all add: sample_context_def from_vec_def take_map take_upt)
  ultimately show ?thesis by (simp add: Let_def split_beta keep_last_id track_limits)
qed

end
