(* ===== verification/Connect_Steps.thy ===== *)
theory Connect_Steps
  imports Connect_Queue
begin

text \<open>
  The connect state as a transition system: one step per public operation of \<open>ConnectState\<close>, and
  the invariant every reachable state has. The invariant bounds both track lists, keeps queued
  tracks out of the contexts and the previous tracks, keeps the ids of queued tracks distinct,
  and keeps every recorded shuffle position in range.
\<close>

section \<open>The invariant\<close>

definition queue_id :: "nat \<Rightarrow> string" where
  "queue_id k = CHR ''q'' # show_dec k"

definition ctx_ok :: "StateContext \<Rightarrow> bool" where
  "ctx_ok ctx \<longleftrightarrow> swaps_ok (tracks ctx) \<and> (\<forall>t \<in> set (track_list ctx). \<not> is_queue t)"

definition opt_ctx_ok :: "StateContext option \<Rightarrow> bool" where
  "opt_ctx_ok c \<longleftrightarrow> (case c of None \<Rightarrow> True | Some ctx \<Rightarrow> ctx_ok ctx)"

text \<open>Queued tracks have pairwise distinct ids, all given out before.\<close>

definition queue_ok :: "nat \<Rightarrow> ProvidedTrack list \<Rightarrow> bool" where
  "queue_ok n ts \<longleftrightarrow>
     (\<forall>t \<in> set ts. is_queue t \<longrightarrow> (\<exists>k < n. uid t = queue_id k)) \<and> distinct (map uid (filter is_queue ts))"

definition lists_ok :: "nat \<Rightarrow> ProvidedTrack list \<Rightarrow> ProvidedTrack list \<Rightarrow> bool" where
  "lists_ok n next prev \<longleftrightarrow>
     length next \<le> SPOTIFY_MAX_NEXT_TRACKS_SIZE \<and> length prev \<le> SPOTIFY_MAX_PREV_TRACKS_SIZE \<and>
     queue_ok n next \<and> (\<forall>t \<in> set prev. \<not> is_queue t)"

definition connect_ok :: "ConnectState \<Rightarrow> bool" where
  "connect_ok st \<longleftrightarrow>
     lists_ok (queue_count st) (next_of st) (prev_of st) \<and>
     opt_ctx_ok (context_field st) \<and> opt_ctx_ok (autoplay_context st)"

lemma connect_okD:
  assumes "connect_ok st"
  shows "length (next_of st) \<le> SPOTIFY_MAX_NEXT_TRACKS_SIZE"
    and "length (prev_of st) \<le> SPOTIFY_MAX_PREV_TRACKS_SIZE"
    and "queue_ok (queue_count st) (next_of st)" "\<forall>t \<in> set (prev_of st). \<not> is_queue t"
    and "opt_ctx_ok (context_field st)" "opt_ctx_ok (autoplay_context st)"
    and "opt_ctx_ok (context_of ty st)"
  using assms by (auto simp: connect_ok_def lists_ok_def context_of_def split: ContextType.split)

lemma opt_ctx_ok_simps [simp]: "opt_ctx_ok None" "opt_ctx_ok (Some ctx) = ctx_ok ctx"
  by (simp_all add: opt_ctx_ok_def)

text \<open>States that agree on what the invariant speaks about.\<close>

lemma connect_ok_cong:
  assumes "connect_ok st" "next_of st' = next_of st" "prev_of st' = prev_of st"
    and "queue_count st' = queue_count st"
    and "context_field st' = context_field st" "autoplay_context st' = autoplay_context st"
  shows "connect_ok st'"
  using assms by (simp add: connect_ok_def)

lemma queue_id_inj: "queue_id i = queue_id j \<Longrightarrow> i = j"
proof -
  assume "queue_id i = queue_id j"
  then have "map digit_char (radix_digits 10 i) = map digit_char (radix_digits 10 j)"
    by (simp only: queue_id_def show_dec_def list.inject)
  moreover have "inj_on digit_char {d. d < 10}"
    by (rule inj_on_inverseI [where g = "\<lambda>c. the (to_digit 10 c)"]) simp
  ultimately have "radix_digits 10 i = radix_digits 10 j"
    using radix_digits_less [of 10]
    by (intro map_inj_on [where f = digit_char]) (auto elim!: inj_on_subset simp del: radix_digits.simps)
  then have "horner 10 (radix_digits 10 i) = horner 10 (radix_digits 10 j)" by (rule arg_cong)
  then show ?thesis by (simp only: horner_radix_digits)
qed

lemma queue_id_not_delimiter: "\<not> starts_with (queue_id k) IDENTIFIER_DELIMITER"
  by (simp add: queue_id_def starts_with_def IDENTIFIER_DELIMITER_def)

lemma queue_ok_Nil [simp]: "queue_ok n []"
  by (simp add: queue_ok_def)

lemma queue_ok_nonqueued: "\<forall>t \<in> set ts. \<not> is_queue t \<Longrightarrow> queue_ok n ts"
  by (auto simp: queue_ok_def filter_False)

lemma queue_ok_append:
  "queue_ok n ts \<Longrightarrow> \<forall>t \<in> set us. \<not> is_queue t \<Longrightarrow> queue_ok n (ts @ us) \<and> queue_ok n (us @ ts)"
  by (auto simp: queue_ok_def filter_False)

lemma subseq_set_distinct: "subseq us ts \<Longrightarrow> set us \<subseteq> set ts \<and> (distinct ts \<longrightarrow> distinct us)"
  by (auto simp: subseq_conv_nths distinct_nthsI dest: in_set_nthsD)

lemma queue_ok_subseq:
  assumes "queue_ok n ts" "subseq us ts"
  shows "queue_ok n us"
proof -
  have "subseq (map uid (filter is_queue us)) (map uid (filter is_queue ts))"
    using assms(2) by (intro subseq_map) simp
  then have "distinct (map uid (filter is_queue us))"
    using assms(1) subseq_set_distinct by (metis queue_ok_def)
  moreover have "set us \<subseteq> set ts" using subseq_set_distinct [OF assms(2)] by (rule conjunct1)
  ultimately show ?thesis using assms(1) unfolding queue_ok_def by (simp add: subset_iff)
qed

lemma queue_ok_mono: "queue_ok n ts \<Longrightarrow> n \<le> m \<Longrightarrow> queue_ok m ts"
  unfolding queue_ok_def by (meson order_less_le_trans)

lemma queue_ok_delimiter: "queue_ok n ts \<Longrightarrow> t \<in> set ts \<Longrightarrow> is_delimiter t \<Longrightarrow> \<not> is_queue t"
  unfolding queue_ok_def is_delimiter_def using queue_id_not_delimiter by metis

lemma subseq_parts [simp]:
  "subseq (take k ts) ts" "subseq (drop k ts) ts" "subseq (takeWhile P ts) ts"
  "subseq (dropWhile P ts) ts" "subseq (butlast ts) ts"
  by (auto intro: prefix_imp_subseq suffix_imp_subseq take_is_prefix suffix_drop takeWhile_is_prefix
      suffix_dropWhile prefixeq_butlast)

lemma queue_ok_insert:
  assumes "queue_ok n (us @ ts)" "is_queue t" "uid t = queue_id n"
  shows "queue_ok (Suc n) (us @ t # ts)"
proof -
  have fresh: "uid x \<noteq> queue_id n" if "x \<in> set (us @ ts)" "is_queue x" for x
    using assms(1) that queue_id_inj unfolding queue_ok_def by (metis less_irrefl)
  have "\<exists>k < Suc n. uid x = queue_id k" if "x \<in> set (us @ t # ts)" "is_queue x" for x
  proof (cases "x = t")
    case False
    then have "x \<in> set (us @ ts)" using that(1) by auto
    with assms(1) that(2) show ?thesis unfolding queue_ok_def by (metis less_SucI)
  qed (use assms(3) in auto)
  moreover have "distinct (map uid (filter is_queue (us @ t # ts)))"
    using assms fresh by (auto simp: queue_ok_def)
  ultimately show ?thesis unfolding queue_ok_def by blast
qed

section \<open>Filling up and moving keep the invariant\<close>

lemma new_delimiter_not_queue [simp]: "\<not> is_queue (new_delimiter it)"
  by (simp add: new_delimiter_def is_queue_def)

lemma list_all_parts:
  "list_all P xs \<Longrightarrow> list_all P (filter Q xs)"
  "list_all P xs \<Longrightarrow> list_all P (drop n xs)"
  "list_all P xs \<Longrightarrow> list_all P (take n xs)"
  by (auto simp: list_all_iff dest: in_set_dropD in_set_takeD)

lemma repeated_not_queue:
  "list_all (\<lambda>t. \<not> is_queue t) ts \<Longrightarrow> list_all (\<lambda>t. \<not> is_queue t) (repeated st ts it n)"
  by (induction n arbitrary: it) (simp_all add: list_all_parts)

lemma upcoming_not_queue:
  assumes ok: "connect_ok st"
  shows "list_all (\<lambda>t. \<not> is_queue t) (upcoming st)"
proof (cases "context_of (fill_up_context st) st")
  case (Some ctx)
  have T: "list_all (\<lambda>t. \<not> is_queue t) (track_list ctx)"
    using connect_okD(7) [OF ok, of "fill_up_context st"] Some by (simp add: ctx_ok_def list_all_iff)
  have "list_all (\<lambda>t. \<not> is_queue t) (track_list a)" if "autoplay_context st = Some a" for a
    using connect_okD(6) [OF ok] that by (simp add: ctx_ok_def list_all_iff)
  with T Some show ?thesis
    by (simp add: upcoming_def upcoming_from_def list_all_parts repeated_not_queue split: option.split)
qed (simp add: upcoming_def)

lemma opt_ctx_ok_reindexed: "reindexed c c' \<Longrightarrow> opt_ctx_ok c \<Longrightarrow> opt_ctx_ok c'"
  by (cases c) (auto simp: reindexed_def ctx_ok_def)

lemma fill_frame_ok:
  assumes "fill_frame st st'" "connect_ok st" "lists_ok (queue_count st) (next_of st') (prev_of st)"
  shows "connect_ok st'"
proof -
  have "opt_ctx_ok (context_field st')" "opt_ctx_ok (autoplay_context st')"
    using assms(1,2) opt_ctx_ok_reindexed by (auto simp: fill_frame_def connect_ok_def)
  then show ?thesis
    using assms(3) fill_frame_fields(1,6) [OF assms(1)] by (simp add: connect_ok_def)
qed

lemma fill_up_ok: "connect_ok st \<Longrightarrow> connect_ok (snd (fill_up_next_tracks H st))"
proof (cases "context_of (fill_up_context st) st")
  case None
  assume "connect_ok st"
  with None show ?thesis by (simp add: fill_up_next_tracks_no_context)
next
  case (Some ctx)
  assume ok: "connect_ok st"
  obtain st' where st': "fill_up_next_tracks H st = (Ok (), st')" "fill_frame st st'"
    "next_of st' = next_of st @ take (SPOTIFY_MAX_NEXT_TRACKS_SIZE - length (next_of st)) (upcoming st)"
    by (rule fill_up_next_tracks_spec [OF Some, of H])
  have "queue_ok (queue_count st) (next_of st')"
    using queue_ok_append [OF connect_okD(3) [OF ok]] list_all_parts(3) [OF upcoming_not_queue [OF ok]]
    unfolding st'(3) list_all_iff by blast
  then have "connect_ok st'"
    using connect_okD [OF ok] st'(3) by (intro fill_frame_ok [OF st'(2) ok]) (auto simp: lists_ok_def)
  with st'(1) show ?thesis by simp
qed

text \<open>Operations that do not touch what the invariant speaks about.\<close>

lemma simple_ops_ok:
  assumes "connect_ok st"
  shows "connect_ok (set_active now b st)" "connect_ok (set_volume v st)"
    and "connect_ok (set_last_command i d st)" "connect_ok (set_now n st)"
    and "connect_ok (set_origin o' st)" "connect_ok (set_session_id x st)"
    and "connect_ok (update_position p ts st)" "connect_ok (update_duration du st)"
    and "connect_ok (update_position_in_relation ts st)" "connect_ok (update_current_index f st)"
    and "connect_ok (update_queue_revision H st)" "connect_ok (update_options g st)"
    and "connect_ok (update_restrictions st)" "connect_ok (clear_restrictions st)"
    and "connect_ok (set_active_context ty st)" "connect_ok (set_track t st)"
    and "connect_ok (st\<lparr>active_context := ty\<rparr>)"
    and "connect_ok (st\<lparr>fill_up_context := ty\<rparr>)" "connect_ok (st\<lparr>transfer_shuffle := x'\<rparr>)"
    and "connect_ok (st\<lparr>player := (player st)\<lparr>index := idx\<rparr>\<rparr>)"
    and "connect_ok (st\<lparr>player := (player st)\<lparr>track := None\<rparr>\<rparr>)"
  by (rule connect_ok_cong [OF assms];
      simp add: set_active_def set_volume_def set_last_command_def set_now_def set_origin_def
        set_session_id_def update_position_def update_duration_def update_position_in_relation_def
        update_current_index_def update_queue_revision_def update_options_def add_options_if_empty_def
        update_restrictions_def clear_restrictions_def set_active_context_def set_track_def Let_def
      split: option.split sum.split)+

lemma set_status_ok: "connect_ok st \<Longrightarrow> connect_ok (set_status s st)"
  unfolding set_status_def Let_def
  by (rule simple_ops_ok) (simp add: connect_ok_def)

lemma set_lists_ok:
  assumes "connect_ok st" "lists_ok (queue_count st) ns ps"
  shows "connect_ok (set_next ns (set_prev ps st))"
  using assms by (simp add: connect_ok_def) (simp add: set_next_def set_prev_def)

lemma set_next_ok: "connect_ok st \<Longrightarrow> lists_ok (queue_count st) ns (prev_of st) \<Longrightarrow> connect_ok (set_next ns st)"
  using set_lists_ok [of st ns "prev_of st"] by simp

lemma set_prev_ok: "connect_ok st \<Longrightarrow> lists_ok (queue_count st) (next_of st) ps \<Longrightarrow> connect_ok (set_prev ps st)"
  using set_lists_ok [of st "next_of st" ps] by (simp flip: set_prev_set_next)

lemma lists_ok_of: "connect_ok st \<Longrightarrow> lists_ok (queue_count st) (next_of st) (prev_of st)"
  by (simp add: connect_ok_def)

lemma lists_ok_subseq:
  assumes "lists_ok n ns ps" "subseq ns' ns" "subseq ps' ps"
  shows "lists_ok n ns' ps'"
proof -
  have "length ns' \<le> length ns" "length ps' \<le> length ps" "set ps' \<subseteq> set ps"
    using assms(2,3) subseq_set_distinct [OF assms(3)] by (simp_all add: list_emb_length)
  then show ?thesis
    using assms queue_ok_subseq unfolding lists_ok_def by (meson order_trans subset_iff)
qed

lemma clear_ok:
  assumes "connect_ok st"
  shows "connect_ok (clear_prev_track st)" "connect_ok (clear_next_tracks st)"
  using lists_ok_subseq [OF lists_ok_of [OF assms]]
  by (simp_all add: clear_prev_track_def clear_next_tracks_eq assms set_prev_ok set_next_ok)

lemma reset_ok: "connect_ok st \<Longrightarrow> connect_ok (reset now st)"
  by (simp add: connect_ok_def reset_def Let_def set_active_def player_state_default_def lists_ok_def)

lemma ctx_ok_unshuffle:
  assumes "ctx_ok ctx"
  shows "ctx_ok (ctx\<lparr>sc_metadata := m, tracks := unshuffle (tracks ctx)\<rparr>)"
  using assms swaps_ok_unshuffle [of "tracks ctx"] mset_eq_setD unfolding ctx_ok_def by fastforce

lemma opt_ctx_ok_reset_index: "opt_ctx_ok c \<Longrightarrow> opt_ctx_ok (map_option reset_index c)"
  by (cases c) (simp_all add: reset_index_def ctx_ok_def)

lemma reset_context_ok:
  assumes "connect_ok st"
  shows "connect_ok (reset_context r st)"
proof -
  define st1 where "st1 = (case get_context st DefaultContext of
      Inl _ \<Rightarrow> st
    | Inr ctx \<Rightarrow> put_context DefaultContext
        (ctx\<lparr>sc_metadata := remove_initial_track (remove_shuffle_seed (sc_metadata ctx)),
             tracks := unshuffle (tracks ctx)\<rparr>) st)"
  have st1: "connect_ok st1"
    using assms ctx_ok_unshuffle
    by (auto simp: st1_def connect_ok_def get_context_def context_of_def put_context_def ok_or_def
        split: option.split)
  have "connect_ok (st1\<lparr>context_field := None, autoplay_context := None, player := (player st1)\<lparr>context_uri := [], context_url := []\<rparr>\<rparr>)"
    "connect_ok (st1\<lparr>context_field := map_option reset_index (context_field st1),
        autoplay_context := map_option reset_index (autoplay_context st1)\<rparr>)"
    using st1 opt_ctx_ok_reset_index by (simp_all add: connect_ok_def)
  with st1 show ?thesis
    unfolding reset_context_def Let_def st1_def [symmetric]
    by (intro simple_ops_ok) (simp split: ResetContext.split)
qed

section \<open>The track operations keep the invariant\<close>

lemma subseq_keep_last [simp]: "subseq (keep_last n xs) xs"
  by (simp add: keep_last_def)

lemma joins_prev_not_queue [simp]: "list_all (\<lambda>t. \<not> is_queue t) (joins_prev x)"
  by (cases x) (auto simp: joins_prev_def provider_defs)

lemma prev_not_queue: "connect_ok st \<Longrightarrow> list_all (\<lambda>t. \<not> is_queue t) (prev_of st)"
  using connect_okD(4) by (simp add: list_all_iff)

lemma leave_track_ok:
  assumes "connect_ok st" "subseq ns (next_of st)" "list_all (\<lambda>t. \<not> is_queue t) ds"
  shows "connect_ok (set_next ns (set_prev (keep_last SPOTIFY_MAX_PREV_TRACKS_SIZE
           (prev_of st @ joins_prev (track (player st)) @ ds)) (leave_track st)))"
proof -
  define st1 where "st1 = snd (take_track (if repeat_track st then set_repeat_track False st else st))"
  have "connect_ok st1"
    using assms(1) by (auto simp: st1_def take_track_def set_repeat_track_def intro!: simple_ops_ok)
  moreover have "queue_count st1 = queue_count st"
    by (simp add: st1_def take_track_def set_repeat_track_def update_options_def add_options_if_empty_def
        Let_def)
  moreover have "lists_ok (queue_count st) ns (keep_last SPOTIFY_MAX_PREV_TRACKS_SIZE
      (prev_of st @ joins_prev (track (player st)) @ ds))"
  proof -
    let ?ps = "prev_of st @ joins_prev (track (player st)) @ ds"
    have "list_all (\<lambda>t. \<not> is_queue t) ?ps"
      using prev_not_queue [OF assms(1)] assms(3) by simp
    then have "\<forall>t \<in> set (keep_last SPOTIFY_MAX_PREV_TRACKS_SIZE ?ps). \<not> is_queue t"
      unfolding keep_last_def by (metis list_all_parts(2) list_all_iff)
    moreover have "lists_ok (queue_count st) ns (prev_of st)"
      using lists_ok_subseq [OF lists_ok_of [OF assms(1)] assms(2)] by simp
    ultimately show ?thesis by (simp add: lists_ok_def)
  qed
  ultimately show ?thesis
    using set_lists_ok [of st1] by (simp add: leave_track_def st1_def [symmetric] Let_def)
qed

lemma length_keep_last_le: "length (keep_last n xs) \<le> n"
  by simp

lemma next_track_loop_ok:
  assumes ok: "connect_ok st"
  shows "connect_ok (snd (next_track_loop (leave_track st)))"
proof -
  let ?skipped = "takeWhile (\<lambda>t. \<not> playable t) (next_of st)"
  have "\<not> is_queue t" if "t \<in> set ?skipped" "is_delimiter t" for t
    using queue_ok_delimiter [OF connect_okD(3) [OF ok]] set_takeWhileD that by metis
  then have "list_all (\<lambda>t. \<not> is_queue t) (filter is_delimiter ?skipped)"
    by (simp add: list_all_iff)
  note leave = leave_track_ok [OF ok _ this]
  have "subseq ts (next_of st)" if "dropWhile (\<lambda>t. \<not> playable t) (next_of st) = t # ts" for t ts
  proof -
    have "subseq (t # ts) (next_of st)"
      using subseq_parts(4) [of "\<lambda>t. \<not> playable t" "next_of st"] unfolding that .
    then show ?thesis by (rule subseq_Cons')
  qed
  then show ?thesis
    using leave [of "[]"] leave
    unfolding next_track_loop_spec [of "leave_track st", unfolded leave_track_fields, OF length_keep_last_le]
    by (simp add: keep_last_append Let_def split: list.split)
qed

lemma sr_bind_ok:
  "connect_ok (snd r) \<Longrightarrow> (\<And>x s. connect_ok s \<Longrightarrow> connect_ok (snd (f x s))) \<Longrightarrow> connect_ok (snd (sr_bind r f))"
  by (rule sr_bind_state_inv) (metis snd_conv)+

lemma arrive_ok: "connect_ok st \<Longrightarrow> connect_ok (arrive t st)"
  by (auto simp: arrive_def Let_def intro!: simple_ops_ok split: option.split)

lemma next_track_ok:
  assumes ok: "connect_ok st"
  shows "connect_ok (snd (next_track H st))"
proof -
  obtain nt st3 where loop: "next_track_loop (leave_track st) = (nt, st3)" by fastforce
  then have "connect_ok st3" using next_track_loop_ok [OF ok] by simp
  then show ?thesis
    unfolding next_track_unfold [OF connect_okD(2) [OF ok]] loop
    by (cases nt) (simp_all add: sr_bind_ok fill_up_ok arrive_ok)
qed

lemma go_back_ok:
  assumes ok: "connect_ok st" and ps: "subseq ps (before_delimiter st)"
  shows "connect_ok (set_prev ps (go_back st))"
proof -
  define st1 where "st1 = st\<lparr>player := (player st)\<lparr>track := None\<rparr>\<rparr>"
  have st1: "connect_ok st1" "queue_count st1 = queue_count st"
    using ok by (simp_all add: st1_def simple_ops_ok)
  have "subseq (before_delimiter st) (prev_of st)" by (simp add: before_delimiter_def)
  with ps have prev: "subseq ps (prev_of st)" by (rule subseq_order.trans)
  have front: "list_all (\<lambda>t. \<not> is_queue t) (trailing_delimiter st @ joins_prev (track (player st)))"
    using connect_okD(4) [OF ok] by (simp add: trailing_delimiter_def)
  have "queue_ok (queue_count st) ((trailing_delimiter st @ joins_prev (track (player st))) @ next_of st)"
    using queue_ok_append [OF connect_okD(3) [OF ok]] front unfolding list_all_iff by blast
  then have "queue_ok (queue_count st) (returned st)"
    unfolding returned_def append_assoc by (rule queue_ok_subseq) (rule subseq_parts(1))
  moreover have "lists_ok (queue_count st) (next_of st) ps"
    using lists_ok_subseq [OF lists_ok_of [OF ok] _ prev] by simp
  ultimately have "lists_ok (queue_count st) (returned st) ps"
    by (simp add: lists_ok_def returned_def)
  then show ?thesis
    using set_lists_ok [of st1 "returned st" ps] st1
    by (simp add: go_back_def take_track_def st1_def [symmetric] set_prev_set_next)
qed

lemma prev_track_ok:
  assumes ok: "connect_ok st"
  shows "connect_ok (snd (prev_track H st))"
proof (cases "before_delimiter st = []")
  case True
  then show ?thesis
    using go_back_ok [OF ok, of "[]"] set_prev_collapse(2) [of "go_back st"]
    by (simp add: prev_track_unfold go_back_def)
next
  case False
  define st5 where "st5 = set_prev (butlast (before_delimiter st)) (go_back st)"
  have "connect_ok st5" unfolding st5_def by (rule go_back_ok [OF ok]) simp
  then show ?thesis
    using False unfolding prev_track_unfold Let_def st5_def [symmetric]
    by (simp add: sr_bind_ok fill_up_ok simple_ops_ok)
qed

lemma add_to_queue_ok:
  assumes ok: "connect_ok st"
  shows "connect_ok (add_to_queue H t b st)"
proof -
  let ?q = "takeWhile is_queue (next_of st)" and ?r = "dropWhile is_queue (next_of st)"
  have "queue_ok (Suc (queue_count st)) (?q @ queued_track (queue_count st) t # ?r)"
    using connect_okD(3) [OF ok] by (intro queue_ok_insert) (simp_all add: queue_id_def)
  then have "queue_ok (Suc (queue_count st)) (next_of (add_to_queue H t b st))"
    unfolding add_to_queue_fields by (rule queue_ok_subseq) (rule subseq_parts(1))
  then have "lists_ok (queue_count (add_to_queue H t b st)) (next_of (add_to_queue H t b st))
      (prev_of (add_to_queue H t b st))"
    using connect_okD(2,4) [OF ok] by (simp add: lists_ok_def add_to_queue_fields)
  moreover have "context_field (add_to_queue H t b st) = context_field st"
    "autoplay_context (add_to_queue H t b st) = autoplay_context st"
    by (simp_all add: add_to_queue_def Let_def update_restrictions_def update_queue_revision_def set_next_def)
  ultimately show ?thesis using connect_okD(5,6) [OF ok] by (simp add: connect_ok_def)
qed

lemma mark_unavailable_ok:
  assumes ok: "connect_ok st"
  shows "connect_ok (snd (mark_unavailable H i st))"
proof -
  let ?f = "filter (\<lambda>t. uri t \<noteq> to_uri i)"
  have "connect_ok (set_prev (?f (prev_of st)) (set_next (?f (next_of st)) st))"
    unfolding set_prev_set_next
    using lists_ok_subseq [OF lists_ok_of [OF ok]] by (intro set_lists_ok ok) simp
  then have "connect_ok ((set_prev (?f (prev_of st)) (set_next (?f (next_of st)) st))
      \<lparr>unavailable_uri := unavailable_uri st @ [to_uri i]\<rparr>)"
    by (rule connect_ok_cong) simp_all
  then show ?thesis
    unfolding mark_unavailable_eq Let_def by (intro sr_bind_ok fill_up_ok) (simp_all add: simple_ops_ok)
qed

lemma update_context_index_ok:
  assumes ok: "connect_ok st"
  shows "connect_ok (snd (update_context_index ty k st))"
proof (cases "context_of ty st")
  case (Some ctx)
  let ?st' = "put_context ty (ctx\<lparr>sc_index := (sc_index ctx)\<lparr>index_track := as_u32 k\<rparr>\<rparr>) st"
  have "connect_ok ?st'"
    using lists_ok_of [OF ok] by (intro fill_frame_ok [OF put_context_frame [OF Some] ok]) simp
  with Some show ?thesis by (simp add: update_context_index_def get_context_def)
qed (simp add: update_context_index_def get_context_def ok)

lemma set_current_track_ok: "connect_ok st \<Longrightarrow> connect_ok (snd (set_current_track i st))"
  by (simp add: set_current_track_def simple_ops_ok split: sum.split option.split)

lemma set_current_track_random_ok: "connect_ok st \<Longrightarrow> connect_ok (snd (set_current_track_random d st))"
  by (simp add: set_current_track_random_def set_current_track_ok Let_def split: sum.split)

lemma prev_tracks_before_ok:
  assumes "connect_ok st" "context_of ty st = Some ctx" "prev_tracks_before i ctx = Ok ps"
  shows "lists_ok (queue_count st) (next_of st) ps"
proof -
  have le: "i \<le> length (track_list ctx)"
    using assms(3) by (auto simp: prev_tracks_before_def Let_def split: if_splits)
  then have ps: "ps = keep_last SPOTIFY_MAX_PREV_TRACKS_SIZE (take i (track_list ctx))"
    using assms(3) by (simp add: prev_tracks_before_eq)
  have "list_all (\<lambda>t. \<not> is_queue t) (track_list ctx)"
    using connect_okD(7) [OF assms(1), of ty] assms(2) by (simp add: ctx_ok_def list_all_iff)
  then have "list_all (\<lambda>t. \<not> is_queue t) ps"
    unfolding ps keep_last_def by (intro list_all_parts)
  then show ?thesis
    using connect_okD(1,3) [OF assms(1)] ps by (simp add: lists_ok_def list_all_iff)
qed

lemma reset_playback_ok:
  assumes ok: "connect_ok st"
  shows "connect_ok (snd (reset_playback_to_position H k st))"
proof -
  have prev: "connect_ok (snd (if 0 < n then
        (case and_then (get_context s (active_context s)) (prev_tracks_before n) of
           Inl e \<Rightarrow> (Err e, s) | Inr prev \<Rightarrow> (Ok (), set_prev prev s)) else (Ok (), s)))"
    if "connect_ok s" for s n
    using that prev_tracks_before_ok [OF that]
    by (auto simp: and_then_def get_context_def ok_or_def set_prev_ok split: sum.split option.split)
  show ?thesis
    unfolding reset_playback_to_position_def Let_def
    by (intro sr_bind_ok update_context_index_ok simple_ops_ok ok prev clear_ok fill_up_ok)
       (simp_all add: set_current_track_ok simple_ops_ok)
qed

section \<open>Shuffling, handlers and contexts keep the invariant\<close>

lemma put_context_ok: "connect_ok st \<Longrightarrow> ctx_ok ctx \<Longrightarrow> connect_ok (put_context ty ctx st)"
  by (cases ty) (simp_all add: connect_ok_def put_context_def)

lemma ctx_ok_shuffle:
  assumes "rng_in_range R" "ctx_ok ctx"
  shows "ctx_ok (ctx\<lparr>tracks := shuffle_with_seed R seed f (tracks ctx), sc_metadata := m\<rparr>)"
  using assms swaps_ok_shuffle [of R "tracks ctx"] mset_eq_setD
  unfolding ctx_ok_def shuffle_with_seed_def by fastforce

lemma shuffle_ok_state:
  assumes R: "rng_in_range R" and ok: "connect_ok st"
  shows "connect_ok (snd (shuffle H R seed initial st))"
proof -
  define st1 where "st1 = reset_context DefaultIndex (clear_next_tracks (clear_prev_track st))"
  have st1: "connect_ok st1" by (simp add: st1_def reset_context_ok clear_ok ok)
  show ?thesis
  proof (cases "context_of DefaultContext st1")
    case (Some ctx)
    then have "ctx_ok ctx" using connect_okD(7) [OF st1, of DefaultContext] by simp
    with Some st1 show ?thesis
      unfolding shuffle_def Let_def st1_def [symmetric]
      by (simp add: get_context_def fill_up_ok put_context_ok ctx_ok_shuffle [OF R])
  next
    case None
    with st1 show ?thesis
      unfolding shuffle_def Let_def st1_def [symmetric] by (simp add: get_context_def)
  qed
qed

lemma shuffle_ops_ok:
  assumes "rng_in_range R" "connect_ok st"
  shows "connect_ok (snd (shuffle_new H R seed st))" "connect_ok (snd (shuffle_restore H R s st))"
  using assms by (simp_all add: shuffle_new_def shuffle_restore_def shuffle_ok_state split: sum.split)

lemma set_option_ok:
  assumes "connect_ok st"
  shows "connect_ok (set_shuffle b st)" "connect_ok (set_repeat_context b st)"
    and "connect_ok (set_repeat_track b st)" "connect_ok (reset_options st)"
  using assms
  by (simp_all add: set_shuffle_def set_repeat_context_def set_repeat_track_def reset_options_def
      simple_ops_ok)

lemma handle_shuffle_ok:
  assumes "rng_in_range R" "connect_ok st"
  shows "connect_ok (snd (handle_shuffle H R seed b st))"
  using assms
  by (simp add: handle_shuffle_def Let_def shuffle_ops_ok set_option_ok reset_context_ok reset_playback_ok
      split: option.split sum.split)

lemma handle_set_repeat_context_ok:
  assumes "connect_ok st"
  shows "connect_ok (snd (handle_set_repeat_context H b st))"
  using assms
  by (simp add: handle_set_repeat_context_def Let_def set_option_ok reset_playback_ok simple_ops_ok
      split: sum.split)

lemma became_inactive_ok: "connect_ok st \<Longrightarrow> connect_ok (became_inactive now st)"
  by (simp add: became_inactive_def reset_context_ok reset_ok)

text \<open>A converted track is queued only when it was asked to be.\<close>

lemma converted_not_queue:
  assumes "context_to_provided_track uuid st ct c k m p = Ok t" "p \<noteq> Some ProviderQueue"
  shows "\<not> is_queue t"
proof -
  have "\<exists>b. provider t = provider_to_string (if b then ProviderUnavailable else unwrap_or p ProviderContext)"
    using assms(1) unfolding context_to_provided_track_def and_then_eq_Ok Let_def sum.inject
    by (elim exE conjE, hypsubst, unfold ProvidedTrack.select_convs) (rule exI, rule refl)
  then show ?thesis
    using assms(2) by (cases p; cases "the p") (auto simp: is_queue_def split: if_splits)
qed

lemma convert_tracks_not_queue:
  "p \<noteq> Some ProviderQueue \<Longrightarrow> list_all (\<lambda>t. \<not> is_queue t) (convert_tracks U st c l m p i ts)"
proof (induction ts arbitrary: i)
  case (Cons t ts)
  then show ?case using converted_not_queue [of "U i" st t "Some c"]
    by (auto split: sum.split)
qed simp

lemma state_context_from_page_ok:
  "p \<noteq> Some ProviderQueue \<Longrightarrow> ctx_ok (state_context_from_page U st page m r c l p)"
  using convert_tracks_not_queue
  by (simp add: state_context_from_page_def Let_def ctx_ok_def) (simp add: from_vec_def list_all_iff)

lemma push_all_ok:
  "swaps_ok s \<Longrightarrow> swaps_ok (fold vec_push xs s) \<and> vec (fold vec_push xs s) = vec s @ xs"
proof (induction xs arbitrary: s)
  case (Cons x xs)
  then show ?case using swaps_ok_push [of s x] by (simp add: vec_push_def)
qed simp

lemma fill_context_from_page_ok:
  assumes ok: "connect_ok st"
  shows "connect_ok (snd (fill_context_from_page U page st))"
proof (cases "context_field st")
  case (Some ctx)
  then have "ctx_ok ctx" using connect_okD(5) [OF ok] by simp
  moreover have "ctx_ok (state_context_from_page U st page Map.empty None None l None)" for l
    by (rule state_context_from_page_ok) simp
  ultimately have "ctx_ok (ctx\<lparr>tracks := fold vec_push
      (track_list (state_context_from_page U st page Map.empty None None l None)) (tracks ctx)\<rparr>)" for l
    using push_all_ok [of "tracks ctx"] by (auto simp: ctx_ok_def)
  with Some ok show ?thesis by (simp add: fill_context_from_page_def Let_def connect_ok_def)
qed (simp add: fill_context_from_page_def Let_def ok)

lemma load_next_contexts_ok: "connect_ok st \<Longrightarrow> connect_ok (snd (load_next_contexts U k ps st))"
  by (induction U k ps st rule: load_next_contexts.induct)
     (auto simp: fill_context_from_page_ok split_beta split: option.split)

lemma preserve_position_ok:
  assumes ok: "connect_ok st"
  shows "connect_ok (snd (preserve_position new st))"
proof -
  have "connect_ok (case get_context s AutoplayContext of Inl _ \<Rightarrow> s
      | Inr a \<Rightarrow> put_context AutoplayContext (a\<lparr>sc_index := (sc_index a)\<lparr>index_track := 0\<rparr>\<rparr>) s)"
    if "connect_ok s" for s
    using that connect_okD(6) [OF that]
    by (auto simp: get_context_def context_of_def ok_or_def ctx_ok_def intro!: put_context_ok
        split: option.splits)
  with ok show ?thesis
    by (auto simp: preserve_position_def Let_def clear_ok simple_ops_ok split: option.split sum.split)
qed

lemma update_default_context_ok:
  assumes ok: "connect_ok st"
  shows "connect_ok (update_default_context U context page st)"
proof -
  define new where "new = state_context_from_page U st page (c_metadata context) (c_restrictions context)
                            (c_uri context) (Some 0) None"
  define p where "p = (if \<not> starts_with (context_uri (player st)) SEARCH_IDENTIFIER \<and>
                         c_uri context = Some (context_uri (player st))
                       then preserve_position new st else (new, st))"
  have new: "ctx_ok new" unfolding new_def by (rule state_context_from_page_ok) simp
  have "connect_ok (snd p)" using ok preserve_position_ok [OF ok] by (simp add: p_def)
  moreover have "ctx_ok (fst p)"
    using new by (auto simp: p_def preserve_position_def Let_def ctx_ok_def split: option.split sum.split)
  ultimately show ?thesis
    unfolding update_default_context_def Let_def new_def [symmetric] p_def [symmetric]
    by (simp add: split_beta connect_ok_def)
qed

lemma update_autoplay_context_ok:
  "connect_ok st \<Longrightarrow> connect_ok (update_autoplay_context U context page st)"
  by (simp add: update_autoplay_context_def connect_ok_def state_context_from_page_ok)

lemma update_context_ok:
  assumes "connect_ok st"
  shows "connect_ok (snd (update_context U context ty st))"
  using assms
  by (auto simp: update_context_def Let_def update_default_context_ok update_autoplay_context_ok
      load_next_contexts_ok split_beta split: ContextType.split option.split prod.split)

lemma ctx_ok_list_update:
  assumes "ctx_ok ctx" "provider t = provider (track_list ctx ! p)" "p < length (track_list ctx)"
  shows "ctx_ok (ctx\<lparr>tracks := (tracks ctx)\<lparr>vec := (track_list ctx)[p := t]\<rparr>\<rparr>)"
proof -
  have "\<not> is_queue t" using assms by (simp add: ctx_ok_def is_queue_def)
  then have "\<forall>x \<in> set ((track_list ctx)[p := t]). \<not> is_queue x"
    using assms(1) set_update_subset_insert [of "track_list ctx" p t] by (auto simp: ctx_ok_def)
  with assms(1) show ?thesis by (auto simp: ctx_ok_def swaps_ok_def split: option.splits)
qed

lemma merge_track_ok:
  assumes "ctx_ok ctx"
  shows "ctx_ok (merge_track nt ctx)"
  using assms
  by (auto simp: merge_track_def find_index_in_context_def ok_or_def Let_def intro!: ctx_ok_list_update
      split: option.split)

lemma merge_context_ok:
  assumes ok: "connect_ok st"
  shows "connect_ok (snd (merge_context page st))"
proof -
  have "ctx_ok ctx \<Longrightarrow> ctx_ok (fold merge_track ts ctx)" for ts ctx
    by (induction ts arbitrary: ctx) (simp_all add: merge_track_ok)
  then show ?thesis
    using ok connect_okD(5) [OF ok]
    by (auto simp: merge_context_def get_context_def context_of_def ok_or_def intro!: put_context_ok
        split: option.split)
qed

section \<open>Transfers and received queues keep the invariant\<close>

lemma handle_initial_transfer_ok:
  assumes "connect_ok st"
  shows "connect_ok (snd (handle_initial_transfer H t c st))"
proof -
  have p: "next_tracks (snd (transfer_session s p)) = next_tracks p \<and>
      prev_tracks (snd (transfer_session s p)) = prev_tracks p" for s p
    by (simp add: transfer_session_def Let_def split: option.split)
  obtain t' st1 where eq: "handle_initial_transfer H t c st =
      (t', update_queue_revision H (clear_next_tracks (clear_prev_track st1)))"
    and st1: "next_of st1 = next_of st" "prev_of st1 = prev_of st" "queue_count st1 = queue_count st"
      "context_field st1 = context_field st" "autoplay_context st1 = autoplay_context st"
    using p by (fastforce simp: handle_initial_transfer_def Let_def split_beta split: option.split)
  then have "connect_ok st1" using connect_ok_cong [OF assms] by simp
  then show ?thesis unfolding eq by (simp add: simple_ops_ok clear_ok)
qed

lemma queue_transferred_ok: "connect_ok st \<Longrightarrow> connect_ok (queue_transferred H U b i ts st)"
  by (induction H U b i ts st rule: queue_transferred.induct)
     (simp_all add: add_to_queue_ok split: sum.split)

lemma finish_transfer_ok:
  assumes R: "rng_in_range R" and ok: "connect_ok st"
  shows "connect_ok (snd (finish_transfer H R seed U t st))"
  unfolding finish_transfer_def Let_def
  by (intro sr_bind_ok)
     (auto simp: ok simple_ops_ok queue_transferred_ok set_option_ok shuffle_ops_ok [OF R] reset_playback_ok
       set_current_track_ok intro!: sr_bind_ok split: option.split)

lemma relabel_queued_spec:
  assumes "list_all (\<lambda>t. is_queue t \<longrightarrow> is_from_queue (metadata t)) ts" "relabel_queued n ts = (ts', n')"
  shows "n \<le> n' \<and> length ts' = length ts \<and>
    (\<forall>t \<in> set ts'. is_queue t \<longrightarrow> (\<exists>k. n \<le> k \<and> k < n' \<and> uid t = queue_id k)) \<and>
    distinct (map uid (filter is_queue ts'))"
  using assms
proof (induction ts arbitrary: n ts' n')
  case (Cons t ts)
  show ?case
  proof (cases "is_from_queue (metadata t)")
    case True
    let ?t = "(set_provider ProviderQueue t)\<lparr>uid := CHR ''q'' # show_dec n\<rparr>"
    obtain us where us: "relabel_queued (n + 1) ts = (us, n')" "ts' = ?t # us"
      using Cons.prems(2) True by (auto split: prod.splits)
    have marked: "list_all (\<lambda>t. is_queue t \<longrightarrow> is_from_queue (metadata t)) ts"
      using Cons.prems(1) by simp
    note IH = Cons.IH [OF marked us(1)]
    have t: "is_queue ?t" "uid ?t = queue_id n" by (simp_all add: set_provider_def is_queue_def queue_id_def)
    have "uid x \<noteq> queue_id n" if "x \<in> set us" "is_queue x" for x
      using IH that queue_id_inj by (metis Suc_eq_plus1 Suc_n_not_le_n)
    moreover have "\<exists>k. n \<le> k \<and> k < n' \<and> uid x = queue_id k" if "x \<in> set us" "is_queue x" for x
      using IH that by (meson add_leD1)
    ultimately show ?thesis using IH us(2) t by auto
  next
    case False
    then obtain us where us: "relabel_queued n ts = (us, n')" "ts' = t # us"
      using Cons.prems(2) by (auto split: prod.splits)
    moreover have "\<not> is_queue t" using False Cons.prems(1) by simp
    ultimately show ?thesis using Cons.IH [OF _ us(1)] Cons.prems(1) by simp
  qed
qed simp

text \<open>What a received queue has to be like for the invariant: within the limits, with every track
  that claims to be queued also marked as such, and no queued track among the previous ones.\<close>

definition received_ok :: "ProvidedTrack list \<Rightarrow> ProvidedTrack list \<Rightarrow> bool" where
  "received_ok next prev \<longleftrightarrow>
     length next \<le> SPOTIFY_MAX_NEXT_TRACKS_SIZE \<and> length prev \<le> SPOTIFY_MAX_PREV_TRACKS_SIZE \<and>
     list_all (\<lambda>t. is_queue t \<longrightarrow> is_from_queue (metadata t)) next \<and> list_all (\<lambda>t. \<not> is_queue t) prev"

lemma queue_ok_map:
  assumes "\<And>t. is_queue (f t) = is_queue t" "\<And>t. uid (f t) = uid t"
  shows "queue_ok n (map f ts) = queue_ok n ts"
proof -
  have "map uid (filter is_queue (map f ts)) = map uid (filter is_queue ts)"
    by (induction ts) (simp_all add: assms)
  then show ?thesis by (simp add: queue_ok_def assms)
qed

lemma queue_ok_fill_uri:
  "queue_ok n (map (\<lambda>t. if uri t = [] then t\<lparr>uri := u\<rparr> else t) ts) = queue_ok n ts"
  by (rule queue_ok_map) (simp_all add: is_queue_def)

lemma set_next_tracks_fields:
  "next_of (set_next_tracks ts st) = map (\<lambda>t. if uri t = [] then t\<lparr>uri := uri (current_track st)\<rparr> else t)
     (fst (relabel_queued (queue_count st) ts))"
  "prev_of (set_next_tracks ts st) = prev_of st"
  "queue_count (set_next_tracks ts st) = snd (relabel_queued (queue_count st) ts)"
  "context_field (set_next_tracks ts st) = context_field st"
  "autoplay_context (set_next_tracks ts st) = autoplay_context st"
  by (simp_all add: set_next_tracks_def split_beta Let_def) (simp_all add: set_next_def current_track_def)

lemma handle_set_queue_ok:
  assumes ok: "connect_ok st" and r: "received_ok next prev"
  shows "connect_ok (handle_set_queue H next prev st)"
proof -
  obtain ts n where ts: "relabel_queued (queue_count st) next = (ts, n)" by fastforce
  then have "queue_ok n ts" "length ts = length next"
    using relabel_queued_spec [OF _ ts] r by (auto simp: queue_ok_def received_ok_def)
  then have "connect_ok (set_prev prev (set_next_tracks next st))"
    using r ok by (simp add: connect_ok_def set_next_tracks_fields ts lists_ok_def queue_ok_fill_uri
        received_ok_def list_all_iff) (simp add: set_prev_def set_next_tracks_fields ts queue_ok_fill_uri)
  then show ?thesis by (simp add: handle_set_queue_def set_prev_tracks_def simple_ops_ok)
qed

section \<open>The transition system\<close>

text \<open>
  One rule per operation other code calls, with the value the operation leaves in the state
  whether it succeeds or fails. A rule that draws from the random generator \<open>R\<close> asks for it to
  stay in range; a received queue has to be acceptable.
\<close>

inductive connect_step ::
    "'g Rng \<Rightarrow> (string list \<Rightarrow> u64) \<Rightarrow> ConnectState \<Rightarrow> ConnectState \<Rightarrow> bool"
  for R :: "'g Rng" and H :: "string list \<Rightarrow> u64" where
  step_set_active: "connect_step R H st (set_active now b st)"
| step_set_volume: "connect_step R H st (set_volume v st)"
| step_set_last_command: "connect_step R H st (set_last_command i d st)"
| step_set_now: "connect_step R H st (set_now n st)"
| step_set_origin: "connect_step R H st (set_origin og st)"
| step_set_session_id: "connect_step R H st (set_session_id x st)"
| step_set_status: "connect_step R H st (set_status s st)"
| step_update_position: "connect_step R H st (update_position p ts st)"
| step_update_position_in_relation: "connect_step R H st (update_position_in_relation ts st)"
| step_update_duration: "connect_step R H st (update_duration du st)"
| step_update_current_index: "connect_step R H st (update_current_index f st)"
| step_update_queue_revision: "connect_step R H st (update_queue_revision H st)"
| step_update_restrictions: "connect_step R H st (update_restrictions st)"
| step_clear_restrictions: "connect_step R H st (clear_restrictions st)"
| step_set_repeat_context: "connect_step R H st (set_repeat_context b st)"
| step_set_repeat_track: "connect_step R H st (set_repeat_track b st)"
| step_set_shuffle: "connect_step R H st (set_shuffle b st)"
| step_reset_options: "connect_step R H st (reset_options st)"
| step_set_active_context: "connect_step R H st (set_active_context ty st)"
| step_assign_active_context: "connect_step R H st (st\<lparr>active_context := ty\<rparr>)"
| step_reset_context: "connect_step R H st (reset_context r st)"
| step_update_context: "connect_step R H st (snd (update_context U c ty st))"
| step_fill_context: "connect_step R H st (snd (fill_context_from_page V page st))"
| step_merge_context: "connect_step R H st (snd (merge_context new_page st))"
| step_set_track: "connect_step R H st (set_track t st)"
| step_set_current_track: "connect_step R H st (snd (set_current_track k st))"
| step_set_current_track_random: "connect_step R H st (snd (set_current_track_random draw st))"
| step_next_track: "connect_step R H st (snd (next_track H st))"
| step_prev_track: "connect_step R H st (snd (prev_track H st))"
| step_clear_prev_track: "connect_step R H st (clear_prev_track st)"
| step_clear_next_tracks: "connect_step R H st (clear_next_tracks st)"
| step_fill_up: "connect_step R H st (snd (fill_up_next_tracks H st))"
| step_mark_unavailable: "connect_step R H st (snd (mark_unavailable H sid st))"
| step_add_to_queue: "connect_step R H st (add_to_queue H t b st)"
| step_reset_playback: "connect_step R H st (snd (reset_playback_to_position H pos st))"
| step_shuffle_new: "rng_in_range R \<Longrightarrow> connect_step R H st (snd (shuffle_new H R seed st))"
| step_shuffle_restore: "rng_in_range R \<Longrightarrow> connect_step R H st (snd (shuffle_restore H R ss st))"
| step_handle_shuffle: "rng_in_range R \<Longrightarrow> connect_step R H st (snd (handle_shuffle H R seed b st))"
| step_handle_set_queue: "received_ok nts pts \<Longrightarrow> connect_step R H st (handle_set_queue H nts pts st)"
| step_handle_set_repeat_context: "connect_step R H st (snd (handle_set_repeat_context H b st))"
| step_initial_transfer: "connect_step R H st (snd (handle_initial_transfer H tr cu st))"
| step_finish_transfer: "rng_in_range R \<Longrightarrow> connect_step R H st (snd (finish_transfer H R seed V tr st))"
| step_became_inactive: "connect_step R H st (became_inactive now st)"

lemma connect_step_ok: "connect_ok st \<Longrightarrow> connect_step R H st st' \<Longrightarrow> connect_ok st'"
  by (rotate_tac, induction rule: connect_step.induct)
     (simp_all add: simple_ops_ok set_status_ok set_option_ok reset_context_ok update_context_ok
       fill_context_from_page_ok merge_context_ok set_current_track_ok set_current_track_random_ok
       next_track_ok prev_track_ok clear_ok fill_up_ok mark_unavailable_ok add_to_queue_ok
       reset_playback_ok shuffle_ops_ok handle_shuffle_ok handle_set_queue_ok
       handle_set_repeat_context_ok handle_initial_transfer_ok finish_transfer_ok became_inactive_ok)

definition connect_init :: "ConnectState \<Rightarrow> bool" where
  "connect_init st \<longleftrightarrow> (\<exists>now v n s. st = connect_state_new now v n s)"

lemma connect_init_ok: "connect_init st \<Longrightarrow> connect_ok st"
  unfolding connect_init_def connect_state_new_def Let_def
  by (elim exE, hypsubst, rule reset_ok)
     (simp add: connect_ok_def connect_state_default_def player_state_default_def lists_ok_def)

interpretation connect: invariant_system connect_init "connect_step R H" connect_ok
  for R :: "'g Rng" and H
  by unfold_locales (fact connect_init_ok, fact connect_step_ok)

section \<open>Properties\<close>



text \<open>
  A received queue replaces both lists as it is: the limits, which the other operations
  keep, are not applied to it, so it can make the lists as long as the sender likes.
\<close>

theorem set_queue_ignores_limits:
  "length (next_of (handle_set_queue H next prev st)) = length next \<and>
   prev_of (handle_set_queue H next prev st) = prev"
proof -
  have "length (fst (relabel_queued n ts)) = length ts" for n ts
    by (induction n ts rule: relabel_queued.induct) (auto simp: split_beta Let_def)
  then show ?thesis
    by (simp add: handle_set_queue_def set_prev_tracks_def set_next_tracks_fields)
       (simp add: update_queue_revision_def)
qed

section \<open>Switching shuffle on and off\<close>

definition default_tracks :: "ConnectState \<Rightarrow> ProvidedTrack ShuffleVec option" where
  "default_tracks st = map_option tracks (context_field st)"

lemma default_tracks_frames [simp]:
  "default_tracks (update_options g st) = default_tracks st"
  "default_tracks (set_active_context ty st) = default_tracks st"
  "default_tracks (update_restrictions st) = default_tracks st"
  "default_tracks (update_current_index f st) = default_tracks st"
  "default_tracks (set_track t st) = default_tracks st"
  "default_tracks (set_next ts st) = default_tracks st"
  "default_tracks (set_prev ts st) = default_tracks st"
  "default_tracks (st\<lparr>fill_up_context := ty\<rparr>) = default_tracks st"
  "default_tracks (clear_prev_track st) = default_tracks st"
  "default_tracks (clear_next_tracks st) = default_tracks st"
  by (simp_all add: default_tracks_def update_options_def add_options_if_empty_def set_active_context_def
      update_restrictions_def update_current_index_def set_track_def set_next_def set_prev_def
      clear_prev_track_def clear_next_tracks_eq Let_def split: sum.split option.split)

lemma default_tracks_fill_up [simp]: "default_tracks (snd (fill_up_next_tracks H st)) = default_tracks st"
proof (cases "context_of (fill_up_context st) st")
  case (Some ctx)
  obtain st' where "fill_up_next_tracks H st = (Ok (), st')" "fill_frame st st'"
    by (rule fill_up_next_tracks_spec [OF Some, of H])
  then show ?thesis using fill_frame_fields(8) by (simp add: default_tracks_def)
qed (simp add: fill_up_next_tracks_no_context)

lemma default_tracks_update_context_index [simp]:
  "default_tracks (snd (update_context_index ty k st)) = default_tracks st"
proof (cases "context_of ty st")
  case (Some ctx)
  then show ?thesis
    using fill_frame_fields(8) [OF put_context_frame [OF Some]]
    by (simp add: update_context_index_def get_context_def default_tracks_def)
qed (simp add: update_context_index_def get_context_def)

lemma sr_bind_tracks:
  "default_tracks (snd r) = x \<Longrightarrow> (\<And>y s. default_tracks s = x \<Longrightarrow> default_tracks (snd (f y s)) = x) \<Longrightarrow>
   default_tracks (snd (sr_bind r f)) = x"
  by (rule sr_bind_state_inv) (metis snd_conv)+

lemma default_tracks_reset_playback [simp]:
  "default_tracks (snd (reset_playback_to_position H k st)) = default_tracks st"
  unfolding reset_playback_to_position_def Let_def
  by (intro sr_bind_tracks) (simp_all add: set_current_track_def split: sum.split option.split)

lemma default_tracks_reset_index:
  "default_tracks (reset_context DefaultIndex st) = map_option unshuffle (default_tracks st)"
  by (cases "context_field st")
     (simp_all add: reset_context_def Let_def get_context_def context_of_def put_context_def,
      simp_all add: default_tracks_def reset_index_def)

lemma default_tracks_shuffle_off:
  "default_tracks (snd (handle_shuffle H R seed False st)) = map_option unshuffle (default_tracks st)"
  by (simp add: handle_shuffle_def Let_def default_tracks_reset_index set_shuffle_def
      split: option.split sum.split)

lemma default_tracks_shuffle_on:
  assumes "default_tracks st = Some v"
  shows "default_tracks (snd (handle_shuffle H R seed True st)) = Some v \<or>
    default_tracks (snd (handle_shuffle H R seed True st)) =
      Some (shuffle_with_seed R seed (\<lambda>f. uri f = uri (current_track st)) (unshuffle v))"
proof -
  let ?u = "uri (current_track (set_shuffle True st))"
  define st1 where "st1 = reset_context DefaultIndex (clear_next_tracks (clear_prev_track (set_shuffle True st)))"
  have "default_tracks st1 = Some (unshuffle v)"
    using assms by (simp add: st1_def default_tracks_reset_index set_shuffle_def)
  then obtain ctx where ctx: "context_field st1 = Some ctx" "tracks ctx = unshuffle v"
    by (auto simp: default_tracks_def)
  have "default_tracks (snd (shuffle H R seed ?u (set_shuffle True st))) =
      Some (shuffle_with_seed R seed (\<lambda>f. uri f = ?u) (unshuffle v))"
    using ctx unfolding shuffle_def Let_def st1_def [symmetric]
    by (simp add: get_context_def context_of_def) (simp add: default_tracks_def put_context_def)
  moreover have "current_track (set_shuffle True st) = current_track st"
    by (simp add: current_track_def set_shuffle_def)
  ultimately show ?thesis
    using assms by (simp add: handle_shuffle_def Let_def shuffle_new_def set_shuffle_def split: sum.split)
qed

text \<open>
  C29. Switching shuffle on and off again restores the order of the context: its tracks stand as
  they stood without any shuffle, whatever the seed and the track playing.
\<close>

theorem shuffle_toggle_restores:
  assumes "rng_in_range R" "context_field st = Some ctx" "shuffle_ok (tracks ctx)"
  shows "map_option track_list (context_field
           (snd (handle_shuffle H R s2 False (snd (handle_shuffle H R s1 True st))))) =
         Some (unshuffled_vec (tracks ctx))"
proof -
  let ?st1 = "snd (handle_shuffle H R s1 True st)"
  have "default_tracks st = Some (tracks ctx)" using assms(2) by (simp add: default_tracks_def)
  from default_tracks_shuffle_on [OF this, of H R s1]
  have "map_option unshuffled_vec (default_tracks ?st1) = Some (unshuffled_vec (tracks ctx))"
    using unshuffled_vec_shuffle [OF assms(1) shuffle_ok_unshuffle [OF assms(3)]]
    by (auto simp: shuffle_with_seed_def unshuffled_vec_def unshuffle_unshuffled)
  then show ?thesis
    using default_tracks_shuffle_off [of H R s2 ?st1]
    by (auto simp: default_tracks_def unshuffled_vec_def option.map_comp comp_def)
qed

theorem shuffle_toggle_restores_witness:
  "map_option track_list (context_field
     (snd (handle_shuffle sample_hash lcg 7 False (snd (handle_shuffle sample_hash lcg 5 True sample_state))))) =
   Some (track_list sample_context)"
proof -
  have "context_field sample_state = Some sample_context" "shuffle_ok (tracks sample_context)"
    "unshuffled_vec (tracks sample_context) = track_list sample_context"
    by (simp_all add: sample_state_def sample_context_def) (simp add: from_vec_def)
  with shuffle_toggle_restores [OF lcg_in_range, of sample_state sample_context sample_hash 7 5]
  show ?thesis by simp
qed

end
