(* ===== verification/Range_Set.thy ===== *)
theory Range_Set
  imports Prelude
begin

text \<open>
  The set of byte ranges in \<open>audio/src/range_set.rs\<close>: a vector of half-open intervals kept
  sorted, non-empty and separated by gaps. The audio fetcher records which bytes of a file
  were requested and which were downloaded in two such sets.

  The first part is the translation of \<open>Range\<close> and \<open>RangeSet\<close>. A \<open>for index in 0..len\<close>
  loop that returns at its first change of the vector is a recursion over the vector's tail;
  the \<open>while\<close> loops that remove elements at a fixed index are recursions as well.
  The second part gives the set of bytes a vector stands for and the invariant, and proves
  every operation correct against the set operation it is named after. The locale
  \<open>interval_store\<close> is what a client of the data structure may rely on.
\<close>

section \<open>The data structure\<close>

record Range =
  range_start :: usize
  range_length :: usize

definition range_new :: "usize \<Rightarrow> usize \<Rightarrow> Range" where
  "range_new s l = \<lparr>range_start = s, range_length = l\<rparr>"

definition range_end :: "Range \<Rightarrow> usize" where
  "range_end r = range_start r + range_length r"

record RangeSet =
  ranges :: "Range list"

definition range_set_new :: RangeSet where
  "range_set_new = \<lparr>ranges = []\<rparr>"

definition is_empty :: "RangeSet \<Rightarrow> bool" where
  "is_empty s \<longleftrightarrow> ranges s = []"

definition range_set_len :: "RangeSet \<Rightarrow> usize" where
  "range_set_len s = sum_list (map range_length (ranges s))"

text \<open>\<open>self.ranges[index]\<close>: an index out of range panics, modelled as \<open>None\<close>.\<close>

definition get_range :: "RangeSet \<Rightarrow> usize \<Rightarrow> Range option" where
  "get_range s i = get (ranges s) i"

fun contains_loop :: "Range list \<Rightarrow> usize \<Rightarrow> bool" where
  "contains_loop [] v = False"
| "contains_loop (r # rs) v =
     (if v < range_start r then False
      else if range_start r \<le> v \<and> v < range_end r then True
      else contains_loop rs v)"

definition contains :: "RangeSet \<Rightarrow> usize \<Rightarrow> bool" where
  "contains s v = contains_loop (ranges s) v"

fun contained_length_loop :: "Range list \<Rightarrow> usize \<Rightarrow> usize" where
  "contained_length_loop [] v = 0"
| "contained_length_loop (r # rs) v =
     (if v < range_start r then 0
      else if range_start r \<le> v \<and> v < range_end r then range_end r - v
      else contained_length_loop rs v)"

definition contained_length_from_value :: "RangeSet \<Rightarrow> usize \<Rightarrow> usize" where
  "contained_length_from_value s v = contained_length_loop (ranges s) v"

definition contains_range_set :: "RangeSet \<Rightarrow> RangeSet \<Rightarrow> bool" where
  "contains_range_set s t \<longleftrightarrow>
     (\<forall>r \<in> set (ranges t). \<not> contained_length_from_value s (range_start r) < range_length r)"

text \<open>The inner \<open>while\<close> of \<open>add_range\<close>: absorb every following range that is reached.\<close>

fun merge_loop :: "Range \<Rightarrow> Range list \<Rightarrow> Range list" where
  "merge_loop new_range [] = [new_range]"
| "merge_loop new_range (r # rs) =
     (if range_start r \<le> range_end new_range then
        (let new_end = max (range_end new_range) (range_end r);
             new_start = min (range_start new_range) (range_start r)
         in merge_loop \<lparr>range_start = new_start, range_length = new_end - new_start\<rparr> rs)
      else new_range # r # rs)"

fun add_range_loop :: "Range \<Rightarrow> Range list \<Rightarrow> Range list" where
  "add_range_loop rg [] = [rg]"
| "add_range_loop rg (r # rs) =
     (if range_end rg < range_start r then rg # r # rs
      else if range_start rg \<le> range_end r \<and> range_start r \<le> range_end rg
      then merge_loop rg (r # rs)
      else r # add_range_loop rg rs)"

definition add_range :: "Range \<Rightarrow> RangeSet \<Rightarrow> RangeSet" where
  "add_range rg s =
     (if range_length rg = 0 then s
      else s\<lparr>ranges := add_range_loop rg (ranges s)\<rparr>)"

definition add_range_set :: "RangeSet \<Rightarrow> RangeSet \<Rightarrow> RangeSet" where
  "add_range_set s t = fold add_range (ranges t) s"

definition union :: "RangeSet \<Rightarrow> RangeSet \<Rightarrow> RangeSet" where
  "union s t = add_range_set s t"

text \<open>
  The branch of \<open>subtract_range\<close> that removes ranges from the front: the \<open>while\<close> loop, then
  the \<open>if\<close> that shortens the first range left.
\<close>

fun subtract_front :: "Range \<Rightarrow> Range list \<Rightarrow> Range list" where
  "subtract_front rg [] = []"
| "subtract_front rg (r # rs) =
     (if range_end r \<le> range_end rg then subtract_front rg rs
      else if range_start r < range_end rg
      then \<lparr>range_start = range_end rg,
            range_length = range_length r - (range_end rg - range_start r)\<rparr> # rs
      else r # rs)"

fun subtract_range_loop :: "Range \<Rightarrow> Range list \<Rightarrow> Range list" where
  "subtract_range_loop rg [] = []"
| "subtract_range_loop rg (r # rs) =
     (if range_end rg \<le> range_start r then r # rs
      else if range_start rg \<le> range_start r \<and> range_start r < range_end rg
      then subtract_front rg (r # rs)
      else if range_end rg < range_end r
      then \<lparr>range_start = range_start r, range_length = range_start rg - range_start r\<rparr>
           # \<lparr>range_start = range_end rg,
              range_length = range_length r - (range_end rg - range_start r)\<rparr> # rs
      else if range_start rg < range_end r
      then r\<lparr>range_length := range_start rg - range_start r\<rparr> # subtract_range_loop rg rs
      else r # subtract_range_loop rg rs)"

definition subtract_range :: "Range \<Rightarrow> RangeSet \<Rightarrow> RangeSet" where
  "subtract_range rg s =
     (if range_length rg = 0 then s
      else s\<lparr>ranges := subtract_range_loop rg (ranges s)\<rparr>)"

definition subtract_range_set :: "RangeSet \<Rightarrow> RangeSet \<Rightarrow> RangeSet" where
  "subtract_range_set s t = fold subtract_range (ranges t) s"

definition minus :: "RangeSet \<Rightarrow> RangeSet \<Rightarrow> RangeSet" where
  "minus s t = subtract_range_set s t"

text \<open>
  The two indices of \<open>intersection\<close> only move forward, so the loop is a recursion over the
  two tails, with the result so far as the accumulator.
\<close>

fun intersection_loop :: "Range list \<Rightarrow> Range list \<Rightarrow> RangeSet \<Rightarrow> RangeSet" where
  "intersection_loop [] ys result = result"
| "intersection_loop xs [] result = result"
| "intersection_loop (x # xs) (y # ys) result =
     (if range_end x \<le> range_start y then intersection_loop xs (y # ys) result
      else if range_end y \<le> range_start x then intersection_loop (x # xs) ys result
      else
        (let new_start = max (range_start x) (range_start y);
             new_end = min (range_end x) (range_end y);
             result' = add_range (range_new new_start (new_end - new_start)) result
         in if range_end x \<le> range_end y then intersection_loop xs (y # ys) result'
            else intersection_loop (x # xs) ys result'))"

definition intersection :: "RangeSet \<Rightarrow> RangeSet \<Rightarrow> RangeSet" where
  "intersection s t = intersection_loop (ranges s) (ranges t) range_set_new"

section \<open>Abstraction and invariant\<close>

text \<open>The bytes of one range, of a vector of ranges and of a range set.\<close>

definition range_bytes :: "Range \<Rightarrow> nat set" where
  "range_bytes r = {range_start r ..< range_end r}"

definition bytes_of :: "Range list \<Rightarrow> nat set" where
  "bytes_of rs = (\<Union>r \<in> set rs. range_bytes r)"

definition range_set_bytes :: "RangeSet \<Rightarrow> nat set" where
  "range_set_bytes s = bytes_of (ranges s)"

text \<open>Sorted, no empty range, and a gap of at least one byte between neighbours.\<close>

fun ranges_ok :: "Range list \<Rightarrow> bool" where
  "ranges_ok [] = True"
| "ranges_ok [r] = (0 < range_length r)"
| "ranges_ok (r # q # rs) = (0 < range_length r \<and> range_end r < range_start q \<and> ranges_ok (q # rs))"

definition range_set_ok :: "RangeSet \<Rightarrow> bool" where
  "range_set_ok s = ranges_ok (ranges s)"

lemma bytes_of_simps [simp]:
  "bytes_of [] = {}"
  "bytes_of (r # rs) = range_bytes r \<union> bytes_of rs"
  by (simp_all add: bytes_of_def)

lemma range_bytes_iff [simp]: "v \<in> range_bytes r \<longleftrightarrow> range_start r \<le> v \<and> v < range_end r"
  by (simp add: range_bytes_def)

lemma ranges_ok_Cons:
  "ranges_ok (r # rs) \<longleftrightarrow>
     0 < range_length r \<and> (\<forall>q \<in> set rs. range_end r < range_start q) \<and> ranges_ok rs"
proof (induction rs arbitrary: r)
  case Nil
  then show ?case by simp
next
  case (Cons q rs)
  from Cons.IH [of q] show ?case by (fastforce simp: range_end_def)
qed

lemma ranges_ok_tl: "ranges_ok (r # rs) \<Longrightarrow> ranges_ok rs"
  by (simp add: ranges_ok_Cons)

lemma ranges_ok_above: "ranges_ok (r # rs) \<Longrightarrow> v \<in> bytes_of rs \<Longrightarrow> range_end r < v"
  by (fastforce simp: ranges_ok_Cons bytes_of_def)

declare ranges_ok.simps(3) [simp del]

lemmas range_defs = range_end_def range_new_def range_bytes_def

section \<open>Queries\<close>

lemma contains_loop_correct: "ranges_ok rs \<Longrightarrow> contains_loop rs v \<longleftrightarrow> v \<in> bytes_of rs"
proof (induction rs)
  case Nil
  then show ?case by simp
next
  case (Cons r rs)
  then have IH: "contains_loop rs v \<longleftrightarrow> v \<in> bytes_of rs" by (blast dest: ranges_ok_tl)
  have "range_start r \<le> range_end r" by (simp add: range_end_def)
  with IH ranges_ok_above [OF Cons.prems, of v] show ?case by auto
qed

lemma contained_length_loop_bytes:
  "ranges_ok rs \<Longrightarrow> {v ..< v + contained_length_loop rs v} \<subseteq> bytes_of rs"
proof (induction rs)
  case Nil
  then show ?case by simp
next
  case (Cons r rs)
  then have "{v ..< v + contained_length_loop rs v} \<subseteq> bytes_of rs" by (blast dest: ranges_ok_tl)
  then show ?case by auto
qed

lemma contained_length_loop_stop:
  "ranges_ok rs \<Longrightarrow> v + contained_length_loop rs v \<notin> bytes_of rs"
proof (induction rs)
  case Nil
  then show ?case by simp
next
  case (Cons r rs)
  then have IH: "v + contained_length_loop rs v \<notin> bytes_of rs" by (blast dest: ranges_ok_tl)
  have "range_end r \<notin> bytes_of rs" "v < range_start r \<Longrightarrow> v \<notin> bytes_of rs"
    using ranges_ok_above [OF Cons.prems] by (fastforce simp: range_end_def)+
  with IH show ?case by (auto simp: range_end_def)
qed

text \<open>The contained length is the exact number of consecutive bytes present.\<close>

lemma contained_length_ge_iff:
  assumes "ranges_ok rs"
  shows "n \<le> contained_length_loop rs v \<longleftrightarrow> {v ..< v + n} \<subseteq> bytes_of rs"
proof
  assume "n \<le> contained_length_loop rs v"
  with contained_length_loop_bytes [OF assms, of v] show "{v ..< v + n} \<subseteq> bytes_of rs"
    by (meson add_left_mono ivl_subset order.refl order_trans)
next
  assume sub: "{v ..< v + n} \<subseteq> bytes_of rs"
  show "n \<le> contained_length_loop rs v"
  proof (rule ccontr)
    assume "\<not> ?thesis"
    then have "v + contained_length_loop rs v \<in> {v ..< v + n}" by simp
    with sub contained_length_loop_stop [OF assms, of v] show False by blast
  qed
qed

lemma finite_bytes_of [simp]: "finite (bytes_of rs)"
  by (simp add: bytes_of_def range_bytes_def)

lemma card_bytes_of: "ranges_ok rs \<Longrightarrow> card (bytes_of rs) = sum_list (map range_length rs)"
proof (induction rs)
  case Nil
  then show ?case by simp
next
  case (Cons r rs)
  have "range_bytes r \<inter> bytes_of rs = {}"
    using ranges_ok_above [OF Cons.prems] by (fastforce simp: range_bytes_def)
  then have "card (bytes_of (r # rs)) = card (range_bytes r) + card (bytes_of rs)"
    by (simp add: card_Un_disjoint range_bytes_def)
  with Cons show ?case by (simp add: ranges_ok_Cons range_bytes_def range_end_def)
qed

section \<open>Adding a range\<close>

lemma merge_loop_ok:
  "0 < range_length new \<Longrightarrow> ranges_ok rs \<Longrightarrow> ranges_ok (merge_loop new rs)"
proof (induction new rs rule: merge_loop.induct)
  case (1 new)
  then show ?case by simp
next
  case (2 new r rs)
  then show ?case by (auto simp: Let_def ranges_ok_Cons range_end_def)
qed

lemma merge_loop_bytes:
  "ranges_ok rs \<Longrightarrow> (\<forall>r \<in> set rs. range_start new \<le> range_end r) \<Longrightarrow>
   bytes_of (merge_loop new rs) = range_bytes new \<union> bytes_of rs"
proof (induction new rs rule: merge_loop.induct)
  case (1 new)
  then show ?case by simp
next
  case (2 new r rs)
  show ?case
  proof (cases "range_start r \<le> range_end new")
    case True
    let ?s = "min (range_start new) (range_start r)"
    let ?e = "max (range_end new) (range_end r)"
    let ?m = "\<lparr>range_start = ?s, range_length = ?e - ?s\<rparr>"
    have "\<forall>q \<in> set rs. range_start ?m \<le> range_end q"
      using 2(2,3) by (fastforce simp: ranges_ok_Cons range_end_def)
    with 2 True have "bytes_of (merge_loop ?m rs) = range_bytes ?m \<union> bytes_of rs"
      by (metis ranges_ok_tl)
    moreover have "range_bytes ?m = range_bytes new \<union> range_bytes r"
      using True 2(3) by (auto simp: range_bytes_def range_end_def)
    ultimately show ?thesis using True by (auto simp: Let_def)
  next
    case False
    then show ?thesis by simp
  qed
qed

lemma set_merge_loop_above:
  "ranges_ok (q # rs) \<Longrightarrow> range_end q < range_start new \<Longrightarrow>
   \<forall>r \<in> set (merge_loop new rs). range_end q < range_start r"
  by (induction new rs rule: merge_loop.induct) (auto simp: Let_def ranges_ok_Cons)

lemma add_range_loop_cases:
  obtains
    (before) "range_end new < range_start r" "add_range_loop new (r # rs) = new # r # rs"
  | (touch) "range_start r \<le> range_end new" "range_start new \<le> range_end r"
      "add_range_loop new (r # rs) = merge_loop new (r # rs)"
  | (after) "range_end r < range_start new" "add_range_loop new (r # rs) = r # add_range_loop new rs"
proof (cases "range_end new < range_start r")
  case True
  with before show ?thesis by simp
next
  case False
  with touch after show ?thesis
    by (cases "range_start new \<le> range_end r") (simp_all del: merge_loop.simps)
qed

lemma add_range_loop_above:
  "ranges_ok (q # rs) \<Longrightarrow> range_end q < range_start new \<Longrightarrow>
   \<forall>r \<in> set (add_range_loop new rs). range_end q < range_start r"
proof (induction rs)
  case Nil
  then show ?case by simp
next
  case (Cons x xs)
  then have tl: "ranges_ok (q # xs)" and qx: "range_end q < range_start x"
    by (simp_all add: ranges_ok_Cons)
  show ?case
  proof (cases new x xs rule: add_range_loop_cases)
    case before
    with Cons.prems show ?thesis by (simp add: ranges_ok_Cons)
  next
    case touch
    with set_merge_loop_above [OF Cons.prems] show ?thesis by (simp only:)
  next
    case after
    with Cons.IH [OF tl Cons.prems(2)] qx show ?thesis by simp
  qed
qed

lemma add_range_loop_ok:
  "0 < range_length new \<Longrightarrow> ranges_ok rs \<Longrightarrow> ranges_ok (add_range_loop new rs)"
proof (induction rs)
  case Nil
  then show ?case by simp
next
  case (Cons r rs)
  show ?case
  proof (cases new r rs rule: add_range_loop_cases)
    case before
    with Cons.prems show ?thesis by (auto simp: ranges_ok_Cons range_end_def)
  next
    case touch
    with merge_loop_ok [OF Cons.prems] show ?thesis by (simp only:)
  next
    case after
    with Cons show ?thesis
      using add_range_loop_above [OF Cons.prems(2)] by (simp add: ranges_ok_Cons)
  qed
qed

lemma add_range_loop_bytes:
  "0 < range_length new \<Longrightarrow> ranges_ok rs \<Longrightarrow>
   bytes_of (add_range_loop new rs) = range_bytes new \<union> bytes_of rs"
proof (induction rs)
  case Nil
  then show ?case by simp
next
  case (Cons r rs)
  show ?case
  proof (cases new r rs rule: add_range_loop_cases)
    case before
    then show ?thesis by simp
  next
    case touch
    have "\<forall>q \<in> set (r # rs). range_start new \<le> range_end q"
      using touch(2) Cons.prems(2) by (fastforce simp: ranges_ok_Cons range_end_def)
    with touch(3) show ?thesis using merge_loop_bytes [OF Cons.prems(2)] by (simp only:)
  next
    case after
    with Cons show ?thesis by (auto dest: ranges_ok_tl)
  qed
qed

section \<open>Subtracting a range\<close>

lemma subtract_front_sub:
  "ranges_ok rs \<Longrightarrow> q \<in> set (subtract_front rg rs) \<Longrightarrow>
   \<exists>r \<in> set rs. range_start r \<le> range_start q"
  by (induction rs) (auto simp: ranges_ok_Cons split: if_splits)

lemma shortened_range:
  assumes "\<not> range_end r \<le> e" "range_start r < e"
  shows "e < range_length r + range_start r"
    "range_end \<lparr>range_start = e, range_length = range_length r + range_start r - e\<rparr> = range_end r"
  using assms by (simp_all add: range_end_def)

lemma subtract_front_ok: "ranges_ok rs \<Longrightarrow> ranges_ok (subtract_front rg rs)"
proof (induction rs)
  case Nil
  then show ?case by simp
next
  case (Cons r rs)
  then show ?case by (simp add: ranges_ok_Cons shortened_range)
qed

lemma subtract_front_bytes:
  "ranges_ok rs \<Longrightarrow> (\<forall>r \<in> set rs. range_start rg \<le> range_start r) \<Longrightarrow>
   bytes_of (subtract_front rg rs) = bytes_of rs - range_bytes rg"
proof (induction rs)
  case Nil
  then show ?case by simp
next
  case (Cons r rs)
  then have IH: "bytes_of (subtract_front rg rs) = bytes_of rs - range_bytes rg"
    by (auto simp: ranges_ok_Cons)
  have above: "\<And>v. v \<in> bytes_of rs \<Longrightarrow> range_end r < v"
    by (rule ranges_ok_above [OF Cons.prems(1)])
  show ?case
  proof (cases "range_end r \<le> range_end rg")
    case True
    have "range_bytes r - range_bytes rg = {}" using True Cons.prems(2) by auto
    with True IH show ?thesis by auto
  next
    case False
    then have "bytes_of rs - range_bytes rg = bytes_of rs" using above by fastforce
    with False Cons.prems(2) show ?thesis by (auto simp: range_end_def)
  qed
qed

text \<open>The five positions of the subtracted range, and what the loop does in each.\<close>

lemma subtract_range_loop_cases:
  assumes "0 < range_length rg"
  obtains
    (past) "range_end rg \<le> range_start r" "subtract_range_loop rg (r # rs) = r # rs"
  | (front) "range_start r < range_end rg" "range_start rg \<le> range_start r"
      "subtract_range_loop rg (r # rs) = subtract_front rg (r # rs)"
  | (hole) "range_start r < range_start rg" "range_end rg < range_end r"
      "subtract_range_loop rg (r # rs) =
         \<lparr>range_start = range_start r, range_length = range_start rg - range_start r\<rparr>
         # \<lparr>range_start = range_end rg,
            range_length = range_length r - (range_end rg - range_start r)\<rparr> # rs"
  | (truncate) "range_start r < range_start rg" "range_start rg < range_end r"
      "range_end r \<le> range_end rg"
      "subtract_range_loop rg (r # rs) =
         r\<lparr>range_length := range_start rg - range_start r\<rparr> # subtract_range_loop rg rs"
  | (skip) "range_end r \<le> range_start rg"
      "subtract_range_loop rg (r # rs) = r # subtract_range_loop rg rs"
proof -
  have pos: "range_start rg < range_end rg" "range_start r \<le> range_end r"
    using assms by (simp_all add: range_end_def)
  consider "range_end rg \<le> range_start r"
    | "range_start r < range_end rg" "range_start rg \<le> range_start r"
    | "range_start r < range_start rg" "range_end rg < range_end r"
    | "range_start r < range_start rg" "range_start rg < range_end r" "range_end r \<le> range_end rg"
    | "range_start r < range_start rg" "range_end r \<le> range_start rg"
    by linarith
  then show thesis
  proof cases
    case 1
    then show thesis by (intro past) simp_all
  next
    case 2
    then show thesis by (intro front) (simp_all del: subtract_front.simps)
  next
    case 3
    with pos show thesis by (intro hole) simp_all
  next
    case 4
    with pos show thesis by (intro truncate) simp_all
  next
    case 5
    with pos show thesis by (intro skip) simp_all
  qed
qed

lemma subtract_range_loop_sub:
  "0 < range_length rg \<Longrightarrow> q \<in> set (subtract_range_loop rg rs) \<Longrightarrow> ranges_ok rs \<Longrightarrow>
   \<exists>r \<in> set rs. range_start r \<le> range_start q"
proof (induction rs)
  case Nil
  then show ?case by simp
next
  case (Cons r rs)
  have tl: "ranges_ok rs" using Cons.prems(3) by (rule ranges_ok_tl)
  from Cons.prems(1) show ?case
  proof (cases rule: subtract_range_loop_cases [of rg r rs])
    case past
    with Cons.prems show ?thesis by auto
  next
    case front
    with Cons.prems show ?thesis using subtract_front_sub [of "r # rs" q rg] by (simp only:)
  next
    case hole
    with Cons.prems show ?thesis by auto
  next
    case truncate
    with Cons.prems Cons.IH [OF Cons.prems(1) _ tl] show ?thesis by auto
  next
    case skip
    with Cons.prems Cons.IH [OF Cons.prems(1) _ tl] show ?thesis by auto
  qed
qed

lemma subtract_range_loop_ok:
  "0 < range_length rg \<Longrightarrow> ranges_ok rs \<Longrightarrow> ranges_ok (subtract_range_loop rg rs)"
proof (induction rs)
  case Nil
  then show ?case by simp
next
  case (Cons r rs)
  have tl: "ranges_ok rs" using Cons.prems(2) by (rule ranges_ok_tl)
  with Cons have IH: "ranges_ok (subtract_range_loop rg rs)" by blast
  have gap: "\<forall>q \<in> set (subtract_range_loop rg rs). range_end r < range_start q"
    using subtract_range_loop_sub [OF Cons.prems(1) _ tl] Cons.prems(2)
    by (meson order_less_le_trans ranges_ok_Cons)
  from Cons.prems(1) show ?case
  proof (cases rule: subtract_range_loop_cases [of rg r rs])
    case past
    with Cons.prems show ?thesis by simp
  next
    case front
    with subtract_front_ok [OF Cons.prems(2)] show ?thesis by (simp only:)
  next
    case hole
    with Cons.prems show ?thesis by (auto simp: ranges_ok_Cons range_end_def)
  next
    case truncate
    with gap IH show ?thesis by (fastforce simp: ranges_ok_Cons range_end_def)
  next
    case skip
    with gap IH Cons.prems(2) show ?thesis by (simp add: ranges_ok_Cons)
  qed
qed

lemma subtract_range_loop_bytes:
  "0 < range_length rg \<Longrightarrow> ranges_ok rs \<Longrightarrow>
   bytes_of (subtract_range_loop rg rs) = bytes_of rs - range_bytes rg"
proof (induction rs)
  case Nil
  then show ?case by simp
next
  case (Cons r rs)
  then have IH: "bytes_of (subtract_range_loop rg rs) = bytes_of rs - range_bytes rg"
    by (blast dest: ranges_ok_tl)
  have above: "\<And>v. v \<in> bytes_of rs \<Longrightarrow> range_end r < v"
    by (rule ranges_ok_above [OF Cons.prems(2)])
  from Cons.prems(1) show ?case
  proof (cases rule: subtract_range_loop_cases [of rg r rs])
    case past
    have "range_start r \<le> range_end r" by (simp add: range_end_def)
    with past above have "bytes_of (r # rs) \<inter> range_bytes rg = {}" by fastforce
    with past show ?thesis by auto
  next
    case front
    have "\<forall>q \<in> set (r # rs). range_start rg \<le> range_start q"
      using front Cons.prems(2) by (fastforce simp: ranges_ok_Cons range_end_def)
    with front(3) show ?thesis using subtract_front_bytes [OF Cons.prems(2)] by (simp only:)
  next
    case hole
    then have "bytes_of rs - range_bytes rg = bytes_of rs" using above by fastforce
    moreover have "range_bytes \<lparr>range_start = range_start r,
          range_length = range_start rg - range_start r\<rparr>
        \<union> range_bytes \<lparr>range_start = range_end rg,
          range_length = range_length r - (range_end rg - range_start r)\<rparr>
        = range_bytes r - range_bytes rg" (is "range_bytes ?a \<union> range_bytes ?b = _")
    proof -
      have "range_start rg < range_end rg" "range_start r < range_end rg"
        using Cons.prems(1) hole(1) by (simp_all add: range_end_def)
      moreover from this have "range_end ?a = range_start rg" "range_end ?b = range_end r"
        using hole(1,2) by (simp_all add: range_end_def)
      ultimately show ?thesis using hole(1,2) by (auto simp: range_bytes_def)
    qed
    ultimately show ?thesis unfolding hole(3) bytes_of_simps by blast
  next
    case truncate
    then have "range_end (r\<lparr>range_length := range_start rg - range_start r\<rparr>) = range_start rg"
      by (simp add: range_end_def)
    with truncate(1-3) have
      "range_bytes (r\<lparr>range_length := range_start rg - range_start r\<rparr>) = range_bytes r - range_bytes rg"
      by auto
    with IH show ?thesis unfolding truncate(4) bytes_of_simps by blast
  next
    case skip
    then have "range_bytes r - range_bytes rg = range_bytes r" by auto
    with IH show ?thesis unfolding skip(2) bytes_of_simps by blast
  qed
qed

section \<open>The interface of a byte-range store\<close>

text \<open>
  What the audio fetcher relies on: a store of byte ranges with a well-formedness invariant,
  the set of bytes it stands for, the length of the run of bytes present from a position, and
  the number of bytes in it. The lemmas hold for every store with these laws.
\<close>

locale interval_store =
  fixes invar :: "'s \<Rightarrow> bool"
    and bytes :: "'s \<Rightarrow> nat set"
    and empty :: "'s"
    and add :: "Range \<Rightarrow> 's \<Rightarrow> 's"
    and sub :: "Range \<Rightarrow> 's \<Rightarrow> 's"
    and run_length :: "'s \<Rightarrow> nat \<Rightarrow> nat"
    and total :: "'s \<Rightarrow> nat"
  assumes invar_empty: "invar empty"
    and bytes_empty: "bytes empty = {}"
    and invar_add: "invar s \<Longrightarrow> invar (add rg s)"
    and bytes_add: "invar s \<Longrightarrow> bytes (add rg s) = bytes s \<union> range_bytes rg"
    and invar_sub: "invar s \<Longrightarrow> invar (sub rg s)"
    and bytes_sub: "invar s \<Longrightarrow> bytes (sub rg s) = bytes s - range_bytes rg"
    and run_length_iff: "invar s \<Longrightarrow> n \<le> run_length s v \<longleftrightarrow> {v ..< v + n} \<subseteq> bytes s"
    and total_card: "invar s \<Longrightarrow> total s = card (bytes s)"
    and finite_bytes: "finite (bytes s)"
begin

lemma fold_add:
  "invar s \<Longrightarrow> invar (fold add rs s) \<and> bytes (fold add rs s) = bytes s \<union> bytes_of rs"
  by (induction rs arbitrary: s) (auto simp: invar_add bytes_add)

lemma fold_sub:
  "invar s \<Longrightarrow> invar (fold sub rs s) \<and> bytes (fold sub rs s) = bytes s - bytes_of rs"
  by (induction rs arbitrary: s) (auto simp: invar_sub bytes_sub)

text \<open>A range is entirely present exactly when the run from its start covers its length.\<close>

lemma covers_iff:
  "invar s \<Longrightarrow> range_length rg \<le> run_length s (range_start rg) \<longleftrightarrow> range_bytes rg \<subseteq> bytes s"
  by (simp add: run_length_iff range_bytes_def range_end_def)

lemma run_length_pos_iff: "invar s \<Longrightarrow> 0 < run_length s v \<longleftrightarrow> v \<in> bytes s"
  using run_length_iff [of s 1 v] by auto

text \<open>A single range, minus what two other stores already hold: nothing of it is fetched twice.\<close>

lemma single_minus_two:
  "invar (fold sub bs (fold sub as (add rg empty)))
   \<and> bytes (fold sub bs (fold sub as (add rg empty))) = range_bytes rg - bytes_of as - bytes_of bs"
  using fold_sub [OF invar_add [OF invar_empty], of as]
    fold_sub [of "fold sub as (add rg empty)" bs]
  by (simp add: bytes_add [OF invar_empty] bytes_empty invar_add invar_empty)

lemma total_eq_0_iff: "invar s \<Longrightarrow> total s = 0 \<longleftrightarrow> bytes s = {}"
  by (simp add: total_card finite_bytes)

end

lemma range_set_add_ok: "range_set_ok s \<Longrightarrow> range_set_ok (add_range rg s)"
  by (simp add: range_set_ok_def add_range_def add_range_loop_ok)

lemma range_set_add_bytes:
  "range_set_ok s \<Longrightarrow> range_set_bytes (add_range rg s) = range_set_bytes s \<union> range_bytes rg"
  by (auto simp: range_set_ok_def range_set_bytes_def add_range_def add_range_loop_bytes range_end_def)

lemma range_set_subtract_ok: "range_set_ok s \<Longrightarrow> range_set_ok (subtract_range rg s)"
  by (simp add: range_set_ok_def subtract_range_def subtract_range_loop_ok)

lemma range_set_subtract_bytes:
  "range_set_ok s \<Longrightarrow> range_set_bytes (subtract_range rg s) = range_set_bytes s - range_bytes rg"
  by (auto simp: range_set_ok_def range_set_bytes_def subtract_range_def
      subtract_range_loop_bytes range_end_def)

interpretation rs: interval_store range_set_ok range_set_bytes range_set_new add_range
  subtract_range contained_length_from_value range_set_len
proof unfold_locales
  show "range_set_ok range_set_new" "range_set_bytes range_set_new = {}"
    by (simp_all add: range_set_ok_def range_set_bytes_def range_set_new_def)
next
  fix s n v assume "range_set_ok s"
  then show "n \<le> contained_length_from_value s v \<longleftrightarrow> {v ..< v + n} \<subseteq> range_set_bytes s"
    by (simp add: range_set_ok_def contained_length_from_value_def range_set_bytes_def
        contained_length_ge_iff)
next
  fix s assume "range_set_ok s"
  then show "range_set_len s = card (range_set_bytes s)"
    by (simp add: range_set_ok_def range_set_len_def range_set_bytes_def card_bytes_of)
next
  show "finite (range_set_bytes s)" for s
    by (simp add: range_set_bytes_def)
qed (simp_all add: range_set_add_ok range_set_add_bytes range_set_subtract_ok
      range_set_subtract_bytes)

section \<open>Operations on two range sets\<close>

lemma add_range_set_correct:
  "range_set_ok s \<Longrightarrow>
   range_set_ok (add_range_set s t) \<and>
   range_set_bytes (add_range_set s t) = range_set_bytes s \<union> range_set_bytes t"
  unfolding add_range_set_def using rs.fold_add by (simp add: range_set_bytes_def)

lemma subtract_range_set_correct:
  "range_set_ok s \<Longrightarrow>
   range_set_ok (subtract_range_set s t) \<and>
   range_set_bytes (subtract_range_set s t) = range_set_bytes s - range_set_bytes t"
  unfolding subtract_range_set_def using rs.fold_sub by (simp add: range_set_bytes_def)

lemma union_correct:
  "range_set_ok s \<Longrightarrow>
   range_set_ok (union s t) \<and> range_set_bytes (union s t) = range_set_bytes s \<union> range_set_bytes t"
  by (simp add: union_def add_range_set_correct)

lemma minus_correct:
  "range_set_ok s \<Longrightarrow>
   range_set_ok (minus s t) \<and> range_set_bytes (minus s t) = range_set_bytes s - range_set_bytes t"
  by (simp add: minus_def subtract_range_set_correct)

lemma bytes_of_ge_start: "ranges_ok (r # rs) \<Longrightarrow> v \<in> bytes_of (r # rs) \<Longrightarrow> range_start r \<le> v"
  using ranges_ok_above [of r rs v] by (auto simp: range_end_def)

lemma overlap_bytes:
  "\<not> range_end x \<le> range_start y \<Longrightarrow> \<not> range_end y \<le> range_start x \<Longrightarrow>
   range_bytes (range_new (max (range_start x) (range_start y))
     (min (range_end x) (range_end y) - max (range_start x) (range_start y)))
   = range_bytes x \<inter> range_bytes y"
  by (auto simp: range_bytes_def range_new_def range_end_def)

lemma intersection_loop_correct:
  "ranges_ok xs \<Longrightarrow> ranges_ok ys \<Longrightarrow> range_set_ok res \<Longrightarrow>
   range_set_ok (intersection_loop xs ys res) \<and>
   range_set_bytes (intersection_loop xs ys res) = range_set_bytes res \<union> bytes_of xs \<inter> bytes_of ys"
proof (induction xs ys res rule: intersection_loop.induct)
  case (1 ys res)
  then show ?case by simp
next
  case (2 x xs res)
  then show ?case by simp
next
  case (3 x xs y ys res)
  let ?new = "range_new (max (range_start x) (range_start y))
     (min (range_end x) (range_end y) - max (range_start x) (range_start y))"
  have ok: "ranges_ok xs" "ranges_ok ys" using 3(5,6) by (simp_all add: ranges_ok_Cons)
  have x_above: "\<And>v. v \<in> bytes_of xs \<Longrightarrow> range_end x < v" by (rule ranges_ok_above [OF 3(5)])
  have y_above: "\<And>v. v \<in> bytes_of ys \<Longrightarrow> range_end y < v" by (rule ranges_ok_above [OF 3(6)])
  have x_from: "\<And>v. v \<in> bytes_of (x # xs) \<Longrightarrow> range_start x \<le> v" by (rule bytes_of_ge_start [OF 3(5)])
  have y_from: "\<And>v. v \<in> bytes_of (y # ys) \<Longrightarrow> range_start y \<le> v" by (rule bytes_of_ge_start [OF 3(6)])
  consider "range_end x \<le> range_start y"
    | "\<not> range_end x \<le> range_start y" "range_end y \<le> range_start x"
    | "\<not> range_end x \<le> range_start y" "\<not> range_end y \<le> range_start x" "range_end x \<le> range_end y"
    | "\<not> range_end x \<le> range_start y" "\<not> range_end y \<le> range_start x" "\<not> range_end x \<le> range_end y"
    by linarith
  then show ?case
  proof cases
    case 1
    have "range_bytes x \<inter> bytes_of (y # ys) = {}" using 1 y_from by fastforce
    with 1 3(1) [OF 1 ok(1) 3(6,7)] show ?thesis by auto
  next
    case 2
    have "bytes_of (x # xs) \<inter> range_bytes y = {}" using 2 x_from by fastforce
    with 2 3(2) [OF 2 3(5) ok(2) 3(7)] show ?thesis by auto
  next
    case 3
    have "range_bytes x \<inter> bytes_of ys = {}" using 3 y_above by fastforce
    with 3 "3.IH"(3) [OF 3(1,2) refl refl refl 3(3) ok(1) "3.prems"(2) rs.invar_add]
      rs.bytes_add [of res ?new] "3.prems"(3) overlap_bytes [OF 3(1,2)]
    show ?thesis by (auto simp: Let_def)
  next
    case 4
    have "bytes_of xs \<inter> range_bytes y = {}" using 4 x_above by fastforce
    with 4 "3.IH"(4) [OF 4(1,2) refl refl refl 4(3) "3.prems"(1) ok(2) rs.invar_add]
      rs.bytes_add [of res ?new] "3.prems"(3) overlap_bytes [OF 4(1,2)]
    show ?thesis by (auto simp: Let_def)
  qed
qed

section \<open>Canonical form and bounds\<close>

lemma bytes_of_start: "ranges_ok (r # rs) \<Longrightarrow> range_start r \<in> bytes_of (r # rs)"
  by (simp add: ranges_ok_Cons range_end_def)

lemma ranges_ok_unique:
  "ranges_ok xs \<Longrightarrow> ranges_ok ys \<Longrightarrow> bytes_of xs = bytes_of ys \<Longrightarrow> xs = ys"
proof (induction xs arbitrary: ys)
  case Nil
  then show ?case using bytes_of_start by (cases ys) fastforce+
next
  case (Cons x xs)
  from Cons.prems bytes_of_start [OF Cons.prems(1)] obtain y zs where ys: "ys = y # zs"
    by (cases ys) auto
  have start: "range_start x = range_start y"
    using Cons.prems bytes_of_start [OF Cons.prems(1)] bytes_of_start [of y zs]
      bytes_of_ge_start [OF Cons.prems(1)] bytes_of_ge_start [of y zs] ys
    by (metis order_antisym)
  have run: "contained_length_loop (r # rs) (range_start r) = range_length r"
    if "ranges_ok (r # rs)" for r rs
    using that by (simp add: ranges_ok_Cons range_end_def)
  have "contained_length_loop (x # xs) v = contained_length_loop ys v" for v
    using contained_length_ge_iff [OF Cons.prems(1)] contained_length_ge_iff [OF Cons.prems(2)]
      Cons.prems(3) by (metis order_antisym order_refl)
  then have "range_length x = range_length y"
    using run [OF Cons.prems(1)] run [of y zs] Cons.prems(2) start ys by metis
  with start have eq: "x = y" by simp
  have rest: "bytes_of rs = bytes_of (r # rs) - range_bytes r" if "ranges_ok (r # rs)" for r rs
    using ranges_ok_above [OF that] by fastforce
  have "bytes_of xs = bytes_of zs"
    using rest [OF Cons.prems(1)] rest [of y zs] Cons.prems(2,3) eq ys by simp
  with Cons.IH [of zs] Cons.prems(1,2) eq ys show ?case by (simp add: ranges_ok_Cons)
qed

lemma ranges_bounded_iff:
  "ranges_ok rs \<Longrightarrow> (\<forall>r \<in> set rs. range_end r \<le> m) \<longleftrightarrow> bytes_of rs \<subseteq> {..<m}"
proof (induction rs)
  case Nil
  then show ?case by simp
next
  case (Cons r rs)
  have "range_end r \<le> m \<longleftrightarrow> range_bytes r \<subseteq> {..<m}"
    using Cons.prems by (simp add: ranges_ok_Cons range_bytes_def range_end_def lessThan_atLeast0)
  with Cons show ?case by (auto simp: ranges_ok_Cons)
qed

lemma range_set_intersection:
  "range_set_ok s \<Longrightarrow> range_set_ok t \<Longrightarrow>
   range_set_ok (intersection s t) \<and>
   range_set_bytes (intersection s t) = range_set_bytes s \<inter> range_set_bytes t"
  using intersection_loop_correct [of "ranges s" "ranges t" range_set_new]
  by (simp add: intersection_def range_set_ok_def range_set_bytes_def range_set_new_def)

section \<open>Properties\<close>


text \<open>Two ranges bridged by a third that overlaps the first and touches the second.\<close>

definition two_ranges :: RangeSet where
  "two_ranges = \<lparr>ranges = [range_new 0 10, range_new 20 10]\<rparr>"

lemma two_ranges_ok: "range_set_ok two_ranges"
  by (simp add: two_ranges_def range_set_ok_def ranges_ok_Cons range_new_def range_end_def)


text \<open>
  Subtracting a range keeps the invariant and removes exactly the bytes of the range:
  ranges inside it disappear, ranges it cuts are shortened, and a range it lies in is split.
\<close>

theorem subtract_range_correct:
  assumes "range_set_ok s"
  shows "range_set_ok (subtract_range rg s) \<and>
         range_set_bytes (subtract_range rg s) = range_set_bytes s - range_bytes rg"
  using assms by (simp add: rs.invar_sub rs.bytes_sub)

theorem subtract_range_correct_witness:
  "range_set_ok (subtract_range (range_new 5 18) two_ranges) \<and>
   ranges (subtract_range (range_new 5 18) two_ranges) = [range_new 0 5, range_new 23 7]"
proof -
  have "ranges (subtract_range (range_new 5 18) two_ranges) = [range_new 0 5, range_new 23 7]"
    by (simp add: subtract_range_def two_ranges_def range_new_def range_end_def)
  with subtract_range_correct [OF two_ranges_ok, of "range_new 5 18"] show ?thesis by simp
qed

text \<open>
  The two-pointer intersection of two well-formed range sets is well-formed and holds
  exactly the bytes that both hold.
\<close>

theorem intersection_correct:
  assumes "range_set_ok s" and "range_set_ok t"
  shows "range_set_ok (intersection s t) \<and>
         range_set_bytes (intersection s t) = range_set_bytes s \<inter> range_set_bytes t"
  by (rule range_set_intersection [OF assms])

theorem intersection_correct_witness:
  "range_set_bytes (intersection two_ranges (add_range (range_new 5 20) range_set_new)) =
   range_set_bytes two_ranges \<inter> range_set_bytes (add_range (range_new 5 20) range_set_new)"
  using intersection_correct [OF two_ranges_ok rs.invar_add [OF rs.invar_empty], of "range_new 5 20"]
  by (rule conjunct2)

text \<open>
  The length reported from a position is the exact number of consecutive bytes present
  from there: a prefix of that position is present if and only if it is no longer than the
  reported length; in particular the length is positive exactly when the byte is contained.
\<close>

theorem contained_length_exact:
  assumes "range_set_ok s"
  shows "(\<forall>n. n \<le> contained_length_from_value s v \<longleftrightarrow> {v ..< v + n} \<subseteq> range_set_bytes s) \<and>
         (contains s v \<longleftrightarrow> 0 < contained_length_from_value s v)"
  using assms rs.run_length_iff [OF assms] rs.run_length_pos_iff [OF assms]
  by (simp add: contains_def contains_loop_correct range_set_ok_def range_set_bytes_def)

theorem contained_length_exact_witness:
  "contained_length_from_value two_ranges 23 = 7 \<and> contains two_ranges 23"
proof -
  have "contained_length_from_value two_ranges 23 = 7"
    by (simp add: contained_length_from_value_def two_ranges_def range_new_def range_end_def)
  with contained_length_exact [OF two_ranges_ok, of 23] show ?thesis by simp
qed

text \<open>
  The representation is canonical: two well-formed range sets that hold the same bytes
  are the same vector of ranges, so the order in which ranges were added and removed leaves
  no trace.
\<close>

theorem range_set_canonical:
  assumes "range_set_ok s" and "range_set_ok t" and "range_set_bytes s = range_set_bytes t"
  shows "ranges s = ranges t"
  using assms ranges_ok_unique by (simp add: range_set_ok_def range_set_bytes_def)

theorem range_set_canonical_witness:
  "ranges (add_range (range_new 3 4) (add_range (range_new 0 3) range_set_new)) =
   ranges (add_range (range_new 0 3) (add_range (range_new 3 4) range_set_new))"
  by (rule range_set_canonical)
    (simp_all add: rs.invar_add rs.invar_empty rs.bytes_add Un_ac)

text \<open>
  The number of pending bytes that the fetcher computes as \<open>requested.minus(downloaded).len()\<close>
  is the cardinality of the difference, and no operation leaves the bounds of its operands: with
  every end at most \<open>m\<close> (a file size, or the largest \<open>usize\<close>) all ends stay at most \<open>m\<close>.
\<close>

theorem minus_len_and_bounds:
  assumes "range_set_ok s" and "range_set_ok t" and "\<forall>r \<in> set (ranges s). range_end r \<le> m"
  shows "range_set_len (minus s t) = card (range_set_bytes s - range_set_bytes t) \<and>
         (\<forall>r \<in> set (ranges (minus s t)). range_end r \<le> m) \<and>
         (range_end rg \<le> m \<longrightarrow> (\<forall>r \<in> set (ranges (add_range rg s)). range_end r \<le> m))"
proof -
  have sub: "range_set_bytes s \<subseteq> {..<m}"
    using assms(1,3) ranges_bounded_iff by (simp add: range_set_ok_def range_set_bytes_def)
  have "range_end rg \<le> m \<Longrightarrow> range_bytes rg \<subseteq> {..<m}" by (auto simp: range_bytes_def)
  with sub have "range_end rg \<le> m \<Longrightarrow> range_set_bytes (add_range rg s) \<subseteq> {..<m}"
    by (simp add: rs.bytes_add [OF assms(1)])
  moreover have "range_set_bytes (minus s t) \<subseteq> {..<m}"
    using sub minus_correct [OF assms(1), of t] by auto
  ultimately show ?thesis
    using rs.total_card [of "minus s t"] minus_correct [OF assms(1), of t] rs.invar_add [OF assms(1)]
      ranges_bounded_iff [of "ranges (minus s t)" m] ranges_bounded_iff [of "ranges (add_range rg s)" m]
    by (simp add: range_set_ok_def range_set_bytes_def)
qed

theorem minus_len_and_bounds_witness:
  "range_set_len (minus two_ranges (add_range (range_new 5 20) range_set_new)) =
   card (range_set_bytes two_ranges - range_set_bytes (add_range (range_new 5 20) range_set_new))"
proof -
  have "\<forall>r \<in> set (ranges two_ranges). range_end r \<le> 30"
    by (simp add: two_ranges_def range_new_def range_end_def)
  from minus_len_and_bounds [OF two_ranges_ok rs.invar_add [OF rs.invar_empty] this]
  show ?thesis by simp
qed

end
