(* ===== verification/Floats.thy ===== *)
theory Floats
  imports Prelude Complex_Main
begin

text \<open>
  IEEE-754 arithmetic as the program uses it: a finite float is the rational number it stands
  for, and every operation rounds the exact result to the nearest value of the format, ties to
  even. The format is given by its precision and the exponent of its smallest subnormal.
  Infinities and NaN are not values of the model; the components use it where the operands are
  bounded, and a conversion to an integer saturates as \<open>as\<close> does.
\<close>

fun ilog2 :: "nat \<Rightarrow> nat" where
  "ilog2 n = (if n \<le> 1 then 0 else Suc (ilog2 (n div 2)))"

declare ilog2.simps [simp del]

definition pow2 :: "int \<Rightarrow> rat" where
  "pow2 k = (if 0 \<le> k then 2 ^ nat k else 1 / 2 ^ nat (- k))"

text \<open>The exponent \<open>e\<close> with \<open>2 ^ e \<le> x < 2 ^ (e + 1)\<close> of a positive number.\<close>

definition binary_exponent :: "rat \<Rightarrow> int" where
  "binary_exponent x =
     (let (n, d) = quotient_of x; e = int (ilog2 (nat n)) - int (ilog2 (nat d))
      in if x < pow2 e then e - 1 else e)"

definition round_half_even :: "rat \<Rightarrow> int" where
  "round_half_even x =
     (let f = \<lfloor>x\<rfloor>; r = x - of_int f
      in if r < 1 / 2 then f else if 1 / 2 < r then f + 1 else if even f then f else f + 1)"

definition float_round :: "nat \<Rightarrow> int \<Rightarrow> rat \<Rightarrow> rat" where
  "float_round p emin x =
     (if x = 0 then 0
      else let u = pow2 (max (binary_exponent \<bar>x\<bar> - (int p - 1)) emin)
           in of_int (round_half_even (x / u)) * u)"

definition f32 :: "rat \<Rightarrow> rat" where
  "f32 x = float_round 24 (- 149) x"

definition f64 :: "rat \<Rightarrow> rat" where
  "f64 x = float_round 53 (- 1074) x"

definition f32_mul :: "rat \<Rightarrow> rat \<Rightarrow> rat" where
  "f32_mul a b = f32 (a * b)"

definition f32_of_usize :: "nat \<Rightarrow> rat" where
  "f32_of_usize n = f32 (of_nat n)"

text \<open>\<open>x as usize\<close>: towards zero, saturating at both ends.\<close>

definition f32_as_usize :: "rat \<Rightarrow> nat" where
  "f32_as_usize x = min (nat \<lfloor>x\<rfloor>) (2 ^ 64 - 1)"

lemma pow2_pos [simp]: "0 < pow2 k"
  by (simp add: pow2_def)

lemma pow2_nonzero [simp]: "pow2 k \<noteq> 0"
  by (simp add: pow2_def)

lemma round_half_even_of_int [simp]: "round_half_even (of_int k) = k"
  by (simp add: round_half_even_def)

lemma round_half_even_mono_nonneg: "0 \<le> x \<Longrightarrow> 0 \<le> round_half_even x"
  by (auto simp: round_half_even_def Let_def)

lemma round_half_even_error: "\<bar>of_int (round_half_even x) - x\<bar> \<le> 1 / 2"
proof -
  have fl: "of_int \<lfloor>x\<rfloor> \<le> x" "x < of_int \<lfloor>x\<rfloor> + 1"
    by linarith+
  then show ?thesis unfolding round_half_even_def Let_def
    by (simp add: abs_le_iff)
qed

text \<open>A value on the grid of the format is its own rounding; signs are kept.\<close>

lemma float_round_nonneg: "0 \<le> x \<Longrightarrow> 0 \<le> float_round p emin x"
  by (auto simp: float_round_def Let_def round_half_even_mono_nonneg less_imp_le)

lemma f32_nonneg: "0 \<le> x \<Longrightarrow> 0 \<le> f32 x"
  by (simp add: f32_def float_round_nonneg)

lemma f32_as_usize_bound: "f32_as_usize x < 2 ^ 64"
  by (simp add: f32_as_usize_def min_def)

text \<open>The rounding error is at most half a unit in the last place.\<close>

lemma float_round_error:
  "\<bar>float_round p emin x - x\<bar> \<le> pow2 (max (binary_exponent \<bar>x\<bar> - (int p - 1)) emin) / 2"
proof (cases "x = 0")
  case True
  then show ?thesis by (simp add: float_round_def less_imp_le)
next
  case False
  define u where "u = pow2 (max (binary_exponent \<bar>x\<bar> - (int p - 1)) emin)"
  have u: "0 < u" by (simp add: u_def)
  have "float_round p emin x - x = (of_int (round_half_even (x / u)) - x / u) * u"
    using False u by (simp add: float_round_def u_def Let_def algebra_simps)
  then have "\<bar>float_round p emin x - x\<bar> = \<bar>of_int (round_half_even (x / u)) - x / u\<bar> * u"
    using u by (simp add: abs_mult)
  also have "\<dots> \<le> (1 / 2) * u"
    using round_half_even_error [of "x / u"] u by (intro mult_right_mono) auto
  finally show ?thesis by (simp add: u_def)
qed

end
