(* ===== verification/Audio_Fetch.thy ===== *)
theory Audio_Fetch
  imports Range_Set Core_Error Floats Numerals
begin

text \<open>
  The streaming download of an audio file: \<open>audio/src/fetch/mod.rs\<close> and
  \<open>audio/src/fetch/receive.rs\<close>. This theory holds the state and the operations; the theory that
  imports it composes them into the concurrent system and proves its properties.

  A \<open>Duration\<close> and an \<open>Instant\<close> are counts of nanoseconds. The download status, the temporary
  file (one file behind a write and a read handle) and the atomics are the state the threads
  share; each definition is the code between two points where another thread can run. What comes
  from outside is an argument: what the CDN answers, whether the HTTP client accepts a request,
  the outcome of a disk write, the length of a short read, and whether the receiving end of a
  channel is still there. Offsets and sizes in bytes are naturals; a subtraction that would go
  below zero is the error \<open>Panic\<close>. Logging is left out.
\<close>

section \<open>Time\<close>

type_synonym Duration = nat
type_synonym Instant = nat

definition from_millis :: "nat \<Rightarrow> Duration" where
  "from_millis ms = ms * 10 ^ 6"

definition from_secs :: "nat \<Rightarrow> Duration" where
  "from_secs s = s * 10 ^ 9"

definition as_millis :: "Duration \<Rightarrow> nat" where
  "as_millis d = d div 10 ^ 6"

definition as_secs_f32 :: "Duration \<Rightarrow> rat" where
  "as_secs_f32 d = f32 (f32_of_usize (d div 10 ^ 9) + f32 (f32_of_usize (d mod 10 ^ 9) / 10 ^ 9))"

section \<open>Errors\<close>

datatype AudioFileError = Channel | Header | NoData | Output | StatusCode nat | WaitTimeout

text \<open>What an error of this component was caused by.\<close>

datatype AudioCause =
    AudioFileCause AudioFileError
  | IoCause IoErrorKind
  | HttpCause
  | SendCause
  | BodyMismatch usize
  | UrlsFailed usize
  | ParseIntCause
  | ToStrCause

type_synonym AudioError = "AudioCause Error"
type_synonym 'a audio_result = "(AudioError, 'a) fallible"

text \<open>\<open>From<AudioFileError> for Error\<close>.\<close>

fun audio_file_error :: "AudioFileError \<Rightarrow> AudioError" where
  "audio_file_error Channel = aborted (AudioFileCause Channel)"
| "audio_file_error Header = unavailable (AudioFileCause Header)"
| "audio_file_error NoData = unavailable (AudioFileCause NoData)"
| "audio_file_error Output = aborted (AudioFileCause Output)"
| "audio_file_error (StatusCode c) = failed_precondition (AudioFileCause (StatusCode c))"
| "audio_file_error WaitTimeout = deadline_exceeded (AudioFileCause WaitTimeout)"

definition io_error :: "IoErrorKind \<Rightarrow> AudioError" where
  "io_error k = error_new (io_kind k) (IoCause k)"

section \<open>Parameters\<close>

record AudioFetchParams =
  minimum_download_size :: usize
  minimum_throughput :: usize
  initial_ping_time_estimate :: Duration
  maximum_assumed_ping_time :: Duration
  read_ahead_before_playback :: Duration
  read_ahead_during_playback :: Duration
  prefetch_threshold_factor :: rat
  download_timeout :: Duration

definition default_params :: AudioFetchParams where
  "default_params =
     (let minimum_download_size = 64 * 1024; minimum_throughput = 8 * 1024
      in \<lparr>minimum_download_size = minimum_download_size,
          minimum_throughput = minimum_throughput,
          initial_ping_time_estimate = from_millis 500,
          maximum_assumed_ping_time = from_millis 1500,
          read_ahead_before_playback = from_secs 1,
          read_ahead_during_playback = from_secs 5,
          prefetch_threshold_factor = 4,
          download_timeout = from_secs (minimum_download_size div minimum_throughput)\<rparr>)"

text \<open>The global \<open>OnceLock\<close>: the first value set stays.\<close>

definition params_set ::
  "AudioFetchParams \<Rightarrow> AudioFetchParams option \<Rightarrow> (AudioFetchParams + unit) \<times> AudioFetchParams option"
  where
  "params_set P cell = (case cell of None \<Rightarrow> (Ok (), Some P) | Some Q \<Rightarrow> (Err P, Some Q))"

definition params_get :: "AudioFetchParams option \<Rightarrow> AudioFetchParams \<times> AudioFetchParams option" where
  "params_get cell =
     (case cell of None \<Rightarrow> (default_params, Some default_params) | Some Q \<Rightarrow> (Q, Some Q))"

section \<open>Shared state\<close>

text \<open>
  A response of the CDN: status, the \<open>Content-Range\<close> header, and the body or the error with
  which collecting it fails.
\<close>

record HttpResponse =
  status :: nat
  content_range :: "string option"
  body :: "AudioError + u8 list"

record StreamingRequest =
  initial_response :: "HttpResponse option"
  req_offset :: usize
  req_length :: usize

datatype StreamLoaderCommand = Fetch Range | Close

record AudioFileDownloadStatus =
  requested :: RangeSet
  downloaded :: RangeSet

record AudioFileShared =
  cdn_url :: string
  file_size :: usize
  bytes_per_second :: usize
  download_status :: AudioFileDownloadStatus
  download_streaming :: bool
  download_slots :: nat
  ping_time_ms :: usize
  read_position :: usize
  throughput :: usize

definition ping_time :: "AudioFetchParams \<Rightarrow> AudioFileShared \<Rightarrow> Duration" where
  "ping_time P sh =
     (if 0 < ping_time_ms sh then from_millis (ping_time_ms sh) else initial_ping_time_estimate P)"

definition set_ping_time :: "Duration \<Rightarrow> AudioFileShared \<Rightarrow> AudioFileShared" where
  "set_ping_time d sh = sh\<lparr>ping_time_ms := as_millis d\<rparr>"

definition set_throughput :: "usize \<Rightarrow> AudioFileShared \<Rightarrow> AudioFileShared" where
  "set_throughput t sh = sh\<lparr>throughput := t\<rparr>"

definition set_read_position :: "nat \<Rightarrow> AudioFileShared \<Rightarrow> AudioFileShared" where
  "set_read_position p sh = sh\<lparr>read_position := p\<rparr>"

definition set_download_streaming :: "bool \<Rightarrow> AudioFileShared \<Rightarrow> AudioFileShared" where
  "set_download_streaming b sh = sh\<lparr>download_streaming := b\<rparr>"

definition add_requested :: "Range \<Rightarrow> AudioFileShared \<Rightarrow> AudioFileShared" where
  "add_requested r sh =
     sh\<lparr>download_status := (download_status sh)\<lparr>requested := add_range r (requested (download_status sh))\<rparr>\<rparr>"

definition sub_requested :: "Range \<Rightarrow> AudioFileShared \<Rightarrow> AudioFileShared" where
  "sub_requested r sh =
     sh\<lparr>download_status :=
       (download_status sh)\<lparr>requested := subtract_range r (requested (download_status sh))\<rparr>\<rparr>"

definition add_downloaded :: "Range \<Rightarrow> AudioFileShared \<Rightarrow> AudioFileShared" where
  "add_downloaded r sh =
     sh\<lparr>download_status := (download_status sh)\<lparr>downloaded := add_range r (downloaded (download_status sh))\<rparr>\<rparr>"

text \<open>What of a range is neither downloaded nor requested.\<close>

definition missing_of :: "Range \<Rightarrow> AudioFileDownloadStatus \<Rightarrow> RangeSet" where
  "missing_of r ds =
     subtract_range_set (subtract_range_set (add_range r range_set_new) (downloaded ds)) (requested ds)"

section \<open>Receiving one range\<close>

datatype ReceivedData = Throughput usize | ResponseTime Duration | Data usize "u8 list"

text \<open>The local variables of \<open>receive_data\<close> once it holds a download slot.\<close>

record ReceiveState =
  request :: StreamingRequest
  offset :: usize
  actual_length :: usize
  request_time :: Instant
  measure_ping_time :: bool
  measure_throughput :: bool

definition receive_start :: "StreamingRequest \<Rightarrow> Instant \<Rightarrow> ReceiveState" where
  "receive_start req now =
     \<lparr>request = req, offset = req_offset req, actual_length = 0, request_time = now,
      measure_ping_time = True, measure_throughput = True\<rparr>"

datatype StreamEvent = StreamResponse HttpResponse | StreamError AudioError | StreamEnded

text \<open>
  One round of the loop: it continues, breaks with the value of \<open>result\<close>, or the whole function
  returns early because a message could not be sent.
\<close>

datatype ReceiveStep =
    Continue ReceiveState
  | Break ReceiveState "unit audio_result"
  | Return "unit audio_result"

definition receive_body :: "bool \<Rightarrow> HttpResponse \<Rightarrow> ReceiveState \<Rightarrow> ReceivedData list \<times> ReceiveStep" where
  "receive_body rx r s =
     (if status r \<noteq> 206 then ([], Break s (Err (Fail (audio_file_error (StatusCode (status r))))))
      else case body r of
        Inl e \<Rightarrow> ([], Break s (Err (Fail e)))
      | Inr data \<Rightarrow>
          if rx
          then ([Data (offset s) data],
                Continue (s\<lparr>actual_length := actual_length s + length data,
                            offset := offset s + length data\<rparr>))
          else ([], Return (Err (Fail (internal SendCause)))))"

definition receive_response ::
  "bool \<Rightarrow> Instant \<Rightarrow> HttpResponse \<Rightarrow> ReceiveState \<Rightarrow> ReceivedData list \<times> ReceiveStep" where
  "receive_response rx now r s =
     (if measure_ping_time s \<and> 0 < as_millis (now - request_time s)
      then (if rx
            then (let (ms, st) = receive_body rx r (s\<lparr>measure_ping_time := False\<rparr>)
                  in (ResponseTime (now - request_time s) # ms, st))
            else ([], Return (Err (Fail (internal SendCause)))))
      else receive_body rx r s)"

definition receive_round ::
  "bool \<Rightarrow> Instant \<Rightarrow> StreamEvent \<Rightarrow> ReceiveState \<Rightarrow> ReceivedData list \<times> ReceiveStep" where
  "receive_round rx now ev s =
     (case initial_response (request s) of
        Some r \<Rightarrow>
          receive_response rx now r
            (s\<lparr>request := (request s)\<lparr>initial_response := None\<rparr>,
               measure_ping_time := False, measure_throughput := False\<rparr>)
      | None \<Rightarrow>
          (case ev of
             StreamResponse r \<Rightarrow> receive_response rx now r s
           | StreamError e \<Rightarrow> ([], Break s (Err (Fail e)))
           | StreamEnded \<Rightarrow>
               ([], Break s (if actual_length s \<noteq> req_length (request s)
                             then Err (Fail (data_loss (BodyMismatch (actual_length s))))
                             else Ok ()))))"

text \<open>After the loop: the throughput sample, then the bytes that did not arrive are given back.\<close>

definition receive_end ::
  "bool \<Rightarrow> Instant \<Rightarrow> unit audio_result \<Rightarrow> ReceiveState \<Rightarrow> AudioFileShared
   \<Rightarrow> unit audio_result \<times> ReceivedData list \<times> AudioFileShared" where
  "receive_end rx now res s sh =
     (let duration = as_millis (now - request_time s);
          sample = measure_throughput s \<and> 0 < actual_length s \<and> 0 < duration;
          msgs = (if sample then [Throughput (as_millis (from_secs 1) * actual_length s div duration)] else [])
      in if sample \<and> \<not> rx then (Err (Fail (internal SendCause)), [], sh)
         else case usize_sub (req_length (request s)) (actual_length s) of
           Inl e \<Rightarrow> (Err e, msgs, sh)
         | Inr bytes_remaining \<Rightarrow>
             (res, msgs,
              if 0 < bytes_remaining then sub_requested (range_new (offset s) bytes_remaining) sh else sh))"

section \<open>The fetch task\<close>

text \<open>
  \<open>disk\<close> is the content of the temporary file, \<open>output_file\<close> the cursor of the write handle while the
  task owns it, \<open>spawned\<close> the requests handed to the runtime, and \<open>completed\<close> the file sent to the
  cache when the download is complete.
\<close>

record AudioFileFetch =
  shared :: AudioFileShared
  output_file :: "usize option"
  complete_tx :: bool
  network_response_times :: "Duration list"
  params :: AudioFetchParams
  disk :: "u8 list"
  spawned :: "StreamingRequest list"
  completed :: "u8 list option"

datatype ControlFlow = FlowBreak | FlowContinue

definition has_download_slots_available :: "AudioFileFetch \<Rightarrow> bool" where
  "has_download_slots_available f \<longleftrightarrow> 0 < download_slots (shared f)"

text \<open>
  \<open>SpClient::stream_from_cdn\<close>: the value of the \<open>Range\<close> header; \<open>client\<close> is the error with which
  the HTTP client refuses a request, if it does.
\<close>

definition stream_from_cdn ::
  "(string \<Rightarrow> string \<Rightarrow> AudioError option) \<Rightarrow> string \<Rightarrow> usize \<Rightarrow> usize \<Rightarrow> string audio_result" where
  "stream_from_cdn client url off len =
     (case usize_sub (off + len) 1 of
        Inl e \<Rightarrow> Err e
      | Inr upper \<Rightarrow>
          (let header = ''bytes='' @ show_dec off @ ''-'' @ show_dec upper
           in case client url header of Some e \<Rightarrow> Err (Fail e) | None \<Rightarrow> Ok header))"

definition download_length ::
  "AudioFetchParams \<Rightarrow> AudioFileShared \<Rightarrow> usize \<Rightarrow> usize \<Rightarrow> usize audio_result" where
  "download_length P sh off len =
     (let len = (if len < minimum_download_size P then minimum_download_size P else len);
          len = (if download_streaming sh then max len (throughput sh) else len)
      in if file_size sh < off + len then usize_sub (file_size sh) off else Ok len)"

fun request_ranges ::
  "(string \<Rightarrow> string \<Rightarrow> AudioError option) \<Rightarrow> Range list \<Rightarrow> AudioFileFetch
   \<Rightarrow> unit audio_result \<times> AudioFileFetch" where
  "request_ranges client [] f = (Ok (), f)"
| "request_ranges client (r # rs) f =
     (case stream_from_cdn client (cdn_url (shared f)) (range_start r) (range_length r) of
        Inl e \<Rightarrow> (Err e, f)
      | Inr _ \<Rightarrow>
          request_ranges client rs
            (f\<lparr>shared := add_requested r (shared f),
               spawned := spawned f @
                 [\<lparr>initial_response = None, req_offset = range_start r, req_length = range_length r\<rparr>]\<rparr>))"

definition download_range ::
  "(string \<Rightarrow> string \<Rightarrow> AudioError option) \<Rightarrow> usize \<Rightarrow> usize \<Rightarrow> AudioFileFetch
   \<Rightarrow> unit audio_result \<times> AudioFileFetch" where
  "download_range client off len f =
     (case download_length (params f) (shared f) off len of
        Inl e \<Rightarrow> (Err e, f)
      | Inr len \<Rightarrow>
          request_ranges client (ranges (missing_of (range_new off len) (download_status (shared f)))) f)"

definition pre_fetch_more_data ::
  "(string \<Rightarrow> string \<Rightarrow> AudioError option) \<Rightarrow> usize \<Rightarrow> AudioFileFetch
   \<Rightarrow> unit audio_result \<times> AudioFileFetch" where
  "pre_fetch_more_data client bytes f =
     (let sh = shared f;
          missing_data = missing_of (range_new 0 (file_size sh)) (download_status sh)
      in case usize_sub (file_size sh) (read_position sh) of
           Inl e \<Rightarrow> (Err e, f)
         | Inr rest \<Rightarrow>
             (let tail_end =
                    intersection (add_range (range_new (read_position sh) rest) range_set_new) missing_data
              in case get_range tail_end 0 of
                   Some r \<Rightarrow> download_range client (range_start r) (min (range_length r) bytes) f
                 | None \<Rightarrow>
                     (case get_range missing_data 0 of
                        Some r \<Rightarrow> download_range client (range_start r) (min (range_length r) bytes) f
                      | None \<Rightarrow> (Ok (), f))))"

fun prune_times :: "Duration list \<Rightarrow> Duration list" where
  "prune_times [] = []"
| "prune_times (t # ts) = (if 3 \<le> length (t # ts) then prune_times ts else t # ts)"

definition ping_estimate :: "Duration list \<Rightarrow> Duration audio_result" where
  "ping_estimate ts =
     (case ts of
        [a] \<Rightarrow> Ok a
      | [a, b] \<Rightarrow> Ok ((a + b) div 2)
      | [a, b, c] \<Rightarrow> Ok (sort [a, b, c] ! 1)
      | _ \<Rightarrow> Err Panic)"

text \<open>Writing at an offset: a hole before it reads as zeros.\<close>

definition write_at :: "usize \<Rightarrow> u8 list \<Rightarrow> u8 list \<Rightarrow> u8 list" where
  "write_at off d f = take off f @ replicate (off - length f) 0 @ d @ drop (off + length d) f"

text \<open>\<open>finish\<close>: the complete file goes to whoever waits for it.\<close>

definition finish :: "bool \<Rightarrow> AudioFileFetch \<Rightarrow> unit audio_result \<times> AudioFileFetch" where
  "finish alive f =
     (let g = f\<lparr>output_file := None, complete_tx := False\<rparr>
      in case output_file f of
           None \<Rightarrow> (Ok (), g)
         | Some _ \<Rightarrow>
             if complete_tx f
             then (if alive then (Ok (), g\<lparr>completed := Some (disk f)\<rparr>)
                   else (Err (Fail (audio_file_error Channel)), g))
             else (Ok (), g))"

text \<open>
  \<open>handle_file_data\<close>. The outcome \<open>w\<close> of the disk write is \<open>None\<close> when it succeeds, or the number
  of bytes that were written before it failed, with the error.
\<close>

definition handle_file_data ::
  "(nat \<times> IoErrorKind) option \<Rightarrow> bool \<Rightarrow> ReceivedData \<Rightarrow> AudioFileFetch
   \<Rightarrow> ControlFlow audio_result \<times> AudioFileFetch" where
  "handle_file_data w alive d f =
     (case d of
        Throughput t \<Rightarrow>
          (let t = (if t < minimum_throughput (params f) then minimum_throughput (params f) else t);
               old = throughput (shared f);
               avg = (if 0 < old then (old + t) div 2 else t)
           in (Ok FlowContinue, f\<lparr>shared := set_throughput avg (shared f)\<rparr>))
      | ResponseTime t \<Rightarrow>
          (let t = (if maximum_assumed_ping_time (params f) < t
                    then maximum_assumed_ping_time (params f) else t);
               times = prune_times (network_response_times f) @ [t];
               g = f\<lparr>network_response_times := times\<rparr>
           in case ping_estimate times of
                Inl e \<Rightarrow> (Err e, g)
              | Inr p \<Rightarrow> (Ok FlowContinue, g\<lparr>shared := set_ping_time p (shared g)\<rparr>))
      | Data off data \<Rightarrow>
          (case output_file f of
             None \<Rightarrow> (Err (Fail (audio_file_error Output)), f)
           | Some _ \<Rightarrow>
               (case w of
                  Some (k, e) \<Rightarrow> (Err (Fail (io_error e)), f\<lparr>disk := write_at off (take k data) (disk f)\<rparr>)
                | None \<Rightarrow>
                    (let g = f\<lparr>disk := write_at off data (disk f), output_file := Some (off + length data),
                               shared := add_downloaded (range_new off (length data)) (shared f)\<rparr>
                     in if file_size (shared g)
                            \<le> contained_length_from_value (downloaded (download_status (shared g))) 0
                        then (case finish alive g of
                                (Inl e, h) \<Rightarrow> (Err e, h)
                              | (Inr _, h) \<Rightarrow> (Ok FlowBreak, h))
                        else (Ok FlowContinue, g)))))"

definition handle_stream_loader_command ::
  "(string \<Rightarrow> string \<Rightarrow> AudioError option) \<Rightarrow> StreamLoaderCommand \<Rightarrow> AudioFileFetch
   \<Rightarrow> ControlFlow audio_result \<times> AudioFileFetch" where
  "handle_stream_loader_command client cmd f =
     (case cmd of
        Fetch r \<Rightarrow>
          (case download_range client (range_start r) (range_length r) f of
             (Inl e, g) \<Rightarrow> (Err e, g)
           | (Inr _, g) \<Rightarrow> (Ok FlowContinue, g))
      | Close \<Rightarrow> (Ok FlowBreak, f))"

definition desired_pending_bytes :: "AudioFetchParams \<Rightarrow> AudioFileShared \<Rightarrow> usize" where
  "desired_pending_bytes P sh =
     (let ping_time_seconds = as_secs_f32 (ping_time P sh)
      in max (f32_as_usize (f32_mul (f32_mul (prefetch_threshold_factor P) ping_time_seconds)
                                    (f32_of_usize (bytes_per_second sh))))
             (f32_as_usize (f32_mul ping_time_seconds (f32_of_usize (throughput sh)))))"

text \<open>The end of a round of the loop in \<open>audio_file_fetch\<close>.\<close>

definition prefetch ::
  "(string \<Rightarrow> string \<Rightarrow> AudioError option) \<Rightarrow> AudioFileFetch \<Rightarrow> unit audio_result \<times> AudioFileFetch" where
  "prefetch client f =
     (if download_streaming (shared f) \<and> has_download_slots_available f
      then (let ds = download_status (shared f);
                bytes_pending = range_set_len (minus (requested ds) (downloaded ds));
                desired = desired_pending_bytes (params f) (shared f)
            in if bytes_pending < desired then pre_fetch_more_data client (desired - bytes_pending) f
               else (Ok (), f))
      else (Ok (), f))"

text \<open>What \<open>select!\<close> picked; \<open>None\<close> when the other end of that channel is gone.\<close>

datatype FetchEvent = CommandEvent "StreamLoaderCommand option" | DataEvent "ReceivedData option"

definition handle_event ::
  "(string \<Rightarrow> string \<Rightarrow> AudioError option) \<Rightarrow> (nat \<times> IoErrorKind) option \<Rightarrow> bool \<Rightarrow> FetchEvent
   \<Rightarrow> AudioFileFetch \<Rightarrow> ControlFlow audio_result \<times> AudioFileFetch" where
  "handle_event client w alive ev f =
     (case ev of
        CommandEvent (Some cmd) \<Rightarrow> handle_stream_loader_command client cmd f
      | CommandEvent None \<Rightarrow> (Ok FlowBreak, f)
      | DataEvent (Some d) \<Rightarrow> handle_file_data w alive d f
      | DataEvent None \<Rightarrow> (Ok FlowBreak, f))"

definition fetch_round ::
  "(string \<Rightarrow> string \<Rightarrow> AudioError option) \<Rightarrow> (nat \<times> IoErrorKind) option \<Rightarrow> bool \<Rightarrow> FetchEvent
   \<Rightarrow> AudioFileFetch \<Rightarrow> ControlFlow audio_result \<times> AudioFileFetch" where
  "fetch_round client w alive ev f =
     (case handle_event client w alive ev f of
        (Inr FlowContinue, g) \<Rightarrow>
          (case prefetch client g of
             (Inl e, h) \<Rightarrow> (Err e, h)
           | (Inr _, h) \<Rightarrow> (Ok FlowContinue, h))
      | other \<Rightarrow> other)"

definition audio_file_fetch ::
  "AudioFetchParams \<Rightarrow> AudioFileShared \<Rightarrow> StreamingRequest \<Rightarrow> u8 list \<Rightarrow> AudioFileFetch" where
  "audio_file_fetch P sh initial_request tmp =
     \<lparr>shared = add_requested (range_new (req_offset initial_request)
                                (req_offset initial_request + req_length initial_request)) sh,
      output_file = Some 0, complete_tx = True, network_response_times = [], params = P,
      disk = tmp, spawned = [initial_request], completed = None\<rparr>"

section \<open>The stream loader controller\<close>

text \<open>
  A controller of a streamed file has the command channel and the shared state, here its value at
  the time of the call; a controller of a local file has neither.
\<close>

record StreamLoaderController =
  channel_tx :: bool
  stream_shared :: "AudioFileShared option"
  controller_size :: usize

definition controller_len :: "StreamLoaderController \<Rightarrow> usize" where
  "controller_len c = controller_size c"

definition controller_is_empty :: "StreamLoaderController \<Rightarrow> bool" where
  "controller_is_empty c \<longleftrightarrow> controller_size c = 0"

definition range_available :: "StreamLoaderController \<Rightarrow> Range \<Rightarrow> bool audio_result" where
  "range_available c r =
     (case stream_shared c of
        Some sh \<Rightarrow>
          Ok (range_length r
                \<le> contained_length_from_value (downloaded (download_status sh)) (range_start r))
      | None \<Rightarrow> and_then (usize_sub (controller_len c) (range_start r)) (\<lambda>n. Ok (range_length r \<le> n)))"

definition range_to_end_available :: "StreamLoaderController \<Rightarrow> bool audio_result" where
  "range_to_end_available c =
     (case stream_shared c of
        Some sh \<Rightarrow>
          and_then (usize_sub (controller_len c) (read_position sh))
            (\<lambda>n. range_available c (range_new (read_position sh) n))
      | None \<Rightarrow> Ok True)"

definition controller_ping_time :: "AudioFetchParams \<Rightarrow> StreamLoaderController \<Rightarrow> Duration option" where
  "controller_ping_time P c = map_option (ping_time P) (stream_shared c)"

text \<open>The commands a call puts on the channel; a closed channel drops them.\<close>

definition send_stream_loader_command ::
  "StreamLoaderCommand \<Rightarrow> StreamLoaderController \<Rightarrow> StreamLoaderCommand list" where
  "send_stream_loader_command cmd c = (if channel_tx c then [cmd] else [])"

definition fetch :: "Range \<Rightarrow> StreamLoaderController \<Rightarrow> StreamLoaderCommand list" where
  "fetch r c = send_stream_loader_command (Fetch r) c"

definition controller_close :: "StreamLoaderController \<Rightarrow> StreamLoaderCommand list" where
  "controller_close c = send_stream_loader_command Close c"

definition clamp_range :: "StreamLoaderController \<Rightarrow> Range \<Rightarrow> Range" where
  "clamp_range c r =
     (if controller_len c \<le> range_start r then r\<lparr>range_length := 0\<rparr>
      else if controller_len c < range_end r then r\<lparr>range_length := controller_len c - range_start r\<rparr>
      else r)"

text \<open>
  The waiting loop of \<open>fetch_blocking\<close> over the wake-ups of the condition variable: the download
  status seen then, and whether the wait timed out. With no further wake-up the call is still
  blocked, which is the result \<open>None\<close>.
\<close>

fun fetch_wait ::
  "StreamLoaderController \<Rightarrow> Range \<Rightarrow> AudioFileDownloadStatus \<Rightarrow> (AudioFileDownloadStatus \<times> bool) list
   \<Rightarrow> unit audio_result option \<times> StreamLoaderCommand list" where
  "fetch_wait c r ds wakes =
     (if range_length r \<le> contained_length_from_value (downloaded ds) (range_start r)
      then (Some (Ok ()), [])
      else case wakes of
        [] \<Rightarrow> (None, [])
      | (ds', timed_out) # rest \<Rightarrow>
          if timed_out then (Some (Err (Fail (audio_file_error WaitTimeout))), [])
          else (let again = (if contained_length_from_value (union (downloaded ds') (requested ds'))
                                  (range_start r) < range_length r
                             then fetch r c else []);
                    (res, cmds) = fetch_wait c r ds' rest
                in (res, again @ cmds)))"

declare fetch_wait.simps [simp del]

definition fetch_blocking ::
  "StreamLoaderController \<Rightarrow> Range \<Rightarrow> (AudioFileDownloadStatus \<times> bool) list
   \<Rightarrow> unit audio_result option \<times> StreamLoaderCommand list" where
  "fetch_blocking c r wakes =
     (let r = clamp_range c r; cmds = fetch r c
      in case stream_shared c of
           None \<Rightarrow> (Some (Ok ()), cmds)
         | Some sh \<Rightarrow>
             (let (res, again) = fetch_wait c r (download_status sh) wakes in (res, cmds @ again)))"

definition fetch_next_and_wait ::
  "StreamLoaderController \<Rightarrow> usize \<Rightarrow> usize \<Rightarrow> (AudioFileDownloadStatus \<times> bool) list
   \<Rightarrow> unit audio_result option \<times> StreamLoaderCommand list" where
  "fetch_next_and_wait c request_length wait_length wakes =
     (case stream_shared c of
        None \<Rightarrow> (Some (Ok ()), [])
      | Some sh \<Rightarrow>
          (let start = read_position sh;
               cmds = fetch (range_new start request_length) c;
               (res, again) = fetch_blocking c (range_new start wait_length) wakes
           in (res, cmds @ again)))"

definition set_random_access_mode :: "StreamLoaderController \<Rightarrow> StreamLoaderController" where
  "set_random_access_mode c = c\<lparr>stream_shared := map_option (set_download_streaming False) (stream_shared c)\<rparr>"

definition set_stream_mode :: "StreamLoaderController \<Rightarrow> StreamLoaderController" where
  "set_stream_mode c = c\<lparr>stream_shared := map_option (set_download_streaming True) (stream_shared c)\<rparr>"

definition from_local_file :: "nat \<Rightarrow> StreamLoaderController" where
  "from_local_file sz = \<lparr>channel_tx = False, stream_shared = None, controller_size = sz\<rparr>"

section \<open>Files\<close>

text \<open>
  \<open>std::fs::File\<close> as far as the readers use it: a content and a cursor. A read returns a prefix
  of what is asked for, \<open>k\<close> bytes at most; a seek before the start or past the largest signed
  offset is refused. An \<open>as i64\<close> cast reads the low 64 bits in two's complement.
\<close>

datatype SeekFrom = Start nat | End int | Current int

definition as_i64 :: "int \<Rightarrow> int" where
  "as_i64 n = (n + 2 ^ 63) mod 2 ^ 64 - 2 ^ 63"

definition as_u64 :: "int \<Rightarrow> nat" where
  "as_u64 n = nat (n mod 2 ^ 64)"

definition seek_target :: "nat \<Rightarrow> nat \<Rightarrow> SeekFrom \<Rightarrow> int" where
  "seek_target sz cursor p =
     (case p of Start n \<Rightarrow> int n | End n \<Rightarrow> int sz + n | Current n \<Rightarrow> int cursor + n)"

definition file_seek :: "nat \<Rightarrow> nat \<Rightarrow> SeekFrom \<Rightarrow> nat audio_result" where
  "file_seek sz cursor p =
     (let t = seek_target sz cursor p
      in if 0 \<le> t \<and> t < 2 ^ 63 then Ok (nat t) else Err (Fail (io_error IoInvalidInput)))"

definition file_read :: "u8 list \<Rightarrow> nat \<Rightarrow> nat \<Rightarrow> nat \<Rightarrow> u8 list" where
  "file_read content cursor n k = take (min n k) (drop cursor content)"

section \<open>The streamed file\<close>

text \<open>
  The reader: its position and the cursor of its own file handle. \<open>read\<close> is three pieces: up to
  the first check of the condition, one wake-up, and the rest once the byte is there.
\<close>

record AudioFileStreaming =
  stream_position :: nat
  read_cursor :: nat

datatype ReadStart = ReadReturns "nat audio_result" | ReadWaits usize usize

definition length_to_request :: "AudioFetchParams \<Rightarrow> AudioFileShared \<Rightarrow> usize \<Rightarrow> usize \<Rightarrow> usize" where
  "length_to_request P sh off len =
     (if download_streaming sh
      then min (len + f32_as_usize (f32_mul (as_secs_f32 (read_ahead_during_playback P))
                                            (f32_of_usize (bytes_per_second sh))))
               (file_size sh - off)
      else len)"

definition read_begin ::
  "AudioFetchParams \<Rightarrow> bool \<Rightarrow> AudioFileShared \<Rightarrow> nat \<Rightarrow> AudioFileStreaming
   \<Rightarrow> ReadStart \<times> StreamLoaderCommand list" where
  "read_begin P rx sh n s =
     (let off = stream_position s
      in if file_size sh \<le> off then (ReadReturns (Ok 0), [])
         else let len = min n (file_size sh - off)
              in if len = 0 then (ReadReturns (Ok 0), [])
                 else let cmds = map Fetch (ranges (missing_of
                            (range_new off (length_to_request P sh off len)) (download_status sh)))
                      in if cmds \<noteq> [] \<and> \<not> rx
                         then (ReadReturns (Err (Fail (io_error IoBrokenPipe))), [])
                         else (ReadWaits off len, cmds))"

definition read_blocked :: "AudioFileShared \<Rightarrow> usize \<Rightarrow> bool" where
  "read_blocked sh off \<longleftrightarrow> \<not> contains (downloaded (download_status sh)) off"

definition read_timeout :: AudioError where
  "read_timeout = error_new (io_kind IoTimedOut) (AudioFileCause WaitTimeout)"

definition read_end ::
  "u8 list \<Rightarrow> nat \<Rightarrow> usize \<Rightarrow> usize \<Rightarrow> AudioFileShared \<Rightarrow> AudioFileStreaming
   \<Rightarrow> u8 list \<times> AudioFileShared \<times> AudioFileStreaming" where
  "read_end content k off len sh s =
     (let available = contained_length_from_value (downloaded (download_status sh)) off;
          data = file_read content off (min len available) k;
          p = off + length data
      in (data, set_read_position p sh, \<lparr>stream_position = p, read_cursor = p\<rparr>))"

text \<open>Arithmetic on \<open>i64\<close> panics when it overflows.\<close>

definition i64_checked :: "int \<Rightarrow> int audio_result" where
  "i64_checked n = (if - (2 ^ 63) \<le> n \<and> n < 2 ^ 63 then Ok n else Err Panic)"

definition seek_requested_pos ::
  "AudioFileShared \<Rightarrow> SeekFrom \<Rightarrow> AudioFileStreaming \<Rightarrow> int audio_result" where
  "seek_requested_pos sh p s =
     (case p of
        Start n \<Rightarrow> Ok (as_i64 (int n))
      | End n \<Rightarrow>
          and_then (i64_checked (as_i64 (int (file_size sh)) - n)) (\<lambda>m. i64_checked (m - 1))
      | Current n \<Rightarrow> i64_checked (as_i64 (int (stream_position s)) + n))"

definition streaming_seek ::
  "SeekFrom \<Rightarrow> nat \<Rightarrow> AudioFileShared \<Rightarrow> AudioFileStreaming
   \<Rightarrow> nat audio_result \<times> AudioFileShared \<times> AudioFileStreaming" where
  "streaming_seek p sz sh s =
     (let current_position = as_i64 (int (stream_position s))
      in case seek_requested_pos sh p s of
           Inl e \<Rightarrow> (Err e, sh, s)
         | Inr requested_pos \<Rightarrow>
             if requested_pos = current_position then (Ok (as_u64 current_position), sh, s)
             else let available = contains (downloaded (download_status sh)) (as_u64 requested_pos);
                      was_streaming = (\<not> available \<and> download_streaming sh);
                      sh1 = (if was_streaming then set_download_streaming False sh else sh)
                  in case file_seek sz (read_cursor s) p of
                       Inl e \<Rightarrow> (Err e, sh1, s)
                     | Inr q \<Rightarrow>
                         (let sh2 = set_read_position q sh1
                          in (Ok q, if was_streaming then set_download_streaming True sh2 else sh2,
                              \<lparr>stream_position = q, read_cursor = q\<rparr>)))"

section \<open>Opening a file\<close>

definition str_find :: "char \<Rightarrow> string \<Rightarrow> nat" where
  "str_find c s = (case position (\<lambda>x. x = c) s of None \<Rightarrow> 0 | Some i \<Rightarrow> i)"

text \<open>\<open>&s[a..b]\<close>: panics unless \<open>a \<le> b \<le> s.len()\<close>.\<close>

definition str_slice :: "nat \<Rightarrow> nat \<Rightarrow> string \<Rightarrow> string audio_result" where
  "str_slice a b s = (if a \<le> b \<and> b \<le> length s then Ok (take (b - a) (drop a s)) else Err Panic)"

definition parse_usize :: "string \<Rightarrow> usize audio_result" where
  "parse_usize s =
     (case (from_str_radix 10 s :: u64 option) of
        None \<Rightarrow> Err (Fail (failed_precondition ParseIntCause))
      | Some w \<Rightarrow> Ok (unat w))"

definition visible_ascii :: "char \<Rightarrow> bool" where
  "visible_ascii c \<longleftrightarrow> (let n = (of_char c :: nat) in 32 \<le> n \<and> n < 127 \<or> n = 9)"

definition parse_content_range :: "string option \<Rightarrow> (usize \<times> usize) audio_result" where
  "parse_content_range header =
     (case header of
        None \<Rightarrow> Err (Fail (audio_file_error Header))
      | Some s \<Rightarrow>
          if \<not> list_all visible_ascii s then Err (Fail (failed_precondition ToStrCause))
          else let hyphen_index = str_find CHR ''-'' s; slash_index = str_find CHR ''/'' s
               in and_then (and_then (str_slice (hyphen_index + 1) slash_index s) parse_usize) (\<lambda>upper_bound.
                  and_then (and_then (str_slice (slash_index + 1) (length s) s) parse_usize) (\<lambda>sz.
                  Ok (upper_bound, sz))))"

text \<open>
  Trying the URLs in turn: what a request to each gives within ten seconds, a response or an
  error. A request the client refuses ends the search with its error.
\<close>

fun try_urls ::
  "(string \<Rightarrow> string \<Rightarrow> AudioError option) \<Rightarrow> (string \<Rightarrow> AudioError + HttpResponse) \<Rightarrow> usize
   \<Rightarrow> string list \<Rightarrow> (HttpResponse \<times> string) option audio_result" where
  "try_urls client answer sz [] = Ok None"
| "try_urls client answer sz (url # urls) =
     (case stream_from_cdn client url 0 sz of
        Inl e \<Rightarrow> Err e
      | Inr _ \<Rightarrow>
          (case answer url of
             Inr r \<Rightarrow> if status r = 206 then Ok (Some (r, url)) else try_urls client answer sz urls
           | Inl _ \<Rightarrow> try_urls client answer sz urls))"

text \<open>
  \<open>AudioFileStreaming::open\<close>: \<open>urls\<close> is what resolving the file at the CDN gives, \<open>tmp\<close> the error
  of creating the temporary file, if there is one. The new file is filled with zeros.
\<close>

definition streaming_open ::
  "AudioFetchParams \<Rightarrow> (string \<Rightarrow> string \<Rightarrow> AudioError option) \<Rightarrow> (string \<Rightarrow> AudioError + HttpResponse)
   \<Rightarrow> IoErrorKind option \<Rightarrow> string list audio_result \<Rightarrow> usize
   \<Rightarrow> (AudioFileFetch \<times> AudioFileStreaming) audio_result" where
  "streaming_open P client answer tmp urls bps =
     and_then urls (\<lambda>urls.
     and_then (try_urls client answer (minimum_download_size P) urls) (\<lambda>found.
       case found of
         None \<Rightarrow> Err (Fail (unavailable (UrlsFailed (length urls))))
       | Some (response, url) \<Rightarrow>
           and_then (parse_content_range (content_range response)) (\<lambda>(upper_bound, sz).
             let initial_request =
                   \<lparr>initial_response = Some response, req_offset = 0, req_length = upper_bound + 1\<rparr>;
                 sh = \<lparr>cdn_url = url, file_size = sz, bytes_per_second = bps,
                       download_status = \<lparr>requested = range_set_new, downloaded = range_set_new\<rparr>,
                       download_streaming = False, download_slots = 1, ping_time_ms = 0,
                       read_position = 0, throughput = 0\<rparr>
             in case tmp of
                  Some e \<Rightarrow> Err (Fail (io_error e))
                | None \<Rightarrow>
                    Ok (audio_file_fetch P sh initial_request (replicate sz 0),
                        \<lparr>stream_position = 0, read_cursor = 0\<rparr>))))"

text \<open>A cached file with its cursor, or a streamed one.\<close>

datatype AudioFile = Cached "u8 list" nat | Streaming AudioFileStreaming

definition audio_file_open ::
  "u8 list option \<Rightarrow> (AudioFileFetch \<times> AudioFileStreaming) audio_result
   \<Rightarrow> (AudioFile \<times> AudioFileFetch option) audio_result" where
  "audio_file_open cached streaming =
     (case cached of
        Some content \<Rightarrow> Ok (Cached content 0, None)
      | None \<Rightarrow> and_then streaming (\<lambda>(f, s). Ok (Streaming s, Some f)))"

definition get_stream_loader_controller ::
  "IoErrorKind option \<Rightarrow> AudioFileShared \<Rightarrow> AudioFile \<Rightarrow> StreamLoaderController audio_result" where
  "get_stream_loader_controller metadata sh a =
     (case a of
        Streaming _ \<Rightarrow> Ok \<lparr>channel_tx = True, stream_shared = Some sh, controller_size = file_size sh\<rparr>
      | Cached content _ \<Rightarrow>
          (case metadata of
             Some e \<Rightarrow> Err (Fail (io_error e))
           | None \<Rightarrow> Ok \<lparr>channel_tx = False, stream_shared = None, controller_size = length content\<rparr>))"

definition is_cached :: "AudioFile \<Rightarrow> bool" where
  "is_cached a = (case a of Cached _ _ \<Rightarrow> True | Streaming _ \<Rightarrow> False)"

definition cached_read :: "nat \<Rightarrow> nat \<Rightarrow> u8 list \<times> nat \<Rightarrow> u8 list \<times> (u8 list \<times> nat)" where
  "cached_read k n file =
     (let (content, cursor) = file; data = file_read content cursor n k
      in (data, (content, cursor + length data)))"

definition cached_seek :: "SeekFrom \<Rightarrow> u8 list \<times> nat \<Rightarrow> nat audio_result \<times> (u8 list \<times> nat)" where
  "cached_seek p file =
     (let (content, cursor) = file
      in case file_seek (length content) cursor p of
           Inl e \<Rightarrow> (Err e, file)
         | Inr q \<Rightarrow> (Ok q, (content, q)))"

end
