(* ===== verification/Audio_Stream.thy ===== *)
theory Audio_Stream
  imports Audio_Fetch
begin

text \<open>
  The streaming download as a concurrent system, and what it guarantees. The fetch task, the
  tasks that receive ranges, the reader and the controllers interleave as the step relation
  \<open>stream_step\<close> says: every rule is one of the operations of the fetcher applied to the shared
  state. The file \<open>F\<close> that the CDN serves is a parameter of the relation: a response with status
  206 to a range request carries bytes of that range of \<open>F\<close>.

  The invariant relates the two range sets to sets of bytes: downloaded bytes are on disk as the
  CDN serves them, the ranges in flight are disjoint parts of what is requested, and, as long as
  the fetch task runs, every requested byte is downloaded, in flight, or in a message that waits
  to be handled.
\<close>

section \<open>Bytes of the download status\<close>

definition req_bytes :: "AudioFileShared \<Rightarrow> nat set" where
  "req_bytes sh = range_set_bytes (requested (download_status sh))"

definition down_bytes :: "AudioFileShared \<Rightarrow> nat set" where
  "down_bytes sh = range_set_bytes (downloaded (download_status sh))"

definition shared_ok :: "u8 list \<Rightarrow> AudioFileShared \<Rightarrow> bool" where
  "shared_ok F sh \<longleftrightarrow>
     range_set_ok (requested (download_status sh)) \<and> range_set_ok (downloaded (download_status sh)) \<and>
     file_size sh = length F \<and> req_bytes sh \<subseteq> {..<length F} \<and> down_bytes sh \<subseteq> {..<length F}"

lemma range_new_simps [simp]:
  "range_start (range_new a n) = a" "range_length (range_new a n) = n" "range_end (range_new a n) = a + n"
  by (simp_all add: range_new_def range_end_def)

lemma range_bytes_empty [simp]: "range_bytes (range_new a 0) = {}"
  by (simp add: range_bytes_def)

lemma range_bytes_below: "range_end r \<le> n \<Longrightarrow> range_bytes r \<subseteq> {..<n}"
  by (auto simp: range_bytes_def)

lemma shared_field_simps [simp]:
  "file_size (add_requested r sh) = file_size sh" "file_size (sub_requested r sh) = file_size sh"
  "file_size (add_downloaded r sh) = file_size sh"
  "cdn_url (add_requested r sh) = cdn_url sh"
  "download_slots (add_requested r sh) = download_slots sh"
  "download_slots (sub_requested r sh) = download_slots sh"
  "download_slots (add_downloaded r sh) = download_slots sh"
  "down_bytes (add_requested r sh) = down_bytes sh" "down_bytes (sub_requested r sh) = down_bytes sh"
  "req_bytes (add_downloaded r sh) = req_bytes sh"
  by (simp_all add: add_requested_def sub_requested_def add_downloaded_def down_bytes_def req_bytes_def)

lemma status_irrelevant [simp]:
  "req_bytes (sh\<lparr>download_slots := n\<rparr>) = req_bytes sh" "down_bytes (sh\<lparr>download_slots := n\<rparr>) = down_bytes sh"
  "shared_ok F (sh\<lparr>download_slots := n\<rparr>) = shared_ok F sh"
  "req_bytes (set_ping_time d sh) = req_bytes sh" "down_bytes (set_ping_time d sh) = down_bytes sh"
  "shared_ok F (set_ping_time d sh) = shared_ok F sh" "download_slots (set_ping_time d sh) = download_slots sh"
  "req_bytes (set_throughput t sh) = req_bytes sh" "down_bytes (set_throughput t sh) = down_bytes sh"
  "shared_ok F (set_throughput t sh) = shared_ok F sh" "download_slots (set_throughput t sh) = download_slots sh"
  "req_bytes (set_read_position p sh) = req_bytes sh" "down_bytes (set_read_position p sh) = down_bytes sh"
  "shared_ok F (set_read_position p sh) = shared_ok F sh"
  "download_slots (set_read_position p sh) = download_slots sh"
  "req_bytes (set_download_streaming b sh) = req_bytes sh"
  "down_bytes (set_download_streaming b sh) = down_bytes sh"
  "shared_ok F (set_download_streaming b sh) = shared_ok F sh"
  "download_slots (set_download_streaming b sh) = download_slots sh"
  by (simp_all add: set_ping_time_def set_throughput_def set_read_position_def
      set_download_streaming_def shared_ok_def req_bytes_def down_bytes_def)

lemma add_requested_bytes:
  "shared_ok F sh \<Longrightarrow> req_bytes (add_requested r sh) = req_bytes sh \<union> range_bytes r"
  by (simp add: shared_ok_def req_bytes_def add_requested_def rs.bytes_add)

lemma sub_requested_bytes:
  "shared_ok F sh \<Longrightarrow> req_bytes (sub_requested r sh) = req_bytes sh - range_bytes r"
  by (simp add: shared_ok_def req_bytes_def sub_requested_def rs.bytes_sub)

lemma add_downloaded_bytes:
  "shared_ok F sh \<Longrightarrow> down_bytes (add_downloaded r sh) = down_bytes sh \<union> range_bytes r"
  by (simp add: shared_ok_def down_bytes_def add_downloaded_def rs.bytes_add)

lemma add_requested_ok:
  assumes "shared_ok F sh" "range_bytes r \<subseteq> {..<length F}"
  shows "shared_ok F (add_requested r sh)"
proof -
  have "range_set_ok (requested (download_status (add_requested r sh)))"
    using assms(1) by (simp add: shared_ok_def add_requested_def rs.invar_add)
  moreover have "req_bytes (add_requested r sh) \<subseteq> {..<length F}"
    using assms by (simp add: add_requested_bytes) (simp add: shared_ok_def)
  ultimately show ?thesis using assms(1) by (simp add: shared_ok_def) (simp add: add_requested_def)
qed

lemma sub_requested_ok:
  assumes "shared_ok F sh"
  shows "shared_ok F (sub_requested r sh)"
proof -
  have "range_set_ok (requested (download_status (sub_requested r sh)))"
    using assms(1) by (simp add: shared_ok_def sub_requested_def rs.invar_sub)
  moreover have "req_bytes (sub_requested r sh) \<subseteq> {..<length F}"
    using assms by (simp add: sub_requested_bytes) (auto simp: shared_ok_def)
  ultimately show ?thesis using assms(1) by (simp add: shared_ok_def) (simp add: sub_requested_def)
qed

lemma add_downloaded_ok:
  assumes "shared_ok F sh" "range_bytes r \<subseteq> {..<length F}"
  shows "shared_ok F (add_downloaded r sh)"
proof -
  have "range_set_ok (downloaded (download_status (add_downloaded r sh)))"
    using assms(1) by (simp add: shared_ok_def add_downloaded_def rs.invar_add)
  moreover have "down_bytes (add_downloaded r sh) \<subseteq> {..<length F}"
    using assms by (simp add: add_downloaded_bytes) (simp add: shared_ok_def)
  ultimately show ?thesis using assms(1) by (simp add: shared_ok_def) (simp add: add_downloaded_def)
qed

lemma missing_of_bytes:
  "range_set_ok (missing_of r (download_status sh)) \<and>
   range_set_bytes (missing_of r (download_status sh)) = range_bytes r - down_bytes sh - req_bytes sh"
  using rs.single_minus_two
  by (simp add: missing_of_def subtract_range_set_def down_bytes_def req_bytes_def range_set_bytes_def)

section \<open>Disjoint ranges\<close>

fun disjoint_ranges :: "Range list \<Rightarrow> bool" where
  "disjoint_ranges [] \<longleftrightarrow> True"
| "disjoint_ranges (r # rs) \<longleftrightarrow> range_bytes r \<inter> bytes_of rs = {} \<and> disjoint_ranges rs"

lemma bytes_of_append [simp]: "bytes_of (xs @ ys) = bytes_of xs \<union> bytes_of ys"
  by (induction xs) auto

lemma disjoint_ranges_append:
  "disjoint_ranges (xs @ ys) \<longleftrightarrow>
   disjoint_ranges xs \<and> disjoint_ranges ys \<and> bytes_of xs \<inter> bytes_of ys = {}"
  by (induction xs) auto

lemma ranges_ok_disjoint: "ranges_ok rs \<Longrightarrow> disjoint_ranges rs"
proof (induction rs)
  case (Cons r rs)
  moreover have "range_bytes r \<inter> bytes_of rs = {}"
    using ranges_ok_above [OF Cons.prems] by fastforce
  ultimately show ?case using ranges_ok_tl [of r rs] by simp
qed simp

text \<open>Replacing a range by a part of it, or dropping it, keeps the ranges disjoint.\<close>

lemma disjoint_ranges_shrink:
  "disjoint_ranges (xs @ r # ys) \<Longrightarrow> range_bytes r' \<subseteq> range_bytes r \<Longrightarrow> disjoint_ranges (xs @ r' # ys)"
  by (auto simp: disjoint_ranges_append)

lemma disjoint_ranges_drop: "disjoint_ranges (xs @ r # ys) \<Longrightarrow> disjoint_ranges (xs @ ys)"
  by (auto simp: disjoint_ranges_append)

section \<open>What the CDN serves\<close>

definition served :: "u8 list \<Rightarrow> nat \<Rightarrow> nat \<Rightarrow> HttpResponse \<Rightarrow> bool" where
  "served F off len r \<longleftrightarrow>
     status r = 206 \<longrightarrow>
     (case body r of Inl _ \<Rightarrow> True | Inr d \<Rightarrow> length d \<le> len \<and> d = take (length d) (drop off F))"

definition request_ok :: "u8 list \<Rightarrow> StreamingRequest \<Rightarrow> bool" where
  "request_ok F q \<longleftrightarrow>
     req_offset q + req_length q \<le> length F \<and>
     (case initial_response q of None \<Rightarrow> True | Some r \<Rightarrow> served F (req_offset q) (req_length q) r)"

definition req_range :: "StreamingRequest \<Rightarrow> Range" where
  "req_range q = range_new (req_offset q) (req_length q)"

section \<open>The invariant of the fetch task\<close>

definition disk_ok :: "u8 list \<Rightarrow> AudioFileFetch \<Rightarrow> bool" where
  "disk_ok F f \<longleftrightarrow>
     length (disk f) = length F \<and> (\<forall>i \<in> down_bytes (shared f). disk f ! i = F ! i) \<and>
     (completed f = None \<or> completed f = Some F)"

text \<open>
  \<open>qs\<close> are the ranges of the tasks that run already; the requests spawned in this round join them.
\<close>

definition flight :: "Range list \<Rightarrow> AudioFileFetch \<Rightarrow> Range list" where
  "flight qs f = qs @ map req_range (spawned f)"

definition fetch_ok :: "u8 list \<Rightarrow> Range list \<Rightarrow> AudioFileFetch \<Rightarrow> bool" where
  "fetch_ok F qs f \<longleftrightarrow>
     shared_ok F (shared f) \<and> disk_ok F f \<and> list_all (request_ok F) (spawned f) \<and>
     disjoint_ranges (flight qs f) \<and> bytes_of (flight qs f) \<subseteq> req_bytes (shared f)"

text \<open>Every requested byte is downloaded, in flight, or among the bytes \<open>X\<close> of waiting messages.\<close>

definition covered :: "Range list \<Rightarrow> nat set \<Rightarrow> AudioFileFetch \<Rightarrow> bool" where
  "covered qs X f \<longleftrightarrow> req_bytes (shared f) \<subseteq> down_bytes (shared f) \<union> bytes_of (flight qs f) \<union> X"

lemma fetch_okD:
  assumes "fetch_ok F qs f"
  shows "shared_ok F (shared f)" "disk_ok F f" "list_all (request_ok F) (spawned f)"
    "disjoint_ranges (flight qs f)" "bytes_of (flight qs f) \<subseteq> req_bytes (shared f)"
  using assms by (simp_all add: fetch_ok_def)

text \<open>Updates of fields that the invariant does not read.\<close>

lemma fetch_ok_frame [simp]:
  "fetch_ok F qs (f\<lparr>network_response_times := ts\<rparr>) = fetch_ok F qs f"
  "covered qs X (f\<lparr>network_response_times := ts\<rparr>) = covered qs X f"
  by (simp_all add: fetch_ok_def disk_ok_def flight_def covered_def)

lemma fetch_ok_shared:
  assumes "req_bytes sh = req_bytes (shared f)" "down_bytes sh = down_bytes (shared f)"
    "shared_ok F sh = shared_ok F (shared f)"
  shows "fetch_ok F qs (f\<lparr>shared := sh\<rparr>) = fetch_ok F qs f"
    and "covered qs X (f\<lparr>shared := sh\<rparr>) = covered qs X f"
  using assms by (simp_all add: fetch_ok_def disk_ok_def flight_def covered_def)

subsection \<open>Requesting ranges\<close>

definition spawn_range :: "Range \<Rightarrow> AudioFileFetch \<Rightarrow> AudioFileFetch" where
  "spawn_range r f =
     f\<lparr>shared := add_requested r (shared f),
       spawned := spawned f @
         [\<lparr>initial_response = None, req_offset = range_start r, req_length = range_length r\<rparr>]\<rparr>"

lemma spawn_range_fields [simp]:
  "shared (spawn_range r f) = add_requested r (shared f)"
  "disk (spawn_range r f) = disk f" "completed (spawn_range r f) = completed f"
  "output_file (spawn_range r f) = output_file f" "complete_tx (spawn_range r f) = complete_tx f"
  "params (spawn_range r f) = params f" "network_response_times (spawn_range r f) = network_response_times f"
  by (simp_all add: spawn_range_def)

lemma range_eta [simp]: "range_new (range_start r) (range_length r) = r"
  by (simp add: range_new_def)

lemma flight_spawn [simp]: "flight qs (spawn_range r f) = flight qs f @ [r]"
  by (simp add: flight_def spawn_range_def req_range_def)

lemma spawn_range_ok:
  assumes "fetch_ok F qs f" "range_end r \<le> length F" "range_bytes r \<inter> req_bytes (shared f) = {}"
  shows "fetch_ok F qs (spawn_range r f)"
proof -
  note ok = fetch_okD [OF assms(1)]
  have "shared_ok F (add_requested r (shared f))"
    by (rule add_requested_ok [OF ok(1) range_bytes_below [OF assms(2)]])
  moreover have "disk_ok F (spawn_range r f)"
    using ok(2) by (simp add: disk_ok_def)
  moreover have "list_all (request_ok F) (spawned (spawn_range r f))"
    using ok(3) assms(2) by (simp add: spawn_range_def request_ok_def range_end_def)
  moreover have "disjoint_ranges (flight qs f @ [r])"
    using ok(4,5) assms(3) by (auto simp: disjoint_ranges_append)
  moreover have "bytes_of (flight qs f @ [r]) \<subseteq> req_bytes (add_requested r (shared f))"
    using ok(5) by (auto simp: add_requested_bytes [OF ok(1)])
  ultimately show ?thesis by (simp add: fetch_ok_def)
qed

lemma spawn_range_covered:
  "fetch_ok F qs f \<Longrightarrow> covered qs X f \<Longrightarrow> covered qs X (spawn_range r f)"
  by (auto simp: covered_def add_requested_bytes [OF fetch_okD(1)])

lemma request_ranges_Cons:
  "request_ranges client (r # rs) f =
     (case stream_from_cdn client (cdn_url (shared f)) (range_start r) (range_length r) of
        Inl e \<Rightarrow> (Err e, f) | Inr _ \<Rightarrow> request_ranges client rs (spawn_range r f))"
  by (simp add: spawn_range_def split: sum.split)

text \<open>Fields a request leaves alone.\<close>

lemma request_ranges_fields:
  "request_ranges client rs f = (res, g) \<Longrightarrow>
   disk g = disk f \<and> completed g = completed f \<and> output_file g = output_file f \<and>
   complete_tx g = complete_tx f \<and> params g = params f \<and>
   network_response_times g = network_response_times f \<and>
   download_slots (shared g) = download_slots (shared f) \<and> down_bytes (shared g) = down_bytes (shared f)"
proof (induction rs arbitrary: f)
  case (Cons r rs)
  then show ?case
    by (cases "stream_from_cdn client (cdn_url (shared f)) (range_start r) (range_length r)")
      (auto simp: request_ranges_Cons simp del: request_ranges.simps(2) dest: Cons.IH)
qed simp

lemma request_ranges_ok:
  assumes "request_ranges client rs f = (res, g)" "ranges_ok rs" "fetch_ok F qs f"
    "bytes_of rs \<inter> req_bytes (shared f) = {}" "\<forall>r \<in> set rs. range_end r \<le> length F"
  shows "fetch_ok F qs g \<and> (covered qs X f \<longrightarrow> covered qs X g)"
  using assms
proof (induction rs arbitrary: f)
  case Nil
  then show ?case by simp
next
  case (Cons r rs)
  show ?case
  proof (cases "stream_from_cdn client (cdn_url (shared f)) (range_start r) (range_length r)")
    case (Inl e)
    with Cons.prems show ?thesis by (simp add: request_ranges_Cons del: request_ranges.simps(2))
  next
    case (Inr h)
    have step: "request_ranges client rs (spawn_range r f) = (res, g)"
      using Cons.prems(1) Inr by (simp add: request_ranges_Cons del: request_ranges.simps(2))
    have ok: "fetch_ok F qs (spawn_range r f)"
      by (rule spawn_range_ok [OF Cons.prems(3)]) (use Cons.prems(4,5) in auto)
    have "range_bytes r \<inter> bytes_of rs = {}"
      using ranges_ok_disjoint [OF Cons.prems(2)] by simp
    then have "bytes_of rs \<inter> req_bytes (shared (spawn_range r f)) = {}"
      using Cons.prems(4) by (auto simp: add_requested_bytes [OF fetch_okD(1) [OF Cons.prems(3)]])
    with Cons.IH [OF step ranges_ok_tl [OF Cons.prems(2)] ok] Cons.prems(5)
      spawn_range_covered [OF Cons.prems(3)]
    show ?thesis by simp
  qed
qed

lemma download_range_ok:
  assumes "download_range client off len f = (res, g)" "fetch_ok F qs f"
  shows "fetch_ok F qs g \<and> (covered qs X f \<longrightarrow> covered qs X g)"
proof (cases "download_length (params f) (shared f) off len")
  case (Inl e)
  with assms show ?thesis by (simp add: download_range_def)
next
  case (Inr n)
  define m where "m = missing_of (range_new off n) (download_status (shared f))"
  have ok: "shared_ok F (shared f)" by (rule fetch_okD(1) [OF assms(2)])
  have m: "range_set_ok m"
    "range_set_bytes m = range_bytes (range_new off n) - down_bytes (shared f) - req_bytes (shared f)"
    using missing_of_bytes [of "range_new off n" "shared f"] by (simp_all add: m_def)
  have "off + n \<le> length F"
    using Inr ok by (auto simp: download_length_def Let_def shared_ok_def usize_sub_def split: if_splits)
  then have "range_set_bytes m \<subseteq> {..<length F}" by (auto simp: m)
  then have bnd: "\<forall>r \<in> set (ranges m). range_end r \<le> length F"
    using ranges_bounded_iff m(1) by (simp add: range_set_ok_def range_set_bytes_def)
  have "request_ranges client (ranges m) f = (res, g)"
    using assms(1) Inr by (simp add: download_range_def m_def)
  then show ?thesis
    by (rule request_ranges_ok)
      (use m bnd assms(2) in \<open>auto simp: range_set_ok_def range_set_bytes_def\<close>)
qed

lemma download_range_slots:
  "download_range client off len f = (res, g) \<Longrightarrow> download_slots (shared g) = download_slots (shared f)"
  by (auto simp: download_range_def dest: request_ranges_fields split: sum.splits)

lemma pre_fetch_cases:
  assumes "pre_fetch_more_data client n f = (res, g)"
  obtains (same) "g = f" | (download) off len where "download_range client off len f = (res, g)"
  using assms unfolding pre_fetch_more_data_def Let_def
  by (auto split: sum.splits option.splits)

lemma pre_fetch_ok:
  assumes "pre_fetch_more_data client n f = (res, g)" "fetch_ok F qs f"
  shows "fetch_ok F qs g \<and> (covered qs X f \<longrightarrow> covered qs X g) \<and>
         download_slots (shared g) = download_slots (shared f)"
  using assms(1)
proof (cases rule: pre_fetch_cases)
  case same
  with assms(2) show ?thesis by simp
next
  case (download off len)
  then show ?thesis using download_range_ok [OF download assms(2)] download_range_slots by simp
qed

lemma prefetch_ok:
  assumes "prefetch client f = (res, g)" "fetch_ok F qs f"
  shows "fetch_ok F qs g \<and> (covered qs X f \<longrightarrow> covered qs X g) \<and>
         download_slots (shared g) = download_slots (shared f)"
  using assms pre_fetch_ok [OF _ assms(2)]
  by (auto simp: prefetch_def Let_def split: if_splits)

subsection \<open>Handling received data\<close>

definition msg_ok :: "u8 list \<Rightarrow> ReceivedData \<Rightarrow> bool" where
  "msg_ok F d =
     (case d of
        Data off data \<Rightarrow> off + length data \<le> length F \<and> data = take (length data) (drop off F)
      | _ \<Rightarrow> True)"

definition msg_bytes :: "ReceivedData \<Rightarrow> nat set" where
  "msg_bytes d =
     (case d of Data off data \<Rightarrow> range_bytes (range_new off (length data)) | _ \<Rightarrow> {})"

lemma msg_simps [simp]:
  "msg_ok F (Throughput t)" "msg_ok F (ResponseTime d)"
  "msg_bytes (Throughput t) = {}" "msg_bytes (ResponseTime d) = {}"
  "msg_bytes (Data off data) = range_bytes (range_new off (length data))"
  by (simp_all add: msg_ok_def msg_bytes_def)

lemma length_write_at: "off + length d \<le> length f \<Longrightarrow> length (write_at off d f) = length f"
  by (simp add: write_at_def)

text \<open>Writing a piece of the file where it belongs: right there, unchanged elsewhere.\<close>

lemma write_at_nth:
  assumes "off + length d \<le> length f" "i < length f"
  shows "write_at off d f ! i = (if off \<le> i \<and> i < off + length d then d ! (i - off) else f ! i)"
  using assms by (auto simp: write_at_def nth_append)

lemma slice_nth:
  "d = take (length d) (drop off F) \<Longrightarrow> off + length d \<le> length F \<Longrightarrow> k < length d \<Longrightarrow> d ! k = F ! (off + k)"
  by (metis nth_take nth_drop le_add1 order_trans add.commute)

lemma write_slice_nth:
  assumes "d = take (length d) (drop off F)" "off + length d \<le> length F" "length f = length F" "i < length F"
  shows "write_at off d f ! i = (if off \<le> i \<and> i < off + length d then F ! i else f ! i)"
  using assms slice_nth [OF assms(1,2), of "i - off"] by (cases "off \<le> i") (simp_all add: write_at_nth less_diff_conv2)

lemma take_slice:
  "d = take (length d) (drop off F) \<Longrightarrow> take k d = take (length (take k d)) (drop off F)"
  by (metis length_take min.commute take_take)

lemma disk_ok_write:
  assumes "fetch_ok F qs f" "msg_ok F (Data off d)"
  shows "fetch_ok F qs (f\<lparr>disk := write_at off (take k d) (disk f)\<rparr>)"
proof -
  note ok = fetch_okD [OF assms(1)]
  let ?e = "take k d"
  have e: "?e = take (length ?e) (drop off F)" "off + length ?e \<le> length F"
    using assms(2) take_slice [of d off F k] by (auto simp: msg_ok_def)
  have len: "length (disk f) = length F" using ok(2) by (simp add: disk_ok_def)
  have "write_at off ?e (disk f) ! i = F ! i" if "i \<in> down_bytes (shared f)" for i
  proof -
    have "i < length F" "disk f ! i = F ! i"
      using that ok(1,2) by (auto simp: shared_ok_def disk_ok_def)
    then show ?thesis using write_slice_nth [OF e len] by simp
  qed
  then have "disk_ok F (f\<lparr>disk := write_at off ?e (disk f)\<rparr>)"
    using ok(2) e(2) len by (simp add: disk_ok_def length_write_at)
  then show ?thesis using ok by (simp add: fetch_ok_def flight_def)
qed

text \<open>The state after a chunk is stored.\<close>

definition store_chunk :: "usize \<Rightarrow> u8 list \<Rightarrow> AudioFileFetch \<Rightarrow> AudioFileFetch" where
  "store_chunk off d f =
     f\<lparr>disk := write_at off d (disk f), output_file := Some (off + length d),
       shared := add_downloaded (range_new off (length d)) (shared f)\<rparr>"

lemma store_chunk_fields [simp]:
  "shared (store_chunk off d f) = add_downloaded (range_new off (length d)) (shared f)"
  "disk (store_chunk off d f) = write_at off d (disk f)" "completed (store_chunk off d f) = completed f"
  "output_file (store_chunk off d f) = Some (off + length d)" "complete_tx (store_chunk off d f) = complete_tx f"
  "spawned (store_chunk off d f) = spawned f" "params (store_chunk off d f) = params f"
  by (simp_all add: store_chunk_def)

lemma store_chunk_ok:
  assumes "fetch_ok F qs f" "msg_ok F (Data off d)"
  shows "fetch_ok F qs (store_chunk off d f)"
    and "covered qs (msg_bytes (Data off d) \<union> X) f \<Longrightarrow> covered qs X (store_chunk off d f)"
proof -
  note ok = fetch_okD [OF assms(1)]
  have d: "d = take (length d) (drop off F)" "off + length d \<le> length F"
    using assms(2) by (auto simp: msg_ok_def)
  have len: "length (disk f) = length F" using ok(2) by (simp add: disk_ok_def)
  have below: "range_bytes (range_new off (length d)) \<subseteq> {..<length F}"
    using d(2) by (intro range_bytes_below) simp
  have db: "down_bytes (shared (store_chunk off d f)) = down_bytes (shared f) \<union> range_bytes (range_new off (length d))"
    by (simp add: add_downloaded_bytes [OF ok(1)])
  have "disk (store_chunk off d f) ! i = F ! i" if "i \<in> down_bytes (shared (store_chunk off d f))" for i
  proof -
    have i: "i < length F" "i \<in> down_bytes (shared f) \<or> off \<le> i \<and> i < off + length d"
      using that below ok(1) db by (auto simp: shared_ok_def)
    with ok(2) show ?thesis using write_slice_nth [OF d len i(1)] by (auto simp: disk_ok_def)
  qed
  then have "disk_ok F (store_chunk off d f)"
    using ok(2) d(2) len by (simp add: disk_ok_def length_write_at)
  then show "fetch_ok F qs (store_chunk off d f)"
    using ok add_downloaded_ok [OF ok(1) below] by (simp add: fetch_ok_def flight_def)
  show "covered qs X (store_chunk off d f)" if "covered qs (msg_bytes (Data off d) \<union> X) f"
    using that db by (auto simp: covered_def flight_def)
qed

text \<open>A download that is complete from the start of the file is the file.\<close>

lemma full_disk:
  assumes "fetch_ok F qs f"
    "file_size (shared f) \<le> contained_length_from_value (downloaded (download_status (shared f))) 0"
  shows "disk f = F"
proof (rule nth_equalityI)
  note ok = fetch_okD [OF assms(1)]
  have "range_set_ok (downloaded (download_status (shared f)))" using ok(1) by (simp add: shared_ok_def)
  then have "{0..<length F} \<subseteq> down_bytes (shared f)"
    using assms(2) ok(1) rs.run_length_iff [of "downloaded (download_status (shared f))" "length F" 0]
    by (simp add: shared_ok_def down_bytes_def)
  then show "disk f ! i = F ! i" if "i < length (disk f)" for i
    using that ok(2) by (auto simp: disk_ok_def)
  show "length (disk f) = length F" using ok(2) by (simp add: disk_ok_def)
qed

lemma finish_ok:
  assumes "finish alive f = (res, g)" "fetch_ok F qs f" "disk f = F"
  shows "fetch_ok F qs g" "shared g = shared f" "covered qs X g = covered qs X f"
proof -
  have g: "shared g = shared f \<and> disk g = disk f \<and> spawned g = spawned f \<and>
      (completed g = completed f \<or> completed g = Some F)"
    using assms(1,3) by (auto simp: finish_def Let_def split: option.splits if_splits)
  then show "shared g = shared f" "covered qs X g = covered qs X f"
    by (simp_all add: covered_def flight_def)
  from g show "fetch_ok F qs g"
    using fetch_okD [OF assms(2)] by (auto simp: fetch_ok_def disk_ok_def flight_def)
qed

lemma handle_data_unfold:
  "handle_file_data w alive (Data off d) f =
     (case output_file f of
        None \<Rightarrow> (Err (Fail (audio_file_error Output)), f)
      | Some _ \<Rightarrow>
          (case w of
             Some (k, e) \<Rightarrow> (Err (Fail (io_error e)), f\<lparr>disk := write_at off (take k d) (disk f)\<rparr>)
           | None \<Rightarrow>
               if file_size (shared f)
                    \<le> contained_length_from_value
                        (downloaded (download_status (shared (store_chunk off d f)))) 0
               then (case finish alive (store_chunk off d f) of
                       (Inl e, h) \<Rightarrow> (Err e, h) | (Inr _, h) \<Rightarrow> (Ok FlowBreak, h))
               else (Ok FlowContinue, store_chunk off d f)))"
  unfolding handle_file_data_def store_chunk_def [symmetric] Let_def
  by (simp add: store_chunk_def split: option.split)

text \<open>The three results of a data message: a failure, the end of the download, or more to come.\<close>

lemma handle_data_cases:
  assumes "handle_file_data w alive (Data off d) f = (res, g)"
  obtains
    (no_output) "g = f" "res = Err (Fail (audio_file_error Output))" "output_file f = None"
  | (io) k e where "g = f\<lparr>disk := write_at off (take k d) (disk f)\<rparr>" "res = Err (Fail (io_error e))"
  | (full) r where "finish alive (store_chunk off d f) = (r, g)"
      "file_size (shared f) \<le>
         contained_length_from_value (downloaded (download_status (shared (store_chunk off d f)))) 0"
      "res = (case r of Inl e \<Rightarrow> Err e | Inr _ \<Rightarrow> Ok FlowBreak)"
  | (partial) "g = store_chunk off d f" "res = Ok FlowContinue"
proof -
  consider "output_file f = None"
    | c k e where "output_file f = Some c" "w = Some (k, e)"
    | c where "output_file f = Some c" "w = None"
    by (cases "output_file f"; cases w) auto
  then show thesis
  proof cases
    case 1
    then show thesis using assms no_output by (simp add: handle_data_unfold)
  next
    case 2
    then show thesis using assms by (intro io [of k e]) (simp_all add: handle_data_unfold)
  next
    case 3
    show thesis
    proof (cases "file_size (shared f) \<le>
        contained_length_from_value (downloaded (download_status (shared (store_chunk off d f)))) 0")
      case True
      obtain r h where "finish alive (store_chunk off d f) = (r, h)" by (cases "finish alive (store_chunk off d f)")
      with True 3 assms show thesis
        by (intro full [of r]) (auto simp: handle_data_unfold split: sum.splits)
    next
      case False
      with 3 assms show thesis by (intro partial) (auto simp: handle_data_unfold)
    qed
  qed
qed

lemma handle_file_data_ok:
  assumes "handle_file_data w alive d f = (res, g)" "fetch_ok F qs f" "msg_ok F d"
  shows "fetch_ok F qs g \<and> download_slots (shared g) = download_slots (shared f) \<and>
         (covered qs (msg_bytes d \<union> X) f \<and> (\<exists>c. res = Ok c) \<longrightarrow> covered qs X g)"
proof (cases d)
  case (Throughput t)
  with assms(1) obtain n where "g = f\<lparr>shared := set_throughput n (shared f)\<rparr>"
    by (auto simp: handle_file_data_def Let_def)
  with Throughput assms(2) show ?thesis
    by (simp add: fetch_ok_shared)
next
  case (ResponseTime t)
  with assms(1) obtain ts n where
    "g = f\<lparr>network_response_times := ts\<rparr> \<or> g = f\<lparr>network_response_times := ts, shared := set_ping_time n (shared f)\<rparr>"
    by (auto simp: handle_file_data_def Let_def split: sum.splits)
  with ResponseTime assms(2) show ?thesis
    by (auto simp: fetch_ok_shared)
next
  case (Data off data)
  note ok = store_chunk_ok [OF assms(2) assms(3) [unfolded Data]]
  show ?thesis
  proof (rule handle_data_cases [OF assms(1) [unfolded Data]])
    fix r assume r: "finish alive (store_chunk off data f) = (r, g)"
      "file_size (shared f) \<le>
         contained_length_from_value (downloaded (download_status (shared (store_chunk off data f)))) 0"
    then have "disk (store_chunk off data f) = F" by (intro full_disk [OF ok(1)]) simp
    from finish_ok(1,2) [OF r(1) ok(1) this] finish_ok(3) [OF r(1) ok(1) this, of X] ok(2) [of X] show ?thesis by (simp add: Data)
  qed (use ok assms(2,3) Data disk_ok_write in auto)
qed

lemma handle_event_ok:
  assumes "handle_event client w alive ev f = (res, g)" "fetch_ok F qs f"
    "\<And>d. ev = DataEvent (Some d) \<Longrightarrow> msg_ok F d"
  shows "fetch_ok F qs g \<and> download_slots (shared g) = download_slots (shared f) \<and>
         (covered qs ((case ev of DataEvent (Some d) \<Rightarrow> msg_bytes d | _ \<Rightarrow> {}) \<union> X) f \<and> (\<exists>c. res = Ok c)
          \<longrightarrow> covered qs X g)"
proof (cases ev)
  case (CommandEvent c)
  show ?thesis
  proof (cases "\<exists>r. c = Some (Fetch r)")
    case True
    then obtain r where r: "c = Some (Fetch r)" ..
    obtain x where "download_range client (range_start r) (range_length r) f = (x, g)"
      using assms(1) by (auto simp: CommandEvent r handle_event_def handle_stream_loader_command_def
          split: prod.splits sum.splits)
    from download_range_ok [OF this assms(2)] download_range_slots [OF this] show ?thesis
      by (simp add: CommandEvent)
  next
    case False
    then have "g = f"
      using assms(1) by (cases c) (auto simp: CommandEvent handle_event_def
          handle_stream_loader_command_def split: StreamLoaderCommand.splits)
    with assms(2) show ?thesis by (simp add: CommandEvent)
  qed
next
  case (DataEvent d)
  show ?thesis
  proof (cases d)
    case None
    with assms show ?thesis by (auto simp: DataEvent handle_event_def)
  next
    case (Some x)
    then have "handle_file_data w alive x f = (res, g)"
      using assms(1) by (simp add: DataEvent handle_event_def)
    from handle_file_data_ok [OF this assms(2)] assms(3) show ?thesis by (simp add: DataEvent Some)
  qed
qed

lemma fetch_round_ok:
  assumes "fetch_round client w alive ev f = (res, g)" "fetch_ok F qs f"
    "\<And>d. ev = DataEvent (Some d) \<Longrightarrow> msg_ok F d"
  shows "fetch_ok F qs g \<and> download_slots (shared g) = download_slots (shared f) \<and>
         (covered qs ((case ev of DataEvent (Some d) \<Rightarrow> msg_bytes d | _ \<Rightarrow> {}) \<union> X) f \<and> (\<exists>c. res = Ok c)
          \<longrightarrow> covered qs X g)"
proof -
  obtain r h where h: "handle_event client w alive ev f = (r, h)"
    by (cases "handle_event client w alive ev f")
  note ev = handle_event_ok [OF h assms(2,3), of X]
  show ?thesis
  proof (cases "r = Inr FlowContinue")
    case True
    then obtain x where x: "prefetch client h = (x, g)" "(\<exists>c. res = Ok c) \<longleftrightarrow> (\<exists>u. x = Inr u)"
      using assms(1) h by (auto simp: fetch_round_def split: prod.splits sum.splits)
    with ev prefetch_ok [OF x(1), of F qs X] True show ?thesis by auto
  next
    case False
    then have "res = r \<and> g = h"
      using assms(1) h by (auto simp: fetch_round_def split: sum.splits ControlFlow.splits)
    with ev show ?thesis by simp
  qed
qed

section \<open>The receiving tasks\<close>

text \<open>A spawned \<open>receive_data\<close>: waiting for a download slot, in its loop, or after it.\<close>

datatype Task =
    Waiting StreamingRequest
  | Receiving ReceiveState
  | Ending ReceiveState "unit audio_result"

fun after_round :: "ReceiveStep \<Rightarrow> Task list" where
  "after_round (Continue r) = [Receiving r]"
| "after_round (Break r res) = [Ending r res]"
| "after_round (Return res) = []"

definition remaining :: "ReceiveState \<Rightarrow> Range" where
  "remaining r = range_new (offset r) (req_length (request r) - actual_length r)"

fun pending :: "Task \<Rightarrow> Range" where
  "pending (Waiting q) = req_range q"
| "pending (Receiving r) = remaining r"
| "pending (Ending r res) = remaining r"

fun active :: "Task \<Rightarrow> bool" where
  "active (Waiting q) \<longleftrightarrow> False"
| "active (Receiving r) \<longleftrightarrow> True"
| "active (Ending r res) \<longleftrightarrow> True"

definition receive_ok :: "u8 list \<Rightarrow> ReceiveState \<Rightarrow> bool" where
  "receive_ok F r \<longleftrightarrow>
     request_ok F (request r) \<and> offset r = req_offset (request r) + actual_length r \<and>
     actual_length r \<le> req_length (request r) \<and>
     (initial_response (request r) \<noteq> None \<longrightarrow> actual_length r = 0)"

fun task_ok :: "u8 list \<Rightarrow> Task \<Rightarrow> bool" where
  "task_ok F (Waiting q) \<longleftrightarrow> request_ok F q"
| "task_ok F (Receiving r) \<longleftrightarrow> receive_ok F r"
| "task_ok F (Ending r res) \<longleftrightarrow> receive_ok F r"

definition served_event :: "u8 list \<Rightarrow> ReceiveState \<Rightarrow> StreamEvent \<Rightarrow> bool" where
  "served_event F r ev =
     (case ev of
        StreamResponse resp \<Rightarrow> served F (offset r) (req_length (request r) - actual_length r) resp
      | _ \<Rightarrow> True)"

definition msgs_bytes :: "ReceivedData list \<Rightarrow> nat set" where
  "msgs_bytes ds = (\<Union>d \<in> set ds. msg_bytes d)"

lemma msgs_bytes_simps [simp]:
  "msgs_bytes [] = {}" "msgs_bytes (d # ds) = msg_bytes d \<union> msgs_bytes ds"
  "msgs_bytes (xs @ ys) = msgs_bytes xs \<union> msgs_bytes ys"
  by (auto simp: msgs_bytes_def)

text \<open>
  What a round of the loop does to the pending bytes: messages carry pieces of the file, the
  bytes still to come shrink by exactly those in the messages.
\<close>

definition round_ok :: "u8 list \<Rightarrow> bool \<Rightarrow> ReceiveState \<Rightarrow> ReceivedData list \<times> ReceiveStep \<Rightarrow> bool" where
  "round_ok F rx r out \<longleftrightarrow>
     list_all (msg_ok F) (fst out) \<and>
     (case after_round (snd out) of
        [] \<Rightarrow> \<not> rx
      | t # ts \<Rightarrow> ts = [] \<and> task_ok F t \<and> active t \<and>
          range_bytes (pending t) \<subseteq> range_bytes (remaining r) \<and>
          range_bytes (remaining r) \<subseteq> range_bytes (pending t) \<union> msgs_bytes (fst out))"

lemma round_ok_simps [simp]:
  "round_ok F rx r ([], Return res) \<longleftrightarrow> \<not> rx"
  "round_ok F rx r ([], Break r res) \<longleftrightarrow> receive_ok F r"
  by (auto simp: round_ok_def)

lemma round_ok_remaining: "remaining r' = remaining r \<Longrightarrow> round_ok F rx r' out \<Longrightarrow> round_ok F rx r out"
  by (simp add: round_ok_def split: list.splits)

lemma receive_body_ok:
  assumes "receive_ok F r" "initial_response (request r) = None"
    "served F (offset r) (req_length (request r) - actual_length r) resp"
  shows "round_ok F rx r (receive_body rx resp r)"
proof (cases "status resp = 206 \<and> rx \<and> (\<exists>d. body resp = Inr d)")
  case True
  then obtain d where d: "body resp = Inr d" by blast
  let ?r = "r\<lparr>actual_length := actual_length r + length d, offset := offset r + length d\<rparr>"
  have eq: "receive_body rx resp r = ([Data (offset r) d], Continue ?r)"
    using True d by (simp add: receive_body_def)
  have len: "length d \<le> req_length (request r) - actual_length r"
    and slice: "d = take (length d) (drop (offset r) F)"
    using assms(3) True d by (auto simp: served_def)
  have "offset r + length d \<le> length F" using assms(1) len by (auto simp: receive_ok_def request_ok_def)
  with slice have "msg_ok F (Data (offset r) d)" by (simp add: msg_ok_def)
  moreover have "receive_ok F ?r" using assms(1,2) len by (auto simp: receive_ok_def)
  ultimately show ?thesis
    using len by (auto simp: eq round_ok_def remaining_def)
next
  case False
  with assms(1) show ?thesis by (auto simp: receive_body_def split: sum.splits)
qed

lemma receive_response_ok:
  assumes "receive_ok F r" "initial_response (request r) = None"
    "served F (offset r) (req_length (request r) - actual_length r) resp"
  shows "round_ok F rx r (receive_response rx now resp r)"
proof -
  let ?r = "r\<lparr>measure_ping_time := False\<rparr>"
  have "round_ok F rx ?r (receive_body rx resp ?r)"
    by (rule receive_body_ok) (use assms in \<open>simp_all add: receive_ok_def\<close>)
  then have "round_ok F rx r (let (ms, st) = receive_body rx resp ?r in (ResponseTime t # ms, st))" for t
    by (auto simp: round_ok_def remaining_def split: prod.splits list.splits)
  with receive_body_ok [OF assms] show ?thesis by (cases rx) (simp_all add: receive_response_def)
qed

lemma receive_round_ok:
  assumes "receive_ok F r" "served_event F r ev"
  shows "round_ok F rx r (receive_round rx now ev r)"
proof (cases "initial_response (request r)")
  case None
  with assms show ?thesis
    by (auto simp: receive_round_def served_event_def receive_response_ok split: StreamEvent.splits)
next
  case (Some resp)
  let ?r = "r\<lparr>request := (request r)\<lparr>initial_response := None\<rparr>,
               measure_ping_time := False, measure_throughput := False\<rparr>"
  have "actual_length r = 0" "offset r = req_offset (request r)"
    "served F (req_offset (request r)) (req_length (request r)) resp"
    using assms(1) Some by (auto simp: receive_ok_def request_ok_def)
  then have "round_ok F rx ?r (receive_response rx now resp ?r)"
    using assms(1) by (intro receive_response_ok) (auto simp: receive_ok_def request_ok_def)
  then have "round_ok F rx r (receive_response rx now resp ?r)"
    by (rule round_ok_remaining [rotated]) (simp add: remaining_def)
  then show ?thesis by (simp add: receive_round_def Some)
qed

text \<open>Giving back what did not arrive; the subtraction of the lengths cannot underflow.\<close>

lemma receive_end_ok:
  assumes "receive_end rx now res r sh = (res', ms, sh')" "receive_ok F r" "shared_ok F sh"
  shows "shared_ok F sh'" "list_all (msg_ok F) ms" "msgs_bytes ms = {}"
    "down_bytes sh' = down_bytes sh" "download_slots sh' = download_slots sh"
    "sh' = sh \<and> (rx \<longrightarrow> range_bytes (remaining r) = {}) \<or> req_bytes sh' = req_bytes sh - range_bytes (remaining r)"
proof -
  have le: "actual_length r \<le> req_length (request r)" using assms(2) by (simp add: receive_ok_def)
  consider (same) "sh' = sh" "rx \<longrightarrow> req_length (request r) - actual_length r = 0"
    | (sub) "sh' = sub_requested (remaining r) sh"
    using assms(1) le by (auto simp: receive_end_def Let_def remaining_def split: if_splits)
  then have "shared_ok F sh' \<and> down_bytes sh' = down_bytes sh \<and> download_slots sh' = download_slots sh \<and>
    (sh' = sh \<and> (rx \<longrightarrow> range_bytes (remaining r) = {}) \<or> req_bytes sh' = req_bytes sh - range_bytes (remaining r))"
  proof cases
    case same
    with assms(3) show ?thesis by (auto simp: remaining_def)
  next
    case sub
    with assms(3) show ?thesis by (simp add: sub_requested_ok sub_requested_bytes)
  qed
  then show "shared_ok F sh'" "down_bytes sh' = down_bytes sh" "download_slots sh' = download_slots sh"
    "sh' = sh \<and> (rx \<longrightarrow> range_bytes (remaining r) = {}) \<or> req_bytes sh' = req_bytes sh - range_bytes (remaining r)"
    by blast+
  show "list_all (msg_ok F) ms" "msgs_bytes ms = {}"
    using assms(1) le by (auto simp: receive_end_def Let_def split: if_splits)
qed

section \<open>The system\<close>

text \<open>
  The fetch task with the shared state and the file, the receiving tasks, the two message
  channels, the reader, and a \<open>read\<close> that waits for its first byte.
\<close>

record StreamSystem =
  fetcher :: AudioFileFetch
  tasks :: "Task list"
  file_data :: "ReceivedData list"
  commands :: "StreamLoaderCommand list"
  running :: bool
  reader :: AudioFileStreaming
  reading :: "(usize \<times> usize) option"

abbreviation the_shared :: "StreamSystem \<Rightarrow> AudioFileShared" where
  "the_shared s \<equiv> shared (fetcher s)"

definition with_shared :: "AudioFileShared \<Rightarrow> StreamSystem \<Rightarrow> StreamSystem" where
  "with_shared sh s = s\<lparr>fetcher := (fetcher s)\<lparr>shared := sh\<rparr>\<rparr>"

text \<open>The runtime takes over the spawned requests.\<close>

definition with_fetcher :: "AudioFileFetch \<Rightarrow> StreamSystem \<Rightarrow> StreamSystem" where
  "with_fetcher f s = s\<lparr>fetcher := f\<lparr>spawned := []\<rparr>, tasks := tasks s @ map Waiting (spawned f)\<rparr>"

definition take_slot :: "AudioFileShared \<Rightarrow> AudioFileShared" where
  "take_slot sh = sh\<lparr>download_slots := download_slots sh - 1\<rparr>"

definition give_slot :: "AudioFileShared \<Rightarrow> AudioFileShared" where
  "give_slot sh = sh\<lparr>download_slots := download_slots sh + 1\<rparr>"

definition stream_start :: "AudioFileFetch \<Rightarrow> AudioFileStreaming \<Rightarrow> StreamSystem" where
  "stream_start f rd =
     \<lparr>fetcher = f\<lparr>spawned := []\<rparr>, tasks = map Waiting (spawned f), file_data = [], commands = [],
      running = True, reader = rd, reading = None\<rparr>"

inductive stream_step ::
  "u8 list \<Rightarrow> (string \<Rightarrow> string \<Rightarrow> AudioError option) \<Rightarrow> StreamSystem \<Rightarrow> StreamSystem \<Rightarrow> bool"
  for F client where
  acquire:
    "tasks s = as @ Waiting q # bs \<Longrightarrow> 0 < download_slots (the_shared s) \<Longrightarrow>
     stream_step F client s
       (with_shared (take_slot (the_shared s)) s\<lparr>tasks := as @ Receiving (receive_start q now) # bs\<rparr>)"
| receive:
    "tasks s = as @ Receiving r # bs \<Longrightarrow> served_event F r ev \<Longrightarrow>
     receive_round (running s) now ev r = (ms, st) \<Longrightarrow> after_round st = [t] \<Longrightarrow>
     stream_step F client s (s\<lparr>tasks := as @ t # bs, file_data := file_data s @ ms\<rparr>)"
| abandon:
    "tasks s = as @ Receiving r # bs \<Longrightarrow> served_event F r ev \<Longrightarrow>
     receive_round (running s) now ev r = (ms, st) \<Longrightarrow> after_round st = [] \<Longrightarrow>
     stream_step F client s
       (with_shared (give_slot (the_shared s)) s\<lparr>tasks := as @ bs, file_data := file_data s @ ms\<rparr>)"
| end_receive:
    "tasks s = as @ Ending r res # bs \<Longrightarrow>
     receive_end (running s) now res r (the_shared s) = (res', ms, sh) \<Longrightarrow>
     stream_step F client s
       (with_shared (give_slot sh) s\<lparr>tasks := as @ bs, file_data := file_data s @ ms\<rparr>)"
| handle_command:
    "running s \<Longrightarrow> commands s = c # cs \<Longrightarrow>
     fetch_round client w alive (CommandEvent (Some c)) (fetcher s) = (res, f) \<Longrightarrow>
     stream_step F client s
       (with_fetcher f s\<lparr>commands := cs, running := (res = Ok FlowContinue)\<rparr>)"
| handle_data:
    "running s \<Longrightarrow> file_data s = d # ds \<Longrightarrow>
     fetch_round client w alive (DataEvent (Some d)) (fetcher s) = (res, f) \<Longrightarrow>
     stream_step F client s
       (with_fetcher f s\<lparr>file_data := ds, running := (res = Ok FlowContinue)\<rparr>)"
| hang_up:
    "running s \<Longrightarrow> fetch_round client w alive (CommandEvent None) (fetcher s) = (res, f) \<Longrightarrow>
     stream_step F client s (with_fetcher f s\<lparr>running := (res = Ok FlowContinue)\<rparr>)"
| control:
    "stream_step F client s (s\<lparr>commands := commands s @ cs\<rparr>)"
| set_mode:
    "stream_step F client s (with_shared (set_download_streaming b (the_shared s)) s)"
| read_starts:
    "reading s = None \<Longrightarrow>
     read_begin (params (fetcher s)) (running s) (the_shared s) n (reader s) = (ReadWaits off len, cs) \<Longrightarrow>
     stream_step F client s (s\<lparr>reading := Some (off, len), commands := commands s @ cs\<rparr>)"
| read_times_out:
    "reading s = Some (off, len) \<Longrightarrow> stream_step F client s (s\<lparr>reading := None\<rparr>)"
| read_ends:
    "reading s = Some (off, len) \<Longrightarrow> \<not> read_blocked (the_shared s) off \<Longrightarrow> 0 < k \<Longrightarrow>
     read_end (disk (fetcher s)) k off len (the_shared s) (reader s) = (data, sh, rd) \<Longrightarrow>
     stream_step F client s (with_shared sh s\<lparr>reader := rd, reading := None\<rparr>)"
| seek:
    "reading s = None \<Longrightarrow>
     streaming_seek p (length (disk (fetcher s))) (the_shared s) (reader s) = (res, sh, rd) \<Longrightarrow>
     stream_step F client s (with_shared sh s\<lparr>reader := rd\<rparr>)"

definition reader_ok :: "u8 list \<Rightarrow> AudioFileStreaming \<Rightarrow> (usize \<times> usize) option \<Rightarrow> bool" where
  "reader_ok F rd w \<longleftrightarrow>
     length F < 2 ^ 64 \<and> stream_position rd < 2 ^ 64 \<and> read_cursor rd = stream_position rd \<and>
     (case w of
        None \<Rightarrow> True
      | Some (off, len) \<Rightarrow> off = stream_position rd \<and> 0 < len \<and> off + len \<le> length F)"

definition stream_ok :: "u8 list \<Rightarrow> StreamSystem \<Rightarrow> bool" where
  "stream_ok F s \<longleftrightarrow>
     fetch_ok F (map pending (tasks s)) (fetcher s) \<and> spawned (fetcher s) = [] \<and>
     list_all (task_ok F) (tasks s) \<and> list_all (msg_ok F) (file_data s) \<and>
     (running s \<longrightarrow> covered (map pending (tasks s)) (msgs_bytes (file_data s)) (fetcher s)) \<and>
     (running s \<longrightarrow> output_file (fetcher s) \<noteq> None \<and> complete_tx (fetcher s)) \<and>
     download_slots (the_shared s) + length (filter active (tasks s)) = 1 \<and>
     reader_ok F (reader s) (reading s)"

lemma stream_okD:
  assumes "stream_ok F s"
  shows "fetch_ok F (map pending (tasks s)) (fetcher s)" "spawned (fetcher s) = []"
    "list_all (task_ok F) (tasks s)" "list_all (msg_ok F) (file_data s)"
    "running s \<Longrightarrow> covered (map pending (tasks s)) (msgs_bytes (file_data s)) (fetcher s)"
    "download_slots (the_shared s) + length (filter active (tasks s)) = 1"
    "reader_ok F (reader s) (reading s)"
    "running s \<Longrightarrow> output_file (fetcher s) \<noteq> None \<and> complete_tx (fetcher s)"
  using assms by (simp_all add: stream_ok_def)

lemma with_shared_fields [simp]:
  "fetcher (with_shared sh s) = (fetcher s)\<lparr>shared := sh\<rparr>" "tasks (with_shared sh s) = tasks s"
  "file_data (with_shared sh s) = file_data s" "commands (with_shared sh s) = commands s"
  "running (with_shared sh s) = running s" "reader (with_shared sh s) = reader s"
  "reading (with_shared sh s) = reading s"
  by (simp_all add: with_shared_def)

lemma with_fetcher_fields [simp]:
  "fetcher (with_fetcher f s) = f\<lparr>spawned := []\<rparr>"
  "tasks (with_fetcher f s) = tasks s @ map Waiting (spawned f)"
  "file_data (with_fetcher f s) = file_data s" "commands (with_fetcher f s) = commands s"
  "running (with_fetcher f s) = running s" "reader (with_fetcher f s) = reader s"
  "reading (with_fetcher f s) = reading s"
  by (simp_all add: with_fetcher_def)

lemma slot_simps [simp]:
  "req_bytes (take_slot sh) = req_bytes sh" "down_bytes (take_slot sh) = down_bytes sh"
  "shared_ok F (take_slot sh) = shared_ok F sh" "download_slots (take_slot sh) = download_slots sh - 1"
  "req_bytes (give_slot sh) = req_bytes sh" "down_bytes (give_slot sh) = down_bytes sh"
  "shared_ok F (give_slot sh) = shared_ok F sh" "download_slots (give_slot sh) = download_slots sh + 1"
  by (simp_all add: take_slot_def give_slot_def)

text \<open>Handing the spawned requests to the runtime changes nothing in flight.\<close>

lemma collect_ok:
  "fetch_ok F qs f \<Longrightarrow> fetch_ok F (qs @ map req_range (spawned f)) (f\<lparr>spawned := []\<rparr>)"
  "covered qs X f \<Longrightarrow> covered (qs @ map req_range (spawned f)) X (f\<lparr>spawned := []\<rparr>)"
  by (simp_all add: fetch_ok_def disk_ok_def covered_def flight_def)

subsection \<open>Every step keeps the invariant\<close>

lemma fetch_ok_flight:
  "fetch_ok F qs f \<Longrightarrow> spawned f = [] \<Longrightarrow> disjoint_ranges qs' \<Longrightarrow> bytes_of qs' \<subseteq> bytes_of qs \<Longrightarrow>
   fetch_ok F qs' f"
  by (auto simp: fetch_ok_def flight_def)

lemma acquire_ok:
  assumes "stream_ok F s" "tasks s = as @ Waiting q # bs" "0 < download_slots (the_shared s)"
  shows "stream_ok F
    (with_shared (take_slot (the_shared s)) s\<lparr>tasks := as @ Receiving (receive_start q now) # bs\<rparr>)"
proof -
  note ok = stream_okD [OF assms(1)]
  have "remaining (receive_start q now) = req_range q"
    by (simp add: remaining_def receive_start_def req_range_def)
  then have eq: "map pending (as @ Receiving (receive_start q now) # bs) = map pending (tasks s)"
    by (simp add: assms(2))
  have q: "receive_ok F (receive_start q now)"
    using ok(3) by (simp add: assms(2) receive_ok_def receive_start_def)
  have "length (filter active (tasks s)) = 0" using ok(6) assms(3) by linarith
  then show ?thesis
    unfolding stream_ok_def
    using ok q assms(2,3) by (simp add: eq fetch_ok_shared del: list.map map_append)
qed

lemma receive_task_ok:
  assumes "stream_ok F s" "tasks s = as @ Receiving r # bs" "served_event F r ev"
    "receive_round (running s) now ev r = (ms, st)" "after_round st = [t]"
  shows "stream_ok F (s\<lparr>tasks := as @ t # bs, file_data := file_data s @ ms\<rparr>)"
proof -
  note ok = stream_okD [OF assms(1)]
  have "receive_ok F r" using ok(3) by (simp add: assms(2))
  from receive_round_ok [OF this assms(3), of "running s" now] have t: "list_all (msg_ok F) ms"
    "task_ok F t" "active t" "range_bytes (pending t) \<subseteq> range_bytes (remaining r)"
    "range_bytes (remaining r) \<subseteq> range_bytes (pending t) \<union> msgs_bytes ms"
    by (simp_all add: assms(4,5) round_ok_def)
  have fl: "fetch_ok F (map pending as @ remaining r # map pending bs) (fetcher s)"
    using ok(1) by (simp add: assms(2))
  have "disjoint_ranges (map pending as @ remaining r # map pending bs)"
    using fetch_okD(4) [OF fl] ok(2) by (simp add: flight_def)
  from disjoint_ranges_shrink [OF this t(4)]
  have "fetch_ok F (map pending as @ pending t # map pending bs) (fetcher s)"
    by (rule fetch_ok_flight [OF fl ok(2)]) (use t(4) in auto)
  moreover have "covered (map pending as @ pending t # map pending bs) (msgs_bytes (file_data s) \<union> msgs_bytes ms)
      (fetcher s)" if "running s"
    using ok(5) [OF that] ok(2) t(5) by (auto simp: covered_def flight_def assms(2))
  ultimately show ?thesis
    unfolding stream_ok_def using ok t(1,2,3) by (simp add: assms(2))
qed

text \<open>A task that is gone: its slot is free again.\<close>

lemma drop_task_ok:
  assumes "stream_ok F s" "tasks s = as @ x # bs" "active x" "list_all (msg_ok F) ms"
    "shared_ok F sh" "down_bytes sh = down_bytes (the_shared s)" "download_slots sh = download_slots (the_shared s)"
    "bytes_of (map pending (as @ bs)) \<subseteq> req_bytes sh"
    "running s \<Longrightarrow> req_bytes sh \<subseteq> down_bytes sh \<union> bytes_of (map pending (as @ bs)) \<union> msgs_bytes (file_data s)"
  shows "stream_ok F (with_shared (give_slot sh) s\<lparr>tasks := as @ bs, file_data := file_data s @ ms\<rparr>)"
proof -
  note ok = stream_okD [OF assms(1)]
  have "disjoint_ranges (map pending as @ pending x # map pending bs)"
    using fetch_okD(4) [OF ok(1)] ok(2) by (simp add: flight_def assms(2))
  then have "disjoint_ranges (map pending (as @ bs))" by (auto dest: disjoint_ranges_drop)
  moreover have "disk_ok F ((fetcher s)\<lparr>shared := give_slot sh\<rparr>)"
    using fetch_okD(2) [OF ok(1)] assms(6) by (simp add: disk_ok_def)
  ultimately have "fetch_ok F (map pending (as @ bs)) ((fetcher s)\<lparr>shared := give_slot sh\<rparr>)"
    using assms(5,8) ok(2) by (simp add: fetch_ok_def flight_def)
  moreover have "covered (map pending (as @ bs)) (msgs_bytes (file_data s @ ms)) ((fetcher s)\<lparr>shared := give_slot sh\<rparr>)"
    if "running s"
    using assms(9) [OF that] ok(2) by (auto simp: covered_def flight_def)
  ultimately show ?thesis
    unfolding stream_ok_def using ok assms(2,3,4,7) by simp
qed

lemma abandon_ok:
  assumes "stream_ok F s" "tasks s = as @ Receiving r # bs" "served_event F r ev"
    "receive_round (running s) now ev r = (ms, st)" "after_round st = []"
  shows "stream_ok F (with_shared (give_slot (the_shared s)) s\<lparr>tasks := as @ bs, file_data := file_data s @ ms\<rparr>)"
proof -
  note ok = stream_okD [OF assms(1)]
  have "receive_ok F r" using ok(3) by (simp add: assms(2))
  from receive_round_ok [OF this assms(3), of "running s" now]
  have t: "list_all (msg_ok F) ms" "\<not> running s" by (simp_all add: assms(4,5) round_ok_def)
  show ?thesis
    by (rule drop_task_ok [OF assms(1,2)])
      (use t fetch_okD(1,5) [OF ok(1)] ok(2) assms(2) in \<open>auto simp: flight_def\<close>)
qed

lemma end_receive_ok:
  assumes "stream_ok F s" "tasks s = as @ Ending r res # bs"
    "receive_end (running s) now res r (the_shared s) = (res', ms, sh)"
  shows "stream_ok F (with_shared (give_slot sh) s\<lparr>tasks := as @ bs, file_data := file_data s @ ms\<rparr>)"
proof -
  note ok = stream_okD [OF assms(1)]
  have "receive_ok F r" using ok(3) by (simp add: assms(2))
  note e = receive_end_ok [OF assms(3) this fetch_okD(1) [OF ok(1)]]
  have fl: "bytes_of (map pending (as @ bs)) \<union> range_bytes (remaining r) \<subseteq> req_bytes (the_shared s)"
    using fetch_okD(5) [OF ok(1)] ok(2) by (auto simp: flight_def assms(2))
  have dj: "bytes_of (map pending (as @ bs)) \<inter> range_bytes (remaining r) = {}"
    using fetch_okD(4) [OF ok(1)] ok(2) by (auto simp: flight_def assms(2) disjoint_ranges_append)
  have cov: "req_bytes (the_shared s) \<subseteq> down_bytes (the_shared s) \<union>
      (bytes_of (map pending (as @ bs)) \<union> range_bytes (remaining r)) \<union> msgs_bytes (file_data s)" if "running s"
    using ok(5) [OF that] ok(2) by (auto simp: covered_def flight_def assms(2))
  show ?thesis
    by (rule drop_task_ok [OF assms(1,2)]) (use e fl dj cov in auto)
qed

lemma download_range_output:
  "download_range client off len f = (res, g) \<Longrightarrow> output_file g = output_file f \<and> complete_tx g = complete_tx f"
  by (auto simp: download_range_def dest: request_ranges_fields split: sum.splits)

lemma pre_fetch_output:
  assumes "pre_fetch_more_data client n f = (res, g)"
  shows "output_file g = output_file f \<and> complete_tx g = complete_tx f"
  using assms by (cases rule: pre_fetch_cases) (auto dest: download_range_output)

text \<open>As long as the loop goes on it owns the file and the channel for the complete file.\<close>

lemma fetch_round_output:
  assumes "fetch_round client w alive ev f = (Ok FlowContinue, g)" "output_file f \<noteq> None \<and> complete_tx f"
  shows "output_file g \<noteq> None \<and> complete_tx g"
proof -
  obtain h where h: "handle_event client w alive ev f = (Ok FlowContinue, h)" "prefetch client h = (Ok (), g)"
    using assms(1) by (auto simp: fetch_round_def split: prod.splits sum.splits ControlFlow.splits)
  have "output_file h \<noteq> None \<and> complete_tx h"
  proof (cases ev)
    case (CommandEvent c)
    with h(1) assms(2) show ?thesis
      by (auto simp: handle_event_def handle_stream_loader_command_def dest: download_range_output
          split: option.splits StreamLoaderCommand.splits prod.splits sum.splits)
  next
    case (DataEvent d)
    then obtain x where x: "d = Some x" "handle_file_data w alive x f = (Ok FlowContinue, h)"
      using h(1) by (auto simp: handle_event_def split: option.splits)
    show ?thesis
    proof (cases x)
      case (Data off data)
      show ?thesis
        by (rule handle_data_cases [OF x(2) [unfolded Data]]) (use assms(2) in \<open>auto split: sum.splits\<close>)
    qed (use x(2) assms(2) in \<open>auto simp: handle_file_data_def Let_def split: sum.splits\<close>)
  qed
  with h(2) show ?thesis
    by (auto simp: prefetch_def Let_def dest: pre_fetch_output split: if_splits)
qed

lemma fetch_round_step_ok:
  assumes "stream_ok F s" "running s" "fetch_round client w alive ev (fetcher s) = (res, f)"
    "\<And>d. ev = DataEvent (Some d) \<Longrightarrow> msg_ok F d"
    "msgs_bytes (file_data s) = (case ev of DataEvent (Some d) \<Rightarrow> msg_bytes d | _ \<Rightarrow> {}) \<union> msgs_bytes (file_data t)"
    "list_all (msg_ok F) (file_data t)" "fetcher t = f\<lparr>spawned := []\<rparr>"
    "tasks t = tasks s @ map Waiting (spawned f)" "running t \<longrightarrow> res = Ok FlowContinue"
    "reader t = reader s" "reading t = reading s"
  shows "stream_ok F t"
proof -
  note ok = stream_okD [OF assms(1)]
  have r: "fetch_ok F (map pending (tasks s)) f" "download_slots (shared f) = download_slots (the_shared s)"
    "running t \<Longrightarrow> covered (map pending (tasks s)) (msgs_bytes (file_data t)) f"
    using fetch_round_ok [OF assms(3) ok(1) assms(4), of "msgs_bytes (file_data t)"] ok(5) [OF assms(2)]
      assms(5,9) by auto
  have new: "map pending (tasks t) = map pending (tasks s) @ map req_range (spawned f)"
    by (simp add: assms(8) comp_def)
  have "list_all (task_ok F) (map Waiting (spawned f))"
    using fetch_okD(3) [OF r(1)] by (simp add: list_all_iff)
  moreover have "filter active (map Waiting (spawned f)) = []"
    by (simp add: filter_empty_conv)
  moreover have "fetch_ok F (map pending (tasks t)) (fetcher t)"
    unfolding new assms(7) by (rule collect_ok(1) [OF r(1)])
  moreover have "running t \<longrightarrow> covered (map pending (tasks t)) (msgs_bytes (file_data t)) (fetcher t)"
    unfolding new assms(7) using collect_ok(2) r(3) by blast
  moreover have "running t \<longrightarrow> output_file f \<noteq> None \<and> complete_tx f"
    using fetch_round_output ok(8) [OF assms(2)] assms(3,9) by blast
  ultimately show ?thesis
    using ok(3,6,7) assms(6) r(2) by (simp add: stream_ok_def assms(7,8,10,11))
qed

lemma read_starts_ok:
  assumes "stream_ok F s" "read_begin P rx (the_shared s) n (reader s) = (ReadWaits off len, cs)"
  shows "off = stream_position (reader s) \<and> 0 < len \<and> off + len \<le> length F"
proof -
  have "file_size (the_shared s) = length F"
    using fetch_okD(1) [OF stream_okD(1) [OF assms(1)]] by (simp add: shared_ok_def)
  with assms(2) show ?thesis by (auto simp: read_begin_def Let_def split: if_splits)
qed

lemma same_bytes_ok:
  assumes "stream_ok F s" "req_bytes sh = req_bytes (the_shared s)" "down_bytes sh = down_bytes (the_shared s)"
    "shared_ok F sh = shared_ok F (the_shared s)" "download_slots sh = download_slots (the_shared s)"
    "reader_ok F rd w"
  shows "stream_ok F (with_shared sh s\<lparr>reader := rd, reading := w\<rparr>)"
  using stream_okD [OF assms(1)] assms(2-) by (simp add: stream_ok_def fetch_ok_shared)

lemma as_u64_as_i64: "n < 2 ^ 64 \<Longrightarrow> as_u64 (as_i64 (int n)) = n"
proof -
  assume "n < 2 ^ 64"
  then have "int n < 2 ^ 64" by simp
  have "as_i64 (int n) mod 2 ^ 64 = int n mod 2 ^ 64"
    unfolding as_i64_def by (simp add: mod_diff_left_eq)
  also have "\<dots> = int n" using \<open>int n < 2 ^ 64\<close> by simp
  finally show ?thesis by (simp add: as_u64_def)
qed

lemma streaming_seek_position:
  assumes "streaming_seek p len sh rd = (res, sh', rd')" "stream_position rd < 2 ^ 64"
  shows "case res of Inl _ \<Rightarrow> rd' = rd | Inr q \<Rightarrow> stream_position rd' = q \<and> q < 2 ^ 64"
  using assms as_u64_as_i64 [OF assms(2)]
  by (auto simp: streaming_seek_def Let_def file_seek_def split: sum.splits if_splits)

lemma streaming_seek_frame:
  assumes "streaming_seek p n sh rd = (res, sh', rd')"
  shows "req_bytes sh' = req_bytes sh" "down_bytes sh' = down_bytes sh" "shared_ok F sh' = shared_ok F sh"
    "download_slots sh' = download_slots sh"
    "read_cursor rd = stream_position rd \<Longrightarrow> read_cursor rd' = stream_position rd'"
  using assms by (auto simp: streaming_seek_def Let_def split: sum.splits if_splits)

lemma stream_step_ok:
  assumes "stream_step F client s t" "stream_ok F s"
  shows "stream_ok F t"
  using assms
proof (cases rule: stream_step.cases)
  case (handle_command c cs w alive res f)
  show ?thesis
    by (rule fetch_round_step_ok [OF assms(2) handle_command(2,4)])
      (use stream_okD(4) [OF assms(2)] in \<open>simp_all add: handle_command(1)\<close>)
next
  case (handle_data d ds w alive res f)
  show ?thesis
    by (rule fetch_round_step_ok [OF assms(2) handle_data(2,4)])
      (use stream_okD(4) [OF assms(2)] in \<open>simp_all add: handle_data(1,3)\<close>)
next
  case (hang_up w alive res f)
  show ?thesis
    by (rule fetch_round_step_ok [OF assms(2) hang_up(2,3)])
      (use stream_okD(4) [OF assms(2)] in \<open>simp_all add: hang_up(1)\<close>)
next
  case (read_starts n off len cs)
  then show ?thesis
    using read_starts_ok [OF assms(2) read_starts(3)] assms(2) by (auto simp: stream_ok_def reader_ok_def)
next
  case (read_ends off len k data sh rd)
  have old: "off + len \<le> length F" "length F < 2 ^ 64"
    using stream_okD(7) [OF assms(2)] read_ends(2) by (auto simp: reader_ok_def)
  from read_ends(5) have "sh = set_read_position (stream_position rd) (the_shared s)"
    "read_cursor rd = stream_position rd" "stream_position rd \<le> off + len"
    by (auto simp: read_end_def Let_def file_read_def)
  with old have "sh = set_read_position (stream_position rd) (the_shared s)" "reader_ok F rd None"
    by (auto simp: reader_ok_def)
  then show ?thesis unfolding read_ends(1) by (intro same_bytes_ok [OF assms(2)]) simp_all
next
  case (seek p res sh rd)
  note fr = streaming_seek_frame [OF seek(3)]
  have "reader_ok F rd (reading s)"
    using fr(5) stream_okD(7) [OF assms(2)] seek(2) streaming_seek_position [OF seek(3)]
    by (auto simp: reader_ok_def split: sum.splits)
  then have "stream_ok F (with_shared sh s\<lparr>reader := rd, reading := reading s\<rparr>)"
    using fr by (intro same_bytes_ok [OF assms(2)]) simp_all
  then show ?thesis using seek(1,2) by (simp add: stream_ok_def)
next
  case (set_mode b)
  then show ?thesis using assms(2) by (simp add: stream_ok_def fetch_ok_shared)
next
  case (acquire as q bs now)
  show ?thesis unfolding acquire(1) by (rule acquire_ok [OF assms(2) acquire(2,3)])
next
  case (receive as r bs ev now ms st t')
  show ?thesis unfolding receive(1) by (rule receive_task_ok [OF assms(2) receive(2-5)])
next
  case (abandon as r bs ev now ms st)
  show ?thesis unfolding abandon(1) by (rule abandon_ok [OF assms(2) abandon(2-5)])
next
  case (end_receive as r res bs now res' ms sh)
  show ?thesis unfolding end_receive(1) by (rule end_receive_ok [OF assms(2) end_receive(2,3)])
next
  case (control cs)
  then show ?thesis using assms(2) by (simp add: stream_ok_def)
next
  case (read_times_out off len)
  then show ?thesis using assms(2) by (simp add: stream_ok_def reader_ok_def)
qed

end
