(* ===== verification/Audio_Reader.thy ===== *)
theory Audio_Reader
  imports Audio_Stream
begin

text \<open>
  Opening, reading and decrypting an audio file. \<open>streaming_open\<close> gives the initial states of the
  streaming system, whose reachable states satisfy the invariant. \<open>stream_read\<close> is the whole
  \<open>read\<close> of \<open>audio/src/fetch/mod.rs\<close>, with the states that its condition variable wakes up in. A
  reader that hands out its content in order, wherever it was put by a seek, is the locale
  \<open>positioned_reader\<close>: a cached file and a streamed file are such readers, and \<open>AudioDecrypt\<close> of
  \<open>audio/src/decrypt.rs\<close> over any of them is one again, with the decrypted content.
\<close>

section \<open>The size of the file\<close>

lemma show_dec_chars:
  assumes "c \<in> set (show_dec n)"
  shows "visible_ascii c" "c \<noteq> CHR ''-''" "c \<noteq> CHR ''/''"
proof -
  from assms obtain d where d: "d < 10" "c = digit_char d"
    using radix_digits_less [of 10] by (auto simp: show_dec_def)
  then have "of_char c = 48 + d" by (simp add: of_char_digit_char)
  with d(1) show "visible_ascii c" "c \<noteq> CHR ''-''" "c \<noteq> CHR ''/''"
    by (auto simp: visible_ascii_def)
qed

lemma str_find_append:
  assumes "c \<notin> set xs"
  shows "str_find c (xs @ c # ys) = length xs"
proof -
  have "Prelude.position (\<lambda>x. x = c) (xs @ c # ys) = Some (length xs)"
    by (rule position_append_first) (use assms in auto)
  then show ?thesis by (simp add: str_find_def)
qed

lemma parse_usize_show: "n < 2 ^ 64 \<Longrightarrow> parse_usize (show_dec n) = Ok n"
  using parse_show_dec [of n, where 'w = 64] by (simp add: parse_usize_def unat_small)

definition content_range_text :: "nat \<Rightarrow> nat \<Rightarrow> nat \<Rightarrow> string" where
  "content_range_text a b n = ''bytes '' @ show_dec a @ ''-'' @ show_dec b @ ''/'' @ show_dec n"

lemma content_range_visible: "list_all visible_ascii (content_range_text a b n)"
proof -
  have "list_all visible_ascii (show_dec m)" for m by (simp add: list_all_iff show_dec_chars(1))
  moreover have "list_all visible_ascii ''bytes ''" "list_all visible_ascii ''-''" "list_all visible_ascii ''/''"
    by code_simp+
  ultimately show ?thesis by (simp add: content_range_text_def)
qed

lemma parse_content_range_text:
  assumes "b < 2 ^ 64" "n < 2 ^ 64"
  shows "parse_content_range (Some (content_range_text a b n)) = Ok (b, n)"
proof -
  let ?s = "content_range_text a b n" and ?p = "''bytes '' @ show_dec a"
  have h: "str_find CHR ''-'' ?s = length ?p"
    using str_find_append [of "CHR ''-''" ?p "show_dec b @ ''/'' @ show_dec n"] show_dec_chars(2)
    by (auto simp: content_range_text_def)
  have "CHR ''/'' \<notin> set (?p @ CHR ''-'' # show_dec b)" using show_dec_chars(3) by auto
  from str_find_append [OF this, of "show_dec n"]
  have sl: "str_find CHR ''/'' ?s = length ?p + 1 + length (show_dec b)"
    by (simp add: content_range_text_def)
  have "str_slice (length ?p + 1) (length ?p + 1 + length (show_dec b)) ?s = Ok (show_dec b)"
    by (simp add: str_slice_def content_range_text_def)
  moreover have "str_slice (length ?p + 1 + length (show_dec b) + 1) (length ?s) ?s = Ok (show_dec n)"
    by (simp add: str_slice_def content_range_text_def)
  ultimately show ?thesis
    using assms content_range_visible [of a b n]
    by (simp add: parse_content_range_def h sl Let_def parse_usize_show)
qed

section \<open>Initial states\<close>

text \<open>
  The CDN serves \<open>F\<close>: a partial response to the first request names the bytes it covers and the
  size of the file, and its body has bytes of that range.
\<close>

definition honest :: "u8 list \<Rightarrow> (string \<Rightarrow> AudioError + HttpResponse) \<Rightarrow> bool" where
  "honest F answer \<longleftrightarrow>
     length F < 2 ^ 64 \<and>
     (\<forall>url r. answer url = Inr r \<and> status r = 206 \<longrightarrow>
        (\<exists>u < length F. content_range r = Some (content_range_text 0 u (length F)) \<and> served F 0 (u + 1) r))"

definition stream_init :: "u8 list \<Rightarrow> (string \<Rightarrow> string \<Rightarrow> AudioError option) \<Rightarrow> StreamSystem \<Rightarrow> bool" where
  "stream_init F client s \<longleftrightarrow>
     (\<exists>P answer urls bps f rd. honest F answer \<and>
        streaming_open P client answer None urls bps = Ok (f, rd) \<and> s = stream_start f rd)"

lemma try_urls_found:
  "try_urls client answer len urls = Ok (Some (r, url)) \<Longrightarrow> answer url = Inr r \<and> status r = 206"
  by (induction urls) (auto split: sum.splits if_splits)

lemma streaming_open_cases:
  assumes "streaming_open P client answer None urls bps = Ok (f, rd)" "honest F answer"
  obtains r url u where "status r = 206" "u < length F" "served F 0 (u + 1) r"
    "f = audio_file_fetch P
       \<lparr>cdn_url = url, file_size = length F, bytes_per_second = bps,
        download_status = \<lparr>requested = range_set_new, downloaded = range_set_new\<rparr>,
        download_streaming = False, download_slots = 1, ping_time_ms = 0, read_position = 0,
        throughput = 0\<rparr>
       \<lparr>initial_response = Some r, req_offset = 0, req_length = u + 1\<rparr> (replicate (length F) 0)"
    "rd = \<lparr>stream_position = 0, read_cursor = 0\<rparr>"
proof -
  from assms(1) obtain us r url where found: "try_urls client answer (minimum_download_size P) us = Ok (Some (r, url))"
    and rest: "and_then (parse_content_range (content_range r)) (\<lambda>(upper_bound, sz).
      Ok (audio_file_fetch P
       \<lparr>cdn_url = url, file_size = sz, bytes_per_second = bps,
        download_status = \<lparr>requested = range_set_new, downloaded = range_set_new\<rparr>,
        download_streaming = False, download_slots = 1, ping_time_ms = 0, read_position = 0,
        throughput = 0\<rparr>
       \<lparr>initial_response = Some r, req_offset = 0, req_length = upper_bound + 1\<rparr> (replicate sz 0),
       \<lparr>stream_position = 0, read_cursor = 0\<rparr>)) = Ok (f, rd)"
    by (auto simp: streaming_open_def and_then_eq_Ok Let_def split: option.splits)
  from try_urls_found [OF found] assms(2) obtain u where u: "status r = 206" "u < length F" "length F < 2 ^ 64"
    "content_range r = Some (content_range_text 0 u (length F))" "served F 0 (u + 1) r"
    unfolding honest_def by blast
  then have "parse_content_range (content_range r) = Ok (u, length F)"
    by (simp add: parse_content_range_text)
  with rest show thesis by (intro that [OF u(1,2,5)]) auto
qed

lemma stream_init_ok:
  assumes "stream_init F client s"
  shows "stream_ok F s"
proof -
  from assms obtain P answer urls bps f rd where hon: "honest F answer"
    and opened: "streaming_open P client answer None urls bps = Ok (f, rd)" and s: "s = stream_start f rd"
    by (auto simp: stream_init_def)
  obtain r url u where st: "status r = 206" "u < length F" "served F 0 (u + 1) r" and f: "f = audio_file_fetch P
       \<lparr>cdn_url = url, file_size = length F, bytes_per_second = bps,
        download_status = \<lparr>requested = range_set_new, downloaded = range_set_new\<rparr>,
        download_streaming = False, download_slots = 1, ping_time_ms = 0, read_position = 0,
        throughput = 0\<rparr>
       \<lparr>initial_response = Some r, req_offset = 0, req_length = u + 1\<rparr> (replicate (length F) 0)"
    and rd: "rd = \<lparr>stream_position = 0, read_cursor = 0\<rparr>"
    by (rule streaming_open_cases [OF opened hon])
  have empty: "shared_ok F (shared f)" "down_bytes (shared f) = {}"
    "req_bytes (shared f) = range_bytes (range_new 0 (u + 1))" "download_slots (shared f) = 1"
    using st(2) by (auto simp: f audio_file_fetch_def shared_ok_def req_bytes_def down_bytes_def
        add_requested_def rs.invar_add rs.invar_empty rs.bytes_add rs.bytes_empty)
  have "spawned f = [\<lparr>initial_response = Some r, req_offset = 0, req_length = u + 1\<rparr>]"
    "length (disk f) = length F" "completed f = None" "output_file f \<noteq> None" "complete_tx f"
    by (simp_all add: f audio_file_fetch_def)
  with empty st hon show ?thesis
    by (simp add: honest_def s stream_start_def stream_ok_def fetch_ok_def disk_ok_def flight_def covered_def
        reader_ok_def rd req_range_def request_ok_def)
qed

interpretation stream: invariant_system "stream_init F client" "stream_step F client" "stream_ok F" for F client
  by unfold_locales (auto intro: stream_init_ok stream_step_ok)

section \<open>Readers\<close>

datatype ReadOp = DoRead nat | DoSeek SeekFrom

datatype Outcome = Got "u8 list" | Sought nat | Failed

fun run_ops ::
  "(nat \<Rightarrow> 'r \<Rightarrow> u8 list audio_result \<times> 'r) \<Rightarrow> (SeekFrom \<Rightarrow> 'r \<Rightarrow> nat audio_result \<times> 'r)
   \<Rightarrow> ReadOp list \<Rightarrow> 'r \<Rightarrow> Outcome list \<times> 'r" where
  "run_ops rd sk [] r = ([], r)"
| "run_ops rd sk (DoRead n # ops) r =
     (let (res, r') = rd n r; (outs, r'') = run_ops rd sk ops r'
      in ((case res of Inl _ \<Rightarrow> Failed | Inr d \<Rightarrow> Got d) # outs, r''))"
| "run_ops rd sk (DoSeek p # ops) r =
     (let (res, r') = sk p r; (outs, r'') = run_ops rd sk ops r'
      in ((case res of Inl _ \<Rightarrow> Failed | Inr q \<Rightarrow> Sought q) # outs, r''))"

text \<open>
  The outcomes of a reader of \<open>C\<close> that stands at \<open>p\<close>: data is what \<open>C\<close> has there and moves the
  position, a seek puts it where it says, a failure leaves it.
\<close>

fun consistent :: "u8 list \<Rightarrow> nat \<Rightarrow> Outcome list \<Rightarrow> bool" where
  "consistent C p [] \<longleftrightarrow> True"
| "consistent C p (Got d # os) \<longleftrightarrow> d = take (length d) (drop p C) \<and> consistent C (p + length d) os"
| "consistent C p (Sought q # os) \<longleftrightarrow> consistent C q os"
| "consistent C p (Failed # os) \<longleftrightarrow> consistent C p os"

locale positioned_reader =
  fixes rd :: "nat \<Rightarrow> 'r \<Rightarrow> u8 list audio_result \<times> 'r"
    and sk :: "SeekFrom \<Rightarrow> 'r \<Rightarrow> nat audio_result \<times> 'r"
    and pos :: "'r \<Rightarrow> nat"
    and content :: "'r \<Rightarrow> u8 list"
    and ok :: "'r \<Rightarrow> bool"
  assumes read_ok: "ok r \<Longrightarrow> rd n r = (Inr d, r') \<Longrightarrow>
      ok r' \<and> content r' = content r \<and> pos r' = pos r + length d \<and> d = take (length d) (drop (pos r) (content r))"
    and read_err: "ok r \<Longrightarrow> rd n r = (Inl e, r') \<Longrightarrow> ok r' \<and> content r' = content r \<and> pos r' = pos r"
    and seek_ok: "ok r \<Longrightarrow> sk p r = (Inr q, r') \<Longrightarrow> ok r' \<and> content r' = content r \<and> pos r' = q"
    and seek_err: "ok r \<Longrightarrow> sk p r = (Inl e, r') \<Longrightarrow> ok r' \<and> content r' = content r \<and> pos r' = pos r"
begin

lemma run_consistent:
  "ok r \<Longrightarrow> run_ops rd sk ops r = (outs, r') \<Longrightarrow> ok r' \<and> consistent (content r) (pos r) outs"
proof (induction ops arbitrary: r outs)
  case Nil
  then show ?case by simp
next
  case (Cons a ops)
  show ?case
  proof (cases a)
    case (DoRead n)
    obtain res r1 where res: "rd n r = (res, r1)" by (cases "rd n r")
    obtain outs1 where run: "run_ops rd sk ops r1 = (outs1, r')"
      and outs: "outs = (case res of Inl _ \<Rightarrow> Failed | Inr d \<Rightarrow> Got d) # outs1"
      using Cons.prems(2) res by (auto simp: DoRead split: prod.splits)
    show ?thesis
    proof (cases res)
      case (Inl e)
      with read_err [OF Cons.prems(1)] res Cons.IH [OF _ run] show ?thesis by (simp add: outs)
    next
      case (Inr d)
      with read_ok [OF Cons.prems(1)] res Cons.IH [OF _ run] show ?thesis by (simp add: outs)
    qed
  next
    case (DoSeek p)
    obtain res r1 where res: "sk p r = (res, r1)" by (cases "sk p r")
    obtain outs1 where run: "run_ops rd sk ops r1 = (outs1, r')"
      and outs: "outs = (case res of Inl _ \<Rightarrow> Failed | Inr q \<Rightarrow> Sought q) # outs1"
      using Cons.prems(2) res by (auto simp: DoSeek split: prod.splits)
    show ?thesis
    proof (cases res)
      case (Inl e)
      with seek_err [OF Cons.prems(1)] res Cons.IH [OF _ run] show ?thesis by (simp add: outs)
    next
      case (Inr q)
      with seek_ok [OF Cons.prems(1)] res Cons.IH [OF _ run] show ?thesis by (simp add: outs)
    qed
  qed
qed

end

lemma take_min_rest: "take (min (length xs - b) m) (drop b xs) = take m (drop b xs)"
  by (simp add: min_def)

text \<open>A cached file is such a reader; \<open>k\<close> bounds what one read returns.\<close>

definition cached_reader_read :: "nat \<Rightarrow> nat \<Rightarrow> u8 list \<times> nat \<Rightarrow> u8 list audio_result \<times> (u8 list \<times> nat)" where
  "cached_reader_read k n file = (let (d, file') = cached_read k n file in (Ok d, file'))"

interpretation cached: positioned_reader "cached_reader_read k" cached_seek snd fst "\<lambda>_. True" for k
  by unfold_locales
    (auto simp: cached_reader_read_def cached_read_def file_read_def cached_seek_def Let_def
      take_min_rest split: sum.splits)

section \<open>Reading the streamed file\<close>

text \<open>
  The whole \<open>read\<close>: the waiting loop runs over the wake-ups of the condition variable, \<open>Some\<close> with
  the system as it is then, \<open>None\<close> for a time-out.
\<close>

type_synonym wakes = "StreamSystem option list"

fun stream_wait ::
  "nat \<Rightarrow> usize \<Rightarrow> usize \<Rightarrow> wakes \<Rightarrow> StreamSystem \<Rightarrow> u8 list audio_result \<times> (StreamSystem \<times> wakes)" where
  "stream_wait k off len ws s =
     (if \<not> read_blocked (the_shared s) off
      then (let (data, sh, rd) = read_end (disk (fetcher s)) k off len (the_shared s) (reader s)
            in (Ok data, (with_shared sh s\<lparr>reader := rd\<rparr>, ws)))
      else case ws of
        Some w # ws' \<Rightarrow> stream_wait k off len ws' (w\<lparr>reader := reader s, reading := None\<rparr>)
      | _ \<Rightarrow> (Err (Fail read_timeout), (s, tl ws)))"

declare stream_wait.simps [simp del]

definition stream_read ::
  "nat \<Rightarrow> nat \<Rightarrow> StreamSystem \<times> wakes \<Rightarrow> u8 list audio_result \<times> (StreamSystem \<times> wakes)" where
  "stream_read k n x =
     (let (s, ws) = x
      in case read_begin (params (fetcher s)) (running s) (the_shared s) n (reader s) of
           (ReadReturns (Inl e), cs) \<Rightarrow> (Err e, (s, ws))
         | (ReadReturns (Inr _), cs) \<Rightarrow> (Ok [], (s, ws))
         | (ReadWaits off len, cs) \<Rightarrow> stream_wait k off len ws (s\<lparr>commands := commands s @ cs\<rparr>))"

definition stream_seek ::
  "SeekFrom \<Rightarrow> StreamSystem \<times> wakes \<Rightarrow> nat audio_result \<times> (StreamSystem \<times> wakes)" where
  "stream_seek p x =
     (let (s, ws) = x;
          (res, sh, rd) = streaming_seek p (length (disk (fetcher s))) (the_shared s) (reader s)
      in (res, (with_shared sh s\<lparr>reader := rd\<rparr>, ws)))"

definition stream_reader_ok :: "u8 list \<Rightarrow> StreamSystem \<times> wakes \<Rightarrow> bool" where
  "stream_reader_ok F x \<longleftrightarrow>
     stream_ok F (fst x) \<and> reading (fst x) = None \<and> (\<forall>w. Some w \<in> set (snd x) \<longrightarrow> stream_ok F w)"

text \<open>The bytes a read returns, from any state of the system that satisfies the invariant.\<close>

lemma read_end_data:
  assumes "fetch_ok F qs f" "off + len \<le> length F"
    "read_end (disk f) k off len (shared f) rd = (data, sh, rd')"
  shows "data = take (length data) (drop off F)" "length data \<le> len" "sh = set_read_position (off + length data) (shared f)"
    "rd' = \<lparr>stream_position = off + length data, read_cursor = off + length data\<rparr>"
    "\<not> read_blocked (shared f) off \<Longrightarrow> 0 < k \<Longrightarrow> 0 < len \<Longrightarrow> data \<noteq> []"
proof -
  note ok = fetch_okD [OF assms(1)]
  let ?ds = "downloaded (download_status (shared f))"
  define n where "n = min (min len (contained_length_from_value ?ds off)) k"
  have set: "range_set_ok ?ds" using ok(1) by (simp add: shared_ok_def)
  have data: "data = take n (drop off (disk f))"
    using assms(3) by (simp add: read_end_def Let_def file_read_def n_def)
  have dl: "length (disk f) = length F" using ok(2) by (simp add: disk_ok_def)
  have n: "n \<le> len" "n \<le> contained_length_from_value ?ds off" by (simp_all add: n_def)
  then have "{off ..< off + n} \<subseteq> down_bytes (shared f)"
    using rs.run_length_iff [OF set, of n off] by (simp add: down_bytes_def)
  then have "off + i \<in> down_bytes (shared f)" if "i < n" for i using that by auto
  then have "\<forall>i < n. disk f ! (off + i) = F ! (off + i)" using ok(2) by (simp add: disk_ok_def)
  then have eq: "data = take n (drop off F)"
    using dl assms(2) n(1) by (auto simp: data list_eq_iff_nth_eq)
  then have ln: "length data = n" using n(1) assms(2) by simp
  with eq n(1) show "data = take (length data) (drop off F)" "length data \<le> len" by simp_all
  show "sh = set_read_position (off + length data) (shared f)"
    "rd' = \<lparr>stream_position = off + length data, read_cursor = off + length data\<rparr>"
    using assms(3) by (auto simp: read_end_def Let_def)
  assume "\<not> read_blocked (shared f) off" "0 < k" "0 < len"
  then have "0 < n"
    using rs.run_length_pos_iff [OF set, of off] set
    by (simp add: n_def read_blocked_def contains_def contains_loop_correct range_set_ok_def range_set_bytes_def)
  with ln show "data \<noteq> []" by auto
qed

lemma stream_wait_read:
  assumes "stream_ok F s" "\<forall>w. Some w \<in> set ws \<longrightarrow> stream_ok F w" "reading s = None"
    "off = stream_position (reader s)" "0 < len" "off + len \<le> length F"
    "stream_wait k off len ws s = (res, (s', ws'))"
  shows "stream_ok F s' \<and> reading s' = None \<and> set ws' \<subseteq> set ws \<and>
    (case res of
       Inl _ \<Rightarrow> stream_position (reader s') = off
     | Inr d \<Rightarrow> d = take (length d) (drop off F) \<and> length d \<le> len \<and> (0 < k \<longrightarrow> d \<noteq> []) \<and>
               stream_position (reader s') = off + length d)"
  using assms
proof (induction k off len ws s rule: stream_wait.induct)
  case (1 k off len ws s)
  note ok = stream_okD [OF "1.prems"(1)]
  show ?case
  proof (cases "read_blocked (the_shared s) off")
    case False
    obtain data sh rd where e: "read_end (disk (fetcher s)) k off len (the_shared s) (reader s) = (data, sh, rd)"
      by (metis prod_cases3)
    note d = read_end_data [OF ok(1) "1.prems"(6) e]
    have "res = Ok data" "s' = with_shared sh s\<lparr>reader := rd\<rparr>" "ws' = ws"
      using "1.prems"(7) False e by (simp_all add: stream_wait.simps [of k off len ws s])
    moreover have "stream_ok F (with_shared sh s\<lparr>reader := rd, reading := None\<rparr>)"
      by (rule same_bytes_ok [OF "1.prems"(1)])
        (use ok(7) d(2) "1.prems"(6) in \<open>simp_all add: d(3,4) reader_ok_def\<close>)
    ultimately show ?thesis
      using d(1,2,5) "1.prems"(3,5) False d(4) by (auto simp: stream_ok_def)
  next
    case True
    show ?thesis
    proof (cases "\<exists>w ws1. ws = Some w # ws1")
      case True
      then obtain w ws1 where ws: "ws = Some w # ws1" by blast
      let ?w = "w\<lparr>reader := reader s, reading := None\<rparr>"
      have "stream_ok F w" using "1.prems"(2) ws by auto
      then have "stream_ok F ?w"
        using ok(7) "1.prems"(3) by (simp add: stream_ok_def)
      moreover have "stream_wait k off len ws1 ?w = (res, (s', ws'))"
        using "1.prems"(7) \<open>read_blocked (the_shared s) off\<close> ws
        by (simp add: stream_wait.simps [of k off len "Some w # ws1" s])
      ultimately show ?thesis
        using "1.IH" [of "Some w" ws1 w] \<open>read_blocked (the_shared s) off\<close> "1.prems" ws by auto
    next
      case False
      then have "res = Err (Fail read_timeout) \<and> s' = s \<and> ws' = tl ws"
        using "1.prems"(7) \<open>read_blocked (the_shared s) off\<close>
        by (auto simp: stream_wait.simps [of k off len ws s] split: list.splits option.splits)
      moreover have "set (tl ws) \<subseteq> set ws" by (cases ws) auto
      ultimately show ?thesis using "1.prems" by simp
    qed
  qed
qed

text \<open>
  \<open>read\<close> in one lemma: it hands out the file from the position on, nothing only at the end of the
  file or for an empty buffer.
\<close>

lemma stream_read_ok:
  assumes "stream_reader_ok F (s, ws)" "stream_read k n (s, ws) = (res, (s', ws'))"
  shows "stream_reader_ok F (s', ws') \<and>
    (case res of
       Inl _ \<Rightarrow> stream_position (reader s') = stream_position (reader s)
     | Inr d \<Rightarrow> d = take (length d) (drop (stream_position (reader s)) F) \<and> length d \<le> n \<and>
               (0 < k \<and> 0 < n \<and> stream_position (reader s) < length F \<longrightarrow> d \<noteq> []) \<and>
               stream_position (reader s') = stream_position (reader s) + length d)"
proof -
  have ok: "stream_ok F s" "reading s = None" "\<forall>w. Some w \<in> set ws \<longrightarrow> stream_ok F w"
    using assms(1) by (auto simp: stream_reader_ok_def)
  have size: "file_size (the_shared s) = length F"
    using fetch_okD(1) [OF stream_okD(1) [OF ok(1)]] by (simp add: shared_ok_def)
  obtain rs cs where rb: "read_begin (params (fetcher s)) (running s) (the_shared s) n (reader s) = (rs, cs)"
    by (metis prod.exhaust)
  show ?thesis
  proof (cases rs)
    case (ReadReturns r)
    then have same: "s' = s" "ws' = ws" "res = (case r of Inl e \<Rightarrow> Inl e | Inr _ \<Rightarrow> Inr [])"
      using assms(2) rb by (auto simp: stream_read_def split: sum.splits)
    have "length F \<le> stream_position (reader s) \<or> n = 0" if "r = Inr m" for m
      using rb that size by (auto simp: ReadReturns read_begin_def Let_def split: if_splits)
    with same assms(1) show ?thesis by (auto split: sum.splits)
  next
    case (ReadWaits off len)
    let ?s = "s\<lparr>commands := commands s @ cs\<rparr>"
    have off: "off = stream_position (reader s)" "0 < len" "off + len \<le> length F" "len \<le> n"
      using rb size by (auto simp: ReadWaits read_begin_def Let_def split: if_splits)
    have "stream_ok F ?s" using ok(1) by (simp add: stream_ok_def)
    moreover have w: "stream_wait k off len ws ?s = (res, (s', ws'))"
      using assms(2) rb by (simp add: stream_read_def ReadWaits)
    ultimately have "stream_ok F s' \<and> reading s' = None \<and> set ws' \<subseteq> set ws \<and>
      (case res of
         Inl _ \<Rightarrow> stream_position (reader s') = off
       | Inr d \<Rightarrow> d = take (length d) (drop off F) \<and> length d \<le> len \<and> (0 < k \<longrightarrow> d \<noteq> []) \<and>
                 stream_position (reader s') = off + length d)"
      using ok off by (intro stream_wait_read) simp_all
    with ok off show ?thesis by (auto simp: stream_reader_ok_def split: sum.splits)
  qed
qed

interpretation streamed: positioned_reader "stream_read k" stream_seek
    "\<lambda>x. stream_position (reader (fst x))" "\<lambda>_. F" "stream_reader_ok F" for F k
proof unfold_locales
  show "stream_reader_ok F r' \<and> F = F \<and>
      stream_position (reader (fst r')) = stream_position (reader (fst r)) + length d \<and>
      d = take (length d) (drop (stream_position (reader (fst r))) F)"
    if "stream_reader_ok F r" "stream_read k n r = (Inr d, r')" for r n d r'
    using that stream_read_ok [of F "fst r" "snd r" k n "Inr d" "fst r'" "snd r'"] by simp
  show "stream_reader_ok F r' \<and> F = F \<and> stream_position (reader (fst r')) = stream_position (reader (fst r))"
    if "stream_reader_ok F r" "stream_read k n r = (Inl e, r')" for r n e r'
    using that stream_read_ok [of F "fst r" "snd r" k n "Inl e" "fst r'" "snd r'"] by simp
next
  have seek: "stream_reader_ok F r' \<and> (case res of
      Inl _ \<Rightarrow> stream_position (reader (fst r')) = stream_position (reader (fst r))
    | Inr q \<Rightarrow> stream_position (reader (fst r')) = q)"
    if ok: "stream_reader_ok F r" and eq: "stream_seek p r = (res, r')" for r p res r'
  proof -
    obtain s ws where r: "r = (s, ws)" by (cases r)
    obtain sh rd where sk: "streaming_seek p (length (disk (fetcher s))) (the_shared s) (reader s) = (res, sh, rd)"
      and r': "r' = (with_shared sh s\<lparr>reader := rd\<rparr>, ws)"
      using eq by (auto simp: r stream_seek_def Let_def split: prod.splits)
    have s: "stream_ok F s" "reading s = None" using ok by (simp_all add: stream_reader_ok_def r)
    have "stream_ok F (with_shared sh s\<lparr>reader := rd\<rparr>)"
      by (rule stream_step_ok [OF stream_step.seek [OF s(2) sk] s(1)])
    moreover have "case res of Inl _ \<Rightarrow> rd = reader s | Inr q \<Rightarrow> stream_position rd = q \<and> q < 2 ^ 64"
      using streaming_seek_position [OF sk] stream_okD(7) [OF s(1)] by (simp add: reader_ok_def)
    ultimately show ?thesis using ok by (auto simp: stream_reader_ok_def r r' split: sum.splits)
  qed
  show "stream_reader_ok F r' \<and> F = F \<and> stream_position (reader (fst r')) = q"
    if "stream_reader_ok F r" "stream_seek p r = (Inr q, r')" for r p q r'
    using seek [OF that] by simp
  show "stream_reader_ok F r' \<and> F = F \<and> stream_position (reader (fst r')) = stream_position (reader (fst r))"
    if "stream_reader_ok F r" "stream_seek p r = (Inl e, r')" for r p e r'
    using seek [OF that] by simp
qed

section \<open>Properties\<close>


text \<open>A file of three bytes: opened, its only response received, and stored.\<close>

definition sample_file :: "u8 list" where
  "sample_file = [10, 20, 30]"

definition sample_client :: "string \<Rightarrow> string \<Rightarrow> AudioError option" where
  "sample_client url header = None"

definition sample_response :: HttpResponse where
  "sample_response =
     \<lparr>status = 206, content_range = Some (content_range_text 0 2 3), body = Inr sample_file\<rparr>"

definition sample_request :: StreamingRequest where
  "sample_request = \<lparr>initial_response = Some sample_response, req_offset = 0, req_length = 3\<rparr>"

definition sample_shared :: AudioFileShared where
  "sample_shared =
     \<lparr>cdn_url = ''u'', file_size = 3, bytes_per_second = 1,
      download_status = \<lparr>requested = range_set_new, downloaded = range_set_new\<rparr>,
      download_streaming = False, download_slots = 1, ping_time_ms = 0, read_position = 0, throughput = 0\<rparr>"

definition sample_stream :: StreamSystem where
  "sample_stream =
     stream_start (audio_file_fetch default_params sample_shared sample_request [0, 0, 0])
       \<lparr>stream_position = 0, read_cursor = 0\<rparr>"

lemma sample_honest: "honest sample_file (\<lambda>_. Inr sample_response)"
proof -
  have "length sample_file = 3" by (simp add: sample_file_def)
  then show ?thesis
    unfolding honest_def by (auto simp: sample_response_def served_def intro!: exI [of _ 2])
qed

lemma sample_init: "stream_init sample_file sample_client sample_stream"
proof -
  have "streaming_open default_params sample_client (\<lambda>_. Inr sample_response) None (Ok [''u'']) 1 =
    Ok (audio_file_fetch default_params sample_shared sample_request [0, 0, 0],
        \<lparr>stream_position = 0, read_cursor = 0\<rparr>)"
    by (simp add: streaming_open_def stream_from_cdn_def sample_client_def sample_response_def
        parse_content_range_text sample_shared_def sample_request_def Let_def default_params_def
        numeral_3_eq_3 usize_sub_def)
  with sample_honest show ?thesis unfolding stream_init_def sample_stream_def by blast
qed

definition sample_received :: StreamSystem where
  "sample_received =
     with_shared (take_slot (the_shared sample_stream)) sample_stream
       \<lparr>tasks := [Receiving ((receive_start (sample_request\<lparr>initial_response := None\<rparr>) 0)
           \<lparr>actual_length := 3, offset := 3, measure_ping_time := False, measure_throughput := False\<rparr>)],
        file_data := [Data 0 sample_file]\<rparr>"

definition sample_stored :: StreamSystem where
  "sample_stored =
     (let f = snd (handle_file_data None True (Data 0 sample_file) (fetcher sample_received))
      in with_fetcher f sample_received\<lparr>file_data := [], running := False\<rparr>)"

lemma sample_steps: "(stream_step sample_file sample_client)\<^sup>*\<^sup>* sample_stream sample_received"
proof -
  let ?a = "with_shared (take_slot (the_shared sample_stream)) sample_stream
    \<lparr>tasks := [] @ Receiving (receive_start sample_request 0) # []\<rparr>"
  have 1: "stream_step sample_file sample_client sample_stream ?a"
    by (rule acquire) (simp_all add: sample_stream_def stream_start_def audio_file_fetch_def
        sample_shared_def add_requested_def)
  let ?r = "receive_start sample_request 0"
  let ?r' = "(receive_start (sample_request\<lparr>initial_response := None\<rparr>) 0)
           \<lparr>actual_length := 3, offset := 3, measure_ping_time := False, measure_throughput := False\<rparr>"
  have "receive_round (running ?a) 0 StreamEnded ?r = ([Data 0 sample_file], Continue ?r')"
    by (simp add: sample_stream_def stream_start_def receive_start_def sample_request_def receive_round_def
        receive_response_def receive_body_def sample_response_def sample_file_def)
  from receive [of ?a "[]" ?r "[]", OF _ _ this]
  have "stream_step sample_file sample_client ?a
      (?a\<lparr>tasks := [] @ Receiving ?r' # [], file_data := file_data ?a @ [Data 0 sample_file]\<rparr>)"
    by (simp add: served_event_def)
  also have "?a\<lparr>tasks := [] @ Receiving ?r' # [], file_data := file_data ?a @ [Data 0 sample_file]\<rparr> = sample_received"
    by (simp add: sample_received_def sample_stream_def stream_start_def)
  finally show ?thesis using 1 by (rule converse_rtranclp_into_rtranclp [OF _ r_into_rtranclp, rotated])
qed

lemma sample_completes:
  "\<exists>g. handle_file_data None True (Data 0 sample_file) (fetcher sample_received) = (Ok FlowBreak, g) \<and>
       completed g = Some sample_file \<and> disk g = sample_file \<and>
       downloaded (download_status (shared g)) = \<lparr>ranges = [range_new 0 3]\<rparr>"
proof -
  have "write_at 0 sample_file [0, 0, 0] = sample_file" by (simp add: write_at_def sample_file_def)
  then show ?thesis
    by (simp add: handle_data_unfold sample_received_def sample_stream_def stream_start_def
        audio_file_fetch_def sample_shared_def sample_request_def store_chunk_def add_downloaded_def
        add_requested_def take_slot_def finish_def sample_file_def contained_length_from_value_def
        add_range_def range_set_new_def range_end_def range_new_def)
qed

lemma sample_stored_reachable: "(stream_step sample_file sample_client)\<^sup>*\<^sup>* sample_stream sample_stored"
proof -
  obtain g where g: "handle_file_data None True (Data 0 sample_file) (fetcher sample_received) = (Ok FlowBreak, g)"
    using sample_completes by blast
  then have "fetch_round sample_client None True (DataEvent (Some (Data 0 sample_file))) (fetcher sample_received)
      = (Ok FlowBreak, g)"
    by (simp add: fetch_round_def handle_event_def)
  moreover have "running sample_received" "file_data sample_received = [Data 0 sample_file]"
    by (simp_all add: sample_received_def sample_stream_def stream_start_def)
  ultimately have "stream_step sample_file sample_client sample_received sample_stored"
    using handle_data [of sample_received "Data 0 sample_file" "[]" sample_client None True "Ok FlowBreak" g]
    by (simp add: sample_stored_def g)
  with sample_steps show ?thesis by simp
qed


text \<open>
  C12. The chunk that completes the file ends the download: when a waiting message holds every byte
  that is not downloaded yet and its write succeeds, the fetch task stops without an error and
  hands over exactly \<open>F\<close>.
\<close>

theorem last_chunk_completes:
  assumes "stream_init F client s" and "(stream_step F client)\<^sup>*\<^sup>* s t" and "running t"
    and "file_data t = Data off d # ds"
    and "{..<length F} \<subseteq> down_bytes (the_shared t) \<union> range_bytes (range_new off (length d))"
  shows "\<exists>f. fetch_round client None True (DataEvent (Some (Data off d))) (fetcher t) = (Ok FlowBreak, f) \<and>
             completed f = Some F \<and> output_file f = None"
proof -
  note ok = stream_okD [OF stream.reachable_inv [OF assms(1,2)]]
  let ?g = "store_chunk off d (fetcher t)"
  have "msg_ok F (Data off d)" using ok(4) by (simp add: assms(4))
  from store_chunk_ok(1) [OF ok(1) this]
  have g: "fetch_ok F (map pending (tasks t)) ?g" .
  have sz: "file_size (shared ?g) = length F" using fetch_okD(1) [OF g] by (simp add: shared_ok_def)
  have "{0..<0 + length F} \<subseteq> down_bytes (shared ?g)"
    using assms(5) add_downloaded_bytes [OF fetch_okD(1) [OF ok(1)]] by (auto simp: atLeast0LessThan)
  moreover have "range_set_ok (downloaded (download_status (shared ?g)))"
    using fetch_okD(1) [OF g] by (simp add: shared_ok_def)
  ultimately have full: "file_size (shared ?g) \<le>
      contained_length_from_value (downloaded (download_status (shared ?g))) 0"
    unfolding sz by (subst rs.run_length_iff) (simp_all add: down_bytes_def)
  have "output_file (fetcher t) \<noteq> None" "complete_tx (fetcher t)" using ok(8) [OF assms(3)] by simp_all
  with full full_disk [OF g full] show ?thesis
    by (auto simp: fetch_round_def handle_event_def handle_data_unfold finish_def)
qed

theorem last_chunk_completes_witness:
  "\<exists>f. fetch_round sample_client None True (DataEvent (Some (Data 0 sample_file))) (fetcher sample_received) =
         (Ok FlowBreak, f) \<and> completed f = Some sample_file \<and> output_file f = None"
proof -
  have "running sample_received" "file_data sample_received = Data 0 sample_file # []"
    by (simp_all add: sample_received_def sample_stream_def stream_start_def)
  from last_chunk_completes [OF sample_init sample_steps this] show ?thesis
    by (auto simp: range_bytes_def atLeast0LessThan)
qed

text \<open>
  C8. Reading a streamed file: whenever \<open>read\<close> returns bytes, they are the bytes of \<open>F\<close> at the
  position of the reader, no more than the buffer holds, and the position moves behind them; it
  returns none of them only at the end of the file or for an empty buffer, so a slow download is
  never taken for the end of the file. The states it wakes up in are arbitrary reachable ones.
\<close>

theorem stream_read_file:
  assumes "stream_init F client s" and "(stream_step F client)\<^sup>*\<^sup>* s t" and "reading t = None"
    and "\<forall>w. Some w \<in> set ws \<longrightarrow> (stream_step F client)\<^sup>*\<^sup>* s w"
    and "0 < k" and "stream_read k n (t, ws) = (Ok d, (t', ws'))"
  shows "d = take (length d) (drop (stream_position (reader t)) F) \<and> length d \<le> n \<and>
         stream_position (reader t') = stream_position (reader t) + length d \<and>
         (d = [] \<longleftrightarrow> n = 0 \<or> length F \<le> stream_position (reader t))"
proof -
  have "stream_reader_ok F (t, ws)"
    using stream.reachable_inv [OF assms(1)] assms(2-4) by (auto simp: stream_reader_ok_def)
  from stream_read_ok [OF this assms(6)]
  have r: "d = take (length d) (drop (stream_position (reader t)) F)" "length d \<le> n"
    "0 < n \<and> stream_position (reader t) < length F \<Longrightarrow> d \<noteq> []"
    "stream_position (reader t') = stream_position (reader t) + length d"
    using assms(5) by simp_all
  have "d = []" if "n = 0 \<or> length F \<le> stream_position (reader t)"
    using that r(1,2) by auto
  with r show ?thesis by (meson gr0I not_le)
qed

lemma sample_read: "\<exists>x. stream_read 5 2 (sample_received, [Some sample_stored]) = (Ok [10, 20], x)"
proof -
  obtain g where g: "handle_file_data None True (Data 0 sample_file) (fetcher sample_received) = (Ok FlowBreak, g)"
    "disk g = sample_file" "downloaded (download_status (shared g)) = \<lparr>ranges = [range_new 0 3]\<rparr>"
    using sample_completes by blast
  have "read_begin (params (fetcher sample_received)) (running sample_received) (the_shared sample_received) 2
      (reader sample_received) = (ReadWaits 0 2, [])"
    by (simp add: sample_received_def sample_stream_def stream_start_def audio_file_fetch_def
        sample_shared_def sample_request_def take_slot_def add_requested_def read_begin_def Let_def
        length_to_request_def missing_of_def add_range_def range_set_new_def subtract_range_set_def
        subtract_range_def range_end_def range_new_def)
  moreover have "read_blocked (the_shared sample_received) 0"
    by (simp add: sample_received_def sample_stream_def stream_start_def audio_file_fetch_def
        sample_shared_def take_slot_def add_requested_def read_blocked_def contains_def range_set_new_def)
  moreover have "\<not> read_blocked (the_shared sample_stored) 0" "disk (fetcher sample_stored) = sample_file"
    "contained_length_from_value (downloaded (download_status (the_shared sample_stored))) 0 = 3"
    by (simp_all add: sample_stored_def g read_blocked_def contains_def contained_length_from_value_def)
  ultimately show ?thesis
    by (auto simp: stream_read_def stream_wait.simps [of 5 0 2 "[Some sample_stored]"]
        stream_wait.simps [of 5 0 2 "[]"] read_end_def file_read_def sample_file_def)
qed

theorem stream_read_file_witness:
  "\<exists>x. stream_read 5 2 (sample_received, [Some sample_stored]) = (Ok [10, 20], x) \<and>
       stream_position (reader (fst x)) = 2"
proof -
  obtain t' ws' where read: "stream_read 5 2 (sample_received, [Some sample_stored]) = (Ok [10, 20], (t', ws'))"
    using sample_read by (metis prod.exhaust)
  have "reading sample_received = None" "stream_position (reader sample_received) = 0"
    by (simp_all add: sample_received_def sample_stream_def stream_start_def)
  with stream_read_file [OF sample_init sample_steps _ _ _ read] sample_stored_reachable read
  show ?thesis by simp
qed

text \<open>
  The size of the file is read off the \<open>Content-Range\<close> header: a header as RFC 9110 writes it,
  with numbers that fit a \<open>usize\<close>, gives back the last byte of the range and the size.
\<close>

theorem content_range_roundtrip:
  assumes "b < 2 ^ 64" and "n < 2 ^ 64"
  shows "parse_content_range (Some (''bytes '' @ show_dec a @ ''-'' @ show_dec b @ ''/'' @ show_dec n)) = Ok (b, n)"
  using parse_content_range_text [OF assms] by (simp add: content_range_text_def)

theorem content_range_roundtrip_witness:
  "parse_content_range (Some (''bytes '' @ show_dec 0 @ ''-'' @ show_dec 65535 @ ''/'' @ show_dec 9000000)) =
     Ok (65535, 9000000)"
  by (rule content_range_roundtrip) simp_all

text \<open>
  A response without the header is an error of kind unavailable. A header without a slash,
  however, is not reported as an error: slicing it panics.
\<close>

theorem content_range_errors:
  "parse_content_range None = Err (Fail (unavailable (AudioFileCause Header))) \<and>
   (\<forall>s. list_all visible_ascii s \<longrightarrow> CHR ''/'' \<notin> set s \<longrightarrow> parse_content_range (Some s) = Err Panic)"
proof -
  have "parse_content_range (Some s) = Err Panic"
    if "list_all visible_ascii s" "CHR ''/'' \<notin> set s" for s
  proof -
    have "Prelude.position (\<lambda>x. x = CHR ''/'') s = None"
      using that(2) by (auto simp: position_None_iff)
    then have "str_find CHR ''/'' s = 0" by (simp add: str_find_def)
    then show ?thesis using that(1) by (simp add: parse_content_range_def Let_def str_slice_def)
  qed
  then show ?thesis by (simp add: parse_content_range_def)
qed

theorem content_range_errors_witness: "parse_content_range (Some ''bytes 0-2'') = Err Panic"
proof -
  have "list_all visible_ascii ''bytes 0-2''" by code_simp
  with content_range_errors show ?thesis by simp
qed



lemma as_i64_small: "n < 2 ^ 63 \<Longrightarrow> as_i64 (int n) = int n"
proof -
  assume "n < 2 ^ 63"
  then have "int n < 2 ^ 63" by simp
  then have "(int n + 2 ^ 63) mod 2 ^ 64 = int n + 2 ^ 63" by (intro mod_pos_pos_trivial) simp_all
  then show ?thesis by (simp add: as_i64_def)
qed

lemma seek_to:
  assumes "stream_position rd < 2 ^ 63" "seek_requested_pos sh p rd = Ok (int q)" "q < 2 ^ 63"
    "file_seek sz (read_cursor rd) p = Ok q"
  shows "fst (streaming_seek p sz sh rd) = Ok q"
  using assms as_i64_small [OF assms(1)] as_u64_as_i64 [of q] as_i64_small [OF assms(3)]
  by (auto simp: streaming_seek_def Let_def)

text \<open>
  Seeking: from the start and relative to the current position the streamed file goes where a
  plain file goes, and reports it. From the end it is compared with the wrong position first: at
  position \<open>file_size - n - 1\<close> a seek to \<open>file_size + n\<close> does nothing and reports that position.
\<close>

theorem seek_like_file:
  assumes "file_size sh < 2 ^ 63" and "stream_position rd < 2 ^ 63 - 1"
    and "read_cursor rd = stream_position rd"
  shows "(\<forall>m. m < 2 ^ 63 \<longrightarrow> fst (streaming_seek (Start m) (file_size sh) sh rd) = Ok m) \<and>
    (\<forall>m. 0 \<le> int (stream_position rd) + m \<longrightarrow> int (stream_position rd) + m < 2 ^ 63 \<longrightarrow>
      fst (streaming_seek (Current m) (file_size sh) sh rd) = Ok (nat (int (stream_position rd) + m))) \<and>
    (\<forall>m. int (stream_position rd) = int (file_size sh) - m - 1 \<longrightarrow>
      streaming_seek (End m) (file_size sh) sh rd = (Ok (stream_position rd), sh, rd) \<and>
      file_seek (file_size sh) (read_cursor rd) (End m) \<noteq> Ok (stream_position rd))"
proof (intro conjI allI impI)
  have pos: "stream_position rd < 2 ^ 63" using assms(2) by simp
  note small = as_i64_small [OF pos] as_i64_small [OF assms(1)]
  show "fst (streaming_seek (Start m) (file_size sh) sh rd) = Ok m" if "m < 2 ^ 63" for m
    using that by (intro seek_to [OF pos])
      (simp_all add: seek_requested_pos_def as_i64_small file_seek_def seek_target_def)
  show "fst (streaming_seek (Current m) (file_size sh) sh rd) = Ok (nat (int (stream_position rd) + m))"
    if "0 \<le> int (stream_position rd) + m" "int (stream_position rd) + m < 2 ^ 63" for m
    using that by (intro seek_to [OF pos])
      (simp_all add: seek_requested_pos_def small i64_checked_def file_seek_def seek_target_def assms(3))
  fix m assume m: "int (stream_position rd) = int (file_size sh) - m - 1"
  then have "int (file_size sh) - m = int (stream_position rd) + 1" by simp
  moreover have "int (stream_position rd) < 2 ^ 63 - 1" using assms(2) by simp
  ultimately have "seek_requested_pos sh (End m) rd = Ok (int (stream_position rd))"
    by (simp add: seek_requested_pos_def small i64_checked_def)
  then show "streaming_seek (End m) (file_size sh) sh rd = (Ok (stream_position rd), sh, rd)"
    using as_u64_as_i64 [of "stream_position rd"] pos by (simp add: streaming_seek_def small)
  have "int (file_size sh) + m \<noteq> int (stream_position rd)" using m by presburger
  then show "file_seek (file_size sh) (read_cursor rd) (End m) \<noteq> Ok (stream_position rd)"
    by (auto simp: file_seek_def seek_target_def Let_def split: if_splits)
qed

theorem seek_like_file_witness:
  "streaming_seek (End (- 1)) 3 sample_shared \<lparr>stream_position = 3, read_cursor = 3\<rparr> =
     (Ok 3, sample_shared, \<lparr>stream_position = 3, read_cursor = 3\<rparr>) \<and> file_seek 3 3 (End (- 1)) = Ok 2"
proof -
  have "file_size sample_shared = 3" by (simp add: sample_shared_def)
  moreover have "file_seek 3 3 (End (- 1)) = Ok 2" by (simp add: file_seek_def seek_target_def)
  ultimately show ?thesis
    using seek_like_file [of sample_shared "\<lparr>stream_position = 3, read_cursor = 3\<rparr>"] by auto
qed

definition estimates_ok :: "AudioFileFetch \<Rightarrow> bool" where
  "estimates_ok f \<longleftrightarrow>
     length (network_response_times f) \<le> 3 \<and>
     list_all (\<lambda>t. t \<le> maximum_assumed_ping_time (params f)) (network_response_times f) \<and>
     ping_time_ms (shared f) \<le> as_millis (maximum_assumed_ping_time (params f)) \<and>
     (throughput (shared f) = 0 \<or> minimum_throughput (params f) \<le> throughput (shared f))"

lemma prune_times_props: "length (prune_times ts) \<le> 2" "list_all P ts \<Longrightarrow> list_all P (prune_times ts)"
  by (induction ts) auto

lemma ping_estimate_props:
  assumes "ts \<noteq> []" "length ts \<le> 3" "list_all (\<lambda>t. t \<le> m) ts"
  shows "\<exists>p \<le> m. ping_estimate ts = Ok p"
proof -
  consider a where "ts = [a]" | a b where "ts = [a, b]" | a b c where "ts = [a, b, c]"
    using assms(1,2) by (cases ts; cases "tl ts"; cases "tl (tl ts)"; cases "tl (tl (tl ts))") auto
  then show ?thesis
  proof cases
    case 3
    have "sort [a, b, c] ! 1 \<in> set (sort [a, b, c])" by (rule nth_mem) simp
    then have "sort [a, b, c] ! 1 \<le> m" using assms(3) 3 by auto
    then show ?thesis by (simp add: ping_estimate_def 3 del: sort_key_simps)
  qed (use assms(3) in \<open>auto simp: ping_estimate_def\<close>)
qed

lemma as_millis_mono: "a \<le> b \<Longrightarrow> as_millis a \<le> as_millis b"
  by (simp add: as_millis_def div_le_mono)

text \<open>
  The estimates stay in their bounds: after any message at most three response times are kept,
  none above the assumed maximum, the ping time made from them does not exceed it either, the
  throughput estimate is zero or at least the minimum, and the median of the response times is
  always defined: the branch that is marked unreachable is.
\<close>

theorem estimates_bounded:
  assumes "estimates_ok f" and "handle_file_data w alive d f = (res, g)"
  shows "estimates_ok g \<and> res \<noteq> Err Panic"
proof (cases d)
  case (Throughput t)
  let ?l = "minimum_throughput (params f)" and ?old = "throughput (shared f)"
  define n where "n = (if 0 < ?old then (?old + max t ?l) div 2 else max t ?l)"
  have "?old = 0 \<or> ?l \<le> ?old" using assms(1) by (simp add: estimates_ok_def)
  then have "?l \<le> n" by (auto simp: n_def)
  moreover have "(if t < ?l then ?l else t) = max t ?l" by simp
  then have "res = Ok FlowContinue \<and> g = f\<lparr>shared := set_throughput n (shared f)\<rparr>"
    using assms(2) by (simp add: Throughput handle_file_data_def Let_def n_def)
  ultimately show ?thesis using assms(1) by (simp add: estimates_ok_def set_throughput_def)
next
  case (ResponseTime t)
  let ?m = "maximum_assumed_ping_time (params f)"
  let ?ts = "prune_times (network_response_times f) @ [min t ?m]"
  have ts: "length ?ts \<le> 3" "list_all (\<lambda>t. t \<le> ?m) ?ts"
    using assms(1) prune_times_props(1) [of "network_response_times f"]
      prune_times_props(2) [of "\<lambda>t. t \<le> ?m" "network_response_times f"]
    by (simp_all add: estimates_ok_def)
  obtain p where p: "ping_estimate ?ts = Ok p" "p \<le> ?m" using ping_estimate_props [OF _ ts] by auto
  have "(if ?m < t then ?m else t) = min t ?m" by simp
  then have "res = Ok FlowContinue \<and>
      g = f\<lparr>network_response_times := ?ts, shared := set_ping_time p (shared f)\<rparr>"
    using assms(2) p(1) by (auto simp: ResponseTime handle_file_data_def Let_def)
  with assms(1) ts p(2) show ?thesis by (simp add: estimates_ok_def set_ping_time_def as_millis_mono)
next
  case (Data off data)
  have "network_response_times g = network_response_times f \<and> params g = params f \<and>
      ping_time_ms (shared g) = ping_time_ms (shared f) \<and> throughput (shared g) = throughput (shared f) \<and>
      res \<noteq> Err Panic"
    by (rule handle_data_cases [OF assms(2) [unfolded Data]])
      (auto simp: store_chunk_def add_downloaded_def finish_def Let_def split: option.splits if_splits)
  with assms(1) show ?thesis by (simp add: estimates_ok_def)
qed

theorem estimates_bounded_witness:
  "estimates_ok (snd (handle_file_data None True (ResponseTime (from_secs 7)) (fetcher sample_stream)))"
proof -
  have "estimates_ok (fetcher sample_stream)"
    by (simp add: sample_stream_def stream_start_def audio_file_fetch_def estimates_ok_def
        sample_shared_def add_requested_def)
  from estimates_bounded [OF this surjective_pairing] show ?thesis by simp
qed

end
