(* ===== verification/Audio_Decrypt.thy ===== *)
theory Audio_Decrypt
  imports Audio_Reader
begin

text \<open>
  The decrypting reader of \<open>audio/src/decrypt.rs\<close>: a reader, and a counter-mode cipher that follows
  its position. The cipher (AES-128-CTR of the \<open>aes\<close> and \<open>ctr\<close> crates) is a parameter: \<open>ks key iv i\<close>
  is byte \<open>i\<close> of the keystream, which applying the keystream combines with the data by exclusive or
  and which seeking positions. The wrapped reader is a parameter as well, as it is in the source.
\<close>

unbundle bit_operations_syntax

definition AUDIO_AESIV :: "u8 list" where
  "AUDIO_AESIV =
     [0x72, 0xe0, 0x67, 0xfb, 0xdd, 0xcb, 0xcf, 0x77, 0xeb, 0xe8, 0xbc, 0x64, 0x3f, 0x63, 0x0d, 0x93]"

type_synonym keystream = "u8 list \<Rightarrow> u8 list \<Rightarrow> nat \<Rightarrow> u8"

record 'r AudioDecrypt =
  cipher :: "(u8 list \<times> nat) option"
  inner :: 'r

definition decrypt_new :: "u8 list option \<Rightarrow> 'r \<Rightarrow> 'r AudioDecrypt" where
  "decrypt_new key r = \<lparr>cipher = map_option (\<lambda>k. (k, 0)) key, inner = r\<rparr>"

definition apply_keystream :: "keystream \<Rightarrow> u8 list \<times> nat \<Rightarrow> u8 list \<Rightarrow> u8 list \<times> (u8 list \<times> nat)" where
  "apply_keystream ks c d =
     (let (key, p) = c
      in (map (\<lambda>i. d ! i XOR ks key AUDIO_AESIV (p + i)) [0..<length d], (key, p + length d)))"

definition decrypt_read ::
  "keystream \<Rightarrow> (nat \<Rightarrow> 'r \<Rightarrow> u8 list audio_result \<times> 'r) \<Rightarrow> nat \<Rightarrow> 'r AudioDecrypt
   \<Rightarrow> u8 list audio_result \<times> 'r AudioDecrypt" where
  "decrypt_read ks rd n a =
     (case rd n (inner a) of
        (Inl e, r) \<Rightarrow> (Err e, a\<lparr>inner := r\<rparr>)
      | (Inr d, r) \<Rightarrow>
          (case cipher a of
             None \<Rightarrow> (Ok d, a\<lparr>inner := r\<rparr>)
           | Some c \<Rightarrow> (let (d', c') = apply_keystream ks c d in (Ok d', a\<lparr>cipher := Some c', inner := r\<rparr>))))"

definition decrypt_seek ::
  "(SeekFrom \<Rightarrow> 'r \<Rightarrow> nat audio_result \<times> 'r) \<Rightarrow> SeekFrom \<Rightarrow> 'r AudioDecrypt
   \<Rightarrow> nat audio_result \<times> 'r AudioDecrypt" where
  "decrypt_seek sk p a =
     (case sk p (inner a) of
        (Inl e, r) \<Rightarrow> (Err e, a\<lparr>inner := r\<rparr>)
      | (Inr q, r) \<Rightarrow>
          (Ok q, a\<lparr>cipher := map_option (\<lambda>(key, _). (key, q)) (cipher a), inner := r\<rparr>))"

section \<open>Decrypting a reader gives a reader of the plain content\<close>

definition plain :: "keystream \<Rightarrow> u8 list option \<Rightarrow> u8 list \<Rightarrow> u8 list" where
  "plain ks key C =
     (case key of
        None \<Rightarrow> C
      | Some k \<Rightarrow> map (\<lambda>i. C ! i XOR ks k AUDIO_AESIV i) [0..<length C])"

lemma plain_None [simp]: "plain ks None C = C"
  by (simp add: plain_def)

lemma plain_slice:
  assumes "d = take (length d) (drop p C)"
  shows "map (\<lambda>i. d ! i XOR ks k AUDIO_AESIV (p + i)) [0..<length d] =
         take (length d) (drop p (plain ks (Some k) C))"
proof (rule nth_equalityI)
  have len: "length d \<le> length C - p" by (metis assms length_drop length_take min.cobounded1)
  then show "length (map (\<lambda>i. d ! i XOR ks k AUDIO_AESIV (p + i)) [0..<length d]) =
      length (take (length d) (drop p (plain ks (Some k) C)))"
    by (simp add: plain_def)
  fix i assume "i < length (map (\<lambda>i. d ! i XOR ks k AUDIO_AESIV (p + i)) [0..<length d])"
  then have i: "i < length d" by simp
  with len have "d ! i = C ! (p + i)" by (subst assms) simp
  moreover have "[0..<length C] ! (p + i) = p + i" using i len by simp
  ultimately show "map (\<lambda>i. d ! i XOR ks k AUDIO_AESIV (p + i)) [0..<length d] ! i =
      take (length d) (drop p (plain ks (Some k) C)) ! i"
    using i len by (simp add: plain_def)
qed

locale decrypting_reader = positioned_reader +
  fixes ks :: keystream

sublocale decrypting_reader \<subseteq> plaintext: positioned_reader "decrypt_read ks rd" "decrypt_seek sk"
    "\<lambda>a. pos (inner a)" "\<lambda>a. plain ks (map_option fst (cipher a)) (content (inner a))"
    "\<lambda>a. ok (inner a) \<and> (\<forall>key p. cipher a = Some (key, p) \<longrightarrow> p = pos (inner a))"
proof unfold_locales
  fix a n d a' assume ok: "ok (inner a) \<and> (\<forall>key p. cipher a = Some (key, p) \<longrightarrow> p = pos (inner a))"
    and eq: "decrypt_read ks rd n a = (Inr d, a')"
  obtain e r where e: "rd n (inner a) = (Inr e, r)"
    using eq by (auto simp: decrypt_read_def split: prod.splits sum.splits)
  note r = read_ok [OF conjunct1 [OF ok] e]
  show "(ok (inner a') \<and> (\<forall>key p. cipher a' = Some (key, p) \<longrightarrow> p = pos (inner a'))) \<and>
      plain ks (map_option fst (cipher a')) (content (inner a')) =
      plain ks (map_option fst (cipher a)) (content (inner a)) \<and>
      pos (inner a') = pos (inner a) + length d \<and>
      d = take (length d) (drop (pos (inner a)) (plain ks (map_option fst (cipher a)) (content (inner a))))"
  proof (cases "cipher a")
    case None
    with eq e r show ?thesis by (auto simp: decrypt_read_def)
  next
    case (Some c)
    then obtain key where c: "cipher a = Some (key, pos (inner a))" using ok by (cases c) auto
    have d: "d = map (\<lambda>i. e ! i XOR ks key AUDIO_AESIV (pos (inner a) + i)) [0..<length e]"
      and a': "a' = a\<lparr>cipher := Some (key, pos (inner a) + length e), inner := r\<rparr>"
      using eq e by (auto simp: decrypt_read_def c apply_keystream_def)
    have "d = take (length d) (drop (pos (inner a)) (plain ks (Some key) (content (inner a))))"
      using plain_slice [of e "pos (inner a)" "content (inner a)" ks key] r
      by (simp add: d take_min_rest)
    then have "d = take (length d)
        (drop (pos (inner a)) (plain ks (map_option fst (cipher a)) (content (inner a))))"
      by (simp only: c option.map fst_conv)
    moreover have "length d = length e" by (simp add: d)
    then have "(ok (inner a') \<and> (\<forall>key p. cipher a' = Some (key, p) \<longrightarrow> p = pos (inner a'))) \<and>
        plain ks (map_option fst (cipher a')) (content (inner a')) =
        plain ks (map_option fst (cipher a)) (content (inner a)) \<and> pos (inner a') = pos (inner a) + length d"
      using r by (simp add: a' c)
    ultimately show ?thesis by blast
  qed
next
  fix a n e a' assume ok: "ok (inner a) \<and> (\<forall>key p. cipher a = Some (key, p) \<longrightarrow> p = pos (inner a))"
    and eq: "decrypt_read ks rd n a = (Inl e, a')"
  obtain r where "rd n (inner a) = (Inl e, r)" "a' = a\<lparr>inner := r\<rparr>"
    using eq by (auto simp: decrypt_read_def Let_def split: prod.splits sum.splits option.splits)
  with read_err [of "inner a" n e r] ok
  show "(ok (inner a') \<and> (\<forall>key p. cipher a' = Some (key, p) \<longrightarrow> p = pos (inner a'))) \<and>
      plain ks (map_option fst (cipher a')) (content (inner a')) =
      plain ks (map_option fst (cipher a)) (content (inner a)) \<and> pos (inner a') = pos (inner a)"
    by simp
next
  fix a p q a' assume ok: "ok (inner a) \<and> (\<forall>key p. cipher a = Some (key, p) \<longrightarrow> p = pos (inner a))"
    and eq: "decrypt_seek sk p a = (Inr q, a')"
  obtain r where "sk p (inner a) = (Inr q, r)"
    "a' = a\<lparr>cipher := map_option (\<lambda>(key, _). (key, q)) (cipher a), inner := r\<rparr>"
    using eq by (auto simp: decrypt_seek_def split: prod.splits sum.splits)
  with seek_ok [of "inner a" p q r] ok
  show "(ok (inner a') \<and> (\<forall>key p. cipher a' = Some (key, p) \<longrightarrow> p = pos (inner a'))) \<and>
      plain ks (map_option fst (cipher a')) (content (inner a')) =
      plain ks (map_option fst (cipher a)) (content (inner a)) \<and> pos (inner a') = q"
    by (cases "cipher a") auto
next
  fix a p e a' assume ok: "ok (inner a) \<and> (\<forall>key p. cipher a = Some (key, p) \<longrightarrow> p = pos (inner a))"
    and eq: "decrypt_seek sk p a = (Inl e, a')"
  obtain r where "sk p (inner a) = (Inl e, r)" "a' = a\<lparr>inner := r\<rparr>"
    using eq by (auto simp: decrypt_seek_def split: prod.splits sum.splits)
  with seek_err [of "inner a" p e r] ok
  show "(ok (inner a') \<and> (\<forall>key p. cipher a' = Some (key, p) \<longrightarrow> p = pos (inner a'))) \<and>
      plain ks (map_option fst (cipher a')) (content (inner a')) =
      plain ks (map_option fst (cipher a)) (content (inner a)) \<and> pos (inner a') = pos (inner a)"
    by simp
qed

interpretation decrypted_stream: decrypting_reader "stream_read k" stream_seek
    "\<lambda>x. stream_position (reader (fst x))" "\<lambda>_. F" "stream_reader_ok F" ks for F k ks
  by unfold_locales

interpretation decrypted_cache: decrypting_reader "cached_reader_read k" cached_seek snd fst "\<lambda>_. True" ks for k ks
  by unfold_locales

section \<open>Properties\<close>



end
