(* ===== verification/Dealer_Maps.thy ===== *)
theory Dealer_Maps
  imports Core_Error "HOL-Library.Sublist"
begin

text \<open>
  The two tries of \<open>core/src/dealer/maps.rs\<close>, which find the handler of a request and the subscribers
  of a message by the components of a URI. The children of a node are a finite map, here a list of
  pairs in which every key counts once, with its first pair.
\<close>

section \<open>Children\<close>

text \<open>\<open>entry(k).or_default()\<close> followed by an update, and removal; both keep keys distinct.\<close>

fun upsert :: "'k \<Rightarrow> 'v \<Rightarrow> ('k \<times> 'v) list \<Rightarrow> ('k \<times> 'v) list" where
  "upsert k v [] = [(k, v)]"
| "upsert k v ((k', v') # m) = (if k = k' then (k, v) # m else (k', v') # upsert k v m)"

definition remove_key :: "'k \<Rightarrow> ('k \<times> 'v) list \<Rightarrow> ('k \<times> 'v) list" where
  "remove_key k m = filter (\<lambda>x. fst x \<noteq> k) m"

lemma map_of_upsert [simp]: "map_of (upsert k v m) = (map_of m)(k \<mapsto> v)"
  by (induction k v m rule: upsert.induct) (auto simp: fun_eq_iff)

lemma map_of_remove_key [simp]: "map_of (remove_key k m) = (map_of m)(k := None)"
  unfolding remove_key_def by (induction m) auto

lemma upsert_not_Nil [simp]: "upsert k v m \<noteq> []"
  by (cases m) (auto split: if_splits)

lemma keys_upsert: "fst ` set (upsert k v m) = insert k (fst ` set m)"
  by (induction k v m rule: upsert.induct) auto

lemma distinct_upsert: "distinct (map fst m) \<Longrightarrow> distinct (map fst (upsert k v m))"
  by (induction k v m rule: upsert.induct) (auto simp: keys_upsert)

lemma distinct_remove_key: "distinct (map fst m) \<Longrightarrow> distinct (map fst (remove_key k m))"
  unfolding remove_key_def by (induction m) auto

lemma map_of_size [termination_simp]:
  "map_of m k = Some t \<Longrightarrow> size t < Suc (size_list (size_prod (\<lambda>_. 0) size) m)"
  by (induction m) (auto split: if_splits)

section \<open>Handlers\<close>

datatype HandlerMapError = AlreadyHandled

datatype 't HandlerMap = Leaf 't | Branch "(string \<times> 't HandlerMap) list"

definition handler_map_default :: "'t HandlerMap" where
  "handler_map_default = Branch []"

fun hm_contains :: "'t HandlerMap \<Rightarrow> string \<Rightarrow> bool" where
  "hm_contains (Leaf t) path \<longleftrightarrow> False"
| "hm_contains (Branch m) path \<longleftrightarrow> map_of m path \<noteq> None"

text \<open>\<open>insert\<close>: the result and the map afterwards; the nodes on the way are made first.\<close>

fun hm_insert :: "string list \<Rightarrow> 't \<Rightarrow> 't HandlerMap \<Rightarrow> (HandlerMapError Error + unit) \<times> 't HandlerMap" where
  "hm_insert path handler (Leaf t) = (Err (aborted AlreadyHandled), Leaf t)"
| "hm_insert (component # path) handler (Branch children) =
     (let node = (case map_of children component of None \<Rightarrow> handler_map_default | Some n \<Rightarrow> n);
          (r, node') = hm_insert path handler node
      in (r, Branch (upsert component node' children)))"
| "hm_insert [] handler (Branch children) =
     (if children = [] then (Ok (), Leaf handler) else (Err (aborted AlreadyHandled), Branch children))"

fun hm_get :: "string list \<Rightarrow> 't HandlerMap \<Rightarrow> 't option" where
  "hm_get path (Leaf t) = Some t"
| "hm_get [] (Branch m) = None"
| "hm_get (component # path) (Branch m) =
     (case map_of m component of None \<Rightarrow> None | Some n \<Rightarrow> hm_get path n)"

fun hm_remove :: "string list \<Rightarrow> 't HandlerMap \<Rightarrow> 't option \<times> 't HandlerMap" where
  "hm_remove path (Leaf t) = (Some t, handler_map_default)"
| "hm_remove [] (Branch m) = (None, Branch m)"
| "hm_remove (component # path) (Branch m) =
     (case map_of m component of
        None \<Rightarrow> (None, Branch m)
      | Some n \<Rightarrow>
          (let (result, n') = hm_remove path n
           in (result, Branch (if n' = Branch [] then remove_key component m else upsert component n' m))))"

section \<open>Subscribers\<close>

datatype 't SubscriberMap = SubscriberMap (subscribed: "'t list") (children: "(string \<times> 't SubscriberMap) list")

definition subscriber_map_default :: "'t SubscriberMap" where
  "subscriber_map_default = SubscriberMap [] []"

fun sm_insert :: "string list \<Rightarrow> 't \<Rightarrow> 't SubscriberMap \<Rightarrow> 't SubscriberMap" where
  "sm_insert [] handler (SubscriberMap s c) = SubscriberMap (s @ [handler]) c"
| "sm_insert (component # path) handler (SubscriberMap s c) =
     (let node = (case map_of c component of None \<Rightarrow> subscriber_map_default | Some n \<Rightarrow> n)
      in SubscriberMap s (upsert component (sm_insert path handler node) c))"

definition sm_is_empty :: "'t SubscriberMap \<Rightarrow> bool" where
  "sm_is_empty m \<longleftrightarrow> children m = [] \<and> subscribed m = []"

fun sm_contains :: "string list \<Rightarrow> 't SubscriberMap \<Rightarrow> bool" where
  "sm_contains path (SubscriberMap s c) \<longleftrightarrow>
     (if s \<noteq> [] then True
      else case path of
             [] \<Rightarrow> \<not> sm_is_empty (SubscriberMap s c)
           | component # path \<Rightarrow>
               (case map_of c component of None \<Rightarrow> False | Some n \<Rightarrow> sm_contains path n))"

text \<open>
  \<open>retain\<close>: whether anything was called, the subscribers called in order, and the map afterwards. The
  operator \<open>||\<close> does not descend when a subscriber was found on this level.
\<close>

fun sm_retain :: "string list \<Rightarrow> ('t \<Rightarrow> bool) \<Rightarrow> 't SubscriberMap \<Rightarrow> bool \<times> 't list \<times> 't SubscriberMap" where
  "sm_retain [] f (SubscriberMap s c) = (s \<noteq> [], s, SubscriberMap (filter f s) c)"
| "sm_retain (component # path) f (SubscriberMap s c) =
     (let s' = filter f s
      in case map_of c component of
           None \<Rightarrow> (s \<noteq> [], s, SubscriberMap s' c)
         | Some y \<Rightarrow>
             (let (handled, called, y') = (if s \<noteq> [] then (True, [], y) else sm_retain path f y)
              in (s \<noteq> [] \<or> handled, s @ called,
                  SubscriberMap s' (if sm_is_empty y' then remove_key component c else upsert component y' c))))"

section \<open>What a handler map stands for\<close>

text \<open>The handlers by their exact paths; keys are distinct and no branch below the root is empty.\<close>

fun leaf_at :: "'t HandlerMap \<Rightarrow> string list \<Rightarrow> 't option" where
  "leaf_at (Leaf t) path = (if path = [] then Some t else None)"
| "leaf_at (Branch m) path =
     (case path of [] \<Rightarrow> None | c # p \<Rightarrow> (case map_of m c of None \<Rightarrow> None | Some n \<Rightarrow> leaf_at n p))"

fun hm_ok :: "'t HandlerMap \<Rightarrow> bool" where
  "hm_ok (Leaf t) \<longleftrightarrow> True"
| "hm_ok (Branch m) \<longleftrightarrow> distinct (map fst m) \<and> (\<forall>(k, n) \<in> set m. n \<noteq> Branch [] \<and> hm_ok n)"

lemma leaf_at_empty [simp]: "leaf_at (Branch []) = Map.empty"
proof
  show "leaf_at (Branch []) p = None" for p by (cases p) simp_all
qed

lemma hm_ok_child: "hm_ok (Branch m) \<Longrightarrow> map_of m c = Some n \<Longrightarrow> hm_ok n \<and> n \<noteq> Branch []"
  by (auto dest!: map_of_SomeD)

lemma set_upsert: "set (upsert k v m) \<subseteq> insert (k, v) (set m)"
  by (induction k v m rule: upsert.induct) auto

lemma hm_ok_upsert: "hm_ok (Branch m) \<Longrightarrow> hm_ok n \<Longrightarrow> n \<noteq> Branch [] \<Longrightarrow> hm_ok (Branch (upsert c n m))"
  using set_upsert [of c n m] by (fastforce simp: distinct_upsert)

lemma hm_ok_remove_key: "hm_ok (Branch m) \<Longrightarrow> hm_ok (Branch (remove_key c m))"
  by (auto simp: distinct_remove_key) (auto simp: remove_key_def)

lemma upsert_same: "distinct (map fst m) \<Longrightarrow> map_of m c = Some n \<Longrightarrow> upsert c n m = m"
  by (induction m) (auto split: if_splits)

text \<open>A map without empty branches below the root has a handler below every node but an empty root.\<close>

lemma hm_ok_has_leaf: "hm_ok n \<Longrightarrow> n \<noteq> Branch [] \<Longrightarrow> \<exists>p t. leaf_at n p = Some t"
proof (induction n)
  case (Leaf t)
  then show ?case by auto
next
  case (Branch m)
  then obtain c n m' where m: "m = (c, n) # m'" by (cases m) auto
  then have "hm_ok n" "n \<noteq> Branch []" using Branch.prems by auto
  then obtain p t where "leaf_at n p = Some t" using Branch.IH [of "(c, n)" n] m by auto
  then have "leaf_at (Branch m) (c # p) = Some t" by (simp add: m)
  then show ?case by blast
qed

text \<open>Paths of handlers are never prefixes of each other.\<close>

lemma leaf_at_prefix_free: "leaf_at m p = Some t \<Longrightarrow> leaf_at m q = Some u \<Longrightarrow> prefix p q \<Longrightarrow> p = q"
  by (induction m p arbitrary: q rule: leaf_at.induct)
     (fastforce split: list.splits option.splits if_splits)+

lemma hm_get_leaf: "hm_get p m = Some t \<longleftrightarrow> (\<exists>q. prefix q p \<and> leaf_at m q = Some t)"
proof (induction p m rule: hm_get.induct)
  case (3 c p m)
  have "(\<exists>q. prefix q (c # p) \<and> leaf_at (Branch m) q = Some t) \<longleftrightarrow>
      (\<exists>n. map_of m c = Some n \<and> (\<exists>q. prefix q p \<and> leaf_at n q = Some t))"
  proof
    assume "\<exists>q. prefix q (c # p) \<and> leaf_at (Branch m) q = Some t"
    then obtain q where q: "prefix q (c # p)" "leaf_at (Branch m) q = Some t" by blast
    from q(2) obtain c' q' where "q = c' # q'" by (cases q) auto
    with q show "\<exists>n. map_of m c = Some n \<and> (\<exists>q. prefix q p \<and> leaf_at n q = Some t)" by (auto split: option.splits)
  next
    assume "\<exists>n. map_of m c = Some n \<and> (\<exists>q. prefix q p \<and> leaf_at n q = Some t)"
    then obtain n q where "map_of m c = Some n" "prefix q p" "leaf_at n q = Some t" by blast
    then have "prefix (c # q) (c # p) \<and> leaf_at (Branch m) (c # q) = Some t" by simp
    then show "\<exists>q. prefix q (c # p) \<and> leaf_at (Branch m) q = Some t" by blast
  qed
  with 3 show ?case by (auto split: option.splits)
qed auto

text \<open>Inserting succeeds exactly when no handler has a prefix or an extension of the path.\<close>

definition free_path :: "(string list \<rightharpoonup> 't) \<Rightarrow> string list \<Rightarrow> bool" where
  "free_path h p \<longleftrightarrow> (\<forall>q \<in> dom h. \<not> prefix q p \<and> \<not> prefix p q)"

lemma hm_insert_leaf:
  assumes "hm_ok m" "hm_insert p t m = (r, m')"
  shows "if free_path (leaf_at m) p then r = Ok () \<and> leaf_at m' = (leaf_at m)(p \<mapsto> t) \<and> hm_ok m' \<and> m' \<noteq> Branch []
         else r = Err (aborted AlreadyHandled) \<and> m' = m"
  using assms
proof (induction p t m arbitrary: r m' rule: hm_insert.induct)
  case (1 p t u)
  have "\<not> free_path (leaf_at (Leaf u)) p" by (auto simp: free_path_def dom_def)
  then show ?case using 1 by simp
next
  case (2 c p t m)
  define n where "n = (case map_of m c of None \<Rightarrow> handler_map_default | Some n \<Rightarrow> n)"
  obtain n' where i: "hm_insert p t n = (r, n')" "m' = Branch (upsert c n' m)"
    using "2.prems"(2) by (auto simp: n_def Let_def split: prod.splits)
  have n: "hm_ok n" "n = Branch [] \<longleftrightarrow> map_of m c = None"
    using "2.prems"(1) hm_ok_child [OF "2.prems"(1), of c]
    by (auto simp: n_def handler_map_default_def split: option.splits)
  have leaf: "leaf_at (Branch m) (c # q) = leaf_at n q" for q
    by (cases q; auto simp: n_def handler_map_default_def split: option.splits)
  have free: "free_path (leaf_at (Branch m)) (c # p) \<longleftrightarrow> free_path (leaf_at n) p"
  proof
    assume f: "free_path (leaf_at (Branch m)) (c # p)"
    show "free_path (leaf_at n) p" unfolding free_path_def
    proof
      fix q assume "q \<in> dom (leaf_at n)"
      then have "c # q \<in> dom (leaf_at (Branch m))" using leaf by (simp add: dom_def del: leaf_at.simps)
      then have "\<not> prefix (c # q) (c # p) \<and> \<not> prefix (c # p) (c # q)" using f unfolding free_path_def by blast
      then show "\<not> prefix q p \<and> \<not> prefix p q" by simp
    qed
  next
    assume f: "free_path (leaf_at n) p"
    show "free_path (leaf_at (Branch m)) (c # p)" unfolding free_path_def
    proof
      fix q assume q: "q \<in> dom (leaf_at (Branch m))"
      then obtain c' q' where q': "q = c' # q'" by (cases q) auto
      show "\<not> prefix q (c # p) \<and> \<not> prefix (c # p) q"
      proof (cases "c' = c")
        case True
        then have "q' \<in> dom (leaf_at n)" using q leaf by (simp add: q' dom_def del: leaf_at.simps)
        with f True show ?thesis by (auto simp: free_path_def q')
      qed (simp add: q')
    qed
  qed
  note IH = "2.IH" [OF n_def n(1) i(1)]
  show ?case
  proof (cases "free_path (leaf_at n) p")
    case True
    with IH have r: "r = Ok ()" "leaf_at n' = (leaf_at n)(p \<mapsto> t)" "hm_ok n'" "n' \<noteq> Branch []" by simp_all
    have "leaf_at m' q = ((leaf_at (Branch m))(c # p \<mapsto> t)) q" for q
    proof (cases q)
      case Nil
      then show ?thesis by (simp add: i(2))
    next
      case (Cons c' q')
      show ?thesis
      proof (cases "c' = c")
        case True
        then show ?thesis using r(2) leaf [of q'] by (simp add: Cons i(2) del: leaf_at.simps(2)) (simp add: i(2))
      qed (simp add: Cons i(2))
    qed
    then have "leaf_at m' = (leaf_at (Branch m))(c # p \<mapsto> t)" by (rule ext)
    with r True free hm_ok_upsert [OF "2.prems"(1) r(3,4)] show ?thesis by (simp add: i(2) del: leaf_at.simps hm_ok.simps)
  next
    case False
    with IH have r: "r = Err (aborted AlreadyHandled)" "n' = n" by simp_all
    have "n \<noteq> Branch []" using False by (auto simp: free_path_def)
    then obtain x where "map_of m c = Some x" using n(2) by auto
    then have "upsert c n m = m" using "2.prems"(1) by (simp add: n_def upsert_same)
    with r False free show ?thesis by (simp add: i(2) del: leaf_at.simps)
  qed
next
  case (3 t m)
  show ?case
  proof (cases "m = []")
    case True
    moreover have "leaf_at (Leaf t) = [[] \<mapsto> t]" by (rule ext) simp
    ultimately show ?thesis using "3.prems" by (auto simp: free_path_def)
  next
    case False
    obtain q u where "leaf_at (Branch m) q = Some u" using hm_ok_has_leaf [OF "3.prems"(1)] False by auto
    then have "\<not> free_path (leaf_at (Branch m)) []" by (auto simp: free_path_def dom_def simp del: leaf_at.simps)
    then show ?thesis using "3.prems"(2) False by (simp del: leaf_at.simps)
  qed
qed

lemma hm_remove_leaf:
  assumes "hm_ok m" "hm_remove p m = (r, m')"
  shows "r = hm_get p m \<and> hm_ok m' \<and> leaf_at m' = (\<lambda>q. if prefix q p then None else leaf_at m q)"
  using assms
proof (induction p m arbitrary: r m' rule: hm_remove.induct)
  case (1 p t)
  then show ?case by (auto simp: handler_map_default_def fun_eq_iff)
next
  case (2 m)
  then show ?case by (auto simp: fun_eq_iff)
next
  case (3 c p m)
  show ?case
  proof (cases "map_of m c")
    case None
    then have "leaf_at (Branch m) q = None" if "prefix q (c # p)" for q using that by (cases q) auto
    with None "3.prems" show ?thesis by (auto simp: fun_eq_iff simp del: leaf_at.simps hm_ok.simps)
  next
    case (Some n)
    obtain n' where n': "hm_remove p n = (r, n')"
      "m' = Branch (if n' = Branch [] then remove_key c m else upsert c n' m)"
      using "3.prems"(2) Some by (auto split: prod.splits)
    have n: "hm_ok n" using hm_ok_child [OF "3.prems"(1) Some] by simp
    note IH = "3.IH" [OF Some n n'(1)]
    have "leaf_at m' q = (if prefix q (c # p) then None else leaf_at (Branch m) q)" for q
    proof (cases q)
      case Nil
      then show ?thesis by (simp add: n'(2))
    next
      case (Cons c' q')
      show ?thesis
      proof (cases "c' = c")
        case True
        have "leaf_at m' q = leaf_at n' q'" by (simp add: n'(2) Cons True)
        then show ?thesis using IH Some by (simp add: Cons True)
      qed (simp add: n'(2) Cons)
    qed
    moreover have "hm_ok m'"
      using IH hm_ok_upsert [OF "3.prems"(1), of n' c] hm_ok_remove_key [OF "3.prems"(1), of c]
      by (simp add: n'(2) del: hm_ok.simps)
    ultimately show ?thesis using IH Some by (auto simp: fun_eq_iff simp del: leaf_at.simps hm_ok.simps)
  qed
qed

section \<open>What a subscriber map stands for\<close>

fun subs_at :: "'t SubscriberMap \<Rightarrow> string list \<Rightarrow> 't list" where
  "subs_at m [] = subscribed m"
| "subs_at m (c # p) = (case map_of (children m) c of None \<Rightarrow> [] | Some n \<Rightarrow> subs_at n p)"

lemma subs_at_empty [simp]: "subs_at (SubscriberMap [] []) p = []"
  by (cases p) simp_all

lemma sm_insert_subs: "subs_at (sm_insert p h m) q = (if q = p then subs_at m p @ [h] else subs_at m q)"
proof (induction p h m arbitrary: q rule: sm_insert.induct)
  case (1 h s c)
  then show ?case by (cases q) simp_all
next
  case (2 k p h s c)
  show ?case
  proof (cases q)
    case (Cons k' q')
    then show ?thesis using "2.IH" [OF refl, of q']
      by (auto simp: subscriber_map_default_def Let_def split: option.splits)
  qed simp
qed

text \<open>
  The subscribers that are called are those of the shortest prefix of the path that has any; of these
  the ones that fail are dropped, nobody else is.
\<close>

lemma sm_retain_subs:
  assumes "sm_retain p f m = (handled, called, m')"
  shows "\<exists>q. prefix q p \<and> called = subs_at m q \<and> (handled \<longleftrightarrow> called \<noteq> []) \<and>
    (\<forall>q'. strict_prefix q' q \<longrightarrow> subs_at m q' = []) \<and>
    (called = [] \<longrightarrow> (\<forall>q'. prefix q' p \<longrightarrow> subs_at m q' = [])) \<and>
    (\<forall>q'. subs_at m' q' = (if q' = q then filter f called else subs_at m q'))"
  using assms
proof (induction p f m arbitrary: handled called m' rule: sm_retain.induct)
  case (1 f s c)
  have "subs_at (SubscriberMap (filter f s) c) q = (if q = [] then filter f s else subs_at (SubscriberMap s c) q)" for q
    by (cases q) simp_all
  with 1 show ?case by (intro exI [of _ "[]"]) (auto simp: prefix_def)
next
  case (2 k p f s c)
  have child: "subs_at (SubscriberMap s' (if sm_is_empty y then remove_key k c else upsert k y c)) (k' # r) =
      (if k' = k then subs_at y r else subs_at (SubscriberMap s c) (k' # r))" for s' y k' r
  proof (cases "sm_is_empty y")
    case True
    then have "y = SubscriberMap [] []" by (cases y) (simp add: sm_is_empty_def)
    then show ?thesis using True by simp
  qed simp
  show ?case
  proof (cases "map_of c k")
    case None
    have "subs_at (SubscriberMap (filter f s) c) q = (if q = [] then filter f s else subs_at (SubscriberMap s c) q)" for q
      by (cases q) simp_all
    moreover have "subs_at (SubscriberMap s c) q = []" if "prefix q (k # p)" "s = []" for q
      using that None by (cases q) auto
    ultimately show ?thesis using "2.prems" None by (intro exI [of _ "[]"]) (auto simp: prefix_def strict_prefix_def)
  next
    case (Some y)
    show ?thesis
    proof (cases "s = []")
      case False
      then have r: "handled" "called = s"
        "m' = SubscriberMap (filter f s) (if sm_is_empty y then remove_key k c else upsert k y c)"
        using "2.prems" Some by auto
      have "subs_at m' q = (if q = [] then filter f s else subs_at (SubscriberMap s c) q)" for q
        using child [of "filter f s" y] Some by (cases q) (auto simp: r(3))
      then show ?thesis using r False by (intro exI [of _ "[]"]) auto
    next
      case True
      obtain h ys y' where y': "sm_retain p f y = (h, ys, y')" by (metis prod_cases3)
      then have r: "handled = h" "called = ys"
        "m' = SubscriberMap [] (if sm_is_empty y' then remove_key k c else upsert k y' c)"
        using "2.prems" Some True by auto
      obtain q where q: "prefix q p" "ys = subs_at y q" "h \<longleftrightarrow> ys \<noteq> []" "\<forall>q'. strict_prefix q' q \<longrightarrow> subs_at y q' = []"
        "ys = [] \<longrightarrow> (\<forall>q'. prefix q' p \<longrightarrow> subs_at y q' = [])"
        "\<forall>q'. subs_at y' q' = (if q' = q then filter f ys else subs_at y q')"
        using "2.IH" [OF refl Some _ y'] True by blast
      have "subs_at m' q' = (if q' = k # q then filter f called else subs_at (SubscriberMap s c) q')" for q'
        using child [of "[]" y'] q(6) Some True by (cases q') (auto simp: r(2,3))
      moreover have "subs_at (SubscriberMap s c) q' = []" if "strict_prefix q' (k # q)" for q'
        using that q(4) Some True by (cases q') (auto simp: strict_prefix_def)
      moreover have "subs_at (SubscriberMap s c) q' = []" if "prefix q' (k # p)" "called = []" for q'
        using that q(5) Some True by (cases q') (auto simp: r(2))
      ultimately show ?thesis using q(1-3) Some r(1,2) by (intro exI [of _ "k # q"]) auto
    qed
  qed
qed

text \<open>\<open>contains\<close>: a prefix of the path has subscribers, or the node at its end is not empty.\<close>

lemma sm_contains_subs: "prefix q p \<Longrightarrow> subs_at m q \<noteq> [] \<Longrightarrow> sm_contains p m"
proof (induction p m arbitrary: q rule: sm_contains.induct)
  case (1 p s c)
  show ?case
  proof (cases "s = []")
    case True
    with "1.prems" obtain k q' where q: "q = k # q'" by (cases q) auto
    with "1.prems" obtain p' where p: "p = k # p'" by (cases p) auto
    with q "1.prems" obtain n where "map_of c k = Some n" "subs_at n q' \<noteq> []" by (auto split: option.splits)
    then show ?thesis using "1.IH" [of k p' n q'] "1.prems"(1) True p q by simp
  qed simp
qed

section \<open>The registry of handlers\<close>

text \<open>
  A registry of handlers by path: entries are found by any extension of their path, a path can be
  registered when it is not comparable with one that is there, and removal goes by extension too.
\<close>

locale path_registry =
  fixes entries :: "'m \<Rightarrow> (string list \<rightharpoonup> 't)"
    and ok :: "'m \<Rightarrow> bool"
    and ins :: "string list \<Rightarrow> 't \<Rightarrow> 'm \<Rightarrow> ('e + unit) \<times> 'm"
    and lookup :: "string list \<Rightarrow> 'm \<Rightarrow> 't option"
    and del :: "string list \<Rightarrow> 'm \<Rightarrow> 't option \<times> 'm"
  assumes ins_free: "ok m \<Longrightarrow> free_path (entries m) p \<Longrightarrow>
      \<exists>m'. ins p t m = (Ok (), m') \<and> ok m' \<and> entries m' = (entries m)(p \<mapsto> t)"
    and ins_taken: "ok m \<Longrightarrow> \<not> free_path (entries m) p \<Longrightarrow> \<exists>e. ins p t m = (Err e, m)"
    and lookup_entry: "ok m \<Longrightarrow> lookup p m = Some t \<longleftrightarrow> (\<exists>q. prefix q p \<and> entries m q = Some t)"
    and del_entry: "ok m \<Longrightarrow> \<exists>m'. del p m = (lookup p m, m') \<and> ok m' \<and>
      entries m' = (\<lambda>q. if prefix q p then None else entries m q)"
begin

lemma lookup_inserted: "ok m \<Longrightarrow> free_path (entries m) p \<Longrightarrow> lookup (p @ q) (snd (ins p t m)) = Some t"
  using ins_free [of m p t] lookup_entry by auto

lemma lookup_other:
  assumes "ok m" "free_path (entries m) p" "\<not> prefix p q"
  shows "lookup q (snd (ins p t m)) = lookup q m"
proof -
  obtain m' where m': "ins p t m = (Ok (), m')" "ok m'" "entries m' = (entries m)(p \<mapsto> t)"
    using ins_free [OF assms(1,2)] by blast
  have "lookup q m' = Some u \<longleftrightarrow> lookup q m = Some u" for u
    using lookup_entry [OF m'(2), of q u] lookup_entry [OF assms(1), of q u] assms(3) by (auto simp: m'(3))
  then have "lookup q m' = lookup q m" by (cases "lookup q m"; cases "lookup q m'") auto
  then show ?thesis by (simp add: m'(1))
qed

lemma del_inserted:
  assumes "ok m" "free_path (entries m) p"
  shows "fst (del p (snd (ins p t m))) = Some t \<and> entries (snd (del p (snd (ins p t m)))) = entries m"
proof -
  obtain m' where m': "ins p t m = (Ok (), m')" "ok m'" "entries m' = (entries m)(p \<mapsto> t)"
    using ins_free [OF assms] by blast
  obtain m'' where m'': "del p m' = (lookup p m', m'')" "entries m'' = (\<lambda>q. if prefix q p then None else entries m' q)"
    using del_entry [OF m'(2)] by blast
  have "entries m q = None" if "prefix q p" for q using assms(2) that by (auto simp: free_path_def)
  then have "entries m'' = entries m" by (auto simp: m''(2) m'(3) fun_eq_iff)
  moreover have "lookup p m' = Some t" using lookup_inserted [OF assms, of "[]" t] m'(1) by simp
  ultimately show ?thesis by (simp add: m'(1) m''(1))
qed

end

interpretation hm: path_registry leaf_at hm_ok hm_insert hm_get hm_remove
proof unfold_locales
  fix m :: "'t HandlerMap" and p and t :: 't
  assume ok: "hm_ok m"
  obtain r m' where i: "hm_insert p t m = (r, m')" by (metis surj_pair)
  note leaf = hm_insert_leaf [OF ok i]
  show "\<exists>m'. hm_insert p t m = (Ok (), m') \<and> hm_ok m' \<and> leaf_at m' = (leaf_at m)(p \<mapsto> t)" if "free_path (leaf_at m) p"
    using leaf i that by auto
  show "\<exists>e. hm_insert p t m = (Err e, m)" if "\<not> free_path (leaf_at m) p" using leaf i that by auto
  show "hm_get p m = Some t \<longleftrightarrow> (\<exists>q. prefix q p \<and> leaf_at m q = Some t)" by (rule hm_get_leaf)
  obtain r m'' where d: "hm_remove p m = (r, m'')" by (metis surj_pair)
  with hm_remove_leaf [OF ok d]
  show "\<exists>m'. hm_remove p m = (hm_get p m, m') \<and> hm_ok m' \<and> leaf_at m' = (\<lambda>q. if prefix q p then None else leaf_at m q)"
    by auto
qed

section \<open>The handler map is a search in the list of its handlers\<close>

datatype 't HandlerCall = CallInsert "string list" 't | CallGet "string list" | CallRemove "string list"

datatype 't HandlerAnswer = Inserted bool | Found "'t option"

fun trie_call :: "'t HandlerCall \<Rightarrow> 't HandlerMap \<Rightarrow> 't HandlerAnswer \<times> 't HandlerMap" where
  "trie_call (CallInsert p t) m = (let (r, m') = hm_insert p t m in (Inserted (r = Ok ()), m'))"
| "trie_call (CallGet p) m = (Found (hm_get p m), m)"
| "trie_call (CallRemove p) m = (let (r, m') = hm_remove p m in (Found r, m'))"

text \<open>The reference: registered paths with their handlers, in the order of registration.\<close>

fun list_call :: "'t HandlerCall \<Rightarrow> (string list \<times> 't) list \<Rightarrow> 't HandlerAnswer \<times> (string list \<times> 't) list" where
  "list_call (CallInsert p t) es =
     (if \<exists>e \<in> set es. prefix (fst e) p \<or> prefix p (fst e) then (Inserted False, es)
      else (Inserted True, es @ [(p, t)]))"
| "list_call (CallGet p) es = (Found (map_option snd (find (\<lambda>e. prefix (fst e) p) es)), es)"
| "list_call (CallRemove p) es =
     (Found (map_option snd (find (\<lambda>e. prefix (fst e) p) es)), filter (\<lambda>e. \<not> prefix (fst e) p) es)"

fun answers :: "('c \<Rightarrow> 's \<Rightarrow> 'a \<times> 's) \<Rightarrow> 'c list \<Rightarrow> 's \<Rightarrow> 'a list" where
  "answers step [] s = []"
| "answers step (c # cs) s = (let (a, s') = step c s in a # answers step cs s')"

text \<open>The trie and the list hold the same handlers.\<close>

definition same_handlers :: "'t HandlerMap \<Rightarrow> (string list \<times> 't) list \<Rightarrow> bool" where
  "same_handlers m es \<longleftrightarrow> hm_ok m \<and> distinct (map fst es) \<and> leaf_at m = map_of es"

lemma same_handlers_free:
  assumes "same_handlers m es"
  shows "free_path (leaf_at m) p \<longleftrightarrow> \<not> (\<exists>e \<in> set es. prefix (fst e) p \<or> prefix p (fst e))"
  using assms by (auto simp: same_handlers_def free_path_def dom_map_of_conv_image_fst)

lemma same_handlers_get:
  assumes "same_handlers m es"
  shows "map_option snd (find (\<lambda>e. prefix (fst e) p) es) = hm_get p m"
proof (cases "find (\<lambda>e. prefix (fst e) p) es")
  case None
  then have "\<nexists>q t. prefix q p \<and> leaf_at m q = Some t"
    using assms by (auto simp: find_None_iff same_handlers_def dest!: map_of_SomeD)
  then have "hm_get p m \<noteq> Some t" for t using hm_get_leaf [of p m t] by blast
  then have "hm_get p m = None" by (cases "hm_get p m") auto
  with None show ?thesis by simp
next
  case (Some e)
  then have "e \<in> set es" "prefix (fst e) p" by (auto simp: find_Some_iff)
  then have "leaf_at m (fst e) = Some (snd e)" using assms by (cases e) (auto simp: same_handlers_def)
  with \<open>prefix (fst e) p\<close> have "hm_get p m = Some (snd e)" using hm_get_leaf [of p m "snd e"] by blast
  with Some show ?thesis by simp
qed

lemma map_of_filter_key: "map_of (filter (\<lambda>e. P (fst e)) es) = (\<lambda>q. if P q then map_of es q else None)"
  by (induction es) (auto simp: fun_eq_iff)

lemma distinct_filter_key: "distinct (map fst es) \<Longrightarrow> distinct (map fst (filter P es))"
  by (induction es) auto

lemma same_handlers_call:
  assumes "same_handlers m es"
  shows "fst (trie_call c m) = fst (list_call c es) \<and> same_handlers (snd (trie_call c m)) (snd (list_call c es))"
proof (cases c)
  case (CallInsert p t)
  have ok: "hm_ok m" using assms by (simp add: same_handlers_def)
  obtain r m' where i: "hm_insert p t m = (r, m')" by (metis surj_pair)
  note leaf = hm_insert_leaf [OF ok i]
  show ?thesis
  proof (cases "free_path (leaf_at m) p")
    case True
    with leaf have r: "r = Ok ()" "leaf_at m' = (leaf_at m)(p \<mapsto> t)" "hm_ok m'" by simp_all
    have free: "\<not> (\<exists>e \<in> set es. prefix (fst e) p \<or> prefix p (fst e))" using True same_handlers_free [OF assms] by blast
    then have new: "p \<notin> fst ` set es" by auto
    then have "map_of es p = None" by (simp add: map_of_eq_None_iff)
    then have "map_of (es @ [(p, t)]) = (map_of es)(p \<mapsto> t)" by (auto simp: fun_eq_iff map_add_def split: option.splits)
    then have "same_handlers m' (es @ [(p, t)])" using r new assms by (auto simp: same_handlers_def)
    then show ?thesis using i r(1) free by (simp add: CallInsert)
  next
    case False
    then have "r = Err (aborted AlreadyHandled)" "m' = m" using leaf by simp_all
    moreover have "\<exists>e \<in> set es. prefix (fst e) p \<or> prefix p (fst e)" using False same_handlers_free [OF assms] by blast
    ultimately show ?thesis using i assms by (simp add: CallInsert)
  qed
next
  case (CallGet p)
  then show ?thesis using assms same_handlers_get [OF assms] by simp
next
  case (CallRemove p)
  have ok: "hm_ok m" using assms by (simp add: same_handlers_def)
  obtain r m' where d: "hm_remove p m = (r, m')" by (metis surj_pair)
  note leaf = hm_remove_leaf [OF ok d]
  have "same_handlers m' (filter (\<lambda>e. \<not> prefix (fst e) p) es)"
    using leaf assms map_of_filter_key [of "\<lambda>q. \<not> prefix q p" es]
    by (auto simp: same_handlers_def distinct_filter_key fun_eq_iff)
  then show ?thesis using leaf d same_handlers_get [OF assms] by (simp add: CallRemove)
qed

lemma same_handlers_answers: "same_handlers m es \<Longrightarrow> answers trie_call cs m = answers list_call cs es"
proof (induction cs arbitrary: m es)
  case (Cons c cs)
  then show ?case using same_handlers_call [OF Cons.prems, of c] by (simp add: split_beta)
qed simp

text \<open>
  C24. The handler map answers every sequence of calls as the list of registered handlers does, in which
  a request is matched with the first path that is a prefix of its own, a path is refused when it is
  comparable with a registered one, and removal takes what a request would have found.
\<close>

theorem handler_map_equiv: "answers trie_call cs handler_map_default = answers list_call cs []"
  by (rule same_handlers_answers) (simp add: same_handlers_def handler_map_default_def)

end
