(* ===== verification/Wire.thy ===== *)
theory Wire
  imports Core_Error Numerals
begin

text \<open>
  What the protocols of the access point share: the packet types of \<open>core/src/packet.rs\<close>, the
  sequence numbers of \<open>core/src/util.rs\<close>, big-endian integers, and \<open>Bytes::split_to\<close>, which panics
  when there are too few bytes.
\<close>

section \<open>Packet types\<close>

datatype PacketType =
    SecretBlock | Ping | StreamChunk | StreamChunkRes | ChannelErrorPacket | ChannelAbort | RequestKey
  | AesKey | AesKeyError | Image | CountryCode | Pong | PongAck | Pause | ProductInfo
  | LegacyWelcome | LicenseVersion | Login | APWelcome | AuthFailure | MercuryReq | MercurySub
  | MercuryUnsub | MercuryEvent | TrackEndedTime | UnknownDataAllZeros | PreferredLocale
  | Unknown0x0f | Unknown0x10 | Unknown0x4f | Unknown0xb6

fun packet_code :: "PacketType \<Rightarrow> u8" where
  "packet_code SecretBlock = 0x02"
| "packet_code Ping = 0x04"
| "packet_code StreamChunk = 0x08"
| "packet_code StreamChunkRes = 0x09"
| "packet_code ChannelErrorPacket = 0x0a"
| "packet_code ChannelAbort = 0x0b"
| "packet_code RequestKey = 0x0c"
| "packet_code AesKey = 0x0d"
| "packet_code AesKeyError = 0x0e"
| "packet_code Image = 0x19"
| "packet_code CountryCode = 0x1b"
| "packet_code Pong = 0x49"
| "packet_code PongAck = 0x4a"
| "packet_code Pause = 0x4b"
| "packet_code ProductInfo = 0x50"
| "packet_code LegacyWelcome = 0x69"
| "packet_code LicenseVersion = 0x76"
| "packet_code Login = 0xab"
| "packet_code APWelcome = 0xac"
| "packet_code AuthFailure = 0xad"
| "packet_code MercuryReq = 0xb2"
| "packet_code MercurySub = 0xb3"
| "packet_code MercuryUnsub = 0xb4"
| "packet_code MercuryEvent = 0xb5"
| "packet_code TrackEndedTime = 0x82"
| "packet_code UnknownDataAllZeros = 0x1f"
| "packet_code PreferredLocale = 0x74"
| "packet_code Unknown0x0f = 0x0f"
| "packet_code Unknown0x10 = 0x10"
| "packet_code Unknown0x4f = 0x4f"
| "packet_code Unknown0xb6 = 0xb6"

definition packet_types :: "PacketType list" where
  "packet_types =
     [SecretBlock, Ping, StreamChunk, StreamChunkRes, ChannelErrorPacket, ChannelAbort, RequestKey,
      AesKey, AesKeyError, Image, CountryCode, Pong, PongAck, Pause, ProductInfo, LegacyWelcome,
      LicenseVersion, Login, APWelcome, AuthFailure, MercuryReq, MercurySub, MercuryUnsub,
      MercuryEvent, TrackEndedTime, UnknownDataAllZeros, PreferredLocale, Unknown0x0f, Unknown0x10,
      Unknown0x4f, Unknown0xb6]"

text \<open>\<open>FromPrimitive::from_u8\<close>: the variant with this discriminant.\<close>

definition packet_from_u8 :: "u8 \<Rightarrow> PacketType option" where
  "packet_from_u8 c = List.find (\<lambda>p. packet_code p = c) packet_types"

lemma packet_types_all: "p \<in> set packet_types"
  by (cases p) (simp_all add: packet_types_def)

lemma packet_from_code [simp]: "packet_from_u8 (packet_code p) = Some p"
  by (cases p) (simp_all add: packet_from_u8_def packet_types_def)

lemma packet_from_u8_Some: "packet_from_u8 c = Some p \<longleftrightarrow> packet_code p = c"
proof
  show "packet_code p = c" if "packet_from_u8 c = Some p"
    using that by (auto simp: packet_from_u8_def find_Some_iff)
qed auto

lemma packet_code_inject: "packet_code p = packet_code q \<longleftrightarrow> p = q"
  by (metis option.inject packet_from_code)

section \<open>Sequence numbers\<close>

text \<open>\<open>SeqGenerator::get\<close>: the current value; the next one wraps around.\<close>

definition seq_get :: "'w::len word \<Rightarrow> 'w word \<times> 'w word" where
  "seq_get s = (s, s + 1)"

fun seq_gets :: "nat \<Rightarrow> 'w::len word \<Rightarrow> 'w word list" where
  "seq_gets 0 s = []"
| "seq_gets (Suc n) s = fst (seq_get s) # seq_gets n (snd (seq_get s))"

lemma seq_gets_nth: "i < n \<Longrightarrow> seq_gets n s ! i = s + of_nat i"
  by (induction n arbitrary: s i) (auto simp: seq_get_def nth_Cons' algebra_simps of_nat_diff)

lemma length_seq_gets [simp]: "length (seq_gets n s) = n"
  by (induction n arbitrary: s) (auto simp: seq_get_def)

text \<open>As many numbers in a row as the width allows are different.\<close>

lemma seq_gets_distinct:
  fixes s :: "'w::len word"
  assumes "n \<le> 2 ^ LENGTH('w)"
  shows "distinct (seq_gets n s)"
proof (unfold distinct_conv_nth, intro allI impI)
  fix i j assume ij: "i < length (seq_gets n s)" "j < length (seq_gets n s)" "i \<noteq> j"
  then have "(of_nat i :: 'w word) \<noteq> of_nat j"
    using assms by (simp add: word_unat_eq_iff unat_of_nat take_bit_eq_mod)
  with ij show "seq_gets n s ! i \<noteq> seq_gets n s ! j" by (simp add: seq_gets_nth)
qed

section \<open>Bytes\<close>

fun be_bytes :: "nat \<Rightarrow> nat \<Rightarrow> u8 list" where
  "be_bytes 0 n = []"
| "be_bytes (Suc k) n = be_bytes k (n div 256) @ [of_nat n]"

definition be_value :: "u8 list \<Rightarrow> nat" where
  "be_value bs = foldl (\<lambda>a b. a * 256 + unat b) 0 bs"

lemma be_value_snoc [simp]: "be_value (bs @ [b]) = be_value bs * 256 + unat b"
  by (simp add: be_value_def)

lemma be_value_Nil [simp]: "be_value [] = 0"
  by (simp add: be_value_def)

lemma length_be_bytes [simp]: "length (be_bytes k n) = k"
  by (induction k arbitrary: n) auto

lemma be_bytes_empty [simp]: "be_bytes k n = [] \<longleftrightarrow> k = 0"
  by (metis length_0_conv length_be_bytes)

lemma unat_byte: "unat (of_nat n :: u8) = n mod 256"
  by (simp add: unat_of_nat take_bit_eq_mod)

lemma be_value_bytes: "be_value (be_bytes k n) = n mod 256 ^ k"
proof (induction k arbitrary: n)
  case (Suc k)
  have "be_value (be_bytes (Suc k) n) = (n div 256) mod 256 ^ k * 256 + n mod 256"
    by (simp add: Suc.IH unat_byte)
  also have "\<dots> = n mod (256 * 256 ^ k)" by (simp add: mod_mult2_eq)
  finally show ?case by simp
qed simp

lemma be_value_bytes_small [simp]: "n < 256 ^ k \<Longrightarrow> be_value (be_bytes k n) = n"
  by (simp add: be_value_bytes)

lemma be_value_less: "be_value bs < 256 ^ length bs"
proof (induction bs rule: rev_induct)
  case (snoc b bs)
  have "unat b < 256" using unsigned_less [of b] by simp
  with snoc show ?case by simp
qed simp

text \<open>
  \<open>BigEndian::read_u16(data.split_to(2))\<close> and \<open>data.split_to(n)\<close>: what is left is the second
  component.
\<close>

definition split_to :: "nat \<Rightarrow> u8 list \<Rightarrow> ('e, u8 list \<times> u8 list) fallible" where
  "split_to n data = (if n \<le> length data then Ok (take n data, drop n data) else Err Panic)"

definition take_u16 :: "u8 list \<Rightarrow> ('e, nat \<times> u8 list) fallible" where
  "take_u16 data = and_then (split_to 2 data) (\<lambda>(b, rest). Ok (be_value b, rest))"

lemma split_to_append [simp]: "length a = n \<Longrightarrow> split_to n (a @ b) = Inr (a, b)"
  by (auto simp: split_to_def)

lemma split_to_one [simp]: "split_to (Suc 0) (i # xs) = Inr ([i], xs)"
  by (simp add: split_to_def)

lemma split_to_short: "length data < n \<Longrightarrow> split_to n data = Inl Panic"
  by (simp add: split_to_def)

lemma split_to_Ok: "split_to n data = Inr (a, b) \<Longrightarrow> data = a @ b \<and> length a = n"
  by (auto simp: split_to_def split: if_splits)

lemma take_u16_append [simp]: "n < 65536 \<Longrightarrow> take_u16 (be_bytes 2 n @ b) = Inr (n, b)"
  by (simp add: take_u16_def)

lemma take_u16_Ok:
  assumes "take_u16 data = Inr (n, b)"
  shows "length data = 2 + length b \<and> n < 65536"
proof -
  obtain x where x: "data = x @ b" "length x = 2" "n = be_value x"
    using assms by (auto simp: take_u16_def and_then_eq_Ok dest!: split_to_Ok)
  then show ?thesis using be_value_less [of x] by simp
qed

end
