(* ===== verification/Ap_Codec.thy ===== *)
theory Ap_Codec
  imports Wire
begin

text \<open>
  The framing of the connection to the access point, \<open>core/src/connection/codec.rs\<close>: a packet is a
  command, a 16-bit length and a payload, encrypted with the Shannon stream cipher under a nonce
  that counts packets, and followed by a four-byte authentication code.

  The cipher (the \<open>shannon\<close> crate) is a parameter, a record of its operations on a state of any
  type. What the code relies on is \<open>shannon_laws\<close>: encryption works byte by byte on the stream and
  decryption inverts it and leaves the same state, setting a nonce makes the state depend on the
  key and the nonce only, and checking an authentication code compares it with the one that
  finishing gives. The increments of the 32-bit nonces are checked.
\<close>

record 'c Shannon =
  new_cipher :: "u8 list \<Rightarrow> 'c"
  nonce_u32 :: "u32 \<Rightarrow> 'c \<Rightarrow> 'c"
  encrypt :: "u8 list \<Rightarrow> 'c \<Rightarrow> u8 list \<times> 'c"
  decrypt :: "u8 list \<Rightarrow> 'c \<Rightarrow> u8 list \<times> 'c"
  finish_mac :: "nat \<Rightarrow> 'c \<Rightarrow> u8 list \<times> 'c"
  check_mac :: "u8 list \<Rightarrow> 'c \<Rightarrow> bool \<times> 'c"

definition HEADER_SIZE :: nat where
  "HEADER_SIZE = 3"

definition MAC_SIZE :: nat where
  "MAC_SIZE = 4"

datatype CodecError = PayloadMalformed | MacMismatch

datatype DecodeState = HeaderState | PayloadState u8 nat

record 'c ApCodec =
  encode_nonce :: u32
  encode_cipher :: 'c
  decode_nonce :: u32
  decode_cipher :: 'c
  decode_state :: DecodeState

definition codec_new :: "'c Shannon \<Rightarrow> u8 list \<Rightarrow> u8 list \<Rightarrow> 'c ApCodec" where
  "codec_new S send_key recv_key =
     \<lparr>encode_nonce = 0, encode_cipher = new_cipher S send_key,
      decode_nonce = 0, decode_cipher = new_cipher S recv_key, decode_state = HeaderState\<rparr>"

definition checked_inc :: "u32 \<Rightarrow> ('e, u32) fallible" where
  "checked_inc n = (if n = - 1 then Err Panic else Ok (n + 1))"

definition frame_text :: "u8 \<Rightarrow> u8 list \<Rightarrow> u8 list" where
  "frame_text cmd payload = cmd # be_bytes 2 (length payload) @ payload"

definition encode ::
  "'c Shannon \<Rightarrow> u8 \<times> u8 list \<Rightarrow> 'c ApCodec \<Rightarrow> u8 list \<Rightarrow> (CodecError, unit) fallible \<times> 'c ApCodec \<times> u8 list" where
  "encode S item c buf =
     (let (cmd, payload) = item;
          cipher = nonce_u32 S (encode_nonce c) (encode_cipher c)
      in case checked_inc (encode_nonce c) of
           Inl e \<Rightarrow> (Err e, c\<lparr>encode_cipher := cipher\<rparr>, buf @ frame_text cmd payload)
         | Inr n \<Rightarrow>
             (let (text, cipher) = encrypt S (frame_text cmd payload) cipher;
                  (mac, cipher) = finish_mac S MAC_SIZE cipher
              in (Ok (), c\<lparr>encode_nonce := n, encode_cipher := cipher\<rparr>, buf @ text @ mac)))"

text \<open>The two \<open>if let\<close> blocks of \<open>decode\<close>.\<close>

definition decode_header ::
  "'c Shannon \<Rightarrow> 'c ApCodec \<Rightarrow> u8 list \<Rightarrow> (CodecError, unit) fallible \<times> 'c ApCodec \<times> u8 list" where
  "decode_header S c buf =
     (if decode_state c = HeaderState \<and> HEADER_SIZE \<le> length buf
      then let header = take HEADER_SIZE buf; rest = drop HEADER_SIZE buf;
               cipher = nonce_u32 S (decode_nonce c) (decode_cipher c)
           in case checked_inc (decode_nonce c) of
                Inl e \<Rightarrow> (Err e, c\<lparr>decode_cipher := cipher\<rparr>, rest)
              | Inr n \<Rightarrow>
                  (let (header, cipher) = decrypt S header cipher
                   in (Ok (), c\<lparr>decode_nonce := n, decode_cipher := cipher,
                               decode_state := PayloadState (header ! 0) (be_value (tl header))\<rparr>, rest))
      else (Ok (), c, buf))"

definition decode_payload ::
  "'c Shannon \<Rightarrow> 'c ApCodec \<Rightarrow> u8 list
   \<Rightarrow> (CodecError, (u8 \<times> u8 list) option) fallible \<times> 'c ApCodec \<times> u8 list" where
  "decode_payload S c buf =
     (case decode_state c of
        HeaderState \<Rightarrow> (Ok None, c, buf)
      | PayloadState cmd n \<Rightarrow>
          if n + MAC_SIZE \<le> length buf
          then let payload = take (n + MAC_SIZE) buf; rest = drop (n + MAC_SIZE) buf
               in if n \<le> length payload
                  then let (text, cipher) = decrypt S (take n payload) (decode_cipher c);
                           (ok, cipher) = check_mac S (drop n payload) cipher;
                           c' = c\<lparr>decode_state := HeaderState, decode_cipher := cipher\<rparr>
                       in (if ok then Ok (Some (cmd, text)) else Err (Fail MacMismatch), c', rest)
                  else (Err (Fail PayloadMalformed), c\<lparr>decode_state := HeaderState\<rparr>, rest)
          else (Ok None, c, buf))"

definition decode ::
  "'c Shannon \<Rightarrow> 'c ApCodec \<Rightarrow> u8 list
   \<Rightarrow> (CodecError, (u8 \<times> u8 list) option) fallible \<times> 'c ApCodec \<times> u8 list" where
  "decode S c buf =
     (case decode_header S c buf of
        (Inl e, c', rest) \<Rightarrow> (Err e, c', rest)
      | (Inr _, c', rest) \<Rightarrow> decode_payload S c' rest)"

section \<open>The reading loop\<close>

text \<open>
  A framed reader decodes until a frame is incomplete or broken. Every frame takes at least its
  authentication code off the buffer, so the loop ends.
\<close>

lemma decode_payload_shorter:
  "decode_payload S c buf = (Inr (Some f), c', rest) \<Longrightarrow> length rest < length buf"
  by (auto simp: decode_payload_def Let_def MAC_SIZE_def split: DecodeState.splits if_splits prod.splits)

lemma decode_header_shorter: "decode_header S c buf = (r, c', rest) \<Longrightarrow> length rest \<le> length buf"
  by (auto simp: decode_header_def Let_def split: if_splits sum.splits prod.splits)

lemma decode_shorter:
  "decode S c buf = (Inr (Some f), c', rest) \<Longrightarrow> length rest < length buf"
  by (auto simp: decode_def dest!: decode_payload_shorter decode_header_shorter
      split: prod.splits sum.splits)

function (sequential) decode_frames ::
  "'c Shannon \<Rightarrow> 'c ApCodec \<Rightarrow> u8 list
   \<Rightarrow> (u8 \<times> u8 list) list \<times> (CodecError, unit) fallible \<times> 'c ApCodec \<times> u8 list" where
  "decode_frames S c buf =
     (case decode S c buf of
        (Inr (Some f), c', rest) \<Rightarrow> (let (fs, r) = decode_frames S c' rest in (f # fs, r))
      | (Inr None, c', rest) \<Rightarrow> ([], Ok (), c', rest)
      | (Inl e, c', rest) \<Rightarrow> ([], Err e, c', rest))"
  by pat_completeness auto
termination
  by (relation "measure (\<lambda>(S, c, buf). length buf)") (auto dest!: decode_shorter [OF sym])

declare decode_frames.simps [simp del]

fun feed ::
  "'c Shannon \<Rightarrow> 'c ApCodec \<Rightarrow> u8 list \<Rightarrow> u8 list list
   \<Rightarrow> (u8 \<times> u8 list) list \<times> (CodecError, unit) fallible \<times> 'c ApCodec \<times> u8 list" where
  "feed S c buf [] = ([], Ok (), c, buf)"
| "feed S c buf (chunk # chunks) =
     (case decode_frames S c (buf @ chunk) of
        (fs, Inl e, c', rest) \<Rightarrow> (fs, Err e, c', rest)
      | (fs, Inr _, c', rest) \<Rightarrow> (let (fs', r) = feed S c' rest chunks in (fs @ fs', r)))"

section \<open>Chunks do not matter\<close>

lemma decode_header_append:
  "decode_header S c buf = (r, c', rest) \<Longrightarrow> (decode_state c = HeaderState \<Longrightarrow> HEADER_SIZE \<le> length buf) \<Longrightarrow>
   decode_header S c (buf @ x) = (r, c', rest @ x)"
  by (auto simp: decode_header_def Let_def split: if_splits sum.splits prod.splits)

lemma decode_payload_append:
  "decode_payload S c buf = (r, c', rest) \<Longrightarrow> r \<noteq> Inr None \<Longrightarrow>
   decode_payload S c (buf @ x) = (r, c', rest @ x)"
  by (auto simp: decode_payload_def Let_def split: if_splits prod.splits DecodeState.splits)

lemma decode_header_idle:
  "\<not> (decode_state c = HeaderState \<and> HEADER_SIZE \<le> length buf) \<Longrightarrow> decode_header S c buf = (Ok (), c, buf)"
  by (auto simp: decode_header_def)

lemma decode_header_state:
  "decode_header S c buf = (Inr u, c', rest) \<Longrightarrow> decode_state c = HeaderState \<Longrightarrow> HEADER_SIZE \<le> length buf \<Longrightarrow>
   decode_state c' \<noteq> HeaderState"
  by (auto simp: decode_header_def Let_def split: sum.splits prod.splits)

text \<open>A result other than "not yet" does not change when more bytes follow.\<close>

lemma decode_append:
  assumes "decode S c buf = (r, c', rest)" "r \<noteq> Inr None"
  shows "decode S c (buf @ x) = (r, c', rest @ x)"
proof -
  obtain h c1 b1 where h: "decode_header S c buf = (h, c1, b1)" by (metis prod_cases3)
  have long: "HEADER_SIZE \<le> length buf" if "decode_state c = HeaderState"
  proof (rule ccontr)
    assume "\<not> HEADER_SIZE \<le> length buf"
    then have "decode S c buf = (Inr None, c, buf)"
      using that by (simp add: decode_def decode_header_idle decode_payload_def)
    with assms show False by simp
  qed
  from decode_header_append [OF h long] assms h show ?thesis
    by (auto simp: decode_def decode_payload_append split: sum.splits)
qed

text \<open>After "not yet", more bytes are decoded as if all had been there from the start.\<close>

lemma decode_resume:
  assumes "decode S c buf = (Inr None, c', rest)"
  shows "decode S c (buf @ x) = decode S c' (rest @ x)"
proof (cases "decode_state c = HeaderState \<and> HEADER_SIZE \<le> length buf")
  case True
  obtain h c1 b1 where h: "decode_header S c buf = (h, c1, b1)" by (metis prod_cases3)
  with assms obtain u where u: "h = Inr u" by (cases h) (auto simp: decode_def)
  have p: "decode_payload S c1 b1 = (Inr None, c', rest)" using assms h u by (simp add: decode_def)
  have st: "decode_state c1 \<noteq> HeaderState" using decode_header_state [OF h [unfolded u]] True by simp
  then have same: "c' = c1 \<and> rest = b1"
    using p by (auto simp: decode_payload_def Let_def split: DecodeState.splits if_splits prod.splits)
  have "decode S c (buf @ x) = decode_payload S c1 (b1 @ x)"
    using decode_header_append [OF h] True u by (simp add: decode_def)
  also have "\<dots> = decode S c1 (b1 @ x)" using st by (simp add: decode_def decode_header_idle)
  finally show ?thesis using same by simp
next
  case False
  then have "decode_payload S c buf = (Inr None, c', rest)"
    using assms decode_header_idle [OF False] by (simp add: decode_def)
  then have "c' = c \<and> rest = buf"
    by (auto simp: decode_payload_def Let_def split: DecodeState.splits if_splits prod.splits)
  then show ?thesis by simp
qed

lemma decode_frames_append:
  "decode_frames S c (buf @ x) =
     (case decode_frames S c buf of
        (fs, Inl e, c', rest) \<Rightarrow> (fs, Inl e, c', rest @ x)
      | (fs, Inr _, c', rest) \<Rightarrow> (let (fs', r) = decode_frames S c' (rest @ x) in (fs @ fs', r)))"
proof (induction S c buf rule: decode_frames.induct)
  case (1 S c buf)
  obtain r c' rest where d: "decode S c buf = (r, c', rest)" by (metis prod_cases3)
  consider (err) e where "r = Inl e" | (none) "r = Inr None" | (some) f where "r = Inr (Some f)"
    by (metis option.exhaust sum.exhaust)
  then show ?case
  proof cases
    case err
    with decode_append [OF d] d show ?thesis
      by (simp add: decode_frames.simps [of S c buf] decode_frames.simps [of S c "buf @ x"])
  next
    case none
    then have "decode S c (buf @ x) = decode S c' (rest @ x)" using decode_resume d by simp
    then have "decode_frames S c (buf @ x) = decode_frames S c' (rest @ x)"
      by (simp add: decode_frames.simps [of S c "buf @ x"] decode_frames.simps [of S c' "rest @ x"])
    with none d show ?thesis by (simp add: decode_frames.simps [of S c buf])
  next
    case some
    with decode_append [OF d] have "decode S c (buf @ x) = (Inr (Some f), c', rest @ x)" by simp
    with some d "1.IH" [OF d [symmetric]] show ?thesis
      by (simp add: decode_frames.simps [of S c buf] decode_frames.simps [of S c "buf @ x"]
          split: prod.splits sum.splits)
  qed
qed

lemma feed_concat:
  assumes "decode_frames S c (buf @ concat chunks) = (fs, r, c', rest)" "r = Ok ()"
    "decode_frames S c buf = ([], Ok (), c, buf)"
  shows "feed S c buf chunks = (fs, r, c', rest)"
  using assms
proof (induction chunks arbitrary: c buf fs)
  case Nil
  then show ?case by simp
next
  case (Cons x chunks)
  obtain gs q c1 b1 where d: "decode_frames S c (buf @ x) = (gs, q, c1, b1)" by (metis prod_cases4)
  have all: "(case (gs, q, c1, b1) of
        (gs, Inl e, c1, b1) \<Rightarrow> (gs, Inl e, c1, b1 @ concat chunks)
      | (gs, Inr _, c1, b1) \<Rightarrow> (let (fs', r) = decode_frames S c1 (b1 @ concat chunks) in (gs @ fs', r)))
      = (fs, r, c', rest)"
    using Cons.prems(1) decode_frames_append [of S c "buf @ x" "concat chunks"] d by simp
  with Cons.prems(2) obtain u where u: "q = Inr u" by (cases q) auto
  obtain hs where hs: "decode_frames S c1 (b1 @ concat chunks) = (hs, r, c', rest)" "fs = gs @ hs"
    using all u by (auto split: prod.splits)
  have "decode_frames S c1 b1 = ([], Ok (), c1, b1)"
    using decode_frames_append [of S c "buf @ x" "[]"] d u by (auto split: prod.splits)
  from Cons.IH [OF hs(1) Cons.prems(2) this] show ?case by (simp add: d u hs(2))
qed

section \<open>Encoding and decoding\<close>

definition shannon_laws :: "'c Shannon \<Rightarrow> bool" where
  "shannon_laws S \<longleftrightarrow>
     (\<forall>d c. length (fst (encrypt S d c)) = length d) \<and>
     (\<forall>d c. length (fst (decrypt S d c)) = length d) \<and>
     (\<forall>x y c. encrypt S (x @ y) c =
        (let (a, c1) = encrypt S x c; (b, c2) = encrypt S y c1 in (a @ b, c2))) \<and>
     (\<forall>d c. decrypt S (fst (encrypt S d c)) c = (d, snd (encrypt S d c))) \<and>
     (\<forall>n d c. nonce_u32 S n (snd (encrypt S d c)) = nonce_u32 S n c) \<and>
     (\<forall>n d c. nonce_u32 S n (snd (decrypt S d c)) = nonce_u32 S n c) \<and>
     (\<forall>n m c. nonce_u32 S n (nonce_u32 S m c) = nonce_u32 S n c) \<and>
     (\<forall>n k c. nonce_u32 S n (snd (finish_mac S k c)) = nonce_u32 S n c) \<and>
     (\<forall>n m c. nonce_u32 S n (snd (check_mac S m c)) = nonce_u32 S n c) \<and>
     (\<forall>k c. length (fst (finish_mac S k c)) = k) \<and>
     (\<forall>m c. fst (check_mac S m c) \<longleftrightarrow> m = fst (finish_mac S (length m) c))"

lemma shannon_lawsD:
  assumes "shannon_laws S"
  shows "length (fst (encrypt S d c)) = length d" "length (fst (decrypt S d c)) = length d"
    "encrypt S (x @ y) c = (fst (encrypt S x c) @ fst (encrypt S y (snd (encrypt S x c))),
       snd (encrypt S y (snd (encrypt S x c))))"
    "decrypt S (fst (encrypt S d c)) c = (d, snd (encrypt S d c))"
    "nonce_u32 S n (snd (encrypt S d c)) = nonce_u32 S n c"
    "nonce_u32 S n (snd (decrypt S d c)) = nonce_u32 S n c"
    "nonce_u32 S n (nonce_u32 S m c) = nonce_u32 S n c"
    "nonce_u32 S n (snd (finish_mac S k c)) = nonce_u32 S n c"
    "nonce_u32 S n (snd (check_mac S t c)) = nonce_u32 S n c"
    "length (fst (finish_mac S k c)) = k"
    "fst (check_mac S t c) \<longleftrightarrow> t = fst (finish_mac S (length t) c)"
  using assms unfolding shannon_laws_def Let_def by (simp_all add: case_prod_beta)

text \<open>An encoder and a decoder with the same key that have seen the same number of packets.\<close>

definition in_step :: "'c Shannon \<Rightarrow> 'c ApCodec \<Rightarrow> 'c ApCodec \<Rightarrow> bool" where
  "in_step S e d \<longleftrightarrow>
     encode_nonce e = decode_nonce d \<and> decode_state d = HeaderState \<and>
     (\<forall>n. nonce_u32 S n (encode_cipher e) = nonce_u32 S n (decode_cipher d))"

definition frame_header :: "u8 \<Rightarrow> u8 list \<Rightarrow> u8 list" where
  "frame_header cmd payload = cmd # be_bytes 2 (length payload)"

lemma frame_header_simps [simp]:
  "length (frame_header cmd payload) = 3" "frame_header cmd payload ! 0 = cmd"
  "tl (frame_header cmd payload) = be_bytes 2 (length payload)"
  by (simp_all add: frame_header_def)

lemma frame_text_split: "frame_text cmd payload = frame_header cmd payload @ payload"
  by (simp add: frame_text_def frame_header_def)

text \<open>What an encoder writes for one packet: encrypted header, encrypted payload, code.\<close>

lemma encode_parts:
  assumes "shannon_laws S" "encode S (cmd, p) e [] = (Ok (), e', b)"
  defines "c0 \<equiv> nonce_u32 S (encode_nonce e) (encode_cipher e)"
  defines "c1 \<equiv> snd (encrypt S (frame_header cmd p) c0)"
  defines "c2 \<equiv> snd (encrypt S p c1)"
  shows "b = fst (encrypt S (frame_header cmd p) c0) @ fst (encrypt S p c1) @ fst (finish_mac S 4 c2)"
    "encode_nonce e' = encode_nonce e + 1" "encode_nonce e \<noteq> - 1"
    "nonce_u32 S n (encode_cipher e') = nonce_u32 S n (encode_cipher e)"
proof -
  note laws = shannon_lawsD [OF assms(1)]
  have eq: "encrypt S (frame_text cmd p) c0 =
      (fst (encrypt S (frame_header cmd p) c0) @ fst (encrypt S p c1), c2)"
    unfolding frame_text_split c1_def c2_def by (rule laws(3))
  have n: "encode_nonce e \<noteq> - 1"
    using assms(2) by (auto simp: encode_def checked_inc_def Let_def split: if_splits)
  then have e': "e' = e\<lparr>encode_nonce := encode_nonce e + 1, encode_cipher := snd (finish_mac S 4 c2)\<rparr>"
    and b: "b = fst (encrypt S (frame_header cmd p) c0) @ fst (encrypt S p c1) @ fst (finish_mac S 4 c2)"
    using assms(2) eq unfolding c0_def
    by (simp_all add: encode_def checked_inc_def Let_def MAC_SIZE_def case_prod_beta)
  show "b = fst (encrypt S (frame_header cmd p) c0) @ fst (encrypt S p c1) @ fst (finish_mac S 4 c2)" by (rule b)
  show "encode_nonce e' = encode_nonce e + 1" "encode_nonce e \<noteq> - 1" using n by (simp_all add: e')
  show "nonce_u32 S n (encode_cipher e') = nonce_u32 S n (encode_cipher e)"
    by (simp add: e' laws(8) c2_def c1_def c0_def laws(5) laws(7))
qed

text \<open>The decoder after the header of that packet.\<close>

lemma decode_header_step:
  assumes "shannon_laws S" "in_step S e d" "encode_nonce e \<noteq> - 1"
  defines "c0 \<equiv> nonce_u32 S (encode_nonce e) (encode_cipher e)"
  shows "decode_header S d (fst (encrypt S (frame_header cmd p) c0) @ x) =
    (Ok (), d\<lparr>decode_nonce := decode_nonce d + 1, decode_cipher := snd (encrypt S (frame_header cmd p) c0),
             decode_state := PayloadState cmd (length p mod 65536)\<rparr>, x)"
proof -
  note laws = shannon_lawsD [OF assms(1)]
  have c0: "nonce_u32 S (decode_nonce d) (decode_cipher d) = c0" "decode_state d = HeaderState" "decode_nonce d \<noteq> - 1"
    using assms(2,3) by (simp_all add: in_step_def c0_def)
  have len: "length (fst (encrypt S (frame_header cmd p) c0)) = 3" by (simp add: laws(1))
  have val: "be_value (be_bytes 2 (length p)) = length p mod 65536"
    using be_value_bytes [of 2 "length p"] by simp
  show ?thesis
    using c0 len by (simp add: decode_header_def HEADER_SIZE_def checked_inc_def laws(4) Let_def val)
qed

lemma encode_decode:
  assumes "shannon_laws S" "in_step S e d" "encode S (cmd, p) e [] = (Ok (), e', b)" "length p < 65536"
  shows "\<exists>d'. in_step S e' d' \<and> (\<forall>x. decode S d (b @ x) = (Ok (Some (cmd, p)), d', x))"
proof -
  note laws = shannon_lawsD [OF assms(1)]
  define c0 where "c0 = nonce_u32 S (encode_nonce e) (encode_cipher e)"
  define c1 where "c1 = snd (encrypt S (frame_header cmd p) c0)"
  define c2 where "c2 = snd (encrypt S p c1)"
  note enc = encode_parts [OF assms(1,3), folded c0_def, folded c1_def, folded c2_def]
  let ?mac = "fst (finish_mac S 4 c2)"
  define d1 where "d1 = d\<lparr>decode_nonce := decode_nonce d + 1, decode_cipher := c1, decode_state := PayloadState cmd (length p)\<rparr>"
  have h: "decode_header S d (b @ x) = (Ok (), d1, fst (encrypt S p c1) @ ?mac @ x)" for x
    using decode_header_step [OF assms(1,2) enc(3), of cmd p, folded c0_def, folded c1_def] assms(4)
    by (simp add: enc(1) d1_def)
  have len: "length (fst (encrypt S p c1)) = length p" "length ?mac = 4" by (simp_all add: laws)
  obtain c3 where c3: "check_mac S ?mac c2 = (True, c3)"
    using laws(11) [of ?mac c2] len(2) by (metis prod.collapse)
  define d2 where "d2 = d1\<lparr>decode_state := HeaderState, decode_cipher := c3\<rparr>"
  have n3: "nonce_u32 S n c3 = nonce_u32 S n c2" for n using laws(9) [of n ?mac c2] by (simp add: c3)
  have "decrypt S (fst (encrypt S p c1)) c1 = (p, c2)" by (simp add: laws(4) c2_def)
  with c3 have "decode_payload S d1 (fst (encrypt S p c1) @ ?mac @ x) = (Ok (Some (cmd, p)), d2, x)" for x
    using len by (simp add: decode_payload_def d1_def d2_def MAC_SIZE_def)
  with h have "decode S d (b @ x) = (Ok (Some (cmd, p)), d2, x)" for x by (simp add: decode_def)
  moreover have "in_step S e' d2"
    using assms(2) enc(2,4)
    by (simp add: in_step_def d2_def d1_def n3 c2_def c1_def c0_def laws(5) laws(7))
  ultimately show ?thesis by blast
qed

fun encode_all ::
  "'c Shannon \<Rightarrow> (u8 \<times> u8 list) list \<Rightarrow> 'c ApCodec \<Rightarrow> (CodecError, unit) fallible \<times> 'c ApCodec \<times> u8 list" where
  "encode_all S [] c = (Ok (), c, [])"
| "encode_all S (p # ps) c =
     (case encode S p c [] of
        (Inl e, c', b) \<Rightarrow> (Err e, c', b)
      | (Inr _, c', b) \<Rightarrow> (let (r, c'', b') = encode_all S ps c' in (r, c'', b @ b')))"

lemma encode_ok:
  "encode_nonce e \<noteq> - 1 \<Longrightarrow> \<exists>e' b. encode S p e [] = (Ok (), e', b) \<and> encode_nonce e' = encode_nonce e + 1"
  by (simp add: encode_def checked_inc_def case_prod_beta Let_def)

lemma decode_frames_idle: "decode_state c = HeaderState \<Longrightarrow> decode_frames S c [] = ([], Ok (), c, [])"
  by (simp add: decode_frames.simps [of S c "[]"] decode_def decode_header_idle HEADER_SIZE_def
      decode_payload_def)

lemma encode_all_decode:
  assumes "shannon_laws S" "in_step S e d" "list_all (\<lambda>(_, p). length p < 65536) ps"
    "unat (encode_nonce e) + length ps < 2 ^ 32"
  shows "\<exists>e' b d'. encode_all S ps e = (Ok (), e', b) \<and> decode_frames S d b = (ps, Ok (), d', [])"
  using assms(2-)
proof (induction ps arbitrary: e d)
  case Nil
  then show ?case by (simp add: decode_frames_idle in_step_def)
next
  case (Cons q ps)
  obtain cmd p where q: "q = (cmd, p)" by (cases q)
  have "encode_nonce e \<noteq> - 1" 
  proof
    assume "encode_nonce e = - 1"
    moreover have "unat (- 1 :: u32) = 2 ^ 32 - 1" by (simp add: unsigned_minus_1_eq_mask mask_eq_exp_minus_1)
    ultimately show False using Cons.prems(3) by simp
  qed
  then obtain e1 b1 where e1: "encode S q e [] = (Ok (), e1, b1)" "encode_nonce e1 = encode_nonce e + 1"
    using encode_ok by blast
  have "unat (encode_nonce e + 1) = unat (encode_nonce e) + 1"
    using Cons.prems(3) by (simp add: unat_word_ariths)
  then have small: "unat (encode_nonce e1) + length ps < 2 ^ 32" using Cons.prems(3) e1(2) by simp
  have len: "length p < 65536" "list_all (\<lambda>(_, p). length p < 65536) ps" using Cons.prems(2) by (simp_all add: q)
  from encode_decode [OF assms(1) Cons.prems(1) e1(1) [unfolded q] len(1)]
  obtain d1 where d1: "\<And>x. decode S d (b1 @ x) = (Ok (Some q), d1, x)" "in_step S e1 d1"
    unfolding q by blast
  obtain e' b d' where r: "encode_all S ps e1 = (Ok (), e', b)" "decode_frames S d1 b = (ps, Ok (), d', [])"
    using Cons.IH [OF d1(2) len(2) small] by blast
  have "decode_frames S d (b1 @ b) = (q # ps, Ok (), d', [])"
    by (simp add: decode_frames.simps [of S d "b1 @ b"] d1(1) r(2))
  with e1(1) r(1) show ?case by simp
qed

lemma codec_new_in_step: "in_step S (codec_new S key key1) (codec_new S key2 key)"
  by (simp add: in_step_def codec_new_def)

text \<open>From one fresh codec to another one with the same key, in chunks.\<close>

lemma frames_through:
  assumes "shannon_laws S" and "list_all (\<lambda>(_, p). length p < 65536) ps" and "length ps < 2 ^ 32"
  shows "\<exists>e bytes. encode_all S ps (codec_new S key key1) = (Ok (), e, bytes) \<and>
    (\<forall>chunks. concat chunks = bytes \<longrightarrow>
       (\<exists>d. feed S (codec_new S key2 key) [] chunks = (ps, Ok (), d, [])))"
proof -
  let ?d = "codec_new S key2 key"
  have "unat (encode_nonce (codec_new S key key1)) + length ps < 2 ^ 32"
    using assms(3) by (simp add: codec_new_def)
  from encode_all_decode [OF assms(1) codec_new_in_step assms(2) this, of key2]
  obtain e b d where r: "encode_all S ps (codec_new S key key1) = (Ok (), e, b)"
    "decode_frames S ?d b = (ps, Ok (), d, [])"
    by blast
  have idle: "decode_frames S ?d [] = ([], Ok (), ?d, [])"
    by (rule decode_frames_idle) (simp add: codec_new_def)
  have "feed S ?d [] chunks = (ps, Ok (), d, [])" if "concat chunks = b" for chunks
    using feed_concat [of S ?d "[]" chunks ps "Ok ()" d "[]"] r(2) idle that by simp
  with r(1) show ?thesis by blast
qed

text \<open>A simple cipher with these laws: every byte is shifted, the code is a checksum.\<close>

definition sample_shannon :: "(u8 \<times> u32 \<times> u8) Shannon" where
  "sample_shannon =
     \<lparr>new_cipher = (\<lambda>key. (sum_list key, 0, 0)),
      nonce_u32 = (\<lambda>n (k, _, _). (k, n, 0)),
      encrypt = (\<lambda>d (k, n, a). (map (\<lambda>b. b + k + ucast n) d, (k, n, a + sum_list d))),
      decrypt = (\<lambda>d (k, n, a). (map (\<lambda>b. b - k - ucast n) d,
                               (k, n, a + sum_list (map (\<lambda>b. b - k - ucast n) d)))),
      finish_mac = (\<lambda>m (k, n, a). (replicate m a, (k, n, a))),
      check_mac = (\<lambda>t (k, n, a). (t = replicate (length t) a, (k, n, a)))\<rparr>"

lemma sample_shannon_laws: "shannon_laws sample_shannon"
proof -
  have "map ((\<lambda>b. b - k - n) \<circ> (\<lambda>b. b + k + n)) d = d" for k n :: u8 and d
    by (rule map_idI) simp
  then show ?thesis
    by (simp add: shannon_laws_def sample_shannon_def case_prod_beta Let_def add.assoc)
qed

section \<open>Properties\<close>

text \<open>
  C7. Framing: whatever packets with payloads below 64 KiB are encoded, up to the number the nonce
  can count, and however the bytes are cut into chunks on the way, a decoder with the same key
  gives back exactly these packets in order, without an error and with nothing left over.
\<close>

theorem frames_roundtrip:
  assumes "shannon_laws S" and "list_all (\<lambda>(_, p). length p < 65536) ps" and "length ps < 2 ^ 32"
  shows "\<exists>e bytes. encode_all S ps (codec_new S key key1) = (Ok (), e, bytes) \<and>
    (\<forall>chunks. concat chunks = bytes \<longrightarrow>
       (\<exists>d. feed S (codec_new S key2 key) [] chunks = (ps, Ok (), d, [])))"
  using assms by (rule frames_through)

theorem frames_roundtrip_witness:
  "\<exists>e bytes. encode_all sample_shannon [(4, [1, 2, 3]), (0x49, []), (0xb2, [7])] (codec_new sample_shannon [9] []) =
      (Ok (), e, bytes) \<and>
    (\<forall>chunks. concat chunks = bytes \<longrightarrow>
       (\<exists>d. feed sample_shannon (codec_new sample_shannon [] [9]) [] chunks =
              ([(4, [1, 2, 3]), (0x49, []), (0xb2, [7])], Ok (), d, [])))"
  by (rule frames_roundtrip [OF sample_shannon_laws]) simp_all

text \<open>
  C14. Authentication: a frame whose code was replaced by any other four bytes is an error, its
  payload is not delivered, and the decoder has consumed the frame.
\<close>

theorem forged_frame_rejected:
  assumes "shannon_laws S" and "in_step S e d" and "encode S (cmd, p) e [] = (Ok (), e', b)"
    and "length p < 65536" and "length mac = MAC_SIZE" and "mac \<noteq> drop (3 + length p) b"
  shows "\<exists>d'. decode S d (take (3 + length p) b @ mac @ x) = (Err (Fail MacMismatch), d', x)"
proof -
  note laws = shannon_lawsD [OF assms(1)]
  define c0 where "c0 = nonce_u32 S (encode_nonce e) (encode_cipher e)"
  define c1 where "c1 = snd (encrypt S (frame_header cmd p) c0)"
  define c2 where "c2 = snd (encrypt S p c1)"
  note enc = encode_parts [OF assms(1,3), folded c0_def, folded c1_def, folded c2_def]
  define d1 where "d1 = d\<lparr>decode_nonce := decode_nonce d + 1, decode_cipher := c1, decode_state := PayloadState cmd (length p)\<rparr>"
  have len: "length (fst (encrypt S p c1)) = length p" "length (fst (encrypt S (frame_header cmd p) c0)) = 3"
    by (simp_all add: laws(1))
  then have b: "take (3 + length p) b = fst (encrypt S (frame_header cmd p) c0) @ fst (encrypt S p c1)"
    "drop (3 + length p) b = fst (finish_mac S 4 c2)"
    by (simp_all add: enc(1))
  have h: "decode_header S d (take (3 + length p) b @ mac @ x) = (Ok (), d1, fst (encrypt S p c1) @ mac @ x)"
    using decode_header_step [OF assms(1,2) enc(3), of cmd p, folded c0_def, folded c1_def] assms(4)
    by (simp add: b d1_def)
  obtain c3 where c3: "check_mac S mac c2 = (False, c3)"
    using laws(11) [of mac c2] assms(5,6) b(2) by (metis MAC_SIZE_def prod.collapse)
  have "decrypt S (fst (encrypt S p c1)) c1 = (p, c2)" by (simp add: laws(4) c2_def)
  with c3 len(1) assms(5) have "decode_payload S d1 (fst (encrypt S p c1) @ mac @ x) =
      (Err (Fail MacMismatch), d1\<lparr>decode_state := HeaderState, decode_cipher := c3\<rparr>, x)"
    by (simp add: decode_payload_def d1_def)
  with h show ?thesis by (auto simp: decode_def)
qed

theorem forged_frame_rejected_witness:
  "\<exists>e' b. encode sample_shannon (4, [1, 2]) (codec_new sample_shannon [9] []) [] = (Ok (), e', b) \<and>
     (\<exists>d'. decode sample_shannon (codec_new sample_shannon [] [9]) (take 5 b @ [0, 0, 0, 0] @ []) =
            (Err (Fail MacMismatch), d', []))"
proof -
  obtain e' b where e: "encode sample_shannon (4, [1, 2]) (codec_new sample_shannon [9] []) [] = (Ok (), e', b)"
    using encode_ok [of "codec_new sample_shannon [9] []"] by (force simp: codec_new_def)
  have "snd (snd (encode sample_shannon (4, [1, 2]) (codec_new sample_shannon [9] []) [])) =
      [13, 9, 11, 10, 11, 9, 9, 9, 9]"
    by code_simp
  then have "drop 5 b = [9, 9, 9, 9]" using e by simp
  with forged_frame_rejected [OF sample_shannon_laws codec_new_in_step e, of "[0, 0, 0, 0]"] e show ?thesis
    by (simp add: MAC_SIZE_def)
qed

text \<open>
  The length field has 16 bits and the encoder does not check the payload: a payload of 64 KiB
  or more is sent without an error, with its length cut to the low 16 bits, and no decoder gets it
  back.
\<close>

theorem long_payload_lost:
  assumes "shannon_laws S" and "in_step S e d" and "65536 \<le> length p" and "encode_nonce e \<noteq> - 1"
  shows "\<exists>e' b. encode S (cmd, p) e [] = (Ok (), e', b) \<and> fst (decode S d b) \<noteq> Ok (Some (cmd, p))"
proof -
  note laws = shannon_lawsD [OF assms(1)]
  obtain e' b where e: "encode S (cmd, p) e [] = (Ok (), e', b)" using encode_ok [OF assms(4)] by blast
  define c0 where "c0 = nonce_u32 S (encode_nonce e) (encode_cipher e)"
  define c1 where "c1 = snd (encrypt S (frame_header cmd p) c0)"
  define c2 where "c2 = snd (encrypt S p c1)"
  note enc = encode_parts [OF assms(1) e, folded c0_def, folded c1_def, folded c2_def]
  define d1 where "d1 = d\<lparr>decode_nonce := decode_nonce d + 1, decode_cipher := c1,
    decode_state := PayloadState cmd (length p mod 65536)\<rparr>"
  have h: "decode_header S d b = (Ok (), d1, fst (encrypt S p c1) @ fst (finish_mac S 4 c2))"
    using decode_header_step [OF assms(1,2) assms(4), of cmd p, folded c0_def, folded c1_def]
    by (simp add: enc(1) d1_def)
  have lenq: "length q = length p mod 65536" if "fst (decode_payload S d1 x) = Ok (Some (cmd', q))" for x cmd' q
  proof -
    have "decode_state d1 = PayloadState cmd (length p mod 65536)" by (simp add: d1_def)
    with that have "q = fst (decrypt S (take (length p mod 65536) (take (length p mod 65536 + MAC_SIZE) x)) (decode_cipher d1))"
      "length p mod 65536 + MAC_SIZE \<le> length x"
      by (simp_all add: decode_payload_def Let_def case_prod_beta split: if_splits)
    then show ?thesis by (simp add: laws(2))
  qed
  have "fst (decode S d b) \<noteq> Ok (Some (cmd, p))"
  proof
    assume "fst (decode S d b) = Ok (Some (cmd, p))"
    then have "length p = length p mod 65536" using h by (intro lenq) (simp add: decode_def)
    also have "\<dots> < 65536" by simp
    finally show False using assms(3) by simp
  qed
  with e show ?thesis by blast
qed

theorem long_payload_lost_witness:
  "\<exists>e' b. encode sample_shannon (4, replicate 65536 0) (codec_new sample_shannon [9] []) [] = (Ok (), e', b) \<and>
     fst (decode sample_shannon (codec_new sample_shannon [] [9]) b) \<noteq> Ok (Some (4, replicate 65536 0))"
  by (rule long_payload_lost [OF sample_shannon_laws codec_new_in_step]) (simp_all add: codec_new_def)

end
