(* ===== verification/Ap_Channel.thy ===== *)
theory Ap_Channel
  imports Wire
begin

text \<open>
  The channels of \<open>core/src/channel.rs\<close>: the manager hands out 16-bit ids, routes incoming packets
  to the channel they name and measures the download rate; a channel reads a block of headers and
  then data from its packets.

  A \<open>mpsc\<close> channel is an entry of the list \<open>queues\<close>, named by its index: the packets sent and not
  received yet, whether its sender and whether its receiver still exist. Times are nanoseconds.
  Every sender is held by the map of the manager, so clearing the map drops all of them.
\<close>

record Queue =
  items :: "(u8 \<times> u8 list) list"
  has_sender :: bool
  has_receiver :: bool

record ChannelManager =
  chan_sequence :: u16
  channels :: "u16 \<rightharpoonup> nat"
  queues :: "Queue list"
  download_rate_estimate :: usize
  download_measurement_start :: "nat option"
  download_measurement_bytes :: usize
  chan_invalid :: bool

datatype ChannelError = ChannelError

datatype ChannelState = HeaderSt "u8 list" | DataSt | ClosedSt

datatype ChannelEvent = HeaderEvent u8 "u8 list" | DataEvent "u8 list"

record Channel =
  receiver :: nat
  chan_state :: ChannelState

definition channel_manager_new :: ChannelManager where
  "channel_manager_new =
     \<lparr>chan_sequence = 0, channels = Map.empty, queues = [], download_rate_estimate = 0,
      download_measurement_start = None, download_measurement_bytes = 0, chan_invalid = False\<rparr>"

definition drop_sender :: "nat option \<Rightarrow> Queue list \<Rightarrow> Queue list" where
  "drop_sender i qs = (case i of None \<Rightarrow> qs | Some i \<Rightarrow> qs[i := (qs ! i)\<lparr>has_sender := False\<rparr>])"

text \<open>Inserting into the map drops the sender that was there under the same id.\<close>

definition allocate :: "ChannelManager \<Rightarrow> (u16 \<times> Channel) \<times> ChannelManager" where
  "allocate m =
     (let (seq, next_seq) = seq_get (chan_sequence m);
          i = length (queues m);
          m' = m\<lparr>chan_sequence := next_seq\<rparr>;
          m' = (if \<not> chan_invalid m
                then m'\<lparr>channels := (channels m)(seq \<mapsto> i),
                        queues := drop_sender (channels m seq) (queues m)
                                  @ [\<lparr>items = [], has_sender = True, has_receiver = True\<rparr>]\<rparr>
                else m'\<lparr>queues := queues m @ [\<lparr>items = [], has_sender = False, has_receiver = True\<rparr>]\<rparr>)
      in ((seq, \<lparr>receiver = i, chan_state = HeaderSt []\<rparr>), m'))"

definition measure_download :: "nat \<Rightarrow> nat \<Rightarrow> ChannelManager \<Rightarrow> ChannelManager" where
  "measure_download now n m =
     (let m' = (case download_measurement_start m of
                  Some start \<Rightarrow>
                    if 10 ^ 9 < now - start
                    then m\<lparr>download_rate_estimate :=
                             1000 * download_measurement_bytes m div ((now - start) div 10 ^ 6),
                           download_measurement_start := Some now, download_measurement_bytes := 0\<rparr>
                    else m
                | None \<Rightarrow> m\<lparr>download_measurement_start := Some now\<rparr>)
      in m'\<lparr>download_measurement_bytes := download_measurement_bytes m' + n\<rparr>)"

definition channel_dispatch ::
  "nat \<Rightarrow> PacketType \<Rightarrow> u8 list \<Rightarrow> ChannelManager \<Rightarrow> (ChannelError, unit) fallible \<times> ChannelManager" where
  "channel_dispatch now cmd data m =
     (case take_u16 data of
        Inl e \<Rightarrow> (Err e, m)
      | Inr (n, data) \<Rightarrow>
          (let m = measure_download now (length data) m
           in case channels m (of_nat n) of
                None \<Rightarrow> (Ok (), m)
              | Some i \<Rightarrow>
                  (let q = queues m ! i
                   in if has_receiver q
                      then (Ok (), m\<lparr>queues := (queues m)[i := q\<lparr>items := items q @ [(packet_code cmd, data)]\<rparr>]\<rparr>)
                      else (Err (Fail ChannelError), m))))"

definition channel_shutdown :: "ChannelManager \<Rightarrow> ChannelManager" where
  "channel_shutdown m =
     m\<lparr>chan_invalid := True, channels := Map.empty,
       queues := map (\<lambda>q. q\<lparr>has_sender := False\<rparr>) (queues m)\<rparr>"

section \<open>Receiving\<close>

datatype 'a Poll = Ready 'a | Pending

definition recv_packet ::
  "Queue \<Rightarrow> ChannelState \<Rightarrow> (ChannelError, u8 list) result Poll option \<times> Queue \<times> ChannelState" where
  "recv_packet q st =
     (case items q of
        [] \<Rightarrow> (Some (if has_sender q then Pending else Ready (Err ChannelError)), q, st)
      | (cmd, packet) # rest \<Rightarrow>
          (let q' = q\<lparr>items := rest\<rparr>
           in if packet_from_u8 cmd = Some ChannelErrorPacket
              then if length packet < 2 then (None, q', st) else (Some (Ready (Err ChannelError)), q', ClosedSt)
              else (Some (Ready (Ok packet)), q', st)))"

text \<open>
  \<open>Stream for Channel\<close>: the result is \<open>Err Panic\<close>, or pending, or the next item, where \<open>None\<close> is the
  end of the stream. The loop runs at most twice: a header of length zero ends the headers, and
  what is left of its packet is dropped.
\<close>

type_synonym chan_item = "(ChannelError + ChannelEvent) option Poll"

definition poll_data :: "Queue \<Rightarrow> (ChannelError, chan_item) fallible \<times> Queue \<times> ChannelState" where
  "poll_data q =
     (case recv_packet q DataSt of
        (None, q', st) \<Rightarrow> (Err Panic, q', st)
      | (Some Pending, q', st) \<Rightarrow> (Ok Pending, q', st)
      | (Some (Ready (Inl e)), q', st) \<Rightarrow> (Ok (Ready (Some (Inl e))), q', st)
      | (Some (Ready (Inr data)), q', st) \<Rightarrow>
          if data = [] then (Ok (Ready None), q'\<lparr>has_receiver := False\<rparr>, ClosedSt)
          else (Ok (Ready (Some (Inr (DataEvent data)))), q', st))"

definition poll_header :: "Queue \<Rightarrow> u8 list \<Rightarrow> (ChannelError, chan_item) fallible \<times> Queue \<times> ChannelState" where
  "poll_header q data =
     (case take_u16 data of
        Inl e \<Rightarrow> (Err e, q, HeaderSt [])
      | Inr (n, data) \<Rightarrow>
          if n = 0 then poll_data q
          else (case and_then (split_to 1 data) (\<lambda>(i, data).
                     and_then (split_to (n - 1) data) (\<lambda>(h, data). Ok (i ! 0, h, data))) of
                  Inl e \<Rightarrow> (Err e, q, HeaderSt [])
                | Inr (i, h, data) \<Rightarrow> (Ok (Ready (Some (Inr (HeaderEvent i h)))), q, HeaderSt data)))"

definition poll_next :: "Queue \<Rightarrow> ChannelState \<Rightarrow> (ChannelError, chan_item) fallible \<times> Queue \<times> ChannelState" where
  "poll_next q st =
     (case st of
        ClosedSt \<Rightarrow> (Ok (Ready None), q, st)
      | DataSt \<Rightarrow> poll_data q
      | HeaderSt data \<Rightarrow>
          if data \<noteq> [] then poll_header q data
          else (case recv_packet q st of
                  (None, q', st') \<Rightarrow> (Err Panic, q', st')
                | (Some Pending, q', st') \<Rightarrow> (Ok Pending, q', st')
                | (Some (Ready (Inl e)), q', st') \<Rightarrow> (Ok (Ready (Some (Inl e))), q', st')
                | (Some (Ready (Inr data)), q', st') \<Rightarrow> poll_header q' data))"

text \<open>
  \<open>Stream for ChannelHeaders\<close> gives the headers and ends with the first data; \<open>Stream for
  ChannelData\<close> skips the headers in a loop, here with fuel: \<open>None\<close> when it runs out.
\<close>

definition headers_next ::
  "Queue \<Rightarrow> ChannelState
   \<Rightarrow> (ChannelError, (ChannelError + (u8 \<times> u8 list)) option Poll) fallible \<times> Queue \<times> ChannelState" where
  "headers_next q st =
     (case poll_next q st of
        (Inl e, x) \<Rightarrow> (Err e, x)
      | (Inr Pending, x) \<Rightarrow> (Ok Pending, x)
      | (Inr (Ready (Some (Inl e))), x) \<Rightarrow> (Ok (Ready (Some (Inl e))), x)
      | (Inr (Ready (Some (Inr (HeaderEvent i d)))), x) \<Rightarrow> (Ok (Ready (Some (Inr (i, d)))), x)
      | (Inr (Ready _), x) \<Rightarrow> (Ok (Ready None), x))"

fun data_next ::
  "nat \<Rightarrow> Queue \<Rightarrow> ChannelState
   \<Rightarrow> ((ChannelError, (ChannelError + u8 list) option Poll) fallible \<times> Queue \<times> ChannelState) option" where
  "data_next 0 q st = None"
| "data_next (Suc fuel) q st =
     (case poll_next q st of
        (Inl e, x) \<Rightarrow> Some (Err e, x)
      | (Inr Pending, x) \<Rightarrow> Some (Ok Pending, x)
      | (Inr (Ready (Some (Inl e))), x) \<Rightarrow> Some (Ok (Ready (Some (Inl e))), x)
      | (Inr (Ready (Some (Inr (HeaderEvent i d)))), (q', st')) \<Rightarrow> data_next fuel q' st'
      | (Inr (Ready (Some (Inr (DataEvent d)))), x) \<Rightarrow> Some (Ok (Ready (Some (Inr d))), x)
      | (Inr (Ready None), x) \<Rightarrow> Some (Ok (Ready None), x))"

section \<open>Reading a stream of packets\<close>

lemma chunk_code [simp]: "packet_from_u8 9 = Some StreamChunkRes"
  using packet_from_code [of StreamChunkRes] by simp

fun polls :: "nat \<Rightarrow> Queue \<Rightarrow> ChannelState \<Rightarrow> (ChannelError, chan_item) fallible list \<times> Queue \<times> ChannelState" where
  "polls 0 q st = ([], q, st)"
| "polls (Suc n) q st =
     (let (r, q', st') = poll_next q st; (rs, x) = polls n q' st' in (r # rs, x))"

lemma polls_add:
  "polls (n + k) q st =
     (let (rs, q', st') = polls n q st; (rs', x) = polls k q' st' in (rs @ rs', x))"
  by (induction n arbitrary: q st) (simp_all add: case_prod_beta Let_def)

definition header_bytes :: "(u8 \<times> u8 list) list \<Rightarrow> u8 list" where
  "header_bytes hs = concat (map (\<lambda>(i, d). be_bytes 2 (Suc (length d)) @ i # d) hs)"

definition headers_ok :: "(u8 \<times> u8 list) list \<Rightarrow> bool" where
  "headers_ok hs = list_all (\<lambda>(_, d). Suc (length d) < 65536) hs"

abbreviation event :: "ChannelEvent \<Rightarrow> (ChannelError, chan_item) fallible" where
  "event e \<equiv> Ok (Ready (Some (Inr e)))"

lemma header_bytes_simps [simp]:
  "header_bytes [] = []"
  "header_bytes ((i, d) # hs) = be_bytes 2 (Suc (length d)) @ i # d @ header_bytes hs"
  by (simp_all add: header_bytes_def)

lemma header_bytes_empty [simp]: "header_bytes hs = [] \<longleftrightarrow> hs = []"
  by (cases hs) (auto simp: header_bytes_def split: prod.splits dest: arg_cong [where f = length])

lemma poll_header_event:
  assumes "Suc (length d) < 65536"
  shows "poll_header q (be_bytes 2 (Suc (length d)) @ i # d @ rest) = (event (HeaderEvent i d), q, HeaderSt rest)"
  using assms by (simp add: poll_header_def del: be_bytes.simps)

lemma poll_headers:
  "headers_ok hs \<Longrightarrow> polls (length hs) q (HeaderSt (header_bytes hs @ rest)) =
     (map (\<lambda>(i, d). event (HeaderEvent i d)) hs, q, HeaderSt rest)"
proof (induction hs)
  case (Cons h hs)
  obtain i d where h: "h = (i, d)" by (cases h)
  have "poll_next q (HeaderSt (header_bytes (h # hs) @ rest)) =
      (event (HeaderEvent i d), q, HeaderSt (header_bytes hs @ rest))"
    using Cons.prems poll_header_event [of d q i "header_bytes hs @ rest"]
    by (auto simp: poll_next_def h headers_ok_def simp del: be_bytes.simps dest: arg_cong [where f = length])
  with Cons show ?case by (simp add: headers_ok_def h del: header_bytes_simps)
qed simp

text \<open>A packet with headers, received in the header state.\<close>

lemma poll_header_packet:
  assumes "headers_ok hs" "hs \<noteq> []" "items q = (packet_code StreamChunkRes, header_bytes hs @ rest) # later"
  shows "polls (length hs) q (HeaderSt []) =
    (map (\<lambda>(i, d). event (HeaderEvent i d)) hs, q\<lparr>items := later\<rparr>, HeaderSt rest)"
proof -
  obtain h hs' where hs: "hs = h # hs'" using assms(2) by (cases hs) auto
  have "poll_next q (HeaderSt []) = poll_next (q\<lparr>items := later\<rparr>) (HeaderSt (header_bytes hs @ rest))"
    using assms(2,3) by (simp add: poll_next_def recv_packet_def)
  then have "polls (length hs) q (HeaderSt []) = polls (length hs) (q\<lparr>items := later\<rparr>) (HeaderSt (header_bytes hs @ rest))"
    by (simp add: hs)
  with poll_headers [OF assms(1)] show ?thesis by simp
qed

lemma poll_header_packets:
  assumes "list_all (\<lambda>hs. headers_ok hs \<and> hs \<noteq> []) hss"
    "items q = map (\<lambda>hs. (packet_code StreamChunkRes, header_bytes hs)) hss @ later"
  shows "polls (length (concat hss)) q (HeaderSt []) =
    (map (\<lambda>(i, d). event (HeaderEvent i d)) (concat hss), q\<lparr>items := later\<rparr>, HeaderSt [])"
  using assms
proof (induction hss arbitrary: q)
  case Nil
  then show ?case by simp
next
  case (Cons hs hss)
  let ?rest = "map (\<lambda>hs. (packet_code StreamChunkRes, header_bytes hs)) hss @ later"
  have "polls (length hs) q (HeaderSt []) =
      (map (\<lambda>(i, d). event (HeaderEvent i d)) hs, q\<lparr>items := ?rest\<rparr>, HeaderSt [])"
    using poll_header_packet [of hs q "[]" ?rest] Cons.prems by simp
  moreover have "polls (length (concat hss)) (q\<lparr>items := ?rest\<rparr>) (HeaderSt []) =
      (map (\<lambda>(i, d). event (HeaderEvent i d)) (concat hss), q\<lparr>items := later\<rparr>, HeaderSt [])"
    using Cons.IH [of "q\<lparr>items := ?rest\<rparr>"] Cons.prems(1) by simp
  ultimately show ?case by (simp add: polls_add)
qed

lemma poll_datas:
  "list_all (\<lambda>d. d \<noteq> []) ds \<Longrightarrow> items q = map (Pair (packet_code StreamChunkRes)) ds @ later \<Longrightarrow>
   polls (length ds) q DataSt = (map (\<lambda>d. event (DataEvent d)) ds, q\<lparr>items := later\<rparr>, DataSt)"
proof (induction ds arbitrary: q)
  case Nil
  then show ?case by simp
next
  case (Cons d ds)
  let ?q = "q\<lparr>items := map (Pair (packet_code StreamChunkRes)) ds @ later\<rparr>"
  have "poll_next q DataSt = (event (DataEvent d), ?q, DataSt)"
    using Cons.prems by (simp add: poll_next_def poll_data_def recv_packet_def)
  moreover have "polls (length ds) ?q DataSt = (map (\<lambda>d. event (DataEvent d)) ds, q\<lparr>items := later\<rparr>, DataSt)"
    using Cons.IH [of ?q] Cons.prems by simp
  ultimately show ?case by simp
qed

lemma poll_terminator: "poll_next q (HeaderSt (be_bytes 2 0 @ junk)) = poll_next q DataSt"
  by (simp add: poll_next_def poll_header_def)

lemma polls_cong: "poll_next q st = poll_next q' st' \<Longrightarrow> 0 < n \<Longrightarrow> polls n q st = polls n q' st'"
  by (cases n) simp_all

lemma poll_end:
  assumes "items q = [(packet_code StreamChunkRes, [])]"
  shows "polls 1 q DataSt = ([Ok (Ready None)], q\<lparr>items := [], has_receiver := False\<rparr>, ClosedSt)"
  using assms by (simp add: poll_next_def poll_data_def recv_packet_def)

text \<open>How much input a channel holds: every header takes some of it.\<close>

definition buffered :: "Queue \<Rightarrow> ChannelState \<Rightarrow> nat" where
  "buffered q st =
     (case st of HeaderSt d \<Rightarrow> length d | _ \<Rightarrow> 0) + sum_list (map (\<lambda>(_, p). Suc (length p)) (items q))"

lemma poll_header_less:
  assumes "poll_header q data = (event (HeaderEvent i d), q', st')"
  shows "q' = q \<and> (\<exists>rest. st' = HeaderSt rest \<and> length rest < length data)"
proof -
  obtain n r where t: "take_u16 data = (Inr (n, r) :: (ChannelError, nat \<times> u8 list) fallible)"
    using assms by (cases "take_u16 data :: (ChannelError, nat \<times> u8 list) fallible")
      (auto simp: poll_header_def)
  have nz: "n \<noteq> 0"
  proof
    assume "n = 0"
    with assms t have "poll_data q = (event (HeaderEvent i d), q', st')" by (simp add: poll_header_def)
    then show False
      by (auto simp: poll_data_def split: prod.splits option.splits Poll.splits sum.splits if_splits)
  qed
  from assms t nz obtain rest h k where
    "and_then (split_to 1 r) (\<lambda>(i, data). and_then (split_to (n - 1) data) (\<lambda>(h, data). Ok (i ! 0, h, data)))
       = (Inr (k, h, rest) :: (ChannelError, u8 \<times> u8 list \<times> u8 list) fallible)"
    and st: "q' = q" "st' = HeaderSt rest"
    by (auto simp: poll_header_def split: sum.splits)
  then have "length rest \<le> length r"
    by (auto simp: and_then_eq_Ok dest!: split_to_Ok)
  with st take_u16_Ok [OF t] show ?thesis by simp
qed

lemma poll_next_less:
  assumes "poll_next q st = (event (HeaderEvent i d), q', st')"
  shows "buffered q' st' < buffered q st"
proof -
  have no_data: "poll_data x \<noteq> (event (HeaderEvent i d), q', st')" for x
    by (auto simp: poll_data_def split: prod.splits option.splits Poll.splits sum.splits if_splits)
  obtain data where st: "st = HeaderSt data" using assms no_data by (cases st) (auto simp: poll_next_def)
  show ?thesis
  proof (cases "data = []")
    case False
    then have "poll_header q data = (event (HeaderEvent i d), q', st')" using assms by (simp add: poll_next_def st)
    from poll_header_less [OF this] show ?thesis by (auto simp: buffered_def st)
  next
    case True
    then obtain c p r where p: "items q = (c, p) # r" "poll_header (q\<lparr>items := r\<rparr>) p = (event (HeaderEvent i d), q', st')"
      using assms by (auto simp: poll_next_def st recv_packet_def Let_def split: list.splits if_splits prod.splits)
    from poll_header_less [OF p(2)] show ?thesis by (auto simp: buffered_def st p(1))
  qed
qed

section \<open>Properties\<close>

text \<open>
  C13. A channel delivers what was sent on it: header packets cut at header boundaries, the
  terminator with anything behind it in its packet, non-empty data packets and the empty packet
  that ends the stream give exactly the headers in order, then the data packets in order, then the
  end; afterwards the channel is closed.
\<close>

theorem channel_stream:
  assumes "list_all (\<lambda>hs. headers_ok hs \<and> hs \<noteq> []) hss" and "headers_ok hs" and "list_all (\<lambda>d. d \<noteq> []) ds"
    and "items q = map (\<lambda>hs. (packet_code StreamChunkRes, header_bytes hs)) hss @
           (packet_code StreamChunkRes, header_bytes hs @ be_bytes 2 0 @ junk) #
           map (Pair (packet_code StreamChunkRes)) ds @ [(packet_code StreamChunkRes, [])]"
  shows "polls (length (concat hss @ hs) + length ds + 1) q (HeaderSt []) =
    (map (\<lambda>(i, d). event (HeaderEvent i d)) (concat hss @ hs) @ map (\<lambda>d. event (DataEvent d)) ds @ [Ok (Ready None)],
     q\<lparr>items := [], has_receiver := False\<rparr>, ClosedSt)"
proof -
  define tailq where "tailq = map (Pair (packet_code StreamChunkRes)) ds @ [(packet_code StreamChunkRes, [])]"
  define q1 where "q1 = q\<lparr>items := (packet_code StreamChunkRes, header_bytes hs @ be_bytes 2 0 @ junk) # tailq\<rparr>"
  define q2 where "q2 = q\<lparr>items := tailq\<rparr>"
  have p1: "polls (length (concat hss)) q (HeaderSt []) =
      (map (\<lambda>(i, d). event (HeaderEvent i d)) (concat hss), q1, HeaderSt [])"
    unfolding q1_def by (rule poll_header_packets [OF assms(1)]) (simp add: assms(4) tailq_def del: packet_code.simps)
  have "polls (length ds + 1) q2 DataSt = (map (\<lambda>d. event (DataEvent d)) ds @ [Ok (Ready None)],
      q\<lparr>items := [], has_receiver := False\<rparr>, ClosedSt)"
    using poll_datas [OF assms(3), of q2 "[(packet_code StreamChunkRes, [])]"]
      poll_end [of "q2\<lparr>items := [(packet_code StreamChunkRes, [])]\<rparr>"]
    unfolding polls_add [of "length ds" 1] by (simp add: q2_def tailq_def del: packet_code.simps polls.simps)
  moreover have "polls (length hs + (length ds + 1)) q1 (HeaderSt []) =
      (let (rs, x) = polls (length ds + 1) q2 DataSt in (map (\<lambda>(i, d). event (HeaderEvent i d)) hs @ rs, x))"
  proof (cases "hs = []")
    case True
    have "poll_next q1 (HeaderSt []) = poll_next q2 (HeaderSt (be_bytes 2 0 @ junk))"
      by (simp add: poll_next_def recv_packet_def q1_def q2_def True)
    then have "poll_next q1 (HeaderSt []) = poll_next q2 DataSt" by (simp only: poll_terminator)
    then have "polls (length ds + 1) q1 (HeaderSt []) = polls (length ds + 1) q2 DataSt"
      by (rule polls_cong) simp
    then show ?thesis by (simp add: True del: polls.simps)
  next
    case False
    have "polls (length hs) q1 (HeaderSt []) =
        (map (\<lambda>(i, d). event (HeaderEvent i d)) hs, q2, HeaderSt (be_bytes 2 0 @ junk))"
      using poll_header_packet [OF assms(2) False, of q1 "be_bytes 2 0 @ junk" tailq]
      by (simp add: q1_def q2_def del: packet_code.simps be_bytes.simps)
    moreover have "polls (length ds + 1) q2 (HeaderSt (be_bytes 2 0 @ junk)) = polls (length ds + 1) q2 DataSt"
      by (rule polls_cong [OF poll_terminator]) simp
    ultimately show ?thesis
      unfolding polls_add [of "length hs" "length ds + 1"] by (simp del: polls.simps be_bytes.simps)
  qed
  ultimately have "polls (length hs + (length ds + 1)) q1 (HeaderSt []) =
      (map (\<lambda>(i, d). event (HeaderEvent i d)) hs @ map (\<lambda>d. event (DataEvent d)) ds @ [Ok (Ready None)],
       q\<lparr>items := [], has_receiver := False\<rparr>, ClosedSt)"
    by simp
  then show ?thesis
    using p1 polls_add [of "length (concat hss)" "length hs + (length ds + 1)" q "HeaderSt []"]
    by (simp add: add.assoc del: polls.simps)
qed

theorem channel_stream_witness:
  "\<exists>q. polls 4 q (HeaderSt []) =
     ([event (HeaderEvent 3 [1, 2]), event (DataEvent [5]), event (DataEvent [6, 7]), Ok (Ready None)],
      q\<lparr>items := [], has_receiver := False\<rparr>, ClosedSt)"
proof -
  let ?q = "\<lparr>items = map (\<lambda>hs. (packet_code StreamChunkRes, header_bytes hs)) [[(3, [1, 2])]] @
      (packet_code StreamChunkRes, header_bytes [] @ be_bytes 2 0 @ []) #
      map (Pair (packet_code StreamChunkRes)) [[5], [6, 7]] @ [(packet_code StreamChunkRes, [])],
    has_sender = True, has_receiver = True\<rparr>"
  have "polls (length (concat [[(3::u8, [1, 2::u8])]] @ []) + length [[5], [6, 7::u8]] + 1) ?q (HeaderSt []) =
    (map (\<lambda>(i, d). event (HeaderEvent i d)) (concat [[(3, [1, 2])]] @ []) @
       map (\<lambda>d. event (DataEvent d)) [[5], [6, 7]] @ [Ok (Ready None)],
     ?q\<lparr>items := [], has_receiver := False\<rparr>, ClosedSt)"
    by (rule channel_stream) (simp_all add: headers_ok_def)
  then show ?thesis by (intro exI [of _ ?q]) 
      (simp add: eval_nat_numeral del: polls.simps header_bytes_simps be_bytes.simps packet_code.simps)
qed

text \<open>
  The loop that skips the headers ends: with as many rounds as bytes and packets are buffered,
  reading the data returns, with data, the end, an error or "not yet".
\<close>

theorem data_next_terminates:
  assumes "buffered q st < fuel"
  shows "\<exists>r. data_next fuel q st = Some r"
  using assms
proof (induction fuel arbitrary: q st)
  case 0
  then show ?case by simp
next
  case (Suc fuel)
  obtain r q' st' where p: "poll_next q st = (r, q', st')" by (metis prod_cases3)
  show ?case
  proof (cases "\<exists>i d. r = event (HeaderEvent i d)")
    case True
    then obtain i d where r: "r = event (HeaderEvent i d)" by blast
    have "buffered q' st' < fuel" using poll_next_less [of q st i d q' st'] p r Suc.prems by simp
    from Suc.IH [OF this] show ?thesis by (simp add: p r)
  next
    case False
    then show ?thesis
      by (auto simp: p split: sum.splits Poll.splits option.splits ChannelEvent.splits)
  qed
qed

theorem data_next_terminates_witness:
  "\<exists>r. data_next 20 \<lparr>items = [(9, [0, 2, 7, 7]), (9, [0, 1, 8, 0, 0])], has_sender = True, has_receiver = True\<rparr>
         (HeaderSt []) = Some r"
  by (rule data_next_terminates) (simp add: buffered_def)

text \<open>
  A channel packet that consists of the channel id only is accepted by the manager and put into
  the queue as an empty packet; the channel that is waiting for its headers then panics.
\<close>

theorem bare_id_packet_panics:
  assumes "n < 65536" and "channels m (of_nat n) = Some i" and "i < length (queues m)"
    and "items (queues m ! i) = []" and "has_receiver (queues m ! i)"
  shows "\<exists>m'. channel_dispatch now StreamChunkRes (be_bytes 2 n) m = (Ok (), m') \<and>
              fst (poll_next (queues m' ! i) (HeaderSt [])) = Err Panic"
proof -
  have "take_u16 (be_bytes 2 n) = (Inr (n, []) :: (ChannelError, nat \<times> u8 list) fallible)"
    using take_u16_append [of n "[]"] assms(1) by simp
  moreover have "channels (measure_download now 0 m) = channels m" "queues (measure_download now 0 m) = queues m"
    by (simp_all add: measure_download_def Let_def split: option.split)
  ultimately show ?thesis
    using assms(2-5)
    by (simp add: channel_dispatch_def Let_def poll_next_def recv_packet_def poll_header_def take_u16_def
        split_to_def)
qed

theorem bare_id_packet_panics_witness:
  "\<exists>m'. channel_dispatch 0 StreamChunkRes (be_bytes 2 0) (snd (allocate channel_manager_new)) = (Ok (), m') \<and>
        fst (poll_next (queues m' ! 0) (HeaderSt [])) = Err Panic"
  by (rule bare_id_packet_panics)
    (simp_all add: allocate_def channel_manager_new_def seq_get_def drop_sender_def)

end
