(* ===== verification/Mercury.thy ===== *)
theory Mercury
  imports Wire
begin

text \<open>
  The request/response and publish/subscribe protocol over the access point connection:
  \<open>core/src/mercury/mod.rs\<close>, \<open>types.rs\<close> and \<open>sender.rs\<close>.

  The protobuf messages are encoded by the \<open>protobuf\<close> crate: \<open>write_header\<close>, \<open>parse_header\<close> and
  \<open>parse_sub\<close> are parameters, as is the percent-encoding \<open>urlenc\<close> of a URI component. A oneshot or
  mpsc receiver is named by a number; a reply or an event that is sent to it is a \<open>Delivery\<close>, and
  \<open>alive\<close> says which receivers still exist. \<open>handles\<close> is the dealer's answer for a URI.
\<close>

section \<open>Messages\<close>

datatype MercuryMethod = Get | Sub | Unsub | Send

record MercuryHeader =
  hdr_uri :: string
  hdr_method :: string
  hdr_content_type :: "string option"
  hdr_status_code :: int

record MercuryRequest =
  req_method :: MercuryMethod
  req_uri :: string
  content_type :: "string option"
  payload :: "u8 list list"

record MercuryResponse =
  resp_uri :: string
  status_code :: int
  resp_payload :: "u8 list list"

datatype MercuryError =
    MercuryChannel
  | MercuryCommand PacketType
  | MercuryResponseError MercuryResponse
  | MercuryParse
  | MercuryNotConnected

text \<open>The kinds of \<open>From<MercuryError> for Error\<close> and of the errors it passes on.\<close>

fun mercury_error_kind :: "MercuryError \<Rightarrow> ErrorKind" where
  "mercury_error_kind MercuryChannel = Aborted"
| "mercury_error_kind (MercuryCommand p) = Unimplemented"
| "mercury_error_kind (MercuryResponseError r) = Unavailable"
| "mercury_error_kind MercuryParse = FailedPrecondition"
| "mercury_error_kind MercuryNotConnected = Unavailable"

fun method_string :: "MercuryMethod \<Rightarrow> string" where
  "method_string Get = ''GET''"
| "method_string Sub = ''SUB''"
| "method_string Unsub = ''UNSUB''"
| "method_string Send = ''SEND''"

fun method_command :: "MercuryMethod \<Rightarrow> PacketType" where
  "method_command Get = MercuryReq"
| "method_command Send = MercuryReq"
| "method_command Sub = MercurySub"
| "method_command Unsub = MercuryUnsub"

definition part_bytes :: "u8 list \<Rightarrow> u8 list" where
  "part_bytes p = be_bytes 2 (length p) @ p"

definition packet_bytes :: "u8 list \<Rightarrow> u8 \<Rightarrow> u8 list list \<Rightarrow> u8 list" where
  "packet_bytes seq flags parts =
     be_bytes 2 (length seq) @ seq @ [flags] @ be_bytes 2 (length parts) @ concat (map part_bytes parts)"

text \<open>\<open>MercuryRequest::encode\<close>; the part count is a checked 16-bit sum.\<close>

definition request_encode ::
  "(MercuryHeader \<Rightarrow> u8 list) \<Rightarrow> u8 list \<Rightarrow> MercuryRequest \<Rightarrow> (MercuryError, u8 list) fallible" where
  "request_encode write_header seq r =
     (let n = length (payload r) mod 65536;
          header = write_header \<lparr>hdr_uri = req_uri r, hdr_method = method_string (req_method r),
                                 hdr_content_type = content_type r, hdr_status_code = 0\<rparr>
      in if n = 65535 then Err Panic
         else Ok (be_bytes 2 (length seq) @ seq @ [1] @ be_bytes 2 (1 + n) @
                  part_bytes header @ concat (map part_bytes (payload r))))"

section \<open>The manager\<close>

record MercuryPending =
  parts :: "u8 list list"
  partial :: "u8 list option"
  callback :: "nat option"

record MercuryManager =
  merc_sequence :: u64
  pending :: "u8 list \<rightharpoonup> MercuryPending"
  subscriptions :: "(string \<times> nat) list"
  merc_invalid :: bool

datatype Delivery = Reply nat "MercuryError + MercuryResponse" | Push nat MercuryResponse

definition mercury_new :: MercuryManager where
  "mercury_new = \<lparr>merc_sequence = 0, pending = Map.empty, subscriptions = [], merc_invalid = False\<rparr>"

definition next_seq :: "MercuryManager \<Rightarrow> u8 list \<times> MercuryManager" where
  "next_seq m = (let (s, s') = seq_get (merc_sequence m) in (be_bytes 8 (unat s), m\<lparr>merc_sequence := s'\<rparr>))"

text \<open>
  \<open>request\<close>: \<open>cb\<close> is the new callback, \<open>connected\<close> whether the session has a connection. The result
  is the packet that goes out; the pending entry stays when sending fails.
\<close>

definition request ::
  "(MercuryHeader \<Rightarrow> u8 list) \<Rightarrow> bool \<Rightarrow> nat \<Rightarrow> MercuryRequest \<Rightarrow> MercuryManager
   \<Rightarrow> (MercuryError, u8 \<times> u8 list) fallible \<times> MercuryManager" where
  "request write_header connected cb r m =
     (let (seq, m) = next_seq m;
          m = (if \<not> merc_invalid m
               then m\<lparr>pending := (pending m)(seq \<mapsto> \<lparr>parts = [], partial = None, callback = Some cb\<rparr>)\<rparr>
               else m)
      in case request_encode write_header seq r of
           Inl e \<Rightarrow> (Err e, m)
         | Inr data \<Rightarrow>
             (if connected then Ok (packet_code (method_command (req_method r)), data)
              else Err (Fail MercuryNotConnected), m))"

definition mercury_get where
  "mercury_get write_header connected cb uri =
     request write_header connected cb \<lparr>req_method = Get, req_uri = uri, content_type = None, payload = []\<rparr>"

definition mercury_send where
  "mercury_send write_header connected cb uri data =
     request write_header connected cb \<lparr>req_method = Send, req_uri = uri, content_type = None, payload = [data]\<rparr>"

definition mercury_subscribe where
  "mercury_subscribe write_header connected cb uri =
     request write_header connected cb \<lparr>req_method = Sub, req_uri = uri, content_type = None, payload = []\<rparr>"

text \<open>The rest of \<open>subscribe\<close>, once the response is there: \<open>rx\<close> is the new receiver.\<close>

definition subscribed ::
  "(u8 list \<Rightarrow> string option) \<Rightarrow> nat \<Rightarrow> string \<Rightarrow> MercuryResponse \<Rightarrow> MercuryManager \<Rightarrow> MercuryManager" where
  "subscribed parse_sub rx uri response m =
     (if merc_invalid m then m
      else if resp_payload response \<noteq> []
      then m\<lparr>subscriptions := subscriptions m @
             map (\<lambda>u. (u, rx)) (List.map_filter parse_sub (resp_payload response))\<rparr>
      else m\<lparr>subscriptions := subscriptions m @ [(uri, rx)]\<rparr>)"

definition listen_for :: "nat \<Rightarrow> string \<Rightarrow> MercuryManager \<Rightarrow> MercuryManager" where
  "listen_for rx uri m =
     (if merc_invalid m then m else m\<lparr>subscriptions := subscriptions m @ [(uri, rx)]\<rparr>)"

subsection \<open>Incoming packets\<close>

definition parse_part :: "u8 list \<Rightarrow> (MercuryError, u8 list \<times> u8 list) fallible" where
  "parse_part data = and_then (take_u16 data) (\<lambda>(n, rest). split_to n rest)"

definition merge_part :: "bool \<Rightarrow> u8 list \<Rightarrow> MercuryPending \<Rightarrow> MercuryPending" where
  "merge_part continues part p =
     (let part = (case partial p of Some x \<Rightarrow> x @ part | None \<Rightarrow> part);
          p = p\<lparr>partial := None\<rparr>
      in if continues then p\<lparr>partial := Some part\<rparr> else p\<lparr>parts := parts p @ [part]\<rparr>)"

text \<open>The loop over the parts of a packet: \<open>k\<close> parts are left.\<close>

fun take_parts :: "u8 \<Rightarrow> nat \<Rightarrow> u8 list \<Rightarrow> MercuryPending \<Rightarrow> (MercuryError, MercuryPending) fallible" where
  "take_parts flags 0 data p = Ok p"
| "take_parts flags (Suc k) data p =
     and_then (parse_part data) (\<lambda>(part, rest). take_parts flags k rest (merge_part (k = 0 \<and> flags = 2) part p))"

definition encoded_uri :: "(string \<Rightarrow> string) \<Rightarrow> string \<Rightarrow> string" where
  "encoded_uri urlenc u =
     (case split_on CHR ''/'' u of
        [] \<Rightarrow> []
      | c # cs \<Rightarrow> join_with CHR ''/'' (c # map urlenc cs))"

definition complete_request ::
  "(u8 list \<Rightarrow> MercuryHeader option) \<Rightarrow> (string \<Rightarrow> string) \<Rightarrow> (string \<Rightarrow> bool) \<Rightarrow> (nat \<Rightarrow> bool) \<Rightarrow> PacketType
   \<Rightarrow> MercuryPending \<Rightarrow> MercuryManager
   \<Rightarrow> (MercuryError, unit) fallible \<times> Delivery list \<times> MercuryManager" where
  "complete_request parse_header urlenc handles alive cmd p m =
     (case parts p of
        [] \<Rightarrow> (Err Panic, [], m)
      | header_data # rest \<Rightarrow>
          (case parse_header header_data of
             None \<Rightarrow> (Err (Fail MercuryParse), [], m)
           | Some h \<Rightarrow>
               (let response = \<lparr>resp_uri = hdr_uri h, status_code = hdr_status_code h, resp_payload = rest\<rparr>;
                    failed = Err (Fail (MercuryResponseError response))
                in if 500 \<le> status_code response then (failed, [], m)
                   else if 400 \<le> status_code response
                   then (case callback p of
                           None \<Rightarrow> (failed, [], m)
                         | Some cb \<Rightarrow>
                             if alive cb then (failed, [Reply cb (Inl (MercuryResponseError response))], m)
                             else (Err (Fail MercuryChannel), [], m))
                   else if cmd = MercuryEvent
                   then (let uri = encoded_uri urlenc (resp_uri response);
                             hits = filter (\<lambda>(prefix, _). starts_with uri prefix) (subscriptions m);
                             m' = m\<lparr>subscriptions :=
                                    filter (\<lambda>(prefix, rx). starts_with uri prefix \<longrightarrow> alive rx) (subscriptions m)\<rparr>
                         in (if hits \<noteq> [] \<or> handles (resp_uri response) then Ok () else failed,
                             map (\<lambda>(_, rx). Push rx response) (filter (\<lambda>(_, rx). alive rx) hits), m'))
                   else (case callback p of
                           None \<Rightarrow> (failed, [], m)
                         | Some cb \<Rightarrow>
                             if alive cb then (Ok (), [Reply cb (Inr response)], m)
                             else (Err (Fail MercuryChannel), [], m)))))"

definition parse_packet ::
  "u8 list \<Rightarrow> (MercuryError, u8 list \<times> u8 \<times> nat \<times> u8 list) fallible" where
  "parse_packet data =
     and_then (take_u16 data) (\<lambda>(seq_len, data).
     and_then (split_to seq_len data) (\<lambda>(seq, data).
     and_then (split_to 1 data) (\<lambda>(flags, data).
     and_then (take_u16 data) (\<lambda>(count, data). Ok (seq, flags ! 0, count, data)))))"

definition mercury_dispatch ::
  "(u8 list \<Rightarrow> MercuryHeader option) \<Rightarrow> (string \<Rightarrow> string) \<Rightarrow> (string \<Rightarrow> bool) \<Rightarrow> (nat \<Rightarrow> bool) \<Rightarrow> PacketType
   \<Rightarrow> u8 list \<Rightarrow> MercuryManager \<Rightarrow> (MercuryError, unit) fallible \<times> Delivery list \<times> MercuryManager" where
  "mercury_dispatch parse_header urlenc handles alive cmd data m =
     (case parse_packet data of
        Inl e \<Rightarrow> (Err e, [], m)
      | Inr (seq, flags, count, data) \<Rightarrow>
          (let known = pending m seq; m = m\<lparr>pending := (pending m)(seq := None)\<rparr>
           in case (case known of
                      Some p \<Rightarrow> Some p
                    | None \<Rightarrow> if cmd = MercuryEvent
                              then Some \<lparr>parts = [], partial = None, callback = None\<rparr> else None) of
                None \<Rightarrow> (Err (Fail (MercuryCommand cmd)), [], m)
              | Some p \<Rightarrow>
                  (case take_parts flags count data p of
                     Inl e \<Rightarrow> (Err e, [], m)
                   | Inr p \<Rightarrow>
                       if flags = 1 then complete_request parse_header urlenc handles alive cmd p m
                       else (Ok (), [], m\<lparr>pending := (pending m)(seq \<mapsto> p)\<rparr>))))"

definition mercury_shutdown :: "MercuryManager \<Rightarrow> MercuryManager" where
  "mercury_shutdown m = m\<lparr>merc_invalid := True, pending := Map.empty, subscriptions := []\<rparr>"

section \<open>The sender\<close>

text \<open>
  \<open>MercurySender\<close>: the callbacks of the requests under way, oldest first, the first one apart while
  \<open>flush\<close> waits for it. The outcome of waiting for a callback is \<open>await\<close>.
\<close>

record MercurySender =
  sender_uri :: string
  sender_pending :: "nat list"
  buffered_future :: "nat option"

definition sender_new :: "string \<Rightarrow> MercurySender" where
  "sender_new u = \<lparr>sender_uri = u, sender_pending = [], buffered_future = None\<rparr>"

definition is_flushed :: "MercurySender \<Rightarrow> bool" where
  "is_flushed s \<longleftrightarrow> buffered_future s = None \<and> sender_pending s = []"

definition sender_send where
  "sender_send write_header connected cb data s m =
     (case mercury_send write_header connected cb (sender_uri s) data m of
        (Inl e, m') \<Rightarrow> (Err e, s, m')
      | (Inr pkt, m') \<Rightarrow> (Ok pkt, s\<lparr>sender_pending := sender_pending s @ [cb]\<rparr>, m'))"

fun flush_loop ::
  "(nat \<Rightarrow> MercuryError + MercuryResponse) \<Rightarrow> nat \<Rightarrow> nat list \<Rightarrow> (MercuryError + unit) \<times> nat option \<times> nat list" where
  "flush_loop await f [] = (case await f of Inl e \<Rightarrow> (Err e, Some f, []) | Inr _ \<Rightarrow> (Ok (), None, []))"
| "flush_loop await f (g # gs) =
     (case await f of Inl e \<Rightarrow> (Err e, Some f, g # gs) | Inr _ \<Rightarrow> flush_loop await g gs)"

definition flush ::
  "(nat \<Rightarrow> MercuryError + MercuryResponse) \<Rightarrow> MercurySender \<Rightarrow> (MercuryError + unit) \<times> MercurySender" where
  "flush await s =
     (case (case buffered_future s of
              Some f \<Rightarrow> f # sender_pending s
            | None \<Rightarrow> sender_pending s) of
        [] \<Rightarrow> (Ok (), s)
      | f # fs \<Rightarrow>
          (let (r, b, fs') = flush_loop await f fs
           in (r, s\<lparr>buffered_future := b, sender_pending := fs'\<rparr>)))"

definition sender_clone :: "MercurySender \<Rightarrow> MercurySender" where
  "sender_clone s = s\<lparr>sender_pending := [], buffered_future := None\<rparr>"

section \<open>Reassembling a response\<close>

text \<open>
  What a sequence of packets stands for: every part with a mark that says whether it continues in
  the next packet (flag value 2, last part of its packet); marked parts are joined with what
  follows.
\<close>

fun tag_parts :: "u8 \<Rightarrow> u8 list list \<Rightarrow> (u8 list \<times> bool) list" where
  "tag_parts flags [] = []"
| "tag_parts flags [p] = [(p, flags = 2)]"
| "tag_parts flags (p # q # ps) = (p, False) # tag_parts flags (q # ps)"

fun prepend :: "u8 list \<Rightarrow> u8 list list \<Rightarrow> u8 list list" where
  "prepend c [] = [c]"
| "prepend c (d # ds) = (c @ d) # ds"

fun join_chunks :: "(u8 list \<times> bool) list \<Rightarrow> u8 list list" where
  "join_chunks [] = []"
| "join_chunks ((c, continues) # ts) =
     (if continues then prepend c (join_chunks ts) else c # join_chunks ts)"

definition packet_ok :: "u8 \<times> u8 list list \<Rightarrow> bool" where
  "packet_ok k \<longleftrightarrow> length (snd k) < 65536 \<and> list_all (\<lambda>p. length p < 65536) (snd k)"

definition absorb :: "(u8 list \<times> bool) list \<Rightarrow> MercuryPending \<Rightarrow> MercuryPending" where
  "absorb ts p = fold (\<lambda>(part, continues). merge_part continues part) ts p"

lemma absorb_simps [simp]:
  "absorb [] p = p" "absorb ((c, b) # ts) p = absorb ts (merge_part b c p)"
  "absorb (xs @ ys) p = absorb ys (absorb xs p)"
  by (simp_all add: absorb_def)

lemma callback_absorb [simp]: "callback (absorb ts p) = callback p"
  by (induction ts arbitrary: p) (auto simp: merge_part_def Let_def)

lemma parse_part_append [simp]:
  "length p < 65536 \<Longrightarrow> parse_part (part_bytes p @ rest) = Inr (p, rest)"
  by (simp add: parse_part_def part_bytes_def)

lemma take_parts_absorb:
  "list_all (\<lambda>p. length p < 65536) ps \<Longrightarrow>
   take_parts flags (length ps) (concat (map part_bytes ps) @ rest) p = Ok (absorb (tag_parts flags ps) p)"
proof (induction flags ps arbitrary: p rule: tag_parts.induct)
  case (3 flags q r ps)
  then show ?case by (simp del: take_parts.simps(2)) (simp add: take_parts.simps(2) [of flags "Suc (length ps)"])
qed simp_all

text \<open>A part that waits for its continuation is a prefix of the next part.\<close>

lemma absorb_partial:
  "absorb ((c, b) # ts) (p\<lparr>partial := Some x\<rparr>) = absorb ((x @ c, b) # ts) (p\<lparr>partial := None\<rparr>)"
  by (simp add: merge_part_def Let_def)

lemma join_prefix: "ts \<noteq> [] \<Longrightarrow> prepend x (join_chunks ((c, b) # ts)) = join_chunks ((x @ c, b) # ts)"
  by (cases "join_chunks ts") auto

lemma prepend_prepend: "prepend a (prepend b xs) = prepend (a @ b) xs"
  by (cases xs) auto

lemma absorb_join:
  assumes "partial p = None" "ts = [] \<or> \<not> snd (last ts)"
  shows "parts (absorb ts p) = parts p @ join_chunks ts \<and> partial (absorb ts p) = None"
  using assms
proof (induction "length ts" arbitrary: ts p rule: less_induct)
  case less
  show ?case
  proof (cases ts)
    case Nil
    with less.prems show ?thesis by simp
  next
    case (Cons t us)
    obtain c b where t: "t = (c, b)" by (cases t)
    show ?thesis
    proof (cases b)
      case False
      have "parts (absorb us (p\<lparr>partial := None, parts := parts p @ [c]\<rparr>)) = (parts p @ [c]) @ join_chunks us \<and>
          partial (absorb us (p\<lparr>partial := None, parts := parts p @ [c]\<rparr>)) = None"
        using less.hyps [of us "p\<lparr>partial := None, parts := parts p @ [c]\<rparr>"] less.prems(2)
        by (auto simp: Cons t split: if_splits)
      then show ?thesis
        using False less.prems(1) by (simp add: Cons t merge_part_def)
    next
      case True
      then obtain d e vs where us: "us = (d, e) # vs" using less.prems(2) by (cases us) (auto simp: Cons t)
      let ?ws = "(c @ d, e) # vs"
      have "absorb ts p = absorb us (p\<lparr>partial := Some c\<rparr>)"
        using True less.prems(1) by (simp add: Cons t merge_part_def)
      also have "\<dots> = absorb ?ws (p\<lparr>partial := None\<rparr>)" unfolding us by (rule absorb_partial)
      finally have eq: "absorb ts p = absorb ?ws (p\<lparr>partial := None\<rparr>)" .
      have "?ws = [] \<or> \<not> snd (last ?ws)" using less.prems(2) by (auto simp: Cons t us split: if_splits)
      then have "parts (absorb ?ws (p\<lparr>partial := None\<rparr>)) = parts (p\<lparr>partial := None\<rparr>) @ join_chunks ?ws \<and>
          partial (absorb ?ws (p\<lparr>partial := None\<rparr>)) = None"
        by (intro less.hyps) (simp_all add: Cons us)
      then have "parts (absorb ts p) = parts p @ join_chunks ?ws \<and> partial (absorb ts p) = None"
        unfolding eq by (simp del: absorb_simps)
      moreover have "join_chunks ts = join_chunks ?ws"
        using True by (simp add: Cons t us prepend_prepend)
      ultimately show ?thesis by simp
    qed
  qed
qed

text \<open>A packet on the wire is parsed into its parts.\<close>

lemma parse_packet_bytes:
  assumes "length seq < 65536" "packet_ok (flags, ps)"
  shows "parse_packet (packet_bytes seq flags ps) = Inr (seq, flags, length ps, concat (map part_bytes ps))"
  using assms by (simp add: parse_packet_def packet_bytes_def packet_ok_def)

fun dispatch_all where
  "dispatch_all parse_header urlenc handles alive cmd seq [] m = ([], m)"
| "dispatch_all parse_header urlenc handles alive cmd seq ((flags, ps) # pks) m =
     (let (r, ds, m') = mercury_dispatch parse_header urlenc handles alive cmd (packet_bytes seq flags ps) m;
          (ds', m'') = dispatch_all parse_header urlenc handles alive cmd seq pks m'
      in (ds @ ds', m''))"

lemma dispatch_more:
  assumes "length seq < 65536" "packet_ok (flags, ps)" "flags \<noteq> 1" "pending m seq = Some p"
  shows "mercury_dispatch parse_header urlenc handles alive cmd (packet_bytes seq flags ps) m =
    (Ok (), [], m\<lparr>pending := (pending m)(seq \<mapsto> absorb (tag_parts flags ps) p)\<rparr>)"
  using assms take_parts_absorb [of ps flags "[]" p]
  by (simp add: mercury_dispatch_def parse_packet_bytes packet_ok_def)

lemma dispatch_last:
  assumes "length seq < 65536" "packet_ok (1, ps)" "pending m seq = Some p"
  shows "mercury_dispatch parse_header urlenc handles alive cmd (packet_bytes seq 1 ps) m =
    complete_request parse_header urlenc handles alive cmd (absorb (tag_parts 1 ps) p)
      (m\<lparr>pending := (pending m)(seq := None)\<rparr>)"
  using assms take_parts_absorb [of ps 1 "[]" p]
  by (simp add: mercury_dispatch_def parse_packet_bytes packet_ok_def)

lemma dispatch_all_more:
  assumes "length seq < 65536" "list_all (\<lambda>k. packet_ok k \<and> fst k \<noteq> 1) pks" "pending m seq = Some p"
  shows "dispatch_all parse_header urlenc handles alive cmd seq (pks @ rest) m =
    dispatch_all parse_header urlenc handles alive cmd seq rest
      (m\<lparr>pending := (pending m)(seq \<mapsto> absorb (concat (map (\<lambda>(f, ps). tag_parts f ps) pks)) p)\<rparr>)"
  using assms
proof (induction pks arbitrary: m p)
  case Nil
  then have "m\<lparr>pending := (pending m)(seq \<mapsto> p)\<rparr> = m" by (simp add: map_upd_triv)
  then show ?case by (simp only: list.map concat.simps absorb_simps append_Nil)
next
  case (Cons k pks)
  obtain f ps where k: "k = (f, ps)" by (cases k)
  let ?m = "m\<lparr>pending := (pending m)(seq \<mapsto> absorb (tag_parts f ps) p)\<rparr>"
  have "mercury_dispatch parse_header urlenc handles alive cmd (packet_bytes seq f ps) m = (Ok (), [], ?m)"
    by (rule dispatch_more) (use Cons.prems k in simp_all)
  then have "dispatch_all parse_header urlenc handles alive cmd seq ((k # pks) @ rest) m =
      dispatch_all parse_header urlenc handles alive cmd seq (pks @ rest) ?m"
    by (simp add: k)
  also have "\<dots> = dispatch_all parse_header urlenc handles alive cmd seq rest
      (?m\<lparr>pending := (pending ?m)(seq \<mapsto>
        absorb (concat (map (\<lambda>(f, ps). tag_parts f ps) pks)) (absorb (tag_parts f ps) p))\<rparr>)"
    by (rule Cons.IH) (use Cons.prems in simp_all)
  also have "?m\<lparr>pending := (pending ?m)(seq \<mapsto>
        absorb (concat (map (\<lambda>(f, ps). tag_parts f ps) pks)) (absorb (tag_parts f ps) p))\<rparr> =
      m\<lparr>pending := (pending m)(seq \<mapsto> absorb (concat (map (\<lambda>(f, ps). tag_parts f ps) (k # pks))) p)\<rparr>"
    by (simp add: k fun_upd_upd)
  finally show ?case .
qed

lemma tag_parts_empty [simp]: "tag_parts flags ps = [] \<longleftrightarrow> ps = []"
  by (induction flags ps rule: tag_parts.induct) auto

lemma last_tag_parts: "ps \<noteq> [] \<Longrightarrow> snd (last (tag_parts flags ps)) \<longleftrightarrow> flags = 2"
  by (induction flags ps rule: tag_parts.induct) auto

text \<open>The packet that completes a response answers the request.\<close>

lemma dispatch_final:
  assumes "length seq < 65536" "pending m seq = Some (absorb ts \<lparr>parts = [], partial = None, callback = Some cb\<rparr>)"
    "packet_ok (1, ps)" "ps \<noteq> []" "join_chunks (ts @ tag_parts 1 ps) = header # body"
    "parse_header header = Some h" "hdr_status_code h < 400" "cmd \<noteq> MercuryEvent" "alive cb"
  shows "mercury_dispatch parse_header urlenc handles alive cmd (packet_bytes seq 1 ps) m =
    (Ok (), [Reply cb (Inr \<lparr>resp_uri = hdr_uri h, status_code = hdr_status_code h, resp_payload = body\<rparr>)],
     m\<lparr>pending := (pending m)(seq := None)\<rparr>)"
proof -
  let ?p0 = "\<lparr>parts = [], partial = None, callback = Some cb\<rparr>"
  define p where "p = absorb (tag_parts 1 ps) (absorb ts ?p0)"
  have p: "p = absorb (ts @ tag_parts 1 ps) ?p0" by (simp add: p_def)
  have "\<not> snd (last (ts @ tag_parts 1 ps))"
    using assms(4) last_tag_parts [of ps 1] by simp
  then have "parts (absorb (ts @ tag_parts 1 ps) ?p0) = parts ?p0 @ join_chunks (ts @ tag_parts 1 ps) \<and>
      partial (absorb (ts @ tag_parts 1 ps) ?p0) = None"
    by (intro absorb_join) simp_all
  then have parts: "parts p = header # body"
    using assms(5) unfolding p by (simp del: absorb_simps)
  have cb: "callback p = Some cb" by (simp add: p_def)
  have "mercury_dispatch parse_header urlenc handles alive cmd (packet_bytes seq 1 ps) m =
      complete_request parse_header urlenc handles alive cmd p (m\<lparr>pending := (pending m)(seq := None)\<rparr>)"
    unfolding p_def by (rule dispatch_last [OF assms(1,3,2)])
  with parts cb assms(6-9) show ?thesis by (simp add: complete_request_def)
qed

section \<open>Properties\<close>

text \<open>
  A response is put together correctly: its parts may arrive in any number of packets and be
  cut anywhere between them; when the final packet is handled, the request that is waiting under
  this sequence number gets exactly one reply, with the URI and status of the header and the joined
  parts as payload, and no longer waits.
\<close>

theorem mercury_reassembles:
  assumes "length seq < 65536" and "pending m seq = Some \<lparr>parts = [], partial = None, callback = Some cb\<rparr>"
    and "list_all (\<lambda>k. packet_ok k \<and> fst k \<noteq> 1) pks" and "packet_ok (1, ps)" and "ps \<noteq> []"
    and "join_chunks (concat (map (\<lambda>(f, ps). tag_parts f ps) (pks @ [(1, ps)]))) = header # body"
    and "parse_header header = Some h" and "hdr_status_code h < 400" and "cmd \<noteq> MercuryEvent" and "alive cb"
  shows "dispatch_all parse_header urlenc handles alive cmd seq (pks @ [(1, ps)]) m =
    ([Reply cb (Inr \<lparr>resp_uri = hdr_uri h, status_code = hdr_status_code h, resp_payload = body\<rparr>)],
     m\<lparr>pending := (pending m)(seq := None)\<rparr>)"
proof -
  define ts where "ts = concat (map (\<lambda>(f, ps). tag_parts f ps) pks)"
  let ?m = "m\<lparr>pending := (pending m)(seq \<mapsto> absorb ts \<lparr>parts = [], partial = None, callback = Some cb\<rparr>)\<rparr>"
  have "join_chunks (ts @ tag_parts 1 ps) = header # body" using assms(6) by (simp add: ts_def)
  then have "mercury_dispatch parse_header urlenc handles alive cmd (packet_bytes seq 1 ps) ?m =
      (Ok (), [Reply cb (Inr \<lparr>resp_uri = hdr_uri h, status_code = hdr_status_code h, resp_payload = body\<rparr>)],
       ?m\<lparr>pending := (pending ?m)(seq := None)\<rparr>)"
    by (intro dispatch_final [where ts = ts and header = header]) (simp_all add: assms del: assms(2))
  moreover have "dispatch_all parse_header urlenc handles alive cmd seq (pks @ [(1, ps)]) m =
      dispatch_all parse_header urlenc handles alive cmd seq [(1, ps)] ?m"
    unfolding ts_def by (rule dispatch_all_more [OF assms(1,3,2)])
  ultimately show ?thesis by (simp add: fun_upd_upd)
qed

theorem mercury_reassembles_witness:
  "dispatch_all (\<lambda>b. Some \<lparr>hdr_uri = ''hm://x'', hdr_method = [], hdr_content_type = None, hdr_status_code = 200\<rparr>)
      (\<lambda>c. c) (\<lambda>_. False) (\<lambda>_. True) MercuryReq [0, 7] [(2, [[1], [2]]), (2, [[3]]), (1, [[4], [5]])]
      (mercury_new\<lparr>pending := [[0, 7] \<mapsto> \<lparr>parts = [], partial = None, callback = Some 9\<rparr>]\<rparr>) =
    ([Reply 9 (Inr \<lparr>resp_uri = ''hm://x'', status_code = 200, resp_payload = [[2, 3, 4], [5]]\<rparr>)],
     mercury_new\<lparr>pending := Map.empty\<rparr>)"
proof -
  let ?h = "\<lparr>hdr_uri = ''hm://x'', hdr_method = [], hdr_content_type = None, hdr_status_code = 200\<rparr>"
  have "dispatch_all (\<lambda>b. Some ?h) (\<lambda>c. c) (\<lambda>_. False) (\<lambda>_. True) MercuryReq [0, 7]
      ([(2, [[1], [2]]), (2, [[3]])] @ [(1, [[4], [5]])])
      (mercury_new\<lparr>pending := [[0, 7] \<mapsto> \<lparr>parts = [], partial = None, callback = Some 9\<rparr>]\<rparr>) =
    ([Reply 9 (Inr \<lparr>resp_uri = hdr_uri ?h, status_code = hdr_status_code ?h, resp_payload = [[2, 3, 4], [5]]\<rparr>)],
     (mercury_new\<lparr>pending := [[0, 7] \<mapsto> \<lparr>parts = [], partial = None, callback = Some 9\<rparr>]\<rparr>)
       \<lparr>pending := (pending (mercury_new\<lparr>pending := [[0, 7] \<mapsto>
         \<lparr>parts = [], partial = None, callback = Some 9\<rparr>]\<rparr>))([0, 7] := None)\<rparr>)"
    by (rule mercury_reassembles [where header = "[1]"]) (simp_all add: packet_ok_def)
  then show ?thesis by simp
qed

text \<open>
  C32. Packets that do not fit: a response to an unknown sequence number is an error and reaches
  nobody; a final packet for a request that has received no part makes the handler panic, since it
  takes the header off an empty list; and a response with a status of 500 or more is an error too,
  but the waiting request is only dropped: it gets no reply, unlike for a status from 400 to 499.
\<close>

theorem mercury_dispatch_errors:
  assumes "length seq < 65536"
  shows "(\<forall>flags ps. packet_ok (flags, ps) \<longrightarrow> pending m seq = None \<longrightarrow> cmd \<noteq> MercuryEvent \<longrightarrow>
      mercury_dispatch parse_header urlenc handles alive cmd (packet_bytes seq flags ps) m =
        (Err (Fail (MercuryCommand cmd)), [], m)) \<and>
    (\<forall>cb. pending m seq = Some \<lparr>parts = [], partial = None, callback = cb\<rparr> \<longrightarrow>
      fst (mercury_dispatch parse_header urlenc handles alive cmd (packet_bytes seq 1 []) m) = Err Panic) \<and>
    (\<forall>header body cb h. packet_ok (1, header # body) \<longrightarrow>
      pending m seq = Some \<lparr>parts = [], partial = None, callback = Some cb\<rparr> \<longrightarrow>
      parse_header header = Some h \<longrightarrow> 400 \<le> hdr_status_code h \<longrightarrow> alive cb \<longrightarrow>
      (let response = \<lparr>resp_uri = hdr_uri h, status_code = hdr_status_code h, resp_payload = body\<rparr>
       in mercury_dispatch parse_header urlenc handles alive cmd (packet_bytes seq 1 (header # body)) m =
          (Err (Fail (MercuryResponseError response)),
           if hdr_status_code h < 500 then [Reply cb (Inl (MercuryResponseError response))] else [],
           m\<lparr>pending := (pending m)(seq := None)\<rparr>)))"
proof (intro conjI allI impI)
  show "mercury_dispatch parse_header urlenc handles alive cmd (packet_bytes seq flags ps) m =
      (Err (Fail (MercuryCommand cmd)), [], m)"
    if "packet_ok (flags, ps)" "pending m seq = None" "cmd \<noteq> MercuryEvent" for flags ps
  proof -
    have "m\<lparr>pending := (pending m)(seq := None)\<rparr> = m" using that(2) by (simp add: fun_upd_idem)
    with that assms show ?thesis by (simp add: mercury_dispatch_def parse_packet_bytes)
  qed
  show "fst (mercury_dispatch parse_header urlenc handles alive cmd (packet_bytes seq 1 []) m) = Err Panic"
    if "pending m seq = Some \<lparr>parts = [], partial = None, callback = cb\<rparr>" for cb
    using dispatch_last [OF assms, of "[]" m] that by (simp add: packet_ok_def complete_request_def)
  show "let response = \<lparr>resp_uri = hdr_uri h, status_code = hdr_status_code h, resp_payload = body\<rparr>
       in mercury_dispatch parse_header urlenc handles alive cmd (packet_bytes seq 1 (header # body)) m =
          (Err (Fail (MercuryResponseError response)),
           if hdr_status_code h < 500 then [Reply cb (Inl (MercuryResponseError response))] else [],
           m\<lparr>pending := (pending m)(seq := None)\<rparr>)"
    if "packet_ok (1, header # body)" "pending m seq = Some \<lparr>parts = [], partial = None, callback = Some cb\<rparr>"
      "parse_header header = Some h" "400 \<le> hdr_status_code h" "alive cb" for header body cb h
  proof -
    let ?p = "absorb (tag_parts 1 (header # body)) \<lparr>parts = [], partial = None, callback = Some cb\<rparr>"
    have "\<not> snd (last (tag_parts 1 (header # body)))" using last_tag_parts [of "header # body" 1] by simp
    moreover have join: "join_chunks (tag_parts 1 ps) = ps" for ps
      by (induction "1 :: u8" ps rule: tag_parts.induct) auto
    ultimately have "parts ?p = header # body"
      using absorb_join [of "\<lparr>parts = [], partial = None, callback = Some cb\<rparr>" "tag_parts 1 (header # body)"]
      by (simp del: absorb_simps)
    moreover have "callback ?p = Some cb" by (simp del: absorb_simps)
    ultimately show ?thesis
      unfolding Let_def dispatch_last [OF assms that(1,2)]
      using that(3-5) by (auto simp: complete_request_def Let_def simp del: absorb_simps)
  qed
qed

theorem mercury_dispatch_errors_witness:
  "fst (mercury_dispatch (\<lambda>_. None) (\<lambda>c. c) (\<lambda>_. False) (\<lambda>_. True) MercuryReq (packet_bytes [0] 1 [])
         (mercury_new\<lparr>pending := [[0] \<mapsto> \<lparr>parts = [], partial = None, callback = None\<rparr>]\<rparr>)) = Err Panic"
proof -
  have "length [0::u8] < 65536" by simp
  from mercury_dispatch_errors [OF this, of "mercury_new\<lparr>pending := [[0] \<mapsto>
    \<lparr>parts = [], partial = None, callback = None\<rparr>]\<rparr>" MercuryReq "\<lambda>_. None" "\<lambda>c. c" "\<lambda>_. False" "\<lambda>_. True"]
  show ?thesis by simp
qed

end
