(* ===== verification/Ap_Session.thy ===== *)
theory Ap_Session
  imports Ap_Codec Ap_Channel Mercury Spotify_Id
begin

text \<open>
  A session with the access point: the audio keys of \<open>core/src/audio_key.rs\<close>, and of
  \<open>core/src/session.rs\<close> the session data, the dispatch of incoming packets to the components, the
  keep-alive protocol and the choice of an access point, with the retries of
  \<open>core/src/connection/mod.rs\<close>.

  Times are seconds on the monotonic clock (\<open>now\<close>) and since the epoch (\<open>unix\<close>). The XML reader
  (\<open>quick_xml\<close>) is a parameter: the events it finds in a document. \<open>merc\<close> bundles the parameters of
  the Mercury component. A process exit is the error \<open>SessionExit\<close>.
\<close>

section \<open>Audio keys\<close>

datatype AudioKeyError = AesKeyFailed | KeyChannel | KeyPacket u8 | KeySequence u32 | KeyTimeout

record AudioKeyManager =
  key_sequence :: u32
  key_pending :: "u32 \<rightharpoonup> nat"

definition audio_key_new :: AudioKeyManager where
  "audio_key_new = \<lparr>key_sequence = 0, key_pending = Map.empty\<rparr>"

datatype KeyReply = KeyReply nat "AudioKeyError + u8 list"

fun audio_key_error_kind :: "AudioKeyError \<Rightarrow> ErrorKind" where
  "audio_key_error_kind AesKeyFailed = Unavailable"
| "audio_key_error_kind KeyChannel = Aborted"
| "audio_key_error_kind (KeySequence s) = Aborted"
| "audio_key_error_kind (KeyPacket p) = Unimplemented"
| "audio_key_error_kind KeyTimeout = Aborted"

definition audio_key_dispatch ::
  "(nat \<Rightarrow> bool) \<Rightarrow> PacketType \<Rightarrow> u8 list \<Rightarrow> AudioKeyManager
   \<Rightarrow> (AudioKeyError, unit) fallible \<times> KeyReply list \<times> AudioKeyManager" where
  "audio_key_dispatch alive cmd data m =
     (case split_to 4 data of
        Inl e \<Rightarrow> (Err e, [], m)
      | Inr (s, data) \<Rightarrow>
          (let seq = of_nat (be_value s); m' = m\<lparr>key_pending := (key_pending m)(seq := None)\<rparr>
           in case key_pending m seq of
                None \<Rightarrow> (Err (Fail (KeySequence seq)), [], m')
              | Some cb \<Rightarrow>
                  (let reply = (\<lambda>r. if alive cb then (Ok (), [KeyReply cb r], m')
                                    else (Err (Fail KeyChannel), [], m'))
                   in if cmd = AesKey
                      then (if length data = 16 then reply (Ok data) else (Err Panic, [], m'))
                      else if cmd = AesKeyError
                      then (if 2 \<le> length data then reply (Err AesKeyFailed) else (Err Panic, [], m'))
                      else (Err (Fail (KeyPacket (packet_code cmd))), [], m'))))"

definition key_request_bytes :: "u32 \<Rightarrow> SpotifyId \<Rightarrow> FileId \<Rightarrow> u8 list" where
  "key_request_bytes seq track file = file_bytes file @ to_raw track @ be_bytes 4 (unat seq) @ be_bytes 2 0"

section \<open>Session data\<close>

record UserData =
  country :: string
  canonical_username :: string
  attributes :: "string \<rightharpoonup> string"

record SessionData =
  session_id :: string
  client_id :: string
  client_name :: string
  client_brand_name :: string
  client_model_name :: string
  connection_id :: string
  auth_data :: "u8 list"
  time_delta :: int
  sess_invalid :: bool
  user_data :: UserData

text \<open>\<open>tx_connection\<close>: not yet set, a channel to the task that writes packets, or one it has left.\<close>

datatype Tx = TxUnset | TxOpen | TxClosed

datatype KeepAliveState = ExpectingPing | PendingPong | ExpectingPongAck

record Session =
  sess_data :: SessionData
  mercury :: MercuryManager
  channel :: ChannelManager
  audio_key :: AudioKeyManager
  tx_connection :: Tx
  sent :: "(u8 \<times> u8 list) list"
  deliveries :: "Delivery list"
  key_replies :: "KeyReply list"
  keep_alive_state :: KeepAliveState
  keep_alive_deadline :: nat

definition session_new :: "string \<Rightarrow> string \<Rightarrow> Session" where
  "session_new cid uuid =
     \<lparr>sess_data = \<lparr>session_id = uuid, client_id = cid, client_name = [], client_brand_name = [],
        client_model_name = [], connection_id = [], auth_data = [], time_delta = 0, sess_invalid = False,
        user_data = \<lparr>country = [], canonical_username = [], attributes = Map.empty\<rparr>\<rparr>,
      mercury = mercury_new, channel = channel_manager_new, audio_key = audio_key_new,
      tx_connection = TxUnset, sent = [], deliveries = [], key_replies = [],
      keep_alive_state = ExpectingPing, keep_alive_deadline = 0\<rparr>"

definition upd_data :: "(SessionData \<Rightarrow> SessionData) \<Rightarrow> Session \<Rightarrow> Session" where
  "upd_data f s = s\<lparr>sess_data := f (sess_data s)\<rparr>"

definition upd_user :: "(UserData \<Rightarrow> UserData) \<Rightarrow> Session \<Rightarrow> Session" where
  "upd_user f s = upd_data (\<lambda>d. d\<lparr>user_data := f (user_data d)\<rparr>) s"

definition set_session_id :: "string \<Rightarrow> Session \<Rightarrow> Session" where
  "set_session_id x = upd_data (\<lambda>d. d\<lparr>session_id := x\<rparr>)"

definition set_client_id :: "string \<Rightarrow> Session \<Rightarrow> Session" where
  "set_client_id x = upd_data (\<lambda>d. d\<lparr>client_id := x\<rparr>)"

definition set_client_name :: "string \<Rightarrow> Session \<Rightarrow> Session" where
  "set_client_name x = upd_data (\<lambda>d. d\<lparr>client_name := x\<rparr>)"

definition set_client_brand_name :: "string \<Rightarrow> Session \<Rightarrow> Session" where
  "set_client_brand_name x = upd_data (\<lambda>d. d\<lparr>client_brand_name := x\<rparr>)"

definition set_client_model_name :: "string \<Rightarrow> Session \<Rightarrow> Session" where
  "set_client_model_name x = upd_data (\<lambda>d. d\<lparr>client_model_name := x\<rparr>)"

definition set_connection_id :: "string \<Rightarrow> Session \<Rightarrow> Session" where
  "set_connection_id x = upd_data (\<lambda>d. d\<lparr>connection_id := x\<rparr>)"

definition set_auth_data :: "u8 list \<Rightarrow> Session \<Rightarrow> Session" where
  "set_auth_data x = upd_data (\<lambda>d. d\<lparr>auth_data := x\<rparr>)"

definition set_username :: "string \<Rightarrow> Session \<Rightarrow> Session" where
  "set_username x = upd_user (\<lambda>u. u\<lparr>canonical_username := x\<rparr>)"

definition get_user_attribute :: "string \<Rightarrow> Session \<Rightarrow> string option" where
  "get_user_attribute k s = attributes (user_data (sess_data s)) k"

definition filter_explicit_content :: "Session \<Rightarrow> bool" where
  "filter_explicit_content s =
     (case get_user_attribute ''filter-explicit-content'' s of Some v \<Rightarrow> v = ''1'' | None \<Rightarrow> False)"

definition autoplay :: "bool option \<Rightarrow> Session \<Rightarrow> bool" where
  "autoplay config s =
     (case config of
        Some b \<Rightarrow> b
      | None \<Rightarrow> (case get_user_attribute ''autoplay'' s of Some v \<Rightarrow> v = ''1'' | None \<Rightarrow> False))"

datatype SessionError =
    SessionPacket u8
  | SessionNotConnected
  | SessionSend
  | SessionUtf8
  | SessionEncoding
  | SessionChannel ChannelError
  | SessionKey AudioKeyError
  | SessionMercury MercuryError
  | SessionExit

text \<open>\<open>check_catalogue\<close>: anything but a premium account ends the process.\<close>

definition check_catalogue :: "(string \<rightharpoonup> string) \<Rightarrow> bool" where
  "check_catalogue attrs = (case attrs ''type'' of Some t \<Rightarrow> t = ''premium'' | None \<Rightarrow> True)"

definition set_user_attribute ::
  "string \<Rightarrow> string \<Rightarrow> Session \<Rightarrow> (SessionError, string option) fallible \<times> Session" where
  "set_user_attribute k v s =
     (if check_catalogue [k \<mapsto> v]
      then (Ok (get_user_attribute k s), upd_user (\<lambda>u. u\<lparr>attributes := (attributes u)(k \<mapsto> v)\<rparr>) s)
      else (Err (Fail SessionExit), s))"

definition set_user_attributes :: "(string \<rightharpoonup> string) \<Rightarrow> Session \<Rightarrow> (SessionError, unit) fallible \<times> Session" where
  "set_user_attributes attrs s =
     (if check_catalogue attrs
      then (Ok (), upd_user (\<lambda>u. u\<lparr>attributes := attributes u ++ attrs\<rparr>) s)
      else (Err (Fail SessionExit), s))"

definition send_packet :: "PacketType \<Rightarrow> u8 list \<Rightarrow> Session \<Rightarrow> (SessionError + unit) \<times> Session" where
  "send_packet cmd data s =
     (case tx_connection s of
        TxOpen \<Rightarrow> (Ok (), s\<lparr>sent := sent s @ [(packet_code cmd, data)]\<rparr>)
      | TxClosed \<Rightarrow> (Err SessionSend, s)
      | TxUnset \<Rightarrow> (Err SessionNotConnected, s))"

text \<open>
  \<open>AudioKeyManager::request\<close> up to the first wait, for the caller \<open>cb\<close>, and the wait: within 1.5 s
  an answer came, or the sender was dropped, or neither.
\<close>

definition key_request :: "nat \<Rightarrow> SpotifyId \<Rightarrow> FileId \<Rightarrow> Session \<Rightarrow> (SessionError + unit) \<times> Session" where
  "key_request cb track file s =
     (let m = audio_key s; (seq, seq') = seq_get (key_sequence m);
          m = m\<lparr>key_sequence := seq', key_pending := (key_pending m)(seq \<mapsto> cb)\<rparr>
      in send_packet RequestKey (key_request_bytes seq track file) (s\<lparr>audio_key := m\<rparr>))"

datatype KeyWait = KeyAnswered "AudioKeyError + u8 list" | KeySenderDropped | KeyNothing

fun key_await :: "KeyWait \<Rightarrow> ErrorKind + u8 list" where
  "key_await KeyNothing = Err (audio_key_error_kind KeyTimeout)"
| "key_await KeySenderDropped = Err Internal"
| "key_await (KeyAnswered (Inl e)) = Err (audio_key_error_kind e)"
| "key_await (KeyAnswered (Inr k)) = Ok k"

definition session_shutdown :: "Session \<Rightarrow> Session" where
  "session_shutdown s =
     upd_data (\<lambda>d. d\<lparr>sess_invalid := True\<rparr>)
       (s\<lparr>mercury := mercury_shutdown (mercury s), channel := channel_shutdown (channel s)\<rparr>)"

abbreviation is_invalid :: "Session \<Rightarrow> bool" where
  "is_invalid s \<equiv> sess_invalid (sess_data s)"

section \<open>Dispatch\<close>

text \<open>UTF-8 as \<open>str::from_utf8\<close> checks it: no overlong forms, no surrogates, nothing above U+10FFFF.\<close>

definition utf8_tail :: "nat \<Rightarrow> nat \<Rightarrow> u8 \<Rightarrow> bool" where
  "utf8_tail lo hi b \<longleftrightarrow> lo \<le> unat b \<and> unat b \<le> hi"

fun utf8_valid :: "u8 list \<Rightarrow> bool" where
  "utf8_valid [] \<longleftrightarrow> True"
| "utf8_valid (a # bs) \<longleftrightarrow>
     (let n = unat a
      in if n < 0x80 then utf8_valid bs
         else if 0xC2 \<le> n \<and> n \<le> 0xDF
         then (case bs of b # r \<Rightarrow> utf8_tail 0x80 0xBF b \<and> utf8_valid r | _ \<Rightarrow> False)
         else if 0xE0 \<le> n \<and> n \<le> 0xEF
         then (case bs of
                 b # c # r \<Rightarrow> utf8_tail (if n = 0xE0 then 0xA0 else 0x80) (if n = 0xED then 0x9F else 0xBF) b
                              \<and> utf8_tail 0x80 0xBF c \<and> utf8_valid r
               | _ \<Rightarrow> False)
         else if 0xF0 \<le> n \<and> n \<le> 0xF4
         then (case bs of
                 b # c # d # r \<Rightarrow> utf8_tail (if n = 0xF0 then 0x90 else 0x80) (if n = 0xF4 then 0x8F else 0xBF) b
                                  \<and> utf8_tail 0x80 0xBF c \<and> utf8_tail 0x80 0xBF d \<and> utf8_valid r
               | _ \<Rightarrow> False)
         else False)"

definition bytes_str :: "u8 list \<Rightarrow> string" where
  "bytes_str bs = map (\<lambda>b. char_of (unat b)) bs"

datatype XmlEvent = XmlStart string | XmlEnd | XmlText "string option" | XmlOther

text \<open>
  The loop over the events of the product info up to its end: the text inside an element is the
  value of the attribute; a text that cannot be decoded (\<open>XmlText None\<close>) ends it with an error.
\<close>

fun product_attributes ::
  "XmlEvent list \<Rightarrow> string \<Rightarrow> (string \<rightharpoonup> string) \<Rightarrow> SessionError + (string \<rightharpoonup> string)" where
  "product_attributes [] current attrs = Ok attrs"
| "product_attributes (XmlStart e # evs) current attrs = product_attributes evs e attrs"
| "product_attributes (XmlEnd # evs) current attrs = product_attributes evs [] attrs"
| "product_attributes (XmlText v # evs) current attrs =
     (if current = [] then product_attributes evs current attrs
      else case v of
             None \<Rightarrow> Err SessionEncoding
           | Some v \<Rightarrow> product_attributes evs current (attrs(current \<mapsto> v)))"
| "product_attributes (XmlOther # evs) current attrs = product_attributes evs current attrs"

record Outside =
  out_xml :: "string \<Rightarrow> XmlEvent list"
  out_parse_header :: "u8 list \<Rightarrow> MercuryHeader option"
  out_urlenc :: "string \<Rightarrow> string"
  out_handles :: "string \<Rightarrow> bool"
  out_alive :: "nat \<Rightarrow> bool"

definition PONG_DELAY :: nat where "PONG_DELAY = 60"
definition PING_TIMEOUT :: nat where "PING_TIMEOUT = 80"
definition PONG_ACK_TIMEOUT :: nat where "PONG_ACK_TIMEOUT = 20"
definition INITIAL_PING_TIMEOUT :: nat where "INITIAL_PING_TIMEOUT = 20"

definition lift_fault :: "('a \<Rightarrow> 'b) \<Rightarrow> ('a, 'c) fallible \<Rightarrow> ('b, 'c) fallible" where
  "lift_fault f r = (case r of Inl (Fail e) \<Rightarrow> Err (Fail (f e)) | Inl Panic \<Rightarrow> Err Panic | Inr x \<Rightarrow> Ok x)"

definition keep_alive :: "KeepAliveState \<Rightarrow> nat \<Rightarrow> Session \<Rightarrow> Session" where
  "keep_alive st deadline s = s\<lparr>keep_alive_state := st, keep_alive_deadline := deadline\<rparr>"

definition dispatch ::
  "Outside \<Rightarrow> nat \<Rightarrow> nat \<Rightarrow> u8 \<Rightarrow> u8 list \<Rightarrow> Session \<Rightarrow> (SessionError, unit) fallible \<times> Session" where
  "dispatch X now unix cmd data s =
     (case packet_from_u8 cmd of
        None \<Rightarrow> (Err (Fail (SessionPacket cmd)), s)
      | Some p \<Rightarrow>
          if p = Ping
          then (let s = keep_alive PendingPong (now + PONG_DELAY) s
                in if length data < 4 then (Err Panic, s)
                   else (Ok (), upd_data (\<lambda>d. d\<lparr>time_delta := int (be_value (take 4 data)) - int unix\<rparr>) s))
          else if p = PongAck then (Ok (), keep_alive ExpectingPing (now + PING_TIMEOUT) s)
          else if p = CountryCode
          then (if utf8_valid data then (Ok (), upd_user (\<lambda>u. u\<lparr>country := bytes_str data\<rparr>) s)
                else (Err (Fail SessionUtf8), s))
          else if p \<in> {StreamChunkRes, ChannelErrorPacket}
          then (let (r, c) = channel_dispatch (now * 10 ^ 9) p data (channel s)
                in (lift_fault SessionChannel r, s\<lparr>channel := c\<rparr>))
          else if p \<in> {AesKey, AesKeyError}
          then (let (r, ks, k) = audio_key_dispatch (out_alive X) p data (audio_key s)
                in (lift_fault SessionKey r, s\<lparr>audio_key := k, key_replies := key_replies s @ ks\<rparr>))
          else if p \<in> {MercuryReq, MercurySub, MercuryUnsub, MercuryEvent}
          then (let (r, ds, m) = mercury_dispatch (out_parse_header X) (out_urlenc X) (out_handles X) (out_alive X)
                                   p data (mercury s)
                in (lift_fault SessionMercury r, s\<lparr>mercury := m, deliveries := deliveries s @ ds\<rparr>))
          else if p = ProductInfo
          then (if utf8_valid data
                then (case product_attributes (out_xml X (bytes_str data)) [] Map.empty of
                        Inl e \<Rightarrow> (Err (Fail e), s)
                      | Inr attrs \<Rightarrow>
                          if check_catalogue attrs then (Ok (), upd_user (\<lambda>u. u\<lparr>attributes := attrs\<rparr>) s)
                          else (Err (Fail SessionExit), s))
                else (Err (Fail SessionUtf8), s))
          else if p \<in> {SecretBlock, LegacyWelcome, UnknownDataAllZeros, LicenseVersion} then (Ok (), s)
          else (Err (Fail (SessionPacket (packet_code p))), s))"

section \<open>The dispatch task\<close>

datatype TaskResult = TaskPending | TaskDone | TaskConnectionError | TaskTimedOut | TaskPanicked | TaskExited

text \<open>What the stream of packets has ready: packets, then nothing for now, the end, or an error.\<close>

datatype StreamEnd = StreamIdle | StreamClosed | StreamFailed

fun dispatch_frames ::
  "Outside \<Rightarrow> nat \<Rightarrow> nat \<Rightarrow> (u8 \<times> u8 list) list \<Rightarrow> Session \<Rightarrow> TaskResult option \<times> Session" where
  "dispatch_frames X now unix [] s = (None, s)"
| "dispatch_frames X now unix ((cmd, data) # fs) s =
     (case dispatch X now unix cmd data s of
        (Inl Panic, s') \<Rightarrow> (Some TaskPanicked, s')
      | (Inl (Fail SessionExit), s') \<Rightarrow> (Some TaskExited, s')
      | (_, s') \<Rightarrow> dispatch_frames X now unix fs s')"

definition keep_alive_poll :: "nat \<Rightarrow> Session \<Rightarrow> TaskResult \<times> Session" where
  "keep_alive_poll now s =
     (if keep_alive_deadline s \<le> now
      then (if keep_alive_state s = PendingPong
            then (TaskPending, keep_alive ExpectingPongAck (now + PONG_ACK_TIMEOUT) (snd (send_packet Pong [0, 0, 0, 0] s)))
            else (TaskTimedOut, if \<not> is_invalid s then session_shutdown s else s))
      else (TaskPending, s))"

text \<open>\<open>poll\<close>; \<open>live\<close> says whether the session still exists.\<close>

definition task_poll ::
  "Outside \<Rightarrow> bool \<Rightarrow> nat \<Rightarrow> nat \<Rightarrow> (u8 \<times> u8 list) list \<Rightarrow> StreamEnd \<Rightarrow> Session \<Rightarrow> TaskResult \<times> Session" where
  "task_poll X live now unix fs e s =
     (if \<not> live then (TaskDone, s)
      else case dispatch_frames X now unix fs s of
             (Some r, s') \<Rightarrow> (r, s')
           | (None, s') \<Rightarrow>
               (case e of
                  StreamClosed \<Rightarrow> (TaskDone, session_shutdown s')
                | StreamFailed \<Rightarrow> (TaskConnectionError, session_shutdown s')
                | StreamIdle \<Rightarrow> keep_alive_poll now s'))"

definition task_new :: "nat \<Rightarrow> Session \<Rightarrow> Session" where
  "task_new now s = keep_alive ExpectingPing (now + INITIAL_PING_TIMEOUT) s"

text \<open>The task that writes packets ends, with an error or because the session is gone.\<close>

definition sender_task_end :: "bool \<Rightarrow> bool \<Rightarrow> Session \<Rightarrow> Session" where
  "sender_task_end live failed s =
     (let s = s\<lparr>tx_connection := TxClosed\<rparr>
      in if failed \<and> live \<and> \<not> is_invalid s then session_shutdown s else s)"

section \<open>Logging in\<close>

datatype ErrorCode =
    ProtocolError | TryAnotherAP | BadConnectionId | TravelRestriction | PremiumAccountRequired
  | BadCredentials | CouldNotValidateCredentials | AccountExists | ExtraVerificationRequired
  | InvalidAppKey | ApplicationBanned

fun login_error_message :: "ErrorCode \<Rightarrow> string" where
  "login_error_message ProtocolError = ''Protocol error''"
| "login_error_message TryAnotherAP = ''Try another access point''"
| "login_error_message BadConnectionId = ''Bad connection ID''"
| "login_error_message TravelRestriction = ''Travel restriction''"
| "login_error_message PremiumAccountRequired = ''Premium account required''"
| "login_error_message BadCredentials = ''Bad credentials''"
| "login_error_message CouldNotValidateCredentials = ''Could not validate credentials''"
| "login_error_message AccountExists = ''Account exists''"
| "login_error_message ExtraVerificationRequired = ''Extra verification required''"
| "login_error_message InvalidAppKey = ''Invalid app key''"
| "login_error_message ApplicationBanned = ''Application banned''"

datatype AuthenticationError = LoginFailed ErrorCode | AuthPacket u8 | Transport

fun authentication_error_kind :: "AuthenticationError \<Rightarrow> ErrorKind" where
  "authentication_error_kind (LoginFailed c) = PermissionDenied"
| "authentication_error_kind (AuthPacket p) = Unimplemented"
| "authentication_error_kind Transport = Unavailable"

text \<open>An error of a connection attempt: one of authentication, or any other.\<close>

datatype ConnectError = Authentication AuthenticationError | IoFailed | ProtobufFailed

datatype AuthenticationType = AUTHENTICATION_USER_PASS | AUTHENTICATION_STORED_SPOTIFY_CREDENTIALS
  | AUTHENTICATION_STORED_FACEBOOK_CREDENTIALS | AUTHENTICATION_SPOTIFY_TOKEN | AUTHENTICATION_FACEBOOK_TOKEN

record Credentials =
  username :: "string option"
  auth_type :: AuthenticationType
  cred_data :: "u8 list"

datatype CpuFamily = CPU_UNKNOWN | CPU_X86 | CPU_X86_64 | CPU_PPC | CPU_PPC_64 | CPU_ARM | CPU_IA64
  | CPU_SH | CPU_MIPS | CPU_BLACKFIN

datatype Os = OS_UNKNOWN | OS_WINDOWS | OS_OSX | OS_IPHONE | OS_LINUX | OS_ANDROID | OS_FREEBSD

definition cpu_family_of :: "string \<Rightarrow> CpuFamily" where
  "cpu_family_of arch =
     (if arch = ''blackfin'' then CPU_BLACKFIN
      else if arch \<in> {''arm'', ''aarch64''} then CPU_ARM
      else if arch = ''ia64'' then CPU_IA64
      else if arch = ''mips'' then CPU_MIPS
      else if arch = ''ppc'' then CPU_PPC
      else if arch = ''ppc64'' then CPU_PPC_64
      else if arch = ''sh'' then CPU_SH
      else if arch = ''x86'' then CPU_X86
      else if arch = ''x86_64'' then CPU_X86_64
      else CPU_UNKNOWN)"

definition os_of :: "string \<Rightarrow> Os" where
  "os_of os =
     (if os = ''android'' then OS_ANDROID
      else if os \<in> {''freebsd'', ''netbsd'', ''openbsd''} then OS_FREEBSD
      else if os = ''ios'' then OS_IPHONE
      else if os = ''linux'' then OS_LINUX
      else if os = ''macos'' then OS_OSX
      else if os = ''windows'' then OS_WINDOWS
      else OS_UNKNOWN)"

record Build =
  arch :: string
  build_os :: string
  sha_short :: string
  build_id :: string
  semver :: string

record ClientResponseEncrypted =
  login_username :: "string option"
  login_typ :: AuthenticationType
  login_auth_data :: "u8 list"
  cpu_family :: CpuFamily
  os :: Os
  system_information_string :: string
  device_id :: string
  version_string :: string

definition login_packet :: "Build \<Rightarrow> Credentials \<Rightarrow> string \<Rightarrow> ClientResponseEncrypted" where
  "login_packet b c dev =
     \<lparr>login_username = username c, login_typ = auth_type c, login_auth_data = cred_data c,
      cpu_family = cpu_family_of (arch b), os = os_of (build_os b),
      system_information_string = ''librespot-'' @ sha_short b @ ''-'' @ build_id b,
      device_id = dev, version_string = ''librespot '' @ semver b\<rparr>"

text \<open>
  \<open>authenticate\<close>: the login packet goes out, the next packet of the transport decides.
  \<open>exchange\<close> is the other side of the transport: for the packet sent, \<open>None\<close> where the stream ends,
  an I/O error, or a packet; the three protobuf codecs are parameters.
\<close>

record Login =
  write_login :: "ClientResponseEncrypted \<Rightarrow> u8 list option"
  parse_welcome :: "u8 list \<Rightarrow> Credentials option"
  parse_login_failed :: "u8 list \<Rightarrow> ErrorCode option"

definition authenticate ::
  "Login \<Rightarrow> Build \<Rightarrow> string \<Rightarrow> (u8 \<times> u8 list \<Rightarrow> (unit + (u8 \<times> u8 list)) option) \<Rightarrow> Credentials
   \<Rightarrow> ConnectError + Credentials" where
  "authenticate L b dev exchange c =
     (case write_login L (login_packet b c dev) of
        None \<Rightarrow> Err ProtobufFailed
      | Some data \<Rightarrow>
          (case exchange (packet_code Wire.Login, data) of
             None \<Rightarrow> Err (Authentication Transport)
           | Some (Inl _) \<Rightarrow> Err IoFailed
           | Some (Inr (cmd, data)) \<Rightarrow>
               (case packet_from_u8 cmd of
                  Some APWelcome \<Rightarrow>
                    (case parse_welcome L data of None \<Rightarrow> Err ProtobufFailed | Some w \<Rightarrow> Ok w)
                | Some AuthFailure \<Rightarrow>
                    (case parse_login_failed L data of
                       None \<Rightarrow> Err ProtobufFailed
                     | Some code \<Rightarrow> Err (Authentication (LoginFailed code)))
                | _ \<Rightarrow> Err (Authentication (AuthPacket cmd)))))"

section \<open>Finding an access point\<close>

text \<open>
  \<open>connect_with_retry\<close>: attempt \<open>i\<close> and the following ones while \<open>num_retries < max_retries\<close>; the
  result comes with the number of the next attempt.
\<close>

function connect_with_retry :: "(nat \<Rightarrow> 'e + 't) \<Rightarrow> nat \<Rightarrow> nat \<Rightarrow> nat \<Rightarrow> ('e + 't) \<times> nat" where
  "connect_with_retry attempt max_retries num_retries i =
     (case attempt i of
        Inr t \<Rightarrow> (Ok t, Suc i)
      | Inl e \<Rightarrow>
          if num_retries < max_retries then connect_with_retry attempt max_retries (Suc num_retries) (Suc i)
          else (Err e, Suc i))"
  by pat_completeness auto
termination
  by (relation "measure (\<lambda>(a, m, n, i). m - n)") auto

declare connect_with_retry.simps [simp del]

definition MAX_RETRIES :: nat where "MAX_RETRIES = 1"

text \<open>
  \<open>connect_inner\<close>: a session that logs in with a token connects and logs in again with the
  credentials it has got.
\<close>

definition connect_inner ::
  "(nat \<Rightarrow> ConnectError + 't) \<Rightarrow> ('t \<Rightarrow> Credentials \<Rightarrow> ConnectError + Credentials) \<Rightarrow> Credentials
   \<Rightarrow> ConnectError + (Credentials \<times> 't)" where
  "connect_inner attempt auth credentials =
     (case connect_with_retry attempt MAX_RETRIES 0 0 of
        (Inl e, _) \<Rightarrow> Err e
      | (Inr transport, i) \<Rightarrow>
          (case auth transport credentials of
             Inl e \<Rightarrow> Err e
           | Inr reusable \<Rightarrow>
               if auth_type credentials = AUTHENTICATION_SPOTIFY_TOKEN
               then (case connect_with_retry attempt MAX_RETRIES 0 i of
                       (Inl e, _) \<Rightarrow> Err e
                     | (Inr transport, _) \<Rightarrow>
                         (case auth transport reusable of
                            Inl e \<Rightarrow> Err e
                          | Inr reusable \<Rightarrow> Ok (reusable, transport)))
               else Ok (reusable, transport)))"

definition MAX_AP_TRIES :: nat where "MAX_AP_TRIES = 6"

text \<open>
  The loop of \<open>Session::connect\<close>: round \<open>n\<close> resolves an address and tries it; the result comes with
  the number of tries. From \<open>0\<close> the counter meets the limit exactly, so \<open>\<le>\<close> is the equality of the
  source.
\<close>

function connect_loop ::
  "(nat \<Rightarrow> 'e + 'ap) \<Rightarrow> (nat \<Rightarrow> 'ap \<Rightarrow> ConnectError + 'r) \<Rightarrow> nat \<Rightarrow> (('e + ConnectError) + 'r) \<times> nat" where
  "connect_loop resolve inner n =
     (case resolve n of
        Inl e \<Rightarrow> (Err (Inl e), n)
      | Inr ap \<Rightarrow>
          (case inner n ap of
             Inr ct \<Rightarrow> (Ok ct, Suc n)
           | Inl e \<Rightarrow>
               if MAX_AP_TRIES \<le> Suc n then (Err (Inr e), Suc n)
               else (case e of
                       Authentication (LoginFailed code) \<Rightarrow>
                         if code = TryAnotherAP then connect_loop resolve inner (Suc n)
                         else (Err (Inr e), Suc n)
                     | _ \<Rightarrow> connect_loop resolve inner (Suc n))))"
  by pat_completeness auto
termination
  by (relation "measure (\<lambda>(r, i, n). MAX_AP_TRIES - n)") auto

declare connect_loop.simps [simp del]

text \<open>
  The rest of \<open>Session::connect\<close>: the user, the credentials to keep in the cache if they are new, and
  the two tasks. A session that was connected before cannot be connected again.
\<close>

definition session_connect ::
  "nat \<Rightarrow> (nat \<Rightarrow> ConnectError + 'ap) \<Rightarrow> (nat \<Rightarrow> 'ap \<Rightarrow> ConnectError + (Credentials \<times> 't)) \<Rightarrow> bool
   \<Rightarrow> Credentials option option \<Rightarrow> Session
   \<Rightarrow> (ConnectError + SessionError + 't) \<times> Credentials option option \<times> Session" where
  "session_connect now resolve inner store_credentials cache s =
     (case fst (connect_loop resolve inner 0) of
        Inl e \<Rightarrow> (Inl (case e of Inl e \<Rightarrow> e | Inr e \<Rightarrow> e), cache, s)
      | Inr (c, transport) \<Rightarrow>
          (let s = set_auth_data (cred_data c) (set_username (case username c of Some u \<Rightarrow> u | None \<Rightarrow> ''UNKNOWN'') s);
               cache = (case cache of
                          None \<Rightarrow> None
                        | Some old \<Rightarrow> if store_credentials \<and> old \<noteq> Some c then Some (Some c) else Some old)
           in if tx_connection s = TxUnset
              then (Inr (Inr transport), cache, task_new now (s\<lparr>tx_connection := TxOpen\<rparr>))
              else (Inr (Inl SessionNotConnected), cache, s)))"

section \<open>Keep-alive\<close>

text \<open>Polls one after the other, each with its time and the packets that are there, until the task ends.\<close>

fun run_task ::
  "Outside \<Rightarrow> (nat \<times> nat \<times> (u8 \<times> u8 list) list) list \<Rightarrow> Session \<Rightarrow> TaskResult \<times> Session" where
  "run_task X [] s = (TaskPending, s)"
| "run_task X ((now, unix, fs) # ps) s =
     (case task_poll X True now unix fs StreamIdle s of
        (TaskPending, s') \<Rightarrow> run_task X ps s'
      | (r, s') \<Rightarrow> (r, s'))"

definition keep_alive_frame :: "u8 \<times> u8 list \<Rightarrow> bool" where
  "keep_alive_frame f \<longleftrightarrow> packet_from_u8 (fst f) \<in> {Some Ping, Some PongAck}"

fun state_timeout :: "KeepAliveState \<Rightarrow> nat" where
  "state_timeout ExpectingPing = PING_TIMEOUT"
| "state_timeout PendingPong = PONG_DELAY"
| "state_timeout ExpectingPongAck = PONG_ACK_TIMEOUT"

definition keep_alive_ok :: "nat \<Rightarrow> Session \<Rightarrow> bool" where
  "keep_alive_ok t s \<longleftrightarrow> keep_alive_deadline s \<le> t + state_timeout (keep_alive_state s)"

lemmas timeout_defs = PING_TIMEOUT_def PONG_DELAY_def PONG_ACK_TIMEOUT_def INITIAL_PING_TIMEOUT_def

lemma upd_simps [simp]:
  "keep_alive_state (upd_data f s) = keep_alive_state s" "keep_alive_deadline (upd_data f s) = keep_alive_deadline s"
  "keep_alive_state (upd_user g s) = keep_alive_state s" "keep_alive_deadline (upd_user g s) = keep_alive_deadline s"
  "tx_connection (upd_data f s) = tx_connection s" "sent (upd_data f s) = sent s"
  "keep_alive_state (keep_alive k t s) = k" "keep_alive_deadline (keep_alive k t s) = t"
  "sent (keep_alive k t s) = sent s" "tx_connection (keep_alive k t s) = tx_connection s"
  "sess_data (keep_alive k t s) = sess_data s"
  by (simp_all add: upd_data_def upd_user_def keep_alive_def)

lemma send_packet_keep_alive [simp]:
  "keep_alive_state (snd (send_packet p d s)) = keep_alive_state s"
  "keep_alive_deadline (snd (send_packet p d s)) = keep_alive_deadline s"
  "sess_data (snd (send_packet p d s)) = sess_data s"
  "tx_connection (snd (send_packet p d s)) = tx_connection s"
  by (simp_all add: send_packet_def split: Tx.split)

lemma is_invalid_shutdown [simp]: "is_invalid (session_shutdown s)"
  by (simp add: session_shutdown_def upd_data_def)

text \<open>Only a ping and its acknowledgement move the deadline.\<close>

lemma dispatch_quiet:
  assumes "\<not> keep_alive_frame (cmd, data)" "dispatch X now unix cmd data s = (r, s')"
  shows "keep_alive_state s' = keep_alive_state s" "keep_alive_deadline s' = keep_alive_deadline s"
  using assms
  by (auto simp: dispatch_def keep_alive_frame_def case_prod_beta Let_def
      split: option.splits if_splits sum.splits)

lemma dispatch_frames_quiet:
  assumes "list_all (\<lambda>f. \<not> keep_alive_frame f) fs" "dispatch_frames X now unix fs s = (r, s')"
  shows "keep_alive_state s' = keep_alive_state s \<and> keep_alive_deadline s' = keep_alive_deadline s"
  using assms
proof (induction fs arbitrary: s)
  case Nil
  then show ?case by simp
next
  case (Cons f fs)
  obtain cmd data where f: "f = (cmd, data)" by (cases f)
  obtain q s1 where d: "dispatch X now unix cmd data s = (q, s1)" by (metis surj_pair)
  have k: "keep_alive_state s1 = keep_alive_state s" "keep_alive_deadline s1 = keep_alive_deadline s"
    using dispatch_quiet [OF _ d] Cons.prems(1) f by auto
  have "s' = s1 \<or> dispatch_frames X now unix fs s1 = (r, s')"
    using Cons.prems(2) by (auto simp: f d split: sum.splits fault.splits SessionError.splits)
  then show ?case using Cons.IH [of s1] Cons.prems(1) k by auto
qed

text \<open>After a packet, and after every poll, the deadline is as far away as its state allows.\<close>

lemma dispatch_keep_alive_ok:
  assumes "keep_alive_ok t s" "t \<le> now" "dispatch X now unix cmd data s = (r, s')"
  shows "keep_alive_ok now s'"
proof (cases "keep_alive_frame (cmd, data)")
  case True
  then show ?thesis using assms(3)
    by (auto simp: keep_alive_frame_def dispatch_def keep_alive_ok_def Let_def timeout_defs split: if_splits)
next
  case False
  from dispatch_quiet [OF this assms(3)] show ?thesis using assms(1,2) by (simp add: keep_alive_ok_def)
qed

lemma dispatch_frames_keep_alive_ok:
  assumes "keep_alive_ok now s" "dispatch_frames X now unix fs s = (r, s')"
  shows "keep_alive_ok now s'"
  using assms
proof (induction fs arbitrary: s)
  case Nil
  then show ?case by simp
next
  case (Cons f fs)
  obtain cmd data where f: "f = (cmd, data)" by (cases f)
  obtain q s1 where d: "dispatch X now unix cmd data s = (q, s1)" by (metis surj_pair)
  have "keep_alive_ok now s1" using dispatch_keep_alive_ok [OF Cons.prems(1) order_refl d] .
  moreover have "s' = s1 \<or> dispatch_frames X now unix fs s1 = (r, s')"
    using Cons.prems(2) by (auto simp: f d split: sum.splits fault.splits SessionError.splits)
  ultimately show ?case using Cons.IH [of s1] by auto
qed

lemma task_poll_keep_alive_ok:
  assumes "keep_alive_ok t s" "t \<le> now" "task_poll X True now unix fs StreamIdle s = (TaskPending, s')"
  shows "keep_alive_ok now s'"
proof -
  obtain r s1 where d: "dispatch_frames X now unix fs s = (r, s1)" by (metis surj_pair)
  have "keep_alive_ok now s" using assms(1,2) by (simp add: keep_alive_ok_def)
  then have ok: "keep_alive_ok now s1" using d by (rule dispatch_frames_keep_alive_ok)
  show ?thesis
  proof (cases r)
    case None
    then show ?thesis using assms(3) d ok
      by (auto simp: task_poll_def keep_alive_poll_def keep_alive_ok_def split: if_splits)
  next
    case (Some q)
    then show ?thesis using assms(3) d ok by (simp add: task_poll_def)
  qed
qed

lemma run_task_keep_alive_ok:
  assumes "keep_alive_ok t s" "sorted (t # map fst ps)" "run_task X ps s = (TaskPending, s')"
  shows "keep_alive_ok (last (t # map fst ps)) s'"
  using assms
proof (induction ps arbitrary: t s)
  case Nil
  then show ?case by simp
next
  case (Cons p ps)
  obtain now unix fs where p: "p = (now, unix, fs)" by (cases p)
  obtain s1 where s1: "task_poll X True now unix fs StreamIdle s = (TaskPending, s1)" "run_task X ps s1 = (TaskPending, s')"
    using Cons.prems(3) by (auto simp: p split: prod.splits TaskResult.splits)
  have "keep_alive_ok now s1" using task_poll_keep_alive_ok [OF Cons.prems(1) _ s1(1)] Cons.prems(2) by (simp add: p)
  from Cons.IH [OF this _ s1(2)] Cons.prems(2) show ?case by (simp add: p)
qed

text \<open>A poll past the deadline without a ping or an acknowledgement sends the pong or ends the task.\<close>

lemma quiet_poll:
  assumes "list_all (\<lambda>f. \<not> keep_alive_frame f) fs" "keep_alive_deadline s \<le> now"
    "task_poll X True now unix fs StreamIdle s = (r, s')"
  shows "r \<in> {TaskTimedOut, TaskPanicked, TaskExited} \<and> (r = TaskTimedOut \<longrightarrow> is_invalid s') \<or>
    r = TaskPending \<and> keep_alive_state s = PendingPong \<and> keep_alive_state s' = ExpectingPongAck \<and>
      keep_alive_deadline s' = now + PONG_ACK_TIMEOUT"
proof -
  obtain q s1 where d: "dispatch_frames X now unix fs s = (q, s1)" by (metis surj_pair)
  have k: "keep_alive_state s1 = keep_alive_state s" "keep_alive_deadline s1 = keep_alive_deadline s"
    using dispatch_frames_quiet [OF assms(1) d] by auto
  have "q \<in> {None, Some TaskPanicked, Some TaskExited}"
    using d by (induction fs arbitrary: s) (auto split: prod.splits sum.splits fault.splits SessionError.splits)
  then show ?thesis using assms(2,3) d k
    by (auto simp: task_poll_def keep_alive_poll_def split: if_splits)
qed

text \<open>A whole exchange: ping, pong after a minute, acknowledgement.\<close>

record Exchange =
  ping_at :: nat
  ping_time :: "u8 list"
  pong_at :: nat
  ack_at :: nat
  unix_at :: nat

definition exchange_ok :: "Exchange \<Rightarrow> bool" where
  "exchange_ok e \<longleftrightarrow> ping_at e + PONG_DELAY \<le> pong_at e \<and> 4 \<le> length (ping_time e)"

definition exchange_polls :: "Exchange \<Rightarrow> (nat \<times> nat \<times> (u8 \<times> u8 list) list) list" where
  "exchange_polls e =
     [(ping_at e, unix_at e, [(packet_code Ping, ping_time e)]), (pong_at e, unix_at e, []),
      (ack_at e, unix_at e, [(packet_code PongAck, [])])]"

lemma dispatch_ping:
  "4 \<le> length data \<Longrightarrow> dispatch X now unix (packet_code Ping) data s =
     (Ok (), upd_data (\<lambda>d. d\<lparr>time_delta := int (be_value (take 4 data)) - int unix\<rparr>)
       (keep_alive PendingPong (now + PONG_DELAY) s))"
  by (simp add: dispatch_def del: packet_code.simps)

lemma dispatch_pong_ack:
  "dispatch X now unix (packet_code PongAck) data s = (Ok (), keep_alive ExpectingPing (now + PING_TIMEOUT) s)"
  by (simp add: dispatch_def del: packet_code.simps)

lemma exchange_run:
  assumes "exchange_ok e" "tx_connection s = TxOpen"
  shows "\<exists>s'. run_task X (exchange_polls e @ ps) s = run_task X ps s' \<and> tx_connection s' = TxOpen \<and>
    sent s' = sent s @ [(packet_code Pong, [0, 0, 0, 0])] \<and> keep_alive_state s' = ExpectingPing \<and>
    keep_alive_deadline s' = ack_at e + PING_TIMEOUT \<and> is_invalid s' = is_invalid s"
  using assms
  by (simp add: exchange_polls_def exchange_ok_def task_poll_def dispatch_ping dispatch_pong_ack keep_alive_poll_def
      timeout_defs send_packet_def del: packet_code.simps)
     (intro exI conjI, rule refl, simp_all add: upd_data_def keep_alive_def)

section \<open>Routing of audio keys\<close>

definition key_requests :: "(nat \<times> SpotifyId \<times> FileId) list \<Rightarrow> Session \<Rightarrow> Session" where
  "key_requests rs s = fold (\<lambda>(cb, track, file) s. snd (key_request cb track file s)) rs s"

lemma key_request_audio_key:
  "audio_key (snd (key_request cb track file s)) =
     (audio_key s)\<lparr>key_sequence := key_sequence (audio_key s) + 1,
      key_pending := (key_pending (audio_key s))(key_sequence (audio_key s) \<mapsto> cb)\<rparr>"
  by (simp add: key_request_def seq_get_def send_packet_def Let_def split: Tx.split)

lemma key_requests_pending:
  assumes "audio_key s = audio_key_new" "length rs \<le> 2 ^ 32"
  shows "key_sequence (audio_key (key_requests rs s)) = of_nat (length rs) \<and>
    (\<forall>i < length rs. key_pending (audio_key (key_requests rs s)) (of_nat i) = Some (fst (rs ! i)))"
  using assms(2)
proof (induction rs rule: rev_induct)
  case Nil
  then show ?case using assms(1) by (simp add: key_requests_def audio_key_new_def)
next
  case (snoc r rs)
  obtain cb track f where r: "r = (cb, track, f)" by (cases r)
  have step: "key_requests (rs @ [r]) s = snd (key_request cb track f (key_requests rs s))"
    by (simp add: key_requests_def r)
  have ne: "(of_nat i :: u32) \<noteq> of_nat (length rs)" if "i < length rs" for i
    using that snoc.prems by (simp add: word_unat_eq_iff unat_of_nat take_bit_eq_mod)
  show ?case
    unfolding step key_request_audio_key
    using snoc ne r by (auto simp: nth_append less_Suc_eq algebra_simps)
qed

section \<open>Choosing an access point\<close>

definition try_another :: "ConnectError \<Rightarrow> bool" where
  "try_another e \<longleftrightarrow> (\<forall>code. e = Authentication (LoginFailed code) \<longrightarrow> code = TryAnotherAP)"

lemma connect_loop_step:
  "connect_loop resolve inner n =
     (case resolve n of
        Inl e \<Rightarrow> (Err (Inl e), n)
      | Inr ap \<Rightarrow>
          (case inner n ap of
             Inr ct \<Rightarrow> (Ok ct, Suc n)
           | Inl e \<Rightarrow>
               if MAX_AP_TRIES \<le> Suc n \<or> \<not> try_another e then (Err (Inr e), Suc n)
               else connect_loop resolve inner (Suc n)))"
  by (subst connect_loop.simps)
     (auto simp: try_another_def split: sum.split ConnectError.split AuthenticationError.split)

definition tried :: "(nat \<Rightarrow> 'e + 'ap) \<Rightarrow> (nat \<Rightarrow> 'ap \<Rightarrow> ConnectError + 'r) \<Rightarrow> nat \<Rightarrow> ConnectError \<Rightarrow> bool" where
  "tried resolve inner i e \<longleftrightarrow> (\<exists>ap. resolve i = Ok ap \<and> inner i ap = Err e)"

definition connect_outcome ::
  "(nat \<Rightarrow> 'e + 'ap) \<Rightarrow> (nat \<Rightarrow> 'ap \<Rightarrow> ConnectError + 'r) \<Rightarrow> (('e + ConnectError) + 'r) \<Rightarrow> nat \<Rightarrow> bool" where
  "connect_outcome resolve inner r k \<longleftrightarrow>
     (case r of
        Inl (Inl e) \<Rightarrow> resolve k = Err e
      | Inl (Inr e) \<Rightarrow> 0 < k \<and> tried resolve inner (k - 1) e \<and> (k = MAX_AP_TRIES \<or> \<not> try_another e)
      | Inr ct \<Rightarrow> 0 < k \<and> (\<exists>ap. resolve (k - 1) = Ok ap \<and> inner (k - 1) ap = Ok ct))"

lemma connect_loop_outcome:
  assumes "n < MAX_AP_TRIES" "connect_loop resolve inner n = (r, k)"
  shows "n \<le> k \<and> k \<le> MAX_AP_TRIES \<and> connect_outcome resolve inner r k \<and>
    (\<forall>i. n \<le> i \<longrightarrow> Suc i < k \<longrightarrow> (\<exists>e. tried resolve inner i e \<and> try_another e))"
  using assms
proof (induction "MAX_AP_TRIES - n" arbitrary: n rule: less_induct)
  case less
  show ?case
  proof (cases "resolve n")
    case (Inl e)
    then show ?thesis using less.prems by (auto simp: connect_loop_step [of resolve inner n] connect_outcome_def)
  next
    case ap: (Inr ap)
    show ?thesis
    proof (cases "inner n ap")
      case (Inr ct)
      then show ?thesis using less.prems ap
        by (auto simp: connect_loop_step [of resolve inner n] connect_outcome_def)
    next
      case e: (Inl e)
      show ?thesis
      proof (cases "MAX_AP_TRIES \<le> Suc n \<or> \<not> try_another e")
        case True
        then show ?thesis using less.prems ap e
          by (auto simp: connect_loop_step [of resolve inner n] connect_outcome_def tried_def)
      next
        case False
        have eq: "connect_loop resolve inner (Suc n) = (r, k)" using less.prems ap e False
          by (simp add: connect_loop_step [of resolve inner n])
        have IH: "Suc n \<le> k \<and> k \<le> MAX_AP_TRIES \<and> connect_outcome resolve inner r k \<and>
            (\<forall>i. Suc n \<le> i \<longrightarrow> Suc i < k \<longrightarrow> (\<exists>e. tried resolve inner i e \<and> try_another e))"
          by (rule less.hyps [OF _ _ eq]) (use less.prems(1) False in linarith)+
        have here: "tried resolve inner n e" "try_another e" using ap e False by (simp_all add: tried_def)
        have "\<exists>e. tried resolve inner i e \<and> try_another e" if "n \<le> i" "Suc i < k" for i
        proof (cases "i = n")
          case True
          with here show ?thesis by blast
        next
          case False
          with that have "Suc n \<le> i" by simp
          with IH that(2) show ?thesis by blast
        qed
        with IH show ?thesis by simp
      qed
    qed
  qed
qed

section \<open>Responses through the session\<close>

definition mercury_frames :: "PacketType \<Rightarrow> u8 list \<Rightarrow> (u8 \<times> u8 list list) list \<Rightarrow> (u8 \<times> u8 list) list" where
  "mercury_frames cmd seq pks = map (\<lambda>(f, ps). (packet_code cmd, packet_bytes seq f ps)) pks"

abbreviation session_mercury :: "Outside \<Rightarrow> PacketType \<Rightarrow> u8 list \<Rightarrow> MercuryManager \<Rightarrow>
    (MercuryError, unit) fallible \<times> Delivery list \<times> MercuryManager" where
  "session_mercury X \<equiv> mercury_dispatch (out_parse_header X) (out_urlenc X) (out_handles X) (out_alive X)"

lemma dispatch_mercury:
  assumes "cmd \<in> {MercuryReq, MercurySub, MercuryUnsub, MercuryEvent}"
    "session_mercury X cmd data (mercury s) = (Ok (), ds, m)"
  shows "dispatch X now unix (packet_code cmd) data s = (Ok (), s\<lparr>mercury := m, deliveries := deliveries s @ ds\<rparr>)"
  using assms by (auto simp: dispatch_def lift_fault_def simp del: packet_code.simps)

lemma dispatch_frames_more:
  assumes "cmd \<in> {MercuryReq, MercurySub, MercuryUnsub}" "length seq < 65536"
    "list_all (\<lambda>k. packet_ok k \<and> fst k \<noteq> 1) pks" "pending (mercury s) seq = Some p"
  shows "dispatch_frames X now unix (mercury_frames cmd seq pks @ fs) s =
    dispatch_frames X now unix fs (s\<lparr>mercury := (mercury s)\<lparr>pending := (pending (mercury s))
      (seq \<mapsto> absorb (concat (map (\<lambda>(f, ps). tag_parts f ps) pks)) p)\<rparr>\<rparr>)"
  using assms(3,4)
proof (induction pks arbitrary: s p)
  case Nil
  then have "s\<lparr>mercury := (mercury s)\<lparr>pending := (pending (mercury s))(seq \<mapsto> p)\<rparr>\<rparr> = s"
    by (simp add: map_upd_triv)
  then show ?case by (simp only: mercury_frames_def list.map concat.simps absorb_simps append_Nil)
next
  case (Cons k pks)
  obtain f ps where k: "k = (f, ps)" by (cases k)
  let ?m = "(mercury s)\<lparr>pending := (pending (mercury s))(seq \<mapsto> absorb (tag_parts f ps) p)\<rparr>"
  have "session_mercury X cmd (packet_bytes seq f ps) (mercury s) = (Ok (), [], ?m)"
    by (rule dispatch_more) (use assms(2) Cons.prems k in simp_all)
  with assms(1) have "dispatch X now unix (packet_code cmd) (packet_bytes seq f ps) s = (Ok (), s\<lparr>mercury := ?m\<rparr>)"
    using dispatch_mercury [of cmd X "packet_bytes seq f ps" s "[]" ?m now unix] by auto
  then have "dispatch_frames X now unix (mercury_frames cmd seq (k # pks) @ fs) s =
      dispatch_frames X now unix (mercury_frames cmd seq pks @ fs) (s\<lparr>mercury := ?m\<rparr>)"
    by (simp add: k mercury_frames_def del: packet_code.simps)
  also have "\<dots> = dispatch_frames X now unix fs (s\<lparr>mercury := ?m\<rparr>\<lparr>mercury := ?m\<lparr>pending := (pending ?m)
      (seq \<mapsto> absorb (concat (map (\<lambda>(f, ps). tag_parts f ps) pks)) (absorb (tag_parts f ps) p))\<rparr>\<rparr>)"
    by (subst Cons.IH [of "s\<lparr>mercury := ?m\<rparr>" "absorb (tag_parts f ps) p"]) (use Cons.prems in simp_all)
  also have "s\<lparr>mercury := ?m\<rparr>\<lparr>mercury := ?m\<lparr>pending := (pending ?m)
      (seq \<mapsto> absorb (concat (map (\<lambda>(f, ps). tag_parts f ps) pks)) (absorb (tag_parts f ps) p))\<rparr>\<rparr> =
    s\<lparr>mercury := (mercury s)\<lparr>pending := (pending (mercury s))
      (seq \<mapsto> absorb (concat (map (\<lambda>(f, ps). tag_parts f ps) (k # pks))) p)\<rparr>\<rparr>"
    by (simp add: k fun_upd_upd)
  finally show ?case .
qed

text \<open>The packets of a whole response answer the request that waits for it, and change nothing else.\<close>

lemma dispatch_frames_response:
  assumes "cmd \<in> {MercuryReq, MercurySub, MercuryUnsub}" "length seq < 65536"
    "list_all (\<lambda>k. packet_ok k \<and> fst k \<noteq> 1) pks" "packet_ok (1, ps)" "ps \<noteq> []"
    "pending (mercury s) seq = Some \<lparr>parts = [], partial = None, callback = Some cb\<rparr>"
    "join_chunks (concat (map (\<lambda>(f, ps). tag_parts f ps) (pks @ [(1, ps)]))) = header # body"
    "out_parse_header X header = Some h" "hdr_status_code h < 400" "out_alive X cb"
  shows "dispatch_frames X now unix (mercury_frames cmd seq (pks @ [(1, ps)])) s =
    (None, s\<lparr>mercury := (mercury s)\<lparr>pending := (pending (mercury s))(seq := None)\<rparr>,
             deliveries := deliveries s @
               [Reply cb (Inr \<lparr>resp_uri = hdr_uri h, status_code = hdr_status_code h, resp_payload = body\<rparr>)]\<rparr>)"
proof -
  define ts where "ts = concat (map (\<lambda>(f, ps). tag_parts f ps) pks)"
  let ?m = "(mercury s)\<lparr>pending := (pending (mercury s))(seq \<mapsto>
    absorb ts \<lparr>parts = [], partial = None, callback = Some cb\<rparr>)\<rparr>"
  let ?r = "[Reply cb (Inr \<lparr>resp_uri = hdr_uri h, status_code = hdr_status_code h, resp_payload = body\<rparr>)]"
  have "join_chunks (ts @ tag_parts 1 ps) = header # body" using assms(7) by (simp add: ts_def)
  moreover have "cmd \<noteq> MercuryEvent" using assms(1) by auto
  ultimately have "session_mercury X cmd (packet_bytes seq 1 ps) ?m =
      (Ok (), ?r, ?m\<lparr>pending := (pending ?m)(seq := None)\<rparr>)"
    by (intro dispatch_final [where ts = ts and header = header]) (simp_all add: assms del: assms(6))
  then have "dispatch X now unix (packet_code cmd) (packet_bytes seq 1 ps) (s\<lparr>mercury := ?m\<rparr>) =
      (Ok (), s\<lparr>mercury := ?m, mercury := ?m\<lparr>pending := (pending ?m)(seq := None)\<rparr>, deliveries := deliveries s @ ?r\<rparr>)"
    using dispatch_mercury [of cmd X "packet_bytes seq 1 ps" "s\<lparr>mercury := ?m\<rparr>"] assms(1) by auto
  moreover have "dispatch_frames X now unix (mercury_frames cmd seq pks @ [(packet_code cmd, packet_bytes seq 1 ps)]) s =
      dispatch_frames X now unix [(packet_code cmd, packet_bytes seq 1 ps)] (s\<lparr>mercury := ?m\<rparr>)"
    unfolding ts_def by (rule dispatch_frames_more [OF assms(1-3,6)])
  ultimately show ?thesis by (simp add: mercury_frames_def fun_upd_upd del: packet_code.simps)
qed

section \<open>Properties\<close>



text \<open>
  A server that keeps to the protocol is never given up: through any number of exchanges (a ping,
  a poll at least 60 s later, an acknowledgement) the task goes on, exactly one pong is sent for each
  ping, and the session stays valid.
\<close>

theorem exchanges_keep_session:
  assumes "list_all exchange_ok es" and "tx_connection s = TxOpen"
  shows "\<exists>s'. run_task X (concat (map exchange_polls es)) s = (TaskPending, s') \<and>
    sent s' = sent s @ replicate (length es) (packet_code Pong, [0, 0, 0, 0]) \<and> is_invalid s' = is_invalid s"
  using assms
proof (induction es arbitrary: s)
  case Nil
  then show ?case by simp
next
  case (Cons e es)
  obtain s1 where s1: "run_task X (exchange_polls e @ concat (map exchange_polls es)) s =
      run_task X (concat (map exchange_polls es)) s1" "tx_connection s1 = TxOpen"
    "sent s1 = sent s @ [(packet_code Pong, [0, 0, 0, 0])]" "is_invalid s1 = is_invalid s"
    using exchange_run [of e s X "concat (map exchange_polls es)"] Cons.prems by auto
  with Cons.IH [of s1] Cons.prems show ?case by simp
qed

theorem exchanges_keep_session_witness:
  "\<exists>s'. run_task \<lparr>out_xml = \<lambda>_. [], out_parse_header = \<lambda>_. None, out_urlenc = \<lambda>u. u,
       out_handles = \<lambda>_. False, out_alive = \<lambda>_. True\<rparr>
      (concat (map exchange_polls [\<lparr>ping_at = 5, ping_time = [0, 0, 1, 0], pong_at = 70, ack_at = 71, unix_at = 256\<rparr>,
         \<lparr>ping_at = 131, ping_time = [0, 0, 1, 0], pong_at = 191, ack_at = 192, unix_at = 300\<rparr>]))
      ((session_new [] [])\<lparr>tx_connection := TxOpen\<rparr>) = (TaskPending, s') \<and>
    sent s' = [(0x49, [0, 0, 0, 0]), (0x49, [0, 0, 0, 0])] \<and> \<not> is_invalid s'"
  using exchanges_keep_session [of "[\<lparr>ping_at = 5, ping_time = [0, 0, 1, 0], pong_at = 70, ack_at = 71, unix_at = 256\<rparr>,
         \<lparr>ping_at = 131, ping_time = [0, 0, 1, 0], pong_at = 191, ack_at = 192, unix_at = 300\<rparr>]"
      "(session_new [] [])\<lparr>tx_connection := TxOpen\<rparr>"]
  by (simp add: exchange_ok_def timeout_defs session_new_def)

text \<open>
  C31. Audio keys reach the request they answer: after any number of requests up to the 32 bits of
  the sequence number, the key sent for number \<open>i\<close> goes to the \<open>i\<close>-th caller and to no one else, the
  other requests still wait, and a second answer to the same number is an error.
\<close>

theorem audio_keys_routed:
  assumes "audio_key s = audio_key_new" and "length rs \<le> 2 ^ 32" and "i < length rs" and "length key = 16"
    and "alive (fst (rs ! i))"
  shows "\<exists>m. audio_key_dispatch alive AesKey (be_bytes 4 i @ key) (audio_key (key_requests rs s)) =
      (Ok (), [KeyReply (fst (rs ! i)) (Ok key)], m) \<and>
    (\<forall>j < length rs. key_pending m (of_nat j) = (if j = i then None else Some (fst (rs ! j)))) \<and>
    audio_key_dispatch alive AesKey (be_bytes 4 i @ key) m = (Err (Fail (KeySequence (of_nat i))), [], m)"
proof -
  let ?k = "audio_key (key_requests rs s)"
  have small: "i < 256 ^ 4" using assms(2,3) by simp
  have p: "\<forall>j < length rs. key_pending ?k (of_nat j) = Some (fst (rs ! j))"
    using key_requests_pending [OF assms(1,2)] by blast
  have ne: "(of_nat j :: u32) \<noteq> of_nat i" if "j < length rs" "j \<noteq> i" for j
    using that assms(2,3) by (simp add: word_unat_eq_iff unat_of_nat take_bit_eq_mod)
  let ?m = "?k\<lparr>key_pending := (key_pending ?k)(of_nat i := None)\<rparr>"
  have "audio_key_dispatch alive AesKey (be_bytes 4 i @ key) ?k = (Ok (), [KeyReply (fst (rs ! i)) (Ok key)], ?m)"
    using p assms(3-5) small by (simp add: audio_key_dispatch_def Let_def del: be_bytes.simps)
  moreover have "audio_key_dispatch alive AesKey (be_bytes 4 i @ key) ?m = (Err (Fail (KeySequence (of_nat i))), [], ?m)"
    using small by (simp add: audio_key_dispatch_def Let_def del: be_bytes.simps)
  moreover have "\<forall>j < length rs. key_pending ?m (of_nat j) = (if j = i then None else Some (fst (rs ! j)))"
    using p ne by auto
  ultimately show ?thesis by blast
qed

theorem audio_keys_routed_witness:
  "\<exists>m. audio_key_dispatch (\<lambda>_. True) AesKey (be_bytes 4 1 @ replicate 16 7)
        (audio_key (key_requests [(10, \<lparr>id_u128 = 5\<rparr>, file_id_from_raw []), (11, \<lparr>id_u128 = 6\<rparr>, file_id_from_raw [1])]
           (session_new [] []))) =
      (Ok (), [KeyReply 11 (Ok (replicate 16 7))], m) \<and> key_pending m 0 = Some 10"
proof -
  let ?rs = "[(10, \<lparr>id_u128 = 5\<rparr>, file_id_from_raw []), (11, \<lparr>id_u128 = 6\<rparr>, file_id_from_raw [1])]"
  obtain m where m: "audio_key_dispatch (\<lambda>_. True) AesKey (be_bytes 4 1 @ replicate 16 7)
        (audio_key (key_requests ?rs (session_new [] []))) = (Ok (), [KeyReply (fst (?rs ! 1)) (Ok (replicate 16 7))], m)"
    "\<forall>j < length ?rs. key_pending m (of_nat j) = (if j = 1 then None else Some (fst (?rs ! j)))"
    using audio_keys_routed [of "session_new [] []" ?rs 1 "replicate 16 7" "\<lambda>_. True"]
    by (auto simp: session_new_def)
  from m(2) have "key_pending m 0 = Some 10" by auto
  with m(1) show ?thesis by auto
qed

text \<open>
  C33. The search for an access point ends after at most six tries. It gives up with an error only
  when an address cannot be resolved, when the sixth try has failed or when the login itself was
  refused; every earlier try failed in a way that calls for another access point.
\<close>

theorem connect_gives_up_late:
  assumes "connect_loop resolve inner 0 = (r, k)"
  shows "k \<le> 6 \<and> connect_outcome resolve inner r k \<and>
    (\<forall>i. Suc i < k \<longrightarrow> (\<exists>e. tried resolve inner i e \<and> try_another e))"
  using connect_loop_outcome [OF _ assms] by (simp add: MAX_AP_TRIES_def)

theorem connect_gives_up_late_witness:
  "connect_outcome (\<lambda>n. Ok n :: unit + nat)
     (\<lambda>n ap. if n < 2 then Err (Authentication (LoginFailed TryAnotherAP)) else Ok ap) (Ok 2) 3"
proof -
  have "connect_loop (\<lambda>n. Ok n :: unit + nat)
     (\<lambda>n ap. if n < 2 then Err (Authentication (LoginFailed TryAnotherAP)) else Ok ap) 0 = (Ok 2, 3)"
    by (simp add: connect_loop.simps MAX_AP_TRIES_def)
  from connect_gives_up_late [OF this] show ?thesis by simp
qed

end
