(* ===== verification/Dealer_Protocol.thy ===== *)
theory Dealer_Protocol
  imports Dealer_Maps Ap_Session
begin

text \<open>
  The messages of the dealer and their payloads (\<open>core/src/dealer/protocol.rs\<close>). Base64, gzip and JSON
  are parameters, the fields of a codec: \<open>'j\<close> is the type of JSON values, \<open>'r\<close> that of requests.
\<close>

section \<open>Data\<close>

datatype PayloadValue = PvEmpty | PvRaw "u8 list" | PvJson string

datatype ProtocolError =
    ErrBase64 | ErrGZip | ErrDeserialization | MoreThenOneValue nat | UnexpectedData PayloadValue | ErrEmpty

text \<open>The causes of errors of \<open>protocol.rs\<close>: its own, those of libraries, and a message.\<close>

datatype PayloadCause = ProtocolCause ProtocolError | Utf8Cause | JsonCause | ProtobufCause | MismatchCause

definition protocol_error :: "ProtocolError \<Rightarrow> PayloadCause Error" where
  "protocol_error err =
     (case err of
        UnexpectedData _ \<Rightarrow> unavailable (ProtocolCause err)
      | _ \<Rightarrow> failed_precondition (ProtocolCause err))"

record WebsocketRequest =
  req_headers :: "string \<rightharpoonup> string"
  message_ident :: string
  req_key :: string
  compressed :: string

datatype 'j MessagePayloadValue = PayloadString string | PayloadBytes "u8 list" | PayloadJson 'j

record 'j WebsocketMessage =
  ws_headers :: "string \<rightharpoonup> string"
  ws_method :: "string option"
  payloads :: "'j MessagePayloadValue list"
  ws_uri :: string

datatype 'j MessageOrRequest = MsgMessage "'j WebsocketMessage" | MsgRequest WebsocketRequest

record Message =
  msg_headers :: "string \<rightharpoonup> string"
  msg_payload :: PayloadValue
  msg_uri :: string

text \<open>
  \<open>gunzip\<close> is \<open>read_to_end\<close> on a decoder of the data: the number it returns and the bytes it has
  written. \<open>parse_text\<close> and \<open>parse_request\<close> are \<open>serde_json::from_str\<close> at the two types it is used for.
\<close>

record ('j, 'r) DealerCodec =
  base64_decode :: "string \<Rightarrow> u8 list option"
  gunzip :: "u8 list \<Rightarrow> (nat \<times> u8 list) option"
  json_to_string :: "'j \<Rightarrow> string"
  parse_request :: "string \<Rightarrow> 'r option"
  parse_text :: "string \<Rightarrow> 'j MessageOrRequest option"

section \<open>Payloads\<close>

definition handle_transfer_encoding ::
  "('j, 'r) DealerCodec \<Rightarrow> (string \<rightharpoonup> string) \<Rightarrow> u8 list \<Rightarrow> PayloadCause Error + u8 list" where
  "handle_transfer_encoding C headers data =
     (let encoding = headers ''Transfer-Encoding''
      in if encoding \<noteq> Some ''gzip'' then Ok data
         else case gunzip C data of
                Some (i, bytes) \<Rightarrow>
                  if i = length bytes then Ok bytes else Err (failed_precondition MismatchCause)
              | None \<Rightarrow> Err (protocol_error ErrGZip))"

text \<open>\<open>pop\<close> takes the last payload, here of at most one.\<close>

definition message_handle_payload ::
  "('j, 'r) DealerCodec \<Rightarrow> 'j WebsocketMessage \<Rightarrow> PayloadCause Error + PayloadValue" where
  "message_handle_payload C m =
     (let raw = (\<lambda>bytes. and_then (handle_transfer_encoding C (ws_headers m) bytes) (\<lambda>bytes. Ok (PvRaw bytes)))
      in case rev (payloads m) of
           [] \<Rightarrow> Ok PvEmpty
         | value # rest \<Rightarrow>
             if rest \<noteq> [] then Err (protocol_error (MoreThenOneValue (length (payloads m))))
             else case value of
                    PayloadString s \<Rightarrow> and_then (ok_or (base64_decode C s) (protocol_error ErrBase64)) raw
                  | PayloadBytes bytes \<Rightarrow> raw bytes
                  | PayloadJson json \<Rightarrow> Ok (PvJson (json_to_string C json)))"

definition request_handle_payload :: "('j, 'r) DealerCodec \<Rightarrow> WebsocketRequest \<Rightarrow> PayloadCause Error + 'r" where
  "request_handle_payload C r =
     and_then (ok_or (base64_decode C (compressed r)) (protocol_error ErrBase64)) (\<lambda>payload_bytes.
     and_then (handle_transfer_encoding C (req_headers r) payload_bytes) (\<lambda>text_bytes.
       if utf8_valid text_bytes
       then ok_or (parse_request C (bytes_str text_bytes)) (protocol_error ErrDeserialization)
       else Err (failed_precondition Utf8Cause)))"

text \<open>\<open>try_from_json\<close> and \<open>from_raw\<close>, for a parser of the type that is asked for.\<close>

definition try_from_json :: "(string \<Rightarrow> 'm option) \<Rightarrow> Message \<Rightarrow> PayloadCause Error + 'm" where
  "try_from_json parse m =
     (case msg_payload m of
        PvJson json \<Rightarrow> ok_or (parse json) (failed_precondition JsonCause)
      | other \<Rightarrow> Err (protocol_error (UnexpectedData other)))"

definition message_from_raw :: "(u8 list \<Rightarrow> 'm option) \<Rightarrow> Message \<Rightarrow> PayloadCause Error + 'm" where
  "message_from_raw parse m =
     (case msg_payload m of
        PvRaw bytes \<Rightarrow> ok_or (parse bytes) (failed_precondition ProtobufCause)
      | other \<Rightarrow> Err (protocol_error (UnexpectedData other)))"

end
