(* ===== verification/Dealer.thy ===== *)
theory Dealer
  imports Dealer_Protocol
begin

text \<open>
  The dealer connection: handlers, subscriptions, dispatch, replies, the tasks of a connection and
  reconnecting (\<open>core/src/dealer/mod.rs\<close>), and the manager (\<open>core/src/dealer/manager.rs\<close>).

  Handlers and subscribers are the numbers of the channels behind them, and \<open>alive\<close> says which of
  these still have a receiver. A connection is known by the number of the channel to its send task.
\<close>

section \<open>Handlers and subscriptions\<close>

definition trim_end_matches :: "'a \<Rightarrow> 'a list \<Rightarrow> 'a list" where
  "trim_end_matches d s = rev (dropWhile (\<lambda>x. x = d) (rev s))"

definition split_uri :: "string \<Rightarrow> string list option" where
  "split_uri s =
     (let parts = (\<lambda>scheme sep rest. Some (scheme # split_on sep (trim_end_matches sep rest)))
      in if starts_with s ''hm://'' then parts ''hm'' (CHR ''/'') (drop 5 s)
         else if starts_with s ''spotify:'' then parts ''spotify'' (CHR '':'') (drop 8 s)
         else if CHR ''/'' \<in> set s then parts '''' (CHR ''/'') s
         else None)"

datatype AddHandlerError = AddAlreadyHandled | AddInvalidUri string

datatype SubscriptionError = SubInvalidUri string

text \<open>The error of a failed launch is kept by its kind.\<close>

datatype DealerError = BuilderNotAvailable | LaunchFailure ErrorKind | CouldNotSetDealer

datatype DealerCause =
    MapCause HandlerMapError | AddCause AddHandlerError | SubCause SubscriptionError | ManagerCause DealerError

definition add_handler_error :: "AddHandlerError \<Rightarrow> DealerCause Error" where
  "add_handler_error err =
     (case err of
        AddAlreadyHandled \<Rightarrow> aborted (AddCause err)
      | AddInvalidUri _ \<Rightarrow> invalid_argument (AddCause err))"

definition subscription_error :: "SubscriptionError \<Rightarrow> DealerCause Error" where
  "subscription_error err = invalid_argument (SubCause err)"

definition dealer_error :: "DealerError \<Rightarrow> DealerCause Error" where
  "dealer_error err = failed_precondition (ManagerCause err)"

definition add_handler :: "string \<Rightarrow> 'h \<Rightarrow> 'h HandlerMap \<Rightarrow> (DealerCause Error + unit) \<times> 'h HandlerMap" where
  "add_handler uri handler m =
     (case split_uri uri of
        None \<Rightarrow> (Err (add_handler_error (AddInvalidUri uri)), m)
      | Some split \<Rightarrow>
          (let (r, m') = hm_insert split handler m
           in (map_sum (\<lambda>e. error_new (kind e) (MapCause (cause e))) id r, m')))"

definition remove_handler :: "string \<Rightarrow> 'h HandlerMap \<Rightarrow> 'h option \<times> 'h HandlerMap" where
  "remove_handler uri m =
     (case split_uri uri of None \<Rightarrow> (None, m) | Some split \<Rightarrow> hm_remove split m)"

text \<open>\<open>subscribe\<close> with the new channel \<open>tx\<close>: the URIs before an invalid one stay subscribed.\<close>

fun subscribe :: "'h \<Rightarrow> string list \<Rightarrow> 'h SubscriberMap \<Rightarrow> (DealerCause Error + unit) \<times> 'h SubscriberMap" where
  "subscribe tx [] m = (Ok (), m)"
| "subscribe tx (uri # uris) m =
     (case split_uri uri of
        None \<Rightarrow> (Err (subscription_error (SubInvalidUri uri)), m)
      | Some split \<Rightarrow> subscribe tx uris (sm_insert split tx m))"

definition dealer_handles :: "'h HandlerMap \<Rightarrow> 's SubscriberMap \<Rightarrow> string \<Rightarrow> bool" where
  "dealer_handles req_map msg_map uri \<longleftrightarrow>
     (if hm_contains req_map uri then True
      else case split_uri uri of None \<Rightarrow> False | Some split \<Rightarrow> sm_contains split msg_map)"

record Builder =
  message_handlers :: "nat SubscriberMap"
  request_handlers :: "nat HandlerMap"

definition builder_new :: Builder where
  "builder_new = \<lparr>message_handlers = subscriber_map_default, request_handlers = handler_map_default\<rparr>"

section \<open>What the tasks share\<close>

datatype WsMessage = WsReply string bool | WsPing | WsClose

record Responder =
  resp_key :: string
  resp_tx :: nat
  resp_sent :: bool

text \<open>
  \<open>DealerShared\<close> and the channels around it: \<open>senders\<close> are the channels to the send tasks, \<open>None\<close> once
  closed; \<open>delivered\<close> is what subscribers got; \<open>answering\<close> are the spawned tasks of \<open>handle_request\<close>, each
  with the request its handler got and the responder it holds.
\<close>

record 'r DealerShared = Builder +
  notify_drop :: bool
  senders :: "nat \<rightharpoonup> WsMessage list"
  delivered :: "(nat \<times> Message) list"
  answering :: "(nat \<times> 'r \<times> Responder) list"

definition tx_send :: "nat \<Rightarrow> WsMessage \<Rightarrow> 'r DealerShared \<Rightarrow> bool \<times> 'r DealerShared" where
  "tx_send tx msg sh =
     (case senders sh tx of
        None \<Rightarrow> (False, sh)
      | Some queued \<Rightarrow> (True, sh\<lparr>senders := (senders sh)(tx \<mapsto> queued @ [msg])\<rparr>))"

section \<open>Responders\<close>

definition responder_new :: "string \<Rightarrow> nat \<Rightarrow> Responder" where
  "responder_new k tx = \<lparr>resp_key = k, resp_tx = tx, resp_sent = False\<rparr>"

definition send_internal :: "Responder \<Rightarrow> bool \<Rightarrow> 'r DealerShared \<Rightarrow> 'r DealerShared" where
  "send_internal r success sh = snd (tx_send (resp_tx r) (WsReply (resp_key r) success) sh)"

definition responder_drop :: "Responder \<Rightarrow> 'r DealerShared \<Rightarrow> 'r DealerShared" where
  "responder_drop r sh = (if \<not> resp_sent r then send_internal r False sh else sh)"

text \<open>\<open>send\<close> and \<open>force_unanswered\<close> own the responder, which is dropped when they return.\<close>

definition responder_send :: "Responder \<Rightarrow> bool \<Rightarrow> 'r DealerShared \<Rightarrow> 'r DealerShared" where
  "responder_send r success sh = responder_drop (r\<lparr>resp_sent := True\<rparr>) (send_internal r success sh)"

definition force_unanswered :: "Responder \<Rightarrow> 'r DealerShared \<Rightarrow> 'r DealerShared" where
  "force_unanswered r sh = responder_drop (r\<lparr>resp_sent := True\<rparr>) sh"

datatype HandlerReply = ReplySuccess | ReplyFailure | ReplyUnanswered

text \<open>
  \<open>DealerRequestHandler::handle_request\<close> up to the task it spawns, and the rest of that task for the
  first reply of the handler, \<open>None\<close> when the handler drops its sender.
\<close>

definition handle_request ::
  "(nat \<Rightarrow> bool) \<Rightarrow> nat \<Rightarrow> 'r \<Rightarrow> Responder \<Rightarrow> 'r DealerShared \<Rightarrow> 'r DealerShared" where
  "handle_request alive handler req responder sh =
     (if \<not> alive handler then responder_send responder False sh
      else sh\<lparr>answering := answering sh @ [(handler, req, responder)]\<rparr>)"

definition finish_request :: "HandlerReply option \<Rightarrow> Responder \<Rightarrow> 'r DealerShared \<Rightarrow> 'r DealerShared" where
  "finish_request reply responder sh =
     (case (case reply of None \<Rightarrow> ReplyFailure | Some r \<Rightarrow> r) of
        ReplyUnanswered \<Rightarrow> force_unanswered responder sh
      | ReplySuccess \<Rightarrow> responder_send responder True sh
      | ReplyFailure \<Rightarrow> responder_send responder False sh)"

section \<open>Dispatch\<close>

definition dispatch_message ::
  "('j, 'r) DealerCodec \<Rightarrow> (nat \<Rightarrow> bool) \<Rightarrow> 'j WebsocketMessage \<Rightarrow> 'r DealerShared \<Rightarrow> 'r DealerShared" where
  "dispatch_message C alive m sh =
     (case message_handle_payload C m of
        Inl _ \<Rightarrow> sh
      | Inr value \<Rightarrow>
          (let msg = \<lparr>msg_headers = ws_headers m, msg_payload = value, msg_uri = ws_uri m\<rparr>
           in case split_uri (msg_uri msg) of
                None \<Rightarrow> sh
              | Some split \<Rightarrow>
                  (let (_, called, subs) = sm_retain split alive (message_handlers sh)
                   in sh\<lparr>message_handlers := subs,
                         delivered := delivered sh @ map (\<lambda>tx. (tx, msg)) (filter alive called)\<rparr>)))"

definition dispatch_request ::
  "('j, 'r) DealerCodec \<Rightarrow> (nat \<Rightarrow> bool) \<Rightarrow> WebsocketRequest \<Rightarrow> nat \<Rightarrow> 'r DealerShared \<Rightarrow> 'r DealerShared" where
  "dispatch_request C alive r send_tx sh =
     (case request_handle_payload C r of
        Inl _ \<Rightarrow> sh
      | Inr payload_request \<Rightarrow>
          (let responder = responder_new (req_key r) send_tx
           in case split_uri (message_ident r) of
                None \<Rightarrow> responder_drop responder sh
              | Some split \<Rightarrow>
                  (case hm_get split (request_handlers sh) of
                     Some handler \<Rightarrow> handle_request alive handler payload_request responder sh
                   | None \<Rightarrow> responder_drop responder sh)))"

fun dealer_dispatch ::
  "('j, 'r) DealerCodec \<Rightarrow> (nat \<Rightarrow> bool) \<Rightarrow> 'j MessageOrRequest \<Rightarrow> nat \<Rightarrow> 'r DealerShared \<Rightarrow> 'r DealerShared" where
  "dealer_dispatch C alive (MsgMessage m) send_tx sh = dispatch_message C alive m sh"
| "dealer_dispatch C alive (MsgRequest r) send_tx sh = dispatch_request C alive r send_tx sh"

section \<open>The tasks of a connection\<close>

record Url =
  host_str :: "string option"
  url_scheme :: string
  url_port :: "nat option"

datatype UrlError = NoHostName | UnsupportedUrlScheme

text \<open>Where \<open>connect\<close> connects to.\<close>

definition connect_target :: "Url \<Rightarrow> UrlError Error + (string \<times> nat)" where
  "connect_target address =
     and_then (ok_or (host_str address) (failed_precondition NoHostName)) (\<lambda>host.
     and_then (if url_scheme address = ''ws'' then Ok 80
               else if url_scheme address = ''wss'' then Ok 443
               else Err (failed_precondition UnsupportedUrlScheme)) (\<lambda>default_port.
       Ok (host, case url_port address of None \<Rightarrow> default_port | Some p \<Rightarrow> p)))"

record Conn =
  conn_tx :: nat
  pong_received :: bool
  awaiting_pong :: bool
  receive_ended :: bool
  send_ended :: bool
  written :: "WsMessage list"

definition conn_new :: "nat \<Rightarrow> Conn" where
  "conn_new tx = \<lparr>conn_tx = tx, pong_received = True, awaiting_pong = False, receive_ended = False,
                  send_ended = False, written = []\<rparr>"

text \<open>The end of the receive task, which tries to take the send task down.\<close>

definition end_receive :: "Conn \<Rightarrow> 'r DealerShared \<Rightarrow> Conn \<times> 'r DealerShared" where
  "end_receive c sh = (c\<lparr>receive_ended := True\<rparr>, snd (tx_send (conn_tx c) WsClose sh))"

text \<open>
  What the receive task waits for: the next item of the socket (\<open>None\<close> is its end), the tick of the
  timer, and the end of the sleep after a ping. The timer is not awaited during that sleep.
\<close>

datatype WsIncoming = WsText string | WsBinary | WsPong | WsOther

datatype ReceiveEvent = Incoming "(unit + WsIncoming) option" | Tick | SleepOver

fun receive_step ::
  "('j, 'r) DealerCodec \<Rightarrow> (nat \<Rightarrow> bool) \<Rightarrow> ReceiveEvent \<Rightarrow> Conn \<times> 'r DealerShared \<Rightarrow> Conn \<times> 'r DealerShared" where
  "receive_step C alive (Incoming item) (c, sh) =
     (if receive_ended c then (c, sh)
      else case item of
             Some (Inr (WsText t)) \<Rightarrow>
               (case parse_text C t of
                  Some m \<Rightarrow> (c, dealer_dispatch C alive m (conn_tx c) sh)
                | None \<Rightarrow> (c, sh))
           | Some (Inr WsBinary) \<Rightarrow> (c, sh)
           | Some (Inr WsPong) \<Rightarrow> (c\<lparr>pong_received := True\<rparr>, sh)
           | Some (Inr WsOther) \<Rightarrow> (c, sh)
           | Some (Inl _) \<Rightarrow> end_receive c sh
           | None \<Rightarrow> end_receive c sh)"
| "receive_step C alive Tick (c, sh) =
     (if receive_ended c \<or> awaiting_pong c then (c, sh)
      else let c = c\<lparr>pong_received := False\<rparr>; (sent, sh') = tx_send (conn_tx c) WsPing sh
           in if \<not> sent then end_receive c sh' else (c\<lparr>awaiting_pong := True\<rparr>, sh'))"
| "receive_step C alive SleepOver (c, sh) =
     (if receive_ended c \<or> \<not> awaiting_pong c then (c, sh)
      else if \<not> pong_received c then end_receive c sh
      else (c\<lparr>awaiting_pong := False\<rparr>, sh))"

text \<open>
  What the send task waits for: the dealer is closed, the next message of the channel (and the
  error of the socket when it does not take it), the end of the channel once all its senders are
  gone, or an error of flushing. The first is looked at before the others. A socket that is closed already is only flushed.
\<close>

datatype WsError = AlreadyClosed | ConnectionClosed | WsOtherError

datatype SendEvent = Recv "WsError option" | RecvNone | FlushError WsError | Wake

definition end_send :: "WsError option \<Rightarrow> Conn \<Rightarrow> 'r DealerShared \<Rightarrow> Conn \<times> 'r DealerShared" where
  "end_send e c sh =
     (c\<lparr>send_ended := True,
        written := written c @ (if e = Some AlreadyClosed \<or> e = Some ConnectionClosed then [] else [WsClose])\<rparr>,
      sh\<lparr>senders := (senders sh)(conn_tx c := None)\<rparr>)"

fun send_step :: "SendEvent \<Rightarrow> Conn \<times> 'r DealerShared \<Rightarrow> Conn \<times> 'r DealerShared" where
  "send_step ev (c, sh) =
     (if send_ended c then (c, sh)
      else if notify_drop sh then end_send None c sh
      else case ev of
             Recv fed \<Rightarrow>
               (case senders sh (conn_tx c) of
                  None \<Rightarrow> (c, sh)
                | Some [] \<Rightarrow> (c, sh)
                | Some (msg # queued) \<Rightarrow>
                    (let sh = sh\<lparr>senders := (senders sh)(conn_tx c \<mapsto> queued)\<rparr>
                     in if msg = WsClose then end_send None c sh
                        else case fed of
                               Some e \<Rightarrow> end_send (Some e) c sh
                             | None \<Rightarrow> (c\<lparr>written := written c @ [msg]\<rparr>, sh)))
           | RecvNone \<Rightarrow> end_send None c sh
           | FlushError e \<Rightarrow> end_send (Some e) c sh
           | Wake \<Rightarrow> (c, sh))"

section \<open>Reconnecting\<close>

text \<open>
  \<open>run\<close>: which of the two tasks are held, and where the loop stands. \<open>AtLoop\<close> is one of the two
  selects, by the tasks held; \<open>Joining\<close> is the wait at the end. A failed connect keeps the tasks.
\<close>

datatype RunAt = AtLoop | Connecting | Joining | ReturnedOk | ReturnedErr

record Run =
  run_closed :: bool
  task0 :: bool
  task1 :: bool
  run_at :: RunAt

datatype RunEvent = DealerClosed | Task0Done | Task1Done | UrlResult bool | ConnectResult bool

definition run_new :: "bool \<Rightarrow> Run" where
  "run_new initial_tasks = \<lparr>run_closed = False, task0 = initial_tasks, task1 = initial_tasks, run_at = AtLoop\<rparr>"

text \<open>The loop condition, and \<open>join_all\<close> with nothing left to join.\<close>

definition run_settle :: "Run \<Rightarrow> Run" where
  "run_settle s =
     (let s = (if run_at s = AtLoop \<and> run_closed s then s\<lparr>run_at := Joining\<rparr> else s)
      in if run_at s = Joining \<and> \<not> task0 s \<and> \<not> task1 s then s\<lparr>run_at := ReturnedOk\<rparr> else s)"

definition run_step :: "RunEvent \<Rightarrow> Run \<Rightarrow> Run" where
  "run_step ev s = run_settle
     (case ev of
        DealerClosed \<Rightarrow> s\<lparr>run_closed := True\<rparr>
      | Task0Done \<Rightarrow>
          if run_at s = AtLoop \<and> task0 s \<and> task1 s \<or> run_at s = Joining then s\<lparr>task0 := False\<rparr> else s
      | Task1Done \<Rightarrow>
          if run_at s = AtLoop \<and> task0 s \<and> task1 s \<or> run_at s = Joining then s\<lparr>task1 := False\<rparr> else s
      | UrlResult ok \<Rightarrow>
          if run_at s = AtLoop \<and> \<not> (task0 s \<and> task1 s)
          then s\<lparr>run_at := (if ok then Connecting else ReturnedErr)\<rparr> else s
      | ConnectResult ok \<Rightarrow>
          if run_at s = Connecting
          then (if ok then s\<lparr>task0 := True, task1 := True, run_at := AtLoop\<rparr> else s\<lparr>run_at := AtLoop\<rparr>)
          else s)"

section \<open>The manager\<close>

record 'r DealerManager =
  builder :: "Builder option"
  dealer :: "'r DealerShared option"

definition dealer_manager_new :: "'r DealerManager" where
  "dealer_manager_new = \<lparr>builder = Some builder_new, dealer = None\<rparr>"

definition add_listen_for :: "nat \<Rightarrow> string \<Rightarrow> 'r DealerManager \<Rightarrow> (DealerCause Error + unit) \<times> 'r DealerManager" where
  "add_listen_for tx url m =
     (case dealer m of
        Some d \<Rightarrow>
          (let (r, subs) = subscribe tx [url] (message_handlers d)
           in (r, m\<lparr>dealer := Some (d\<lparr>message_handlers := subs\<rparr>)\<rparr>))
      | None \<Rightarrow>
          (case builder m of
             Some b \<Rightarrow>
               (let (r, subs) = subscribe tx [url] (message_handlers b)
                in (r, m\<lparr>builder := Some (b\<lparr>message_handlers := subs\<rparr>)\<rparr>))
           | None \<Rightarrow> (Err (dealer_error BuilderNotAvailable), m)))"

definition add_handle_for :: "nat \<Rightarrow> string \<Rightarrow> 'r DealerManager \<Rightarrow> (DealerCause Error + unit) \<times> 'r DealerManager" where
  "add_handle_for tx url m =
     (case dealer m of
        Some d \<Rightarrow>
          (let (r, hs) = add_handler url tx (request_handlers d)
           in (r, m\<lparr>dealer := Some (d\<lparr>request_handlers := hs\<rparr>)\<rparr>))
      | None \<Rightarrow>
          (case builder m of
             Some b \<Rightarrow>
               (let (r, hs) = add_handler url tx (request_handlers b)
                in (r, m\<lparr>builder := Some (b\<lparr>request_handlers := hs\<rparr>)\<rparr>))
           | None \<Rightarrow> (Err (dealer_error BuilderNotAvailable), m)))"

definition manager_handles :: "string \<Rightarrow> 'r DealerManager \<Rightarrow> bool" where
  "manager_handles uri m =
     (case dealer m of
        Some d \<Rightarrow> dealer_handles (request_handlers d) (message_handlers d) uri
      | None \<Rightarrow>
          (case builder m of
             Some b \<Rightarrow> dealer_handles (request_handlers b) (message_handlers b) uri
           | None \<Rightarrow> False))"

definition create_dealer :: "Builder \<Rightarrow> 'r DealerShared" where
  "create_dealer b = \<lparr>message_handlers = message_handlers b, request_handlers = request_handlers b,
                      notify_drop = False, senders = Map.empty, delivered = [], answering = []\<rparr>"

text \<open>
  \<open>start\<close> in two parts, since other calls can come while the launch is awaited: the builder is taken,
  and the launch ends with an error or with a dealer, which is set.
\<close>

definition start_take :: "'r DealerManager \<Rightarrow> (DealerCause Error + Builder) \<times> 'r DealerManager" where
  "start_take m = (ok_or (builder m) (dealer_error BuilderNotAvailable), m\<lparr>builder := None\<rparr>)"

definition start_set :: "ErrorKind + 'r DealerShared \<Rightarrow> 'r DealerManager \<Rightarrow> (DealerCause Error + unit) \<times> 'r DealerManager" where
  "start_set launched m =
     (case launched of
        Inl e \<Rightarrow> (Err (dealer_error (LaunchFailure e)), m)
      | Inr d \<Rightarrow>
          (case dealer m of
             Some _ \<Rightarrow> (Err (dealer_error CouldNotSetDealer), m)
           | None \<Rightarrow> (Ok (), m\<lparr>dealer := Some d\<rparr>)))"

text \<open>\<open>close\<close>: the dealer is taken and its semaphore closed, which its tasks see.\<close>

definition manager_close :: "'r DealerManager \<Rightarrow> 'r DealerShared option \<times> 'r DealerManager" where
  "manager_close m =
     (map_option (\<lambda>d. d\<lparr>notify_drop := True\<rparr>) (dealer m), m\<lparr>dealer := None\<rparr>)"

section \<open>A connection with its requests\<close>

text \<open>
  The steps of a connection: those of its two tasks, and the end of the task of the \<open>i\<close>th answering
  request. Every step comes with the receivers that are alive at that time.
\<close>

datatype ConnEvent = Receiving ReceiveEvent | Sending SendEvent | Finish nat "HandlerReply option"

fun conn_step ::
  "('j, 'r) DealerCodec \<Rightarrow> (nat \<Rightarrow> bool) \<times> ConnEvent \<Rightarrow> Conn \<times> 'r DealerShared \<Rightarrow> Conn \<times> 'r DealerShared" where
  "conn_step C (alive, Receiving ev) (c, sh) = receive_step C alive ev (c, sh)"
| "conn_step C (alive, Sending ev) (c, sh) = send_step ev (c, sh)"
| "conn_step C (alive, Finish i reply) (c, sh) =
     (if i < length (answering sh)
      then (c, finish_request reply (snd (snd (answering sh ! i)))
                 (sh\<lparr>answering := take i (answering sh) @ drop (Suc i) (answering sh)\<rparr>))
      else (c, sh))"

definition conn_run ::
  "('j, 'r) DealerCodec \<Rightarrow> ((nat \<Rightarrow> bool) \<times> ConnEvent) list \<Rightarrow> Conn \<times> 'r DealerShared \<Rightarrow> Conn \<times> 'r DealerShared" where
  "conn_run C evs s = fold (conn_step C) evs s"

text \<open>The requests with a key and a readable payload that arrive; the replies that are on their way or out.\<close>

fun request_event :: "('j, 'r) DealerCodec \<Rightarrow> string \<Rightarrow> ConnEvent \<Rightarrow> bool" where
  "request_event C k (Receiving (Incoming (Some (Inr (WsText t))))) \<longleftrightarrow>
     (case parse_text C t of
        Some (MsgRequest r) \<Rightarrow> req_key r = k \<and> \<not> isl (request_handle_payload C r)
      | _ \<Rightarrow> False)"
| "request_event C k _ \<longleftrightarrow> False"

definition requests :: "('j, 'r) DealerCodec \<Rightarrow> string \<Rightarrow> ((nat \<Rightarrow> bool) \<times> ConnEvent) list \<Rightarrow> nat" where
  "requests C k evs = length (filter (\<lambda>e. request_event C k (snd e)) evs)"

fun is_reply :: "string \<Rightarrow> WsMessage \<Rightarrow> bool" where
  "is_reply k (WsReply k' b) \<longleftrightarrow> k = k'"
| "is_reply k _ \<longleftrightarrow> False"

definition replies :: "string \<Rightarrow> WsMessage list \<Rightarrow> nat" where
  "replies k msgs = length (filter (is_reply k) msgs)"

definition out_msgs :: "Conn \<times> 'r DealerShared \<Rightarrow> WsMessage list" where
  "out_msgs s = written (fst s) @ (case senders (snd s) (conn_tx (fst s)) of None \<Rightarrow> [] | Some q \<Rightarrow> q)"

definition open_requests :: "string \<Rightarrow> Conn \<times> 'r DealerShared \<Rightarrow> nat" where
  "open_requests k s =
     length (filter (\<lambda>x. resp_key (snd (snd x)) = k \<and> resp_tx (snd (snd x)) = conn_tx (fst s)) (answering (snd s)))"

definition reply_debt :: "string \<Rightarrow> Conn \<times> 'r DealerShared \<Rightarrow> nat" where
  "reply_debt k s = replies k (out_msgs s) + open_requests k s"

text \<open>The channel of a running send task is open, and no pending responder has answered.\<close>

definition conn_ok :: "Conn \<times> 'r DealerShared \<Rightarrow> bool" where
  "conn_ok s \<longleftrightarrow> (\<not> send_ended (fst s) \<longrightarrow> senders (snd s) (conn_tx (fst s)) \<noteq> None) \<and>
     (\<forall>x \<in> set (answering (snd s)). \<not> resp_sent (snd (snd x)))"

lemma replies_simps [simp]:
  "replies k [] = 0"
  "replies k (m # ms) = (if is_reply k m then 1 else 0) + replies k ms"
  "replies k (ms @ ms') = replies k ms + replies k ms'"
  by (simp_all add: replies_def)

lemma tx_send_shared [simp]:
  "answering (snd (tx_send tx m sh)) = answering sh"
  "notify_drop (snd (tx_send tx m sh)) = notify_drop sh"
  "delivered (snd (tx_send tx m sh)) = delivered sh"
  "message_handlers (snd (tx_send tx m sh)) = message_handlers sh"
  "request_handlers (snd (tx_send tx m sh)) = request_handlers sh"
  "senders (snd (tx_send tx m sh)) tx' = (if tx' = tx then map_option (\<lambda>q. q @ [m]) (senders sh tx) else senders sh tx')"
  "fst (tx_send tx m sh) \<longleftrightarrow> senders sh tx \<noteq> None"
  by (auto simp: tx_send_def split: option.splits)

text \<open>Sending to a channel, in terms of the debt.\<close>

lemma tx_send_debt:
  "reply_debt k (c, snd (tx_send tx m sh)) =
     reply_debt k (c, sh) + (if is_reply k m \<and> tx = conn_tx c \<and> senders sh tx \<noteq> None then 1 else 0)"
  "conn_ok (c, snd (tx_send tx m sh)) \<longleftrightarrow> conn_ok (c, sh)"
  by (auto simp: reply_debt_def out_msgs_def open_requests_def conn_ok_def split: option.splits)

lemmas responder_defs = send_internal_def responder_drop_def responder_send_def force_unanswered_def responder_new_def

lemma reply_debt_cong:
  "conn_tx c' = conn_tx c \<Longrightarrow> written c' = written c \<Longrightarrow> senders sh' (conn_tx c) = senders sh (conn_tx c) \<Longrightarrow>
   answering sh' = answering sh \<Longrightarrow> reply_debt k (c', sh') = reply_debt k (c, sh)"
  by (simp add: reply_debt_def out_msgs_def open_requests_def)

lemma dispatch_message_shared:
  "senders (dispatch_message C alive m sh) = senders sh" "answering (dispatch_message C alive m sh) = answering sh"
  by (auto simp: dispatch_message_def Let_def split: sum.splits option.splits prod.splits)

lemma dispatch_request_debt:
  assumes "conn_ok (c, sh)"
  shows "conn_ok (c, dispatch_request C alive r (conn_tx c) sh) \<and>
    reply_debt k (c, sh) \<le> reply_debt k (c, dispatch_request C alive r (conn_tx c) sh) \<and>
    reply_debt k (c, dispatch_request C alive r (conn_tx c) sh) \<le>
      reply_debt k (c, sh) + (if req_key r = k \<and> \<not> isl (request_handle_payload C r) then 1 else 0) \<and>
    (\<not> send_ended c \<longrightarrow> reply_debt k (c, dispatch_request C alive r (conn_tx c) sh) =
      reply_debt k (c, sh) + (if req_key r = k \<and> \<not> isl (request_handle_payload C r) then 1 else 0))"
proof (cases "request_handle_payload C r")
  case (Inl e)
  then show ?thesis using assms by (simp add: dispatch_request_def)
next
  case (Inr p)
  let ?R = "responder_new (req_key r) (conn_tx c)"
  let ?failed = "snd (tx_send (conn_tx c) (WsReply (req_key r) False) sh)"
  let ?queued = "\<lambda>h. sh\<lparr>answering := answering sh @ [(h, p, ?R)]\<rparr>"
  have cases: "dispatch_request C alive r (conn_tx c) sh = ?failed \<or> (\<exists>h. dispatch_request C alive r (conn_tx c) sh = ?queued h)"
    using Inr by (auto simp: dispatch_request_def handle_request_def responder_defs Let_def split: option.splits)
  have failed: "conn_ok (c, ?failed)" "reply_debt k (c, ?failed) =
      reply_debt k (c, sh) + (if req_key r = k \<and> senders sh (conn_tx c) \<noteq> None then 1 else 0)"
    using assms by (auto simp: tx_send_debt)
  have queued: "conn_ok (c, ?queued h)" "reply_debt k (c, ?queued h) = reply_debt k (c, sh) + (if req_key r = k then 1 else 0)" for h
    using assms by (auto simp: conn_ok_def reply_debt_def out_msgs_def open_requests_def responder_new_def)
  have "senders sh (conn_tx c) \<noteq> None" if "\<not> send_ended c" using assms that by (simp add: conn_ok_def)
  with cases failed queued Inr show ?thesis by (elim disjE exE) auto
qed

text \<open>What a step does to the debt; it is exact while both tasks run and the handler does not decline to answer.\<close>

definition debt_step :: "string \<Rightarrow> bool \<Rightarrow> bool \<Rightarrow> Conn \<times> 'r DealerShared \<Rightarrow> Conn \<times> 'r DealerShared \<Rightarrow> bool" where
  "debt_step k req exact s s' \<longleftrightarrow>
     conn_ok s' \<and> conn_tx (fst s') = conn_tx (fst s) \<and>
     (send_ended (fst s) \<longrightarrow> send_ended (fst s')) \<and> (receive_ended (fst s) \<longrightarrow> receive_ended (fst s')) \<and>
     reply_debt k s' \<le> reply_debt k s + of_bool req \<and>
     (exact \<and> \<not> send_ended (fst s') \<and> \<not> receive_ended (fst s') \<longrightarrow> reply_debt k s' = reply_debt k s + of_bool req)"

lemma debt_step_same:
  assumes "conn_ok (c, sh)" "conn_tx c' = conn_tx c" "written c' = written c" "send_ended c' = send_ended c"
    "receive_ended c \<longrightarrow> receive_ended c'" "req \<longrightarrow> receive_ended c'"
  shows "debt_step k req exact (c, sh) (c', sh)"
proof -
  have "reply_debt k (c', sh) = reply_debt k (c, sh)" using assms by (intro reply_debt_cong) simp_all
  then show ?thesis using assms by (auto simp: debt_step_def conn_ok_def)
qed

text \<open>A message that is no reply can be sent in between.\<close>

lemma debt_step_send:
  assumes "debt_step k req exact s (c, sh)" "\<not> is_reply k m"
  shows "debt_step k req exact s (c, snd (tx_send tx m sh))"
  using assms by (simp add: debt_step_def tx_send_debt)

lemma end_receive_debt:
  assumes "conn_ok (c, sh)" "conn_tx c' = conn_tx c" "written c' = written c" "send_ended c' = send_ended c"
  shows "debt_step k req exact (c, sh) (end_receive c' sh)"
  unfolding end_receive_def using assms by (intro debt_step_send debt_step_same) simp_all

lemma dispatch_debt:
  assumes ok: "conn_ok (c, sh)" and t: "parse_text C t = Some m"
  shows "debt_step k (request_event C k (Receiving (Incoming (Some (Inr (WsText t)))))) exact (c, sh)
           (c, dealer_dispatch C alive m (conn_tx c) sh)"
proof (cases m)
  case (MsgMessage ms)
  have "reply_debt k (c, dispatch_message C alive ms sh) = reply_debt k (c, sh)"
    by (rule reply_debt_cong) (simp_all add: dispatch_message_shared)
  moreover have "conn_ok (c, dispatch_message C alive ms sh)" using ok by (simp add: conn_ok_def dispatch_message_shared)
  ultimately show ?thesis using t by (simp add: MsgMessage debt_step_def)
next
  case (MsgRequest r)
  show ?thesis using dispatch_request_debt [OF ok, of C alive r k] t by (auto simp: MsgRequest debt_step_def)
qed

lemma receive_step_debt:
  assumes ok: "conn_ok (c, sh)"
  shows "debt_step k (request_event C k (Receiving ev)) exact (c, sh) (receive_step C alive ev (c, sh))"
proof (cases "receive_ended c")
  case True
  then have "receive_step C alive ev (c, sh) = (c, sh)" by (cases ev) simp_all
  then show ?thesis using ok True by (simp add: debt_step_same)
next
  case False
  show ?thesis
  proof (cases ev)
    case (Incoming item)
    consider (textual) t where "item = Some (Inr (WsText t))" | (ended) "item = None \<or> (\<exists>e. item = Some (Inl e))"
      | (other) "item \<in> {Some (Inr WsBinary), Some (Inr WsPong), Some (Inr WsOther)}"
      by (metis insert_iff not_None_eq sumE WsIncoming.exhaust)
    then show ?thesis
    proof cases
      case textual
      show ?thesis
      proof (cases "parse_text C t")
        case None
        then show ?thesis using ok False by (simp add: Incoming textual debt_step_same)
      next
        case (Some m)
        then show ?thesis using dispatch_debt [OF ok Some] False by (simp add: Incoming textual)
      qed
    next
      case ended
      then show ?thesis using end_receive_debt [OF ok] False by (auto simp: Incoming)
    next
      case other
      then show ?thesis using ok False by (auto simp: Incoming intro!: debt_step_same)
    qed
  next
    case Tick
    have same: "debt_step k False exact (c, sh) (c\<lparr>pong_received := False, awaiting_pong := w\<rparr>, sh)" for w
      by (rule debt_step_same [OF ok]) simp_all
    have ends: "debt_step k False exact (c, sh) (end_receive (c\<lparr>pong_received := False\<rparr>) (snd (tx_send (conn_tx c) WsPing sh)))"
    proof -
      have "conn_ok (c, snd (tx_send (conn_tx c) WsPing sh))" using ok by (simp add: tx_send_debt)
      then have "debt_step k False exact (c, snd (tx_send (conn_tx c) WsPing sh))
          (end_receive (c\<lparr>pong_received := False\<rparr>) (snd (tx_send (conn_tx c) WsPing sh)))"
        by (rule end_receive_debt) simp_all
      then show ?thesis by (simp add: debt_step_def tx_send_debt)
    qed
    have sends: "debt_step k False exact (c, sh) (c\<lparr>pong_received := False, awaiting_pong := True\<rparr>, snd (tx_send (conn_tx c) WsPing sh))"
      by (rule debt_step_send [OF same]) simp
    show ?thesis using ok False ends sends by (auto simp: Tick Let_def split_beta debt_step_same)
  next
    case SleepOver
    then show ?thesis using ok False by (auto intro!: debt_step_same end_receive_debt)
  qed
qed

lemma end_send_debt:
  assumes "conn_ok (c, sh)"
  shows "debt_step k req exact (c, sh) (end_send e c sh)"
  using assms
  by (auto simp: debt_step_def end_send_def reply_debt_def out_msgs_def open_requests_def conn_ok_def split: option.splits)

lemma send_step_debt:
  assumes ok: "conn_ok (c, sh)"
  shows "debt_step k False exact (c, sh) (send_step ev (c, sh))"
proof -
  have taken: "debt_step k False exact (c, sh) (c\<lparr>written := written c @ [m]\<rparr>, sh\<lparr>senders := (senders sh)(conn_tx c \<mapsto> q)\<rparr>)"
    and closed: "debt_step k False exact (c, sh) (end_send e c (sh\<lparr>senders := (senders sh)(conn_tx c \<mapsto> q)\<rparr>))"
    if "senders sh (conn_tx c) = Some (m # q)" for m q e
    using ok that by (auto simp: debt_step_def end_send_def reply_debt_def out_msgs_def open_requests_def conn_ok_def)
  have same: "debt_step k False exact (c, sh) (c, sh)" using ok by (simp add: debt_step_same)
  show ?thesis
    using same taken closed end_send_debt [OF ok]
    by (cases ev) (auto simp: Let_def split: option.splits list.splits)
qed

lemma finish_request_sends:
  assumes "\<not> resp_sent r"
  shows "finish_request reply r sh = (if reply = Some ReplyUnanswered then sh
           else snd (tx_send (resp_tx r) (WsReply (resp_key r) (reply = Some ReplySuccess)) sh))"
  using assms by (auto simp: finish_request_def responder_defs split: option.splits HandlerReply.splits)

lemma length_filter_remove_nth:
  assumes "i < length xs"
  shows "length (filter P xs) = length (filter P (take i xs @ drop (Suc i) xs)) + of_bool (P (xs ! i))"
proof -
  have "length (filter P xs) = length (filter P (take i xs @ xs ! i # drop (Suc i) xs))"
    using id_take_nth_drop [OF assms] by simp
  then show ?thesis by simp
qed

lemma finish_step_debt:
  assumes ok: "conn_ok (c, sh)" and i: "i < length (answering sh)"
  shows "debt_step k False (reply \<noteq> Some ReplyUnanswered) (c, sh) (conn_step C (alive, Finish i reply) (c, sh))"
proof -
  let ?x = "answering sh ! i"
  let ?r = "snd (snd ?x)"
  let ?sh = "sh\<lparr>answering := take i (answering sh) @ drop (Suc i) (answering sh)\<rparr>"
  let ?mine = "resp_key ?r = k \<and> resp_tx ?r = conn_tx c"
  have "open_requests k (c, sh) = open_requests k (c, ?sh) + of_bool ?mine"
    using length_filter_remove_nth [OF i] by (simp add: open_requests_def)
  then have debt: "reply_debt k (c, sh) = reply_debt k (c, ?sh) + of_bool ?mine"
    by (simp add: reply_debt_def out_msgs_def)
  have ok': "conn_ok (c, ?sh)" using ok by (auto simp: conn_ok_def dest: in_set_takeD in_set_dropD)
  have "\<not> resp_sent ?r" using ok i by (simp add: conn_ok_def)
  then have "conn_step C (alive, Finish i reply) (c, sh) = (c, if reply = Some ReplyUnanswered then ?sh
      else snd (tx_send (resp_tx ?r) (WsReply (resp_key ?r) (reply = Some ReplySuccess)) ?sh))"
    using i by (simp add: finish_request_sends)
  moreover have "senders sh (conn_tx c) \<noteq> None" if "\<not> send_ended c" using ok that by (simp add: conn_ok_def)
  ultimately show ?thesis using debt ok' by (auto simp: debt_step_def tx_send_debt)
qed

lemma conn_step_debt:
  assumes "conn_ok s"
  shows "debt_step k (request_event C k (snd e)) (\<forall>i. snd e \<noteq> Finish i (Some ReplyUnanswered)) s (conn_step C e s)"
proof -
  obtain c sh where s: "s = (c, sh)" by (cases s)
  obtain alive ev where e: "e = (alive, ev)" by (cases e)
  show ?thesis
  proof (cases ev)
    case (Receiving rev)
    then show ?thesis using receive_step_debt [of c sh k C rev] assms by (simp add: s e)
  next
    case (Sending sev)
    then show ?thesis using send_step_debt [of c sh k _ sev] assms by (simp add: s e del: send_step.simps)
  next
    case (Finish i reply)
    show ?thesis
    proof (cases "i < length (answering sh)")
      case True
      then show ?thesis using finish_step_debt [of c sh i k reply C alive] assms by (simp add: s e Finish debt_step_def)
    next
      case False
      then show ?thesis using assms by (simp add: s e Finish debt_step_same)
    qed
  qed
qed

lemma conn_run_debt:
  assumes "conn_ok s" "s' = conn_run C evs s"
  shows "conn_ok s' \<and> conn_tx (fst s') = conn_tx (fst s) \<and>
    (send_ended (fst s) \<longrightarrow> send_ended (fst s')) \<and> (receive_ended (fst s) \<longrightarrow> receive_ended (fst s')) \<and>
    reply_debt k s' \<le> reply_debt k s + requests C k evs \<and>
    ((\<forall>e i. e \<in> set evs \<longrightarrow> snd e \<noteq> Finish i (Some ReplyUnanswered)) \<longrightarrow> \<not> send_ended (fst s') \<longrightarrow>
       \<not> receive_ended (fst s') \<longrightarrow> reply_debt k s' = reply_debt k s + requests C k evs)"
  using assms
proof (induction evs arbitrary: s)
  case Nil
  then show ?case by (simp add: conn_run_def requests_def)
next
  case (Cons e evs)
  let ?t = "conn_step C e s"
  have step: "debt_step k (request_event C k (snd e)) (\<forall>i. snd e \<noteq> Finish i (Some ReplyUnanswered)) s ?t"
    by (rule conn_step_debt [OF Cons.prems(1)])
  then have ok: "conn_ok ?t" by (simp add: debt_step_def)
  have "s' = conn_run C evs ?t" using Cons.prems(2) by (simp add: conn_run_def)
  note IH = Cons.IH [OF ok this]
  have req: "requests C k (e # evs) = of_bool (request_event C k (snd e)) + requests C k evs" by (simp add: requests_def)
  show ?case
    using step IH unfolding debt_step_def req by (intro conjI impI) auto
qed

text \<open>
  C20. On a connection no request is answered twice: for every key, the replies that were written or wait
  to be, together with the requests that wait for their handler, are never more than the requests with
  that key that came in with a readable payload. They are exactly as many while both tasks of the
  connection run, unless a handler asked for no answer: each request is then answered once, or still
  with its handler.
\<close>

theorem requests_answered_once:
  assumes "senders sh tx = Some []" "\<forall>x \<in> set (answering sh). \<not> resp_sent (snd (snd x)) \<and> resp_tx (snd (snd x)) \<noteq> tx"
    and "s = conn_run C evs (conn_new tx, sh)"
  shows "replies k (out_msgs s) + open_requests k s \<le> requests C k evs \<and>
    ((\<forall>e i. e \<in> set evs \<longrightarrow> snd e \<noteq> Finish i (Some ReplyUnanswered)) \<and>
         \<not> send_ended (fst s) \<and> \<not> receive_ended (fst s) \<longrightarrow>
     replies k (out_msgs s) + open_requests k s = requests C k evs)"
proof -
  have "open_requests k (conn_new tx, sh) = 0" using assms(2) by (auto simp: open_requests_def conn_new_def filter_empty_conv)
  then have "reply_debt k (conn_new tx, sh) = 0" using assms(1) by (simp add: reply_debt_def out_msgs_def conn_new_def)
  moreover have "conn_ok (conn_new tx, sh)" using assms(1,2) by (simp add: conn_ok_def conn_new_def)
  note conn_run_debt [OF this assms(3), of k]
  ultimately show ?thesis unfolding reply_debt_def by auto
qed

definition sample_codec :: "(unit, string) DealerCodec" where
  "sample_codec = \<lparr>base64_decode = \<lambda>s. Some [], gunzip = \<lambda>d. None, json_to_string = \<lambda>j. ''null'', parse_request = Some,
     parse_text = \<lambda>t. Some (MsgRequest \<lparr>req_headers = Map.empty, message_ident = ''hm://a/b'', req_key = t, compressed = ''x''\<rparr>)\<rparr>"

definition sample_dealer :: "string DealerShared" where
  "sample_dealer = (create_dealer \<lparr>message_handlers = subscriber_map_default,
     request_handlers = snd (add_handler ''hm://a'' 7 handler_map_default)\<rparr>)\<lparr>senders := [3 \<mapsto> []]\<rparr>"

definition sample_exchange :: "((nat \<Rightarrow> bool) \<times> ConnEvent) list" where
  "sample_exchange = map (Pair (\<lambda>h. h = 7))
     [Receiving (Incoming (Some (Inr (WsText ''k'')))), Finish 0 (Some ReplySuccess), Sending (Recv None)]"

theorem requests_answered_once_witness:
  "replies ''k'' (out_msgs (conn_run sample_codec sample_exchange (conn_new 3, sample_dealer))) +
   open_requests ''k'' (conn_run sample_codec sample_exchange (conn_new 3, sample_dealer)) = 1"
proof -
  let ?s = "conn_run sample_codec sample_exchange (conn_new 3, sample_dealer)"
  have "\<not> send_ended (fst ?s)" "\<not> receive_ended (fst ?s)" "requests sample_codec ''k'' sample_exchange = 1" by code_simp+
  moreover have "\<forall>e i. e \<in> set sample_exchange \<longrightarrow> snd e \<noteq> Finish i (Some ReplyUnanswered)" by (simp add: sample_exchange_def)
  moreover have "senders sample_dealer 3 = Some []" "answering sample_dealer = []"
    by (simp_all add: sample_dealer_def create_dealer_def)
  ultimately show ?thesis
    using requests_answered_once [of sample_dealer 3 ?s sample_codec sample_exchange "''k''"] by simp
qed

section \<open>A peer that does not answer pings\<close>

text \<open>A receive task that has ended left a close message for the send task.\<close>

definition close_queued :: "Conn \<times> 'r DealerShared \<Rightarrow> bool" where
  "close_queued s \<longleftrightarrow> send_ended (fst s) \<or>
     (\<exists>q. senders (snd s) (conn_tx (fst s)) = Some q \<and> (receive_ended (fst s) \<longrightarrow> WsClose \<in> set q))"

lemma close_queued_send: "close_queued (c, sh) \<Longrightarrow> close_queued (c, snd (tx_send tx m sh))"
  by (auto simp: close_queued_def)

lemma close_queued_cong:
  "close_queued (c, sh) \<Longrightarrow> conn_tx c' = conn_tx c \<Longrightarrow> send_ended c' = send_ended c \<Longrightarrow>
   receive_ended c' = receive_ended c \<Longrightarrow> senders sh' (conn_tx c) = senders sh (conn_tx c) \<Longrightarrow> close_queued (c', sh')"
  by (simp add: close_queued_def)

lemma close_queued_end_receive: "close_queued (c, sh) \<Longrightarrow> close_queued (end_receive c sh)"
  by (auto simp: close_queued_def end_receive_def)

lemma close_queued_dispatch: "close_queued (c, sh) \<Longrightarrow> close_queued (c, dealer_dispatch C alive m tx sh)"
proof (cases m)
  case (MsgMessage ms)
  assume "close_queued (c, sh)"
  then show ?thesis by (rule close_queued_cong) (simp_all add: MsgMessage dispatch_message_shared)
next
  case (MsgRequest r)
  assume ok: "close_queued (c, sh)"
  have "close_queued (c, sh\<lparr>answering := x\<rparr>)" for x using ok by (rule close_queued_cong) simp_all
  with ok close_queued_send [OF ok] show ?thesis
    by (auto simp: MsgRequest dispatch_request_def handle_request_def responder_defs Let_def split: sum.splits option.splits)
qed

lemma close_queued_receive: "close_queued (c, sh) \<Longrightarrow> close_queued (receive_step C alive ev (c, sh))"
proof (cases ev)
  case (Incoming item)
  assume ok: "close_queued (c, sh)"
  have "close_queued (c\<lparr>pong_received := True\<rparr>, sh)" using ok by (rule close_queued_cong) simp_all
  with ok close_queued_dispatch [OF ok] close_queued_end_receive [OF ok] show ?thesis
    by (auto simp: Incoming split: option.splits sum.splits WsIncoming.splits)
next
  case Tick
  assume ok: "close_queued (c, sh)"
  have sent: "close_queued (c\<lparr>pong_received := False, awaiting_pong := w\<rparr>, snd (tx_send tx WsPing sh))"
    "close_queued (c\<lparr>pong_received := False\<rparr>, snd (tx_send tx WsPing sh))" for w tx
    using close_queued_send [OF ok] by (rule close_queued_cong; simp)+
  then show ?thesis using ok close_queued_end_receive [OF sent(2)] by (auto simp: Tick Let_def split_beta)
next
  case SleepOver
  assume ok: "close_queued (c, sh)"
  have "close_queued (c\<lparr>awaiting_pong := False\<rparr>, sh)" using ok by (rule close_queued_cong) simp_all
  with ok close_queued_end_receive [OF ok] show ?thesis by (simp add: SleepOver)
qed

lemma close_queued_send_step: "close_queued (c, sh) \<Longrightarrow> close_queued (send_step ev (c, sh))"
  by (cases ev) (auto simp: close_queued_def end_send_def Let_def split: option.splits list.splits)

lemma close_queued_step: "close_queued s \<Longrightarrow> close_queued (conn_step C e s)"
proof -
  assume ok: "close_queued s"
  obtain c sh alive ev where s: "s = (c, sh)" and e: "e = (alive, ev)" by (cases s; cases e)
  show ?thesis
  proof (cases ev)
    case (Finish i reply)
    have removed: "close_queued (c, sh\<lparr>answering := x\<rparr>)" for x using ok unfolding s by (rule close_queued_cong) simp_all
    note close_queued_send [OF removed]
    with ok removed show ?thesis
      by (auto simp: s e Finish finish_request_def responder_defs split: option.splits HandlerReply.splits)
  qed (use ok close_queued_receive close_queued_send_step in \<open>auto simp: s e simp del: receive_step.simps send_step.simps\<close>)
qed

lemma conn_run_Cons: "conn_run C (e # evs) s = conn_run C evs (conn_step C e s)"
  by (simp add: conn_run_def)

lemma conn_run_append: "conn_run C (evs @ evs') s = conn_run C evs' (conn_run C evs s)"
  by (simp add: conn_run_def)

lemma close_queued_run: "close_queued s \<Longrightarrow> close_queued (conn_run C evs s)"
  by (induction evs arbitrary: s) (simp_all add: conn_run_def close_queued_step)

text \<open>The send task works its queue off.\<close>

lemma send_ended_run: "send_ended (fst s) \<Longrightarrow> send_ended (fst (conn_run C (replicate n (a, Sending ev)) s))"
  by (induction n arbitrary: s) (auto simp: conn_run_def)

lemma send_task_drains:
  "senders sh (conn_tx c) = Some q \<Longrightarrow> WsClose \<in> set q \<Longrightarrow> length q \<le> n \<Longrightarrow>
   send_ended (fst (conn_run C (replicate n (a, Sending (Recv None))) (c, sh)))"
proof (induction n arbitrary: c sh q)
  case (Suc n)
  then obtain m q' where q: "q = m # q'" by (cases q) auto
  have step: "conn_run C (replicate (Suc n) (a, Sending (Recv None))) (c, sh) =
      conn_run C (replicate n (a, Sending (Recv None))) (send_step (Recv None) (c, sh))"
    by (simp add: conn_run_Cons del: send_step.simps)
  show ?case
  proof (cases "send_ended c \<or> notify_drop sh \<or> m = WsClose")
    case True
    then have "send_ended (fst (send_step (Recv None) (c, sh)))" using Suc.prems(1) q by (auto simp: end_send_def Let_def)
    then show ?thesis unfolding step by (rule send_ended_run)
  next
    case False
    then have "send_step (Recv None) (c, sh) =
        (c\<lparr>written := written c @ [m]\<rparr>, sh\<lparr>senders := (senders sh)(conn_tx c \<mapsto> q')\<rparr>)"
      using Suc.prems(1) q by (simp add: Let_def)
    then show ?thesis unfolding step using Suc.IH [of _ _ q'] Suc.prems q False by auto
  qed
qed simp

text \<open>Between a ping and the end of the sleep only a pong changes the flag.\<close>

definition unanswered_ping :: "Conn \<Rightarrow> bool" where
  "unanswered_ping c \<longleftrightarrow> receive_ended c \<or> awaiting_pong c \<and> \<not> pong_received c"

lemma end_receive_ended [simp]: "receive_ended (fst (end_receive c sh))"
  by (simp add: end_receive_def)

lemma unanswered_step:
  assumes "unanswered_ping (fst s)" "snd e \<noteq> Receiving (Incoming (Some (Inr WsPong)))"
  shows "unanswered_ping (fst (conn_step C e s))"
proof -
  obtain c sh alive ev where s: "s = (c, sh)" and e: "e = (alive, ev)" by (cases s; cases e)
  show ?thesis
  proof (cases ev)
    case (Receiving rev)
    then show ?thesis using assms
      by (cases rev) (auto simp: s e unanswered_ping_def split: option.splits sum.splits WsIncoming.splits)
  next
    case (Sending sev)
    then show ?thesis using assms
      by (cases sev) (auto simp: s e unanswered_ping_def end_send_def Let_def split: option.splits list.splits)
  next
    case (Finish i reply)
    then show ?thesis using assms by (simp add: s e)
  qed
qed

lemma unanswered_run:
  "unanswered_ping (fst s) \<Longrightarrow> \<forall>e \<in> set evs. snd e \<noteq> Receiving (Incoming (Some (Inr WsPong))) \<Longrightarrow>
   unanswered_ping (fst (conn_run C evs s))"
  by (induction evs arbitrary: s) (simp_all add: conn_run_Cons unanswered_step, simp add: conn_run_def)

text \<open>
  C25. A peer that does not answer a ping loses the connection, whatever else it sends: once the sleep
  after the ping is over the receive task has ended, and the send task ends as soon as it has worked
  off what is queued, so that \<open>run\<close> connects again.
\<close>

theorem silent_peer_dropped:
  assumes "close_queued (c, sh)" "\<not> awaiting_pong c"
    and "\<forall>e \<in> set evs. snd e \<noteq> Receiving (Incoming (Some (Inr WsPong)))"
    and "s = conn_run C ((a, Receiving Tick) # evs @ [(b, Receiving SleepOver)]) (c, sh)"
  shows "receive_ended (fst s) \<and>
    (\<exists>n. \<forall>m \<ge> n. send_ended (fst (conn_run C (replicate m (b, Sending (Recv None))) s)))"
proof -
  define s1 where "s1 = conn_run C evs (conn_step C (a, Receiving Tick) (c, sh))"
  have s: "s = conn_step C (b, Receiving SleepOver) s1"
    using assms(4) by (simp add: s1_def conn_run_def)
  have "unanswered_ping (fst (conn_step C (a, Receiving Tick) (c, sh)))"
    using assms(2) by (auto simp: unanswered_ping_def Let_def split_beta)
  then have "unanswered_ping (fst s1)" unfolding s1_def using assms(3) by (rule unanswered_run)
  then have ended: "receive_ended (fst s)" by (cases s1) (auto simp: s unanswered_ping_def)
  have "close_queued s" unfolding assms(4) using assms(1) by (rule close_queued_run)
  then have "\<exists>n. \<forall>m \<ge> n. send_ended (fst (conn_run C (replicate m (b, Sending (Recv None))) s))"
  proof (cases "send_ended (fst s)")
    case True
    then show ?thesis using send_ended_run by blast
  next
    case False
    with \<open>close_queued s\<close> ended obtain q where "senders (snd s) (conn_tx (fst s)) = Some q" "WsClose \<in> set q"
      by (auto simp: close_queued_def)
    then show ?thesis using send_task_drains [of "snd s" "fst s" q] by auto
  qed
  with ended show ?thesis ..
qed

theorem silent_peer_dropped_witness:
  "receive_ended (fst (conn_run sample_codec
     [(\<lambda>h. True, Receiving Tick), (\<lambda>h. True, Sending (Recv None)), (\<lambda>h. True, Receiving SleepOver)] (conn_new 3, sample_dealer)))"
proof -
  have "close_queued (conn_new 3, sample_dealer)" "\<not> awaiting_pong (conn_new 3)"
    by (simp_all add: close_queued_def conn_new_def sample_dealer_def)
  then show ?thesis
    using silent_peer_dropped [of "conn_new 3" sample_dealer "[(\<lambda>h. True, Sending (Recv None))]" _ sample_codec
      "\<lambda>h. True" "\<lambda>h. True"] by simp
qed

section \<open>The life of the background task\<close>

definition run_ok :: "RunEvent list \<Rightarrow> Run \<Rightarrow> bool" where
  "run_ok evs s \<longleftrightarrow> (run_closed s \<longleftrightarrow> DealerClosed \<in> set evs) \<and> (run_at s = AtLoop \<longrightarrow> \<not> run_closed s) \<and>
     (run_at s = Joining \<or> run_at s = ReturnedOk \<longrightarrow> run_closed s) \<and>
     (run_at s = ReturnedErr \<longrightarrow> UrlResult False \<in> set evs)"

lemma run_ok_step: "run_ok evs s \<Longrightarrow> run_ok (evs @ [ev]) (run_step ev s)"
  by (cases ev; cases "run_at s") (auto simp: run_ok_def run_step_def run_settle_def Let_def)

lemma run_ok_run: "run_ok evs (fold run_step evs (run_new initial))"
proof (induction evs rule: rev_induct)
  case Nil
  then show ?case by (simp add: run_ok_def run_new_def)
next
  case (snoc ev evs)
  then show ?case using run_ok_step by simp
qed

lemma run_joins:
  assumes "run_closed s" "run_at s \<noteq> AtLoop"
  shows "run_at (fold run_step [ConnectResult ok, Task0Done, Task1Done] s) \<in> {ReturnedOk, ReturnedErr}"
proof -
  obtain c t0 t1 at where s: "s = \<lparr>run_closed = c, task0 = t0, task1 = t1, run_at = at\<rparr>" by (cases s) simp
  show ?thesis using assms
    by (cases at; cases t0; cases t1; cases ok) (simp_all add: s run_step_def run_settle_def)
qed

lemma run_reconnects:
  assumes "\<not> run_closed s" "run_at s = AtLoop" "\<not> (task0 s \<and> task1 s)"
  shows "fold run_step [UrlResult True, ConnectResult True] s = s\<lparr>task0 := True, task1 := True\<rparr>"
proof -
  obtain c t0 t1 at where s: "s = \<lparr>run_closed = c, task0 = t0, task1 = t1, run_at = at\<rparr>" by (cases s) simp
  show ?thesis using assms by (cases t0; cases t1) (simp_all add: s run_step_def run_settle_def)
qed

text \<open>
  C27. The background task of the dealer returns normally only after the dealer is closed, and with an
  error only when no URL could be had. Once the dealer is closed it returns as soon as a connect in
  progress and the tasks of the connection are over. Until then a connection that lost a task is
  replaced as soon as there is a URL and it can be connected to.
\<close>

theorem run_until_closed:
  assumes "s = fold run_step evs (run_new initial)"
  shows "(run_at s = ReturnedOk \<longrightarrow> DealerClosed \<in> set evs) \<and>
    (run_at s = ReturnedErr \<longrightarrow> UrlResult False \<in> set evs) \<and>
    (DealerClosed \<in> set evs \<longrightarrow>
       run_at (fold run_step [ConnectResult ok, Task0Done, Task1Done] s) \<in> {ReturnedOk, ReturnedErr}) \<and>
    (DealerClosed \<notin> set evs \<and> run_at s = AtLoop \<and> \<not> (task0 s \<and> task1 s) \<longrightarrow>
       fold run_step [UrlResult True, ConnectResult True] s = s\<lparr>task0 := True, task1 := True\<rparr>)"
proof -
  have ok: "run_ok evs s" unfolding assms by (rule run_ok_run)
  show ?thesis
    using ok run_joins [of s ok] run_reconnects [of s] unfolding run_ok_def by (intro conjI impI) blast+
qed

theorem run_until_closed_witness:
  "run_at (fold run_step [ConnectResult False, Task0Done, Task1Done]
     (fold run_step [Task1Done, UrlResult True, DealerClosed] (run_new True))) \<in> {ReturnedOk, ReturnedErr}"
  using run_until_closed [OF refl, where evs = "[Task1Done, UrlResult True, DealerClosed]" and initial = True and ok = False]
  by (elim conjE) (erule mp, simp)

section \<open>Registered handlers\<close>

lemma split_uri_schemes:
  assumes "split_uri s = Some p"
  shows "\<exists>scheme path. p = scheme # path \<and> scheme \<in> {''hm'', ''spotify'', ''''}"
proof -
  obtain scheme sep rest where "p = scheme # split_on sep (trim_end_matches sep rest)" "scheme \<in> {''hm'', ''spotify'', ''''}"
    using assms unfolding split_uri_def Let_def by (simp only: option.inject option.distinct insert_iff split: if_split_asm) blast+
  then show ?thesis by blast
qed

lemma split_uri_not_scheme: "split_uri s = Some p \<Longrightarrow> s \<notin> {''hm'', ''spotify'', ''''}"
proof -
  have "split_uri ''hm'' = None" "split_uri ''spotify'' = None" "split_uri '''' = None" by code_simp+
  then show "split_uri s = Some p \<Longrightarrow> s \<notin> {''hm'', ''spotify'', ''''}" by auto
qed

text \<open>The first level of a handler map has nothing but schemes.\<close>

definition register :: "(string \<times> 'h) list \<Rightarrow> 'h HandlerMap" where
  "register hs = fold (\<lambda>(uri, h) m. snd (add_handler uri h m)) hs handler_map_default"

fun scheme_root :: "'h HandlerMap \<Rightarrow> bool" where
  "scheme_root (Leaf h) \<longleftrightarrow> False"
| "scheme_root (Branch m) \<longleftrightarrow> fst ` set m \<subseteq> {''hm'', ''spotify'', ''''}"

lemma scheme_root_add: "scheme_root m \<Longrightarrow> scheme_root (snd (add_handler uri h m))"
proof (cases "split_uri uri")
  case (Some p)
  assume root: "scheme_root m"
  then obtain cs where m: "m = Branch cs" by (cases m) simp_all
  obtain scheme path where p: "p = scheme # path" "scheme \<in> {''hm'', ''spotify'', ''''}"
    using split_uri_schemes [OF Some] by blast
  have "snd (add_handler uri h m) = snd (hm_insert p h m)" using Some by (simp add: add_handler_def split_beta)
  moreover obtain n where "snd (hm_insert p h m) = Branch (upsert scheme n cs)" by (simp add: p(1) m Let_def split_beta)
  ultimately show ?thesis using root p(2) by (simp add: m keys_upsert)
qed (simp add: add_handler_def)

lemma scheme_root_register: "scheme_root (register hs)"
proof -
  have "scheme_root (fold (\<lambda>(uri, h) m. snd (add_handler uri h m)) hs m)" if "scheme_root m" for m
    using that by (induction hs arbitrary: m) (auto simp: scheme_root_add)
  then show ?thesis by (simp add: register_def handler_map_default_def)
qed

lemma scheme_root_contains: "scheme_root m \<Longrightarrow> split_uri uri = Some p \<Longrightarrow> \<not> hm_contains m uri"
  using split_uri_not_scheme [of uri p] by (cases m) (auto simp: map_of_eq_None_iff)

text \<open>
  \<open>handles\<close> never sees a request handler: whatever handlers are registered, it says of a URI whether
  there are subscribers for it. A URI with a handler and no subscriber is not reported as handled,
  although a request for it reaches the handler.
\<close>

theorem handles_misses_requests:
  assumes "split_uri uri = Some p"
  shows "(dealer_handles (register hs) subs uri \<longleftrightarrow> sm_contains p subs) \<and>
    hm_get p (register [(uri, h)]) = Some h \<and>
    \<not> dealer_handles (register [(uri, h)]) (subscriber_map_default :: 's SubscriberMap) uri"
proof -
  have "dealer_handles (register hs) subs uri \<longleftrightarrow> sm_contains p subs"
    using scheme_root_contains [OF scheme_root_register assms, of hs] assms by (simp add: dealer_handles_def)
  moreover have "\<not> dealer_handles (register [(uri, h)]) (subscriber_map_default :: 's SubscriberMap) uri"
    using scheme_root_contains [OF scheme_root_register assms, of "[(uri, h)]"] assms split_uri_schemes [OF assms]
    by (auto simp: dealer_handles_def subscriber_map_default_def)
  moreover have "hm_get (p @ []) (snd (hm_insert p h handler_map_default)) = Some h"
    by (rule hm.lookup_inserted) (simp_all add: handler_map_default_def free_path_def)
  then have "hm_get p (register [(uri, h)]) = Some h" using assms by (simp add: register_def add_handler_def split_beta)
  ultimately show ?thesis by blast
qed

theorem handles_misses_requests_witness:
  "hm_get [''hm'', ''a''] (register [(''hm://a'', 1 :: nat)]) = Some 1 \<and>
   \<not> dealer_handles (register [(''hm://a'', 1 :: nat)]) (subscriber_map_default :: nat SubscriberMap) ''hm://a''"
proof -
  have "split_uri ''hm://a'' = Some [''hm'', ''a'']" by code_simp
  note handles_misses_requests [OF this, where hs = "[]" and subs = "subscriber_map_default :: nat SubscriberMap" and h = "1 :: nat"]
  then show ?thesis by (intro conjI) (elim conjE, assumption)+
qed

section \<open>Subscriptions over the start\<close>

lemma retain_calls_subscriber:
  assumes "\<forall>q. strict_prefix q p \<longrightarrow> subs_at subs q = []" "sm_retain (p @ r) f (sm_insert p tx subs) = (handled, called, subs')"
  shows "tx \<in> set called"
proof -
  let ?m = "sm_insert p tx subs"
  obtain q where q: "prefix q (p @ r)" "called = subs_at ?m q" "\<forall>q'. strict_prefix q' q \<longrightarrow> subs_at ?m q' = []"
    "called = [] \<longrightarrow> (\<forall>q'. prefix q' (p @ r) \<longrightarrow> subs_at ?m q' = [])"
    using sm_retain_subs [OF assms(2)] by blast
  have at_p: "subs_at ?m p \<noteq> []" by (simp add: sm_insert_subs)
  then have "\<not> strict_prefix p q" "called \<noteq> []" using q(3,4) by auto
  moreover have "\<not> strict_prefix q p"
  proof
    assume "strict_prefix q p"
    then have "subs_at ?m q = []" using assms(1) by (auto simp: sm_insert_subs)
    with \<open>called \<noteq> []\<close> q(2) show False by simp
  qed
  moreover have "prefix p q \<or> prefix q p" using prefix_same_cases [OF q(1), of p] by auto
  ultimately have "q = p" by (auto simp: strict_prefix_def)
  then show ?thesis by (simp add: q(2) sm_insert_subs)
qed

text \<open>
  C28. A subscription made before the dealer is started is in force afterwards: a message below the URI
  that was listened for reaches the subscriber, provided no shorter prefix of that URI had subscribers.
  Starting uses the builder up.
\<close>

theorem listen_before_start:
  assumes "builder m = Some b" "dealer m = None" "split_uri url = Some p"
    and "\<forall>q. strict_prefix q p \<longrightarrow> subs_at (message_handlers b) q = []"
    and "add_listen_for tx url m = (r1, m1)" "start_take m1 = (Inr b', m2)"
    and "start_set (Inr (create_dealer b')) m2 = (r3, m3)"
    and "split_uri (ws_uri w) = Some (p @ r)" "message_handle_payload C w = Inr v" "alive tx"
  shows "r1 = Ok () \<and> r3 = Ok () \<and> builder m3 = None \<and>
    (\<exists>d. dealer m3 = Some d \<and>
       (tx, \<lparr>msg_headers = ws_headers w, msg_payload = v, msg_uri = ws_uri w\<rparr>)
         \<in> set (delivered (dispatch_message C alive w d)))"
proof -
  let ?b = "b\<lparr>message_handlers := sm_insert p tx (message_handlers b)\<rparr>"
  have m1: "r1 = Ok ()" "m1 = m\<lparr>builder := Some ?b\<rparr>" using assms(1-3,5) by (auto simp: add_listen_for_def)
  then have m2: "b' = ?b" "m2 = m\<lparr>builder := None\<rparr>" using assms(6) by (auto simp: start_take_def ok_or_def)
  then have m3: "r3 = Ok ()" "m3 = m\<lparr>builder := None, dealer := Some (create_dealer ?b)\<rparr>"
    using assms(2,7) by (auto simp: start_set_def)
  obtain handled called subs' where ret: "sm_retain (p @ r) alive (sm_insert p tx (message_handlers b)) = (handled, called, subs')"
    by (metis prod_cases3)
  have "tx \<in> set called" by (rule retain_calls_subscriber [OF assms(4) ret])
  then show ?thesis using m1 m3 ret assms(8-10) by (simp add: dispatch_message_def create_dealer_def)
qed

definition sample_message :: "unit WebsocketMessage" where
  "sample_message = \<lparr>ws_headers = Map.empty, ws_method = None, payloads = [], ws_uri = ''hm://a/b''\<rparr>"

theorem listen_before_start_witness:
  "\<exists>d. dealer (snd (start_set (Inr (create_dealer (builder_new\<lparr>message_handlers :=
            sm_insert [''hm'', ''a''] 5 subscriber_map_default\<rparr>))) \<lparr>builder = None, dealer = None\<rparr>)) = Some d \<and>
     (5, \<lparr>msg_headers = Map.empty, msg_payload = PvEmpty, msg_uri = ''hm://a/b''\<rparr>)
       \<in> set (delivered (dispatch_message sample_codec (\<lambda>h. True) sample_message d))"
proof -
  let ?m = "dealer_manager_new :: string DealerManager"
  let ?b = "builder_new\<lparr>message_handlers := sm_insert [''hm'', ''a''] 5 subscriber_map_default\<rparr>"
  have split: "split_uri ''hm://a'' = Some [''hm'', ''a'']" "split_uri ''hm://a/b'' = Some ([''hm'', ''a''] @ [''b''])" by code_simp+
  have listen: "add_listen_for 5 ''hm://a'' ?m = (Ok (), \<lparr>builder = Some ?b, dealer = None\<rparr>)"
    using split(1) by (simp add: add_listen_for_def dealer_manager_new_def builder_new_def)
  have take: "start_take \<lparr>builder = Some ?b, dealer = None :: string DealerShared option\<rparr> = (Inr ?b, \<lparr>builder = None, dealer = None\<rparr>)"
    by (simp add: start_take_def ok_or_def)
  have m: "builder ?m = Some builder_new" "dealer ?m = None" by (simp_all add: dealer_manager_new_def)
  have none: "\<forall>q. strict_prefix q [''hm'', ''a''] \<longrightarrow> subs_at (message_handlers builder_new) q = []"
    by (simp add: builder_new_def subscriber_map_default_def)
  have uri: "split_uri (ws_uri sample_message) = Some ([''hm'', ''a''] @ [''b''])" using split(2) by (simp add: sample_message_def)
  have load: "message_handle_payload sample_codec sample_message = Inr PvEmpty"
    by (simp add: sample_message_def message_handle_payload_def)
  note listen_before_start [OF m split(1) none listen take prod.collapse [symmetric] uri load, where alive = "\<lambda>h. True", OF TrueI]
  moreover have "ws_headers sample_message = Map.empty" "ws_uri sample_message = ''hm://a/b''" by (simp_all add: sample_message_def)
  ultimately show ?thesis by (elim conjE) metis
qed

end
