(* ===== verification/File_Cache.thy ===== *)
theory File_Cache
  imports Core_Error Numerals Spotify_Id
begin

text \<open>
  The cache on disk, \<open>core/src/cache.rs\<close>: the size limiter, its connection to the file system, and the
  cache of credentials, volume and audio files.

  A path is the list of its components, the disk a map from paths to contents. Which operations of
  the file system fail is the parameter \<open>fails\<close>. The crate \<open>priority_queue\<close> is a parameter as well, a
  record of the operations that are used, with the laws \<open>pq_laws\<close> over the map from items to
  priorities that a queue stands for; priorities are reversed times, so the item to pop is the one
  with the least time. Times are natural numbers.
\<close>

section \<open>The size limiter\<close>

type_synonym PathBuf = "string list"

record 'q PriorityQueue =
  pq_new :: 'q
  pq_push :: "PathBuf \<Rightarrow> nat \<Rightarrow> 'q \<Rightarrow> 'q"
  pq_pop :: "'q \<Rightarrow> (PathBuf \<times> nat) option \<times> 'q"
  pq_change_priority :: "PathBuf \<Rightarrow> nat \<Rightarrow> 'q \<Rightarrow> nat option \<times> 'q"
  pq_remove :: "PathBuf \<Rightarrow> 'q \<Rightarrow> (PathBuf \<times> nat) option \<times> 'q"

definition pq_laws :: "'q PriorityQueue \<Rightarrow> ('q \<Rightarrow> (PathBuf \<rightharpoonup> nat)) \<Rightarrow> bool" where
  "pq_laws Q E \<longleftrightarrow>
     E (pq_new Q) = Map.empty \<and>
     (\<forall>q. finite (dom (E q))) \<and>
     (\<forall>p t q. E (pq_push Q p t q) = (E q)(p \<mapsto> t)) \<and>
     (\<forall>q. E q = Map.empty \<longrightarrow> fst (pq_pop Q q) = None \<and> E (snd (pq_pop Q q)) = Map.empty) \<and>
     (\<forall>q. E q \<noteq> Map.empty \<longrightarrow>
        (\<exists>p t q'. pq_pop Q q = (Some (p, t), q') \<and> E q p = Some t \<and> E q' = (E q)(p := None) \<and>
                  (\<forall>p' t'. E q p' = Some t' \<longrightarrow> t \<le> t'))) \<and>
     (\<forall>p t q. fst (pq_change_priority Q p t q) = E q p \<and>
        E (snd (pq_change_priority Q p t q)) = (if E q p = None then E q else (E q)(p \<mapsto> t))) \<and>
     (\<forall>p q. (fst (pq_remove Q p q) = None \<longleftrightarrow> E q p = None) \<and> E (snd (pq_remove Q p q)) = (E q)(p := None))"

datatype CacheCause = CachePath | CacheIo IoErrorKind

type_synonym 'a cache_result = "(CacheCause Error, 'a) fallible"

definition cache_error :: "CacheCause \<Rightarrow> CacheCause Error" where
  "cache_error c =
     (case c of CachePath \<Rightarrow> failed_precondition c | CacheIo k \<Rightarrow> error_new (io_kind k) c)"

record 'q SizeLimiter =
  queue :: 'q
  sizes :: "PathBuf \<rightharpoonup> nat"
  size_limit :: nat
  in_use :: nat

definition limiter_new :: "'q PriorityQueue \<Rightarrow> nat \<Rightarrow> 'q SizeLimiter" where
  "limiter_new Q limit = \<lparr>queue = pq_new Q, sizes = Map.empty, size_limit = limit, in_use = 0\<rparr>"

text \<open>The sums are of type \<open>u64\<close>: an overflow panics.\<close>

definition limiter_add ::
  "'q PriorityQueue \<Rightarrow> PathBuf \<Rightarrow> nat \<Rightarrow> nat \<Rightarrow> 'q SizeLimiter \<Rightarrow> unit cache_result \<times> 'q SizeLimiter" where
  "limiter_add Q file sz accessed L =
     (if 2 ^ 64 \<le> in_use L + sz then (Err Panic, L)
      else let L' = L\<lparr>in_use := in_use L + sz, queue := pq_push Q file accessed (queue L),
                      sizes := (sizes L)(file \<mapsto> sz)\<rparr>
           in case sizes L file of
                None \<Rightarrow> (Ok (), L')
              | Some old_size \<Rightarrow>
                  (case usize_sub (in_use L') old_size of
                     Inl e \<Rightarrow> (Err e, L')
                   | Inr n \<Rightarrow> (Ok (), L'\<lparr>in_use := n\<rparr>)))"

definition exceeds_limit :: "'q SizeLimiter \<Rightarrow> bool" where
  "exceeds_limit L \<longleftrightarrow> in_use L > size_limit L"

text \<open>What \<open>pop\<close> and \<open>remove\<close> do with the size of a file that left the queue.\<close>

definition release :: "PathBuf \<Rightarrow> 'q SizeLimiter \<Rightarrow> unit cache_result \<times> 'q SizeLimiter" where
  "release file L =
     (let L' = L\<lparr>sizes := (sizes L)(file := None)\<rparr>
      in case sizes L file of
           None \<Rightarrow> (Ok (), L')
         | Some sz \<Rightarrow>
             (case usize_sub (in_use L) sz of Inl e \<Rightarrow> (Err e, L') | Inr n \<Rightarrow> (Ok (), L'\<lparr>in_use := n\<rparr>)))"

definition limiter_pop :: "'q PriorityQueue \<Rightarrow> 'q SizeLimiter \<Rightarrow> PathBuf option cache_result \<times> 'q SizeLimiter" where
  "limiter_pop Q L =
     (if exceeds_limit L
      then (case pq_pop Q (queue L) of
              (Some (file, _), q) \<Rightarrow>
                (case release file (L\<lparr>queue := q\<rparr>) of
                   (Inl e, L') \<Rightarrow> (Err e, L')
                 | (Inr _, L') \<Rightarrow> (Ok (Some file), L'))
            | (None, q) \<Rightarrow> (Ok None, L\<lparr>queue := q\<rparr>))
      else (Ok None, L))"

definition limiter_update :: "'q PriorityQueue \<Rightarrow> PathBuf \<Rightarrow> nat \<Rightarrow> 'q SizeLimiter \<Rightarrow> bool \<times> 'q SizeLimiter" where
  "limiter_update Q file access_time L =
     (let (old, q) = pq_change_priority Q file access_time (queue L) in (old \<noteq> None, L\<lparr>queue := q\<rparr>))"

definition limiter_remove :: "'q PriorityQueue \<Rightarrow> PathBuf \<Rightarrow> 'q SizeLimiter \<Rightarrow> bool cache_result \<times> 'q SizeLimiter" where
  "limiter_remove Q file L =
     (case pq_remove Q file (queue L) of
        (None, q) \<Rightarrow> (Ok False, L\<lparr>queue := q\<rparr>)
      | (Some _, q) \<Rightarrow>
          (case release file (L\<lparr>queue := q\<rparr>) of
             (Inl e, L') \<Rightarrow> (Err e, L')
           | (Inr _, L') \<Rightarrow> (Ok True, L')))"

section \<open>Files\<close>

record FileMeta =
  accessed :: "nat option"
  modified :: "nat option"
  created :: "nat option"
  meta_len :: nat

definition get_metadata :: "nat \<Rightarrow> FileMeta \<Rightarrow> nat \<times> nat" where
  "get_metadata now m =
     (case accessed m of
        Some t \<Rightarrow> t
      | None \<Rightarrow> (case modified m of Some t \<Rightarrow> t | None \<Rightarrow> (case created m of Some t \<Rightarrow> t | None \<Rightarrow> now)),
      meta_len m)"

text \<open>
  A directory as \<open>read_dir\<close> lists it: unreadable, or its entries. An entry is an error, a directory or
  link with what reading it gives, a file with its metadata if they can be read, or something else.
\<close>

datatype Dir = Unreadable | Entries "DirEntry list"
  and DirEntry = EntryError | SubDir Dir | RegularFile PathBuf "FileMeta option" | OtherEntry

fun init_dir :: "'q PriorityQueue \<Rightarrow> nat \<Rightarrow> Dir \<Rightarrow> 'q SizeLimiter \<Rightarrow> unit cache_result \<times> 'q SizeLimiter"
  and init_entries :: "'q PriorityQueue \<Rightarrow> nat \<Rightarrow> DirEntry list \<Rightarrow> 'q SizeLimiter \<Rightarrow> unit cache_result \<times> 'q SizeLimiter"
where
  "init_dir Q now Unreadable L = (Ok (), L)"
| "init_dir Q now (Entries es) L = init_entries Q now es L"
| "init_entries Q now [] L = (Ok (), L)"
| "init_entries Q now (EntryError # es) L = (Ok (), L)"
| "init_entries Q now (SubDir d # es) L =
     (case init_dir Q now d L of (Inl e, L') \<Rightarrow> (Err e, L') | (Inr _, L') \<Rightarrow> init_entries Q now es L')"
| "init_entries Q now (RegularFile p None # es) L = init_entries Q now es L"
| "init_entries Q now (RegularFile p (Some m) # es) L =
     (let (access_time, sz) = get_metadata now m
      in case limiter_add Q p sz access_time L of
           (Inl e, L') \<Rightarrow> (Err e, L')
         | (Inr _, L') \<Rightarrow> init_entries Q now es L')"
| "init_entries Q now (OtherEntry # es) L = init_entries Q now es L"

type_synonym Disk = "PathBuf \<rightharpoonup> u8 list"

datatype FsOp = CreateDir | OpenFile | CreateFile | WriteFile | UnlinkFile

type_synonym failures = "FsOp \<Rightarrow> PathBuf \<Rightarrow> IoErrorKind option"

definition fs_remove :: "failures \<Rightarrow> PathBuf \<Rightarrow> Disk \<Rightarrow> (IoErrorKind + unit) \<times> Disk" where
  "fs_remove fails p d =
     (case fails UnlinkFile p of
        Some k \<Rightarrow> (Err k, d)
      | None \<Rightarrow> if d p = None then (Err IoNotFound, d) else (Ok (), d(p := None)))"

definition fs_open :: "failures \<Rightarrow> PathBuf \<Rightarrow> Disk \<Rightarrow> IoErrorKind + u8 list" where
  "fs_open fails p d =
     (case fails OpenFile p of Some k \<Rightarrow> Err k | None \<Rightarrow> ok_or (d p) IoNotFound)"

text \<open>The loop of \<open>prune_internal\<close> runs as long as \<open>pop\<close> gives a file; \<open>None\<close> would be a loop without end.\<close>

partial_function (option) prune_loop ::
  "'q PriorityQueue \<Rightarrow> failures \<Rightarrow> IoErrorKind option \<Rightarrow> 'q SizeLimiter \<Rightarrow> Disk
   \<Rightarrow> (unit cache_result \<times> 'q SizeLimiter \<times> Disk) option" where
  "prune_loop Q fails last_error L d =
     (case limiter_pop Q L of
        (Inl e, L') \<Rightarrow> Some (Err e, L', d)
      | (Inr None, L') \<Rightarrow>
          Some (case last_error of Some k \<Rightarrow> Err (Fail (cache_error (CacheIo k))) | None \<Rightarrow> Ok (), L', d)
      | (Inr (Some file), L') \<Rightarrow>
          (case fs_remove fails file d of
             (Inl k, d') \<Rightarrow> prune_loop Q fails (Some k) L' d'
           | (Inr _, d') \<Rightarrow> prune_loop Q fails last_error L' d'))"

definition prune_internal where
  "prune_internal Q fails L d = prune_loop Q fails None L d"

definition fs_limiter_new ::
  "'q PriorityQueue \<Rightarrow> failures \<Rightarrow> nat \<Rightarrow> Dir \<Rightarrow> nat \<Rightarrow> Disk \<Rightarrow> ('q SizeLimiter cache_result \<times> Disk) option" where
  "fs_limiter_new Q fails now dir limit d =
     (case init_dir Q now dir (limiter_new Q limit) of
        (Inl e, L) \<Rightarrow> Some (Err e, d)
      | (Inr _, L) \<Rightarrow>
          (case prune_internal Q fails L d of
             None \<Rightarrow> None
           | Some (Inl e, L', d') \<Rightarrow> Some (Err e, d')
           | Some (Inr _, L', d') \<Rightarrow> Some (Ok L', d')))"

section \<open>The cache\<close>

record 'q Cache =
  credentials_location :: "PathBuf option"
  volume_location :: "PathBuf option"
  audio_location :: "PathBuf option"
  size_limiter :: "'q SizeLimiter option"

definition create_dir_all :: "failures \<Rightarrow> PathBuf option \<Rightarrow> unit cache_result" where
  "create_dir_all fails p =
     (case p of
        None \<Rightarrow> Ok ()
      | Some p \<Rightarrow> (case fails CreateDir p of Some k \<Rightarrow> Err (Fail (cache_error (CacheIo k))) | None \<Rightarrow> Ok ()))"

definition cache_new ::
  "'q PriorityQueue \<Rightarrow> failures \<Rightarrow> nat \<Rightarrow> (PathBuf \<Rightarrow> Dir) \<Rightarrow> PathBuf option \<Rightarrow> PathBuf option \<Rightarrow> PathBuf option
   \<Rightarrow> nat option \<Rightarrow> Disk \<Rightarrow> ('q Cache cache_result \<times> Disk) option" where
  "cache_new Q fails now read_dir credentials_path volume_path audio_path limit d =
     (case and_then (create_dir_all fails credentials_path) (\<lambda>_.
            and_then (create_dir_all fails volume_path) (\<lambda>_. create_dir_all fails audio_path)) of
        Inl e \<Rightarrow> Some (Err e, d)
      | Inr _ \<Rightarrow>
          (let cache = (\<lambda>l. \<lparr>credentials_location = map_option (\<lambda>p. p @ [''credentials.json'']) credentials_path,
                             volume_location = map_option (\<lambda>p. p @ [''volume'']) volume_path,
                             audio_location = audio_path, size_limiter = l\<rparr>)
           in case (audio_path, limit) of
                (Some location, Some n) \<Rightarrow>
                  (case fs_limiter_new Q fails now (read_dir location) n d of
                     None \<Rightarrow> None
                   | Some (Inl e, d') \<Rightarrow> Some (Err e, d')
                   | Some (Inr L, d') \<Rightarrow> Some (Ok (cache (Some L)), d'))
              | _ \<Rightarrow> Some (Ok (cache None), d)))"

text \<open>Reading a file gives \<open>None\<close> for every error; the log message is left out.\<close>

definition credentials :: "failures \<Rightarrow> (u8 list \<Rightarrow> 'c option) \<Rightarrow> 'q Cache \<Rightarrow> Disk \<Rightarrow> 'c option" where
  "credentials fails from_json c d =
     Option.bind (credentials_location c) (\<lambda>p.
       case fs_open fails p d of Inl _ \<Rightarrow> None | Inr b \<Rightarrow> from_json b)"

definition save_credentials :: "failures \<Rightarrow> ('c \<Rightarrow> u8 list) \<Rightarrow> 'c \<Rightarrow> 'q Cache \<Rightarrow> Disk \<Rightarrow> Disk" where
  "save_credentials fails to_json cred c d =
     (case credentials_location c of
        None \<Rightarrow> d
      | Some p \<Rightarrow> if fails CreateFile p \<noteq> None then d
                  else if fails WriteFile p \<noteq> None then d(p \<mapsto> [])
                  else d(p \<mapsto> to_json cred))"

definition str_bytes :: "string \<Rightarrow> u8 list" where
  "str_bytes s = map (\<lambda>c. of_char c) s"

definition bytes_text :: "u8 list \<Rightarrow> string" where
  "bytes_text b = map (\<lambda>x. char_of (unat x)) b"

definition volume :: "failures \<Rightarrow> 'q Cache \<Rightarrow> Disk \<Rightarrow> u16 option" where
  "volume fails c d =
     Option.bind (volume_location c) (\<lambda>p.
       case fs_open fails p d of Inl _ \<Rightarrow> None | Inr b \<Rightarrow> from_str_radix 10 (bytes_text b))"

definition save_volume :: "failures \<Rightarrow> u16 \<Rightarrow> 'q Cache \<Rightarrow> Disk \<Rightarrow> Disk" where
  "save_volume fails v c d =
     (case volume_location c of
        None \<Rightarrow> d
      | Some p \<Rightarrow> if fails CreateFile p \<noteq> None then d
                  else if fails WriteFile p \<noteq> None then d(p \<mapsto> [])
                  else d(p \<mapsto> str_bytes (show_dec (unat v))))"

definition file_path :: "FileId \<Rightarrow> 'q Cache \<Rightarrow> PathBuf option" where
  "file_path file c =
     map_option (\<lambda>location. let name = file_id_to_base16 file in location @ [take 2 name, drop 2 name])
       (audio_location c)"

definition cache_file ::
  "'q PriorityQueue \<Rightarrow> failures \<Rightarrow> nat \<Rightarrow> FileId \<Rightarrow> 'q Cache \<Rightarrow> Disk \<Rightarrow> u8 list option \<times> 'q Cache" where
  "cache_file Q fails now file c d =
     (case file_path file c of
        None \<Rightarrow> (None, c)
      | Some p \<Rightarrow>
          (case fs_open fails p d of
             Inl _ \<Rightarrow> (None, c)
           | Inr content \<Rightarrow>
               (Some content, c\<lparr>size_limiter := map_option (\<lambda>L. snd (limiter_update Q p now L)) (size_limiter c)\<rparr>)))"

text \<open>
  \<open>save_file\<close>: \<open>copy\<close> is what copying the contents gives, the bytes that arrive in the file and whether
  all of them did.
\<close>

definition save_file ::
  "'q PriorityQueue \<Rightarrow> failures \<Rightarrow> nat \<Rightarrow> FileId \<Rightarrow> u8 list \<times> bool \<Rightarrow> 'q Cache \<Rightarrow> Disk
   \<Rightarrow> (PathBuf cache_result \<times> 'q Cache \<times> Disk) option" where
  "save_file Q fails now file copy c d =
     (let no_path = Err (Fail (cache_error CachePath))
      in case file_path file c of
           None \<Rightarrow> Some (no_path, c, d)
         | Some p \<Rightarrow>
             if fails CreateDir (butlast p) \<noteq> None \<or> fails CreateFile p \<noteq> None then Some (no_path, c, d)
             else let d = d(p \<mapsto> fst copy)
                  in if \<not> snd copy then Some (no_path, c, d)
                     else case size_limiter c of
                            None \<Rightarrow> Some (Ok p, c, d)
                          | Some L \<Rightarrow>
                              (case limiter_add Q p (length (fst copy)) now L of
                                 (Inl e, L') \<Rightarrow> Some (Err e, c\<lparr>size_limiter := Some L'\<rparr>, d)
                               | (Inr _, L') \<Rightarrow>
                                   (case prune_internal Q fails L' d of
                                      None \<Rightarrow> None
                                    | Some (Inl e, L'', d') \<Rightarrow> Some (Err e, c\<lparr>size_limiter := Some L''\<rparr>, d')
                                    | Some (Inr _, L'', d') \<Rightarrow> Some (Ok p, c\<lparr>size_limiter := Some L''\<rparr>, d'))))"

definition remove_file ::
  "'q PriorityQueue \<Rightarrow> failures \<Rightarrow> FileId \<Rightarrow> 'q Cache \<Rightarrow> Disk \<Rightarrow> unit cache_result \<times> 'q Cache \<times> Disk" where
  "remove_file Q fails file c d =
     (case file_path file c of
        None \<Rightarrow> (Err (Fail (cache_error CachePath)), c, d)
      | Some p \<Rightarrow>
          (case fs_remove fails p d of
             (Inl k, d') \<Rightarrow> (Err (Fail (cache_error (CacheIo k))), c, d')
           | (Inr _, d') \<Rightarrow>
               (case size_limiter c of
                  None \<Rightarrow> (Ok (), c, d')
                | Some L \<Rightarrow>
                    (case limiter_remove Q p L of
                       (Inl e, L') \<Rightarrow> (Err e, c\<lparr>size_limiter := Some L'\<rparr>, d')
                     | (Inr _, L') \<Rightarrow> (Ok (), c\<lparr>size_limiter := Some L'\<rparr>, d')))))"

section \<open>The limiter keeps its books\<close>

definition total_size :: "(PathBuf \<rightharpoonup> nat) \<Rightarrow> nat" where
  "total_size m = (\<Sum>p\<in>dom m. the (m p))"

definition size_of :: "(PathBuf \<rightharpoonup> nat) \<Rightarrow> PathBuf \<Rightarrow> nat" where
  "size_of m p = (case m p of Some n \<Rightarrow> n | None \<Rightarrow> 0)"

lemma total_remove: "finite (dom m) \<Longrightarrow> total_size (m(p := None)) + size_of m p = total_size m"
proof (cases "m p")
  case (Some n)
  moreover assume "finite (dom m)"
  moreover have "(\<Sum>q\<in>dom m - {p}. the ((m(p := None)) q)) = (\<Sum>q\<in>dom m - {p}. the (m q))"
    by (rule sum.cong) auto
  moreover have "p \<in> dom m" using Some by auto
  ultimately show ?thesis using sum.remove [of "dom m" p "\<lambda>q. the (m q)"] by (simp add: total_size_def size_of_def)
qed (simp add: total_size_def size_of_def fun_upd_idem)

lemma total_update: "finite (dom m) \<Longrightarrow> total_size (m(p \<mapsto> n)) + size_of m p = total_size m + n"
proof -
  assume fin: "finite (dom m)"
  have "total_size (m(p \<mapsto> n)) = total_size (m(p := None)) + n"
    using total_remove [of "m(p \<mapsto> n)" p] fin by (simp add: size_of_def)
  then show ?thesis using total_remove [OF fin, of p] by simp
qed

lemma size_of_le_total: "finite (dom m) \<Longrightarrow> size_of m p \<le> total_size m"
  using total_remove [of m p] by simp

lemma pq_lawsD:
  assumes "pq_laws Q E"
  shows "E (pq_new Q) = Map.empty" "finite (dom (E q))" "E (pq_push Q p t q) = (E q)(p \<mapsto> t)"
    "E q \<noteq> Map.empty \<Longrightarrow> \<exists>p t q'. pq_pop Q q = (Some (p, t), q') \<and> E q p = Some t \<and> E q' = (E q)(p := None) \<and>
       (\<forall>p' t'. E q p' = Some t' \<longrightarrow> t \<le> t')"
    "fst (pq_change_priority Q p t q) = E q p"
    "E (snd (pq_change_priority Q p t q)) = (if E q p = None then E q else (E q)(p \<mapsto> t))"
    "fst (pq_remove Q p q) = None \<longleftrightarrow> E q p = None" "E (snd (pq_remove Q p q)) = (E q)(p := None)"
  using assms unfolding pq_laws_def by blast+

definition limiter_ok :: "'q PriorityQueue \<Rightarrow> ('q \<Rightarrow> (PathBuf \<rightharpoonup> nat)) \<Rightarrow> 'q SizeLimiter \<Rightarrow> bool" where
  "limiter_ok Q E L \<longleftrightarrow> pq_laws Q E \<and> dom (E (queue L)) = dom (sizes L) \<and> in_use L = total_size (sizes L)"

lemma limiter_okD:
  assumes "limiter_ok Q E L"
  shows "pq_laws Q E" "dom (E (queue L)) = dom (sizes L)" "in_use L = total_size (sizes L)" "finite (dom (sizes L))"
    "size_of (sizes L) p \<le> in_use L"
proof -
  show *: "pq_laws Q E" "dom (E (queue L)) = dom (sizes L)" "in_use L = total_size (sizes L)"
    using assms by (simp_all add: limiter_ok_def)
  show **: "finite (dom (sizes L))" using pq_lawsD(2) [OF *(1), of "queue L"] *(2) by simp
  show "size_of (sizes L) p \<le> in_use L" using size_of_le_total [OF **] *(3) by simp
qed

lemma limiter_new_ok: "pq_laws Q E \<Longrightarrow> limiter_ok Q E (limiter_new Q limit)"
  by (simp add: limiter_ok_def limiter_new_def pq_lawsD(1) total_size_def)

lemma limiter_add_ok:
  assumes "limiter_ok Q E L" "in_use L + n < 2 ^ 64"
  shows "\<exists>L'. limiter_add Q p n t L = (Ok (), L') \<and> limiter_ok Q E L' \<and> sizes L' = (sizes L)(p \<mapsto> n) \<and>
    E (queue L') = (E (queue L))(p \<mapsto> t) \<and> size_limit L' = size_limit L"
proof -
  note ok = limiter_okD [OF assms(1)]
  have "total_size ((sizes L)(p \<mapsto> n)) = in_use L + n - size_of (sizes L) p"
    using total_update [OF ok(4), of p n] ok(3) by simp
  moreover have "size_of (sizes L) p \<le> in_use L" by (rule ok(5))
  ultimately show ?thesis using assms(2) ok(1-3)
    by (cases "sizes L p")
       (simp_all add: limiter_add_def limiter_ok_def pq_lawsD(3) [OF ok(1)] usize_sub_def size_of_def)
qed

lemma release_ok:
  assumes "pq_laws Q E" "finite (dom (sizes L))" "in_use L = total_size (sizes L)" "dom (E (queue L)) = dom (sizes L) - {p}"
  shows "\<exists>L'. release p L = (Ok (), L') \<and> limiter_ok Q E L' \<and> sizes L' = (sizes L)(p := None) \<and>
    queue L' = queue L \<and> size_limit L' = size_limit L"
  using assms total_remove [OF assms(2), of p]
  by (auto simp: release_def limiter_ok_def Let_def usize_sub_def size_of_def split: option.split)

lemma limiter_pop_idle: "\<not> exceeds_limit L \<Longrightarrow> limiter_pop Q L = (Ok None, L)"
  by (simp add: limiter_pop_def)

lemma limiter_pop_ok:
  assumes "limiter_ok Q E L" "exceeds_limit L"
  shows "\<exists>p t L'. limiter_pop Q L = (Ok (Some p), L') \<and> limiter_ok Q E L' \<and> E (queue L) p = Some t \<and>
    (\<forall>p' t'. E (queue L) p' = Some t' \<longrightarrow> t \<le> t') \<and> E (queue L') = (E (queue L))(p := None) \<and>
    sizes L' = (sizes L)(p := None) \<and> size_limit L' = size_limit L"
proof -
  note ok = limiter_okD [OF assms(1)]
  have "sizes L \<noteq> Map.empty" using assms(2) ok(3) by (auto simp: exceeds_limit_def total_size_def)
  then have "E (queue L) \<noteq> Map.empty" using ok(2) by (metis dom_eq_empty_conv)
  then obtain p t q where q: "pq_pop Q (queue L) = (Some (p, t), q)" "E (queue L) p = Some t"
    "E q = (E (queue L))(p := None)" "\<forall>p' t'. E (queue L) p' = Some t' \<longrightarrow> t \<le> t'"
    using pq_lawsD(4) [OF ok(1), of "queue L"] by blast
  obtain L' where "release p (L\<lparr>queue := q\<rparr>) = (Ok (), L')" "limiter_ok Q E L'" "sizes L' = (sizes L)(p := None)"
    "queue L' = q" "size_limit L' = size_limit L"
    using release_ok [of Q E "L\<lparr>queue := q\<rparr>" p] ok q(3) by auto
  then show ?thesis using assms(2) q by (auto simp: limiter_pop_def)
qed

lemma limiter_update_ok:
  assumes "limiter_ok Q E L" "limiter_update Q p t L = (b, L')"
  shows "limiter_ok Q E L'" "sizes L' = sizes L" "size_limit L' = size_limit L" "in_use L' = in_use L"
    "b \<longleftrightarrow> p \<in> dom (sizes L)"
proof -
  note ok = limiter_okD [OF assms(1)]
  have L': "L' = L\<lparr>queue := snd (pq_change_priority Q p t (queue L))\<rparr>" "b \<longleftrightarrow> E (queue L) p \<noteq> None"
    using assms(2) pq_lawsD(5) [OF ok(1), of p t "queue L"] by (auto simp: limiter_update_def case_prod_beta Let_def)
  then show "limiter_ok Q E L'" "sizes L' = sizes L" "size_limit L' = size_limit L" "in_use L' = in_use L"
    using ok by (auto simp: limiter_ok_def pq_lawsD(6) [OF ok(1)])
  show "b \<longleftrightarrow> p \<in> dom (sizes L)" using L'(2) ok(2) by auto
qed

lemma limiter_remove_ok:
  assumes "limiter_ok Q E L"
  shows "\<exists>L'. limiter_remove Q p L = (Ok (p \<in> dom (sizes L)), L') \<and> limiter_ok Q E L' \<and>
    sizes L' = (sizes L)(p := None) \<and> size_limit L' = size_limit L"
proof -
  note ok = limiter_okD [OF assms(1)]
  obtain r q where q: "pq_remove Q p (queue L) = (r, q)" by (metis surj_pair)
  then have r: "r = None \<longleftrightarrow> E (queue L) p = None" "E q = (E (queue L))(p := None)"
    using pq_lawsD(7,8) [OF ok(1), of p "queue L"] by simp_all
  show ?thesis
  proof (cases r)
    case None
    then have "sizes L p = None" "E q = E (queue L)" using r ok(2) by auto
    then show ?thesis using None q ok by (auto simp: limiter_remove_def limiter_ok_def fun_upd_idem)
  next
    case (Some x)
    obtain L' where "release p (L\<lparr>queue := q\<rparr>) = (Ok (), L')" "limiter_ok Q E L'" "sizes L' = (sizes L)(p := None)"
      "size_limit L' = size_limit L"
      using release_ok [of Q E "L\<lparr>queue := q\<rparr>" p] ok r(2) by auto
    then show ?thesis using Some q r(1) ok(2) by (auto simp: limiter_remove_def)
  qed
qed

section \<open>Pruning\<close>

text \<open>The files the limiter knows are on the disk, with their sizes.\<close>

definition tracks :: "'q SizeLimiter \<Rightarrow> Disk \<Rightarrow> bool" where
  "tracks L d \<longleftrightarrow> (\<forall>p n. sizes L p = Some n \<longrightarrow> (\<exists>b. d p = Some b \<and> length b = n))"

text \<open>
  What pruning achieves: the files in \<open>V\<close> go, none of them used later than any that stays; what stays
  is within the limit, and without the last step it was not; on the disk only files of \<open>V\<close> are gone,
  all of them that could be removed.
\<close>

definition pruned ::
  "('q \<Rightarrow> (PathBuf \<rightharpoonup> nat)) \<Rightarrow> failures \<Rightarrow> PathBuf set \<Rightarrow> 'q SizeLimiter \<Rightarrow> Disk \<Rightarrow> 'q SizeLimiter \<Rightarrow> Disk \<Rightarrow> bool" where
  "pruned E fails V L d L' d' \<longleftrightarrow>
     V \<subseteq> dom (sizes L) \<and> sizes L' = sizes L |` (- V) \<and> E (queue L') = E (queue L) |` (- V) \<and>
     size_limit L' = size_limit L \<and> in_use L' \<le> size_limit L \<and>
     (\<forall>v\<in>V. \<forall>p\<in>dom (sizes L) - V. the (E (queue L) v) \<le> the (E (queue L) p)) \<and>
     (V = {} \<or> (\<exists>v\<in>V. size_limit L < in_use L' + the (sizes L v))) \<and>
     (\<forall>p. d' p = (if p \<in> V \<and> fails UnlinkFile p = None then None else d p))"

lemma pruned_step:
  assumes "pruned E fails V L1 d1 L' d'" "v \<in> dom (sizes L)" "sizes L1 = (sizes L)(v := None)"
    "E (queue L1) = (E (queue L))(v := None)" "size_limit L1 = size_limit L"
    "\<forall>p\<in>dom (sizes L). the (E (queue L) v) \<le> the (E (queue L) p)"
    "limiter_ok Q E L" "limiter_ok Q E L1" "limiter_ok Q E L'" "exceeds_limit L" "d1 = snd (fs_remove fails v d)"
  shows "pruned E fails (insert v V) L d L' d'"
proof -
  note p = assms(1) [unfolded pruned_def]
  have v: "v \<notin> V" using p assms(3) by auto
  have s': "sizes L' = sizes L |` (- insert v V)" "E (queue L') = E (queue L) |` (- insert v V)"
    using p assms(3,4) by (auto simp: restrict_map_def fun_eq_iff)
  have sum: "in_use L1 + the (sizes L v) = in_use L"
    using limiter_okD(3) [OF assms(7)] limiter_okD(3) [OF assms(8)] assms(2,3)
      total_remove [OF limiter_okD(4) [OF assms(7)], of v] by (auto simp: size_of_def)
  have last: "\<exists>u\<in>insert v V. size_limit L < in_use L' + the (sizes L u)"
  proof (cases "V = {}")
    case True
    then have "sizes L' = sizes L1" using p by (simp add: restrict_map_def)
    then have "in_use L' = in_use L1" using limiter_okD(3) [OF assms(8)] limiter_okD(3) [OF assms(9)] by simp
    then show ?thesis using sum assms(10) by (auto simp: exceeds_limit_def)
  next
    case False
    then obtain u where "u \<in> V" "size_limit L1 < in_use L' + the (sizes L1 u)" using p by blast
    moreover from this(1) v have "u \<noteq> v" by blast
    ultimately show ?thesis using assms(3,5) by auto
  qed
  have order: "the (E (queue L) u) \<le> the (E (queue L) q)" if "u \<in> insert v V" "q \<in> dom (sizes L) - insert v V" for u q
  proof (cases "u = v")
    case True
    then show ?thesis using assms(6) that(2) by auto
  next
    case False
    then have "the (E (queue L1) u) \<le> the (E (queue L1) q)" using p that assms(3) by auto
    then show ?thesis using False that(2) assms(4) by auto
  qed
  have disk: "d' q = (if q \<in> insert v V \<and> fails UnlinkFile q = None then None else d q)" for q
    using p v assms(11) by (auto simp: fs_remove_def split: option.splits if_splits)
  show ?thesis unfolding pruned_def
    using p s' last order disk assms(2,3,5) by auto
qed

lemma prune_loop_idle:
  assumes "\<not> exceeds_limit L"
  shows "prune_loop Q fails e L d =
    Some (case e of Some k \<Rightarrow> Err (Fail (cache_error (CacheIo k))) | None \<Rightarrow> Ok (), L, d)"
  by (simp add: prune_loop.simps [of Q fails e L d] limiter_pop_idle [OF assms])

lemma prune_loop_ok:
  assumes "limiter_ok Q E L"
  shows "\<exists>V r L' d'. prune_loop Q fails e L d = Some (r, L', d') \<and> r \<noteq> Err Panic \<and> limiter_ok Q E L' \<and>
    pruned E fails V L d L' d' \<and> (e = None \<and> tracks L d \<and> fails UnlinkFile = (\<lambda>_. None) \<longrightarrow> r = Ok ())"
  using assms
proof (induction "card (dom (sizes L))" arbitrary: e L d rule: less_induct)
  case less
  show ?case
  proof (cases "exceeds_limit L")
    case False
    then have "pruned E fails {} L d L d" by (simp add: pruned_def exceeds_limit_def restrict_map_def)
    moreover have "prune_loop Q fails e L d =
        Some (case e of Some k \<Rightarrow> Err (Fail (cache_error (CacheIo k))) | None \<Rightarrow> Ok (), L, d)"
      by (rule prune_loop_idle [OF False])
    moreover have "(case e of Some k \<Rightarrow> Err (Fail (cache_error (CacheIo k))) | None \<Rightarrow> Ok ()) \<noteq> (Err Panic :: unit cache_result)"
      by (cases e) simp_all
    ultimately show ?thesis using less.prems by fastforce
  next
    case True
    obtain v t L1 where pop: "limiter_pop Q L = (Ok (Some v), L1)" "limiter_ok Q E L1" "E (queue L) v = Some t"
      "\<forall>p' t'. E (queue L) p' = Some t' \<longrightarrow> t \<le> t'" "E (queue L1) = (E (queue L))(v := None)"
      "sizes L1 = (sizes L)(v := None)" "size_limit L1 = size_limit L"
      using limiter_pop_ok [OF less.prems True] by blast
    note ok = limiter_okD [OF less.prems]
    have v: "v \<in> dom (sizes L)" using pop(3) ok(2) by blast
    have "card (dom (sizes L1)) < card (dom (sizes L))"
      using v ok(4) card_Diff1_less [of "dom (sizes L)" v] by (simp add: pop(6))
    note IH = less.hyps [OF this pop(2)]
    obtain x d1 where x: "fs_remove fails v d = (x, d1)" by (metis surj_pair)
    define e' where "e' = (case x of Inl k \<Rightarrow> Some k | Inr _ \<Rightarrow> e)"
    obtain V r L' d' where r: "prune_loop Q fails e' L1 d1 = Some (r, L', d')" "r \<noteq> Err Panic" "limiter_ok Q E L'"
      "pruned E fails V L1 d1 L' d'"
      and fine: "e' = None \<and> tracks L1 d1 \<and> fails UnlinkFile = (\<lambda>_. None) \<Longrightarrow> r = Ok ()"
      using IH [of e' d1] by blast
    have "prune_loop Q fails e L d = Some (r, L', d')"
      using r(1) by (simp add: prune_loop.simps [of Q fails e L d] pop(1) x e'_def split: sum.splits)
    moreover have "\<forall>p\<in>dom (sizes L). the (E (queue L) v) \<le> the (E (queue L) p)"
      using pop(3,4) unfolding ok(2) [symmetric] by auto
    then have "pruned E fails (insert v V) L d L' d'"
      by (intro pruned_step [OF r(4) v pop(6,5,7) _ less.prems pop(2) r(3) True]) (simp_all add: x)
    moreover have "r = Ok ()" if calm: "e = None" "tracks L d" "fails UnlinkFile = (\<lambda>_. None)"
    proof (rule fine)
      obtain b where "d v = Some b" using calm(2) v by (force simp: tracks_def)
      with x calm(3) have "x = Ok ()" "d1 = d(v := None)" by (simp_all add: fs_remove_def)
      with calm show "e' = None \<and> tracks L1 d1 \<and> fails UnlinkFile = (\<lambda>_. None)"
        by (auto simp: e'_def tracks_def pop(6))
    qed
    ultimately show ?thesis using r(2,3) by blast
  qed
qed

section \<open>The cache as a system\<close>

type_synonym 'q cache_state = "'q Cache \<times> Disk"

definition cache_ok :: "'q PriorityQueue \<Rightarrow> ('q \<Rightarrow> (PathBuf \<rightharpoonup> nat)) \<Rightarrow> 'q cache_state \<Rightarrow> bool" where
  "cache_ok Q E = (\<lambda>(c, d).
     case size_limiter c of
       None \<Rightarrow> True
     | Some L \<Rightarrow> limiter_ok Q E L \<and> in_use L \<le> size_limit L \<and> tracks L d)"

lemma tracks_pruned:
  assumes "pruned E fails V L d L' d'" "tracks L d"
  shows "tracks L' d'"
  using assms by (auto simp: tracks_def pruned_def restrict_map_def)

text \<open>The files a directory lists are on the disk, with the size the metadata gives.\<close>

fun listed :: "Disk \<Rightarrow> Dir \<Rightarrow> bool" and listed_entry :: "Disk \<Rightarrow> DirEntry \<Rightarrow> bool" where
  "listed d Unreadable \<longleftrightarrow> True"
| "listed d (Entries es) \<longleftrightarrow> list_all (listed_entry d) es"
| "listed_entry d (SubDir s) \<longleftrightarrow> listed d s"
| "listed_entry d (RegularFile p (Some m)) \<longleftrightarrow> (case d p of None \<Rightarrow> False | Some b \<Rightarrow> length b = meta_len m)"
| "listed_entry d _ \<longleftrightarrow> True"

lemma init_dir_ok:
  "limiter_ok Q E L \<Longrightarrow> tracks L d \<Longrightarrow> listed d t \<Longrightarrow> init_dir Q now t L = (Ok (), L') \<Longrightarrow>
     limiter_ok Q E L' \<and> tracks L' d \<and> size_limit L' = size_limit L"
  "limiter_ok Q E L \<Longrightarrow> tracks L d \<Longrightarrow> list_all (listed_entry d) es \<Longrightarrow> init_entries Q now es L = (Ok (), L') \<Longrightarrow>
     limiter_ok Q E L' \<and> tracks L' d \<and> size_limit L' = size_limit L"
proof (induction Q now t L and Q now es L arbitrary: L' and L' rule: init_dir_init_entries.induct)
  case (5 Q now s es L)
  obtain r L1 where r: "init_dir Q now s L = (r, L1)" by (metis surj_pair)
  with "5.prems"(4) have ok: "r = Ok ()" "init_entries Q now es L1 = (Ok (), L')"
    by (cases r; simp)+
  from "5.IH"(1) [OF "5.prems"(1,2) _ r [unfolded ok]] "5.prems"(3)
  have L1: "limiter_ok Q E L1" "tracks L1 d" "size_limit L1 = size_limit L" by simp_all
  from "5.IH"(2) [OF r [unfolded ok, symmetric] refl L1(1,2) _ ok(2)] "5.prems"(3) L1(3) show ?case by simp
next
  case (7 Q now p m es L)
  have small: "in_use L + meta_len m < 2 ^ 64"
    using "7.prems"(4) by (auto simp: get_metadata_def limiter_add_def split: prod.splits sum.splits if_splits)
  obtain t n where tn: "get_metadata now m = (t, n)" by (metis surj_pair)
  then have n: "n = meta_len m" by (simp add: get_metadata_def)
  obtain L1 where L1: "limiter_add Q p n t L = (Ok (), L1)" "limiter_ok Q E L1" "sizes L1 = (sizes L)(p \<mapsto> n)"
    "size_limit L1 = size_limit L"
    using limiter_add_ok [OF "7.prems"(1) small, of p t] n by blast
  have "tracks L1 d" using "7.prems"(2,3) n by (auto simp: tracks_def L1(3) split: option.splits)
  moreover have "init_entries Q now es L1 = (Ok (), L')" using "7.prems"(4) tn L1(1) by simp
  ultimately show ?case using "7.IH" [OF tn [symmetric] refl L1(1) [symmetric] refl L1(2)] "7.prems"(3) L1(4) by simp
qed simp_all

inductive cache_init :: "'q PriorityQueue \<Rightarrow> ('q \<Rightarrow> (PathBuf \<rightharpoonup> nat)) \<Rightarrow> 'q cache_state \<Rightarrow> bool"
  for Q :: "'q PriorityQueue" and E where
  opened: "pq_laws Q E \<Longrightarrow> (\<forall>p. listed d (read_dir p)) \<Longrightarrow>
     cache_new Q fails now read_dir cp vp ap limit d = Some (Ok c, d') \<Longrightarrow> cache_init Q E (c, d')"

text \<open>
  The operations; a saved file is copied completely and its size added to the limit fits 64 bits.
  Volume and credentials are not among the tracked files.
\<close>

inductive cache_step :: "'q PriorityQueue \<Rightarrow> 'q cache_state \<Rightarrow> 'q cache_state \<Rightarrow> bool"
  for Q :: "'q PriorityQueue" where
  read: "cache_file Q fails now f c d = (r, c') \<Longrightarrow> cache_step Q (c, d) (c', d)"
| save: "(\<And>L. size_limiter c = Some L \<Longrightarrow> size_limit L + length b < 2 ^ 64) \<Longrightarrow>
     save_file Q fails now f (b, True) c d = Some (r, c', d') \<Longrightarrow> cache_step Q (c, d) (c', d')"
| remove: "remove_file Q fails f c d = (r, c', d') \<Longrightarrow> cache_step Q (c, d) (c', d')"
| volume: "(\<And>L p. size_limiter c = Some L \<Longrightarrow> volume_location c = Some p \<Longrightarrow> sizes L p = None) \<Longrightarrow>
     cache_step Q (c, d) (c, save_volume fails v c d)"
| credentials: "(\<And>L p. size_limiter c = Some L \<Longrightarrow> credentials_location c = Some p \<Longrightarrow> sizes L p = None) \<Longrightarrow>
     cache_step Q (c, d) (c, save_credentials fails (\<lambda>j. j) json c d)"

lemma fs_limiter_new_ok:
  assumes "pq_laws Q E" "listed d t" "fs_limiter_new Q fails now t n d = Some (Ok L, d')"
  shows "limiter_ok Q E L \<and> in_use L \<le> size_limit L \<and> tracks L d'"
proof -
  obtain L0 where L0: "init_dir Q now t (limiter_new Q n) = (Ok (), L0)"
    using assms(3) by (auto simp: fs_limiter_new_def split: prod.splits sum.splits)
  have "tracks (limiter_new Q n) d" by (simp add: tracks_def limiter_new_def)
  note ok0 = init_dir_ok(1) [OF limiter_new_ok [OF assms(1)] this assms(2) L0]
  then obtain V r L' d1 where p: "prune_loop Q fails None L0 d = Some (r, L', d1)" "limiter_ok Q E L'"
    "pruned E fails V L0 d L' d1"
    using prune_loop_ok [of Q E L0 fails None d] by blast
  with assms(3) L0 have "L = L'" "d' = d1"
    by (auto simp: fs_limiter_new_def prune_internal_def split: sum.splits)
  with p ok0 show ?thesis using tracks_pruned [OF p(3)] by (simp add: pruned_def)
qed

lemma cache_init_ok: "cache_init Q E s \<Longrightarrow> pq_laws Q E \<and> cache_ok Q E s"
proof (induction rule: cache_init.induct)
  case (opened d read_dir fails now cp vp ap limit c d')
  show ?case
  proof (cases "size_limiter c")
    case None
    with opened(1) show ?thesis by (simp add: cache_ok_def)
  next
    case (Some L)
    then obtain p n where "fs_limiter_new Q fails now (read_dir p) n d = Some (Ok L, d')"
      using opened(3) by (auto simp: cache_new_def Let_def split: sum.splits option.splits prod.splits)
    from fs_limiter_new_ok [OF opened(1) _ this] opened(1,2) Some show ?thesis by (simp add: cache_ok_def)
  qed
qed

lemma save_file_ok:
  assumes "size_limiter c = Some L" "limiter_ok Q E L" "in_use L \<le> size_limit L" "tracks L d"
    "size_limit L + length b < 2 ^ 64" "file_path f c = Some p"
    "fails CreateDir (butlast p) = None" "fails CreateFile p = None"
  shows "\<exists>L1 V r L' d'. (fails UnlinkFile = (\<lambda>_. None) \<longrightarrow> r = Ok ()) \<and> limiter_add Q p (length b) now L = (Ok (), L1) \<and> limiter_ok Q E L1 \<and>
    sizes L1 = (sizes L)(p \<mapsto> length b) \<and> E (queue L1) = (E (queue L))(p \<mapsto> now) \<and> size_limit L1 = size_limit L \<and>
    prune_loop Q fails None L1 (d(p \<mapsto> b)) = Some (r, L', d') \<and> r \<noteq> Err Panic \<and> limiter_ok Q E L' \<and>
    pruned E fails V L1 (d(p \<mapsto> b)) L' d' \<and> tracks L1 (d(p \<mapsto> b)) \<and>
    save_file Q fails now f (b, True) c d =
      Some (case r of Inl e \<Rightarrow> Err e | Inr _ \<Rightarrow> Ok p, c\<lparr>size_limiter := Some L'\<rparr>, d')"
proof -
  obtain L1 where L1: "limiter_add Q p (length b) now L = (Ok (), L1)" "limiter_ok Q E L1"
    "sizes L1 = (sizes L)(p \<mapsto> length b)" "E (queue L1) = (E (queue L))(p \<mapsto> now)" "size_limit L1 = size_limit L"
    using limiter_add_ok [OF assms(2), of "length b" p now] assms(3,5) by auto
  obtain V r L' d' where r: "prune_loop Q fails None L1 (d(p \<mapsto> b)) = Some (r, L', d')" "r \<noteq> Err Panic"
    "limiter_ok Q E L'" "pruned E fails V L1 (d(p \<mapsto> b)) L' d'"
    "tracks L1 (d(p \<mapsto> b)) \<and> fails UnlinkFile = (\<lambda>_. None) \<Longrightarrow> r = Ok ()"
    using prune_loop_ok [OF L1(2), of fails None "d(p \<mapsto> b)"] by blast
  have "tracks L1 (d(p \<mapsto> b))" using assms(4) by (auto simp: tracks_def L1(3))
  moreover have "save_file Q fails now f (b, True) c d =
      Some (case r of Inl e \<Rightarrow> Err e | Inr _ \<Rightarrow> Ok p, c\<lparr>size_limiter := Some L'\<rparr>, d')"
    using assms(1,6-8) L1(1) r(1) by (simp add: save_file_def prune_internal_def split: sum.split)
  ultimately show ?thesis using L1 r by blast
qed

lemma cache_ok_frame:
  "cache_ok Q E (c, d) \<Longrightarrow> (\<And>L p. size_limiter c = Some L \<Longrightarrow> sizes L p \<noteq> None \<Longrightarrow> d' p = d p) \<Longrightarrow> cache_ok Q E (c, d')"
  by (auto simp: cache_ok_def tracks_def split: option.splits)

lemma cache_step_ok:
  assumes "cache_step Q s t" "pq_laws Q E" "cache_ok Q E s"
  shows "cache_ok Q E t"
  using assms
proof (induction rule: cache_step.induct)
  case (read fails now f c d r c')
  then show ?case
    by (auto simp: cache_file_def cache_ok_def limiter_update_ok(2,3,4) [OF _ surjective_pairing] tracks_def
        intro: limiter_update_ok(1) [OF _ surjective_pairing] split: option.splits sum.splits)
next
  case (save c b fails now f d r c' d')
  show ?case
  proof (cases "size_limiter c = None \<or> file_path f c = None \<or>
      fails CreateDir (butlast (the (file_path f c))) \<noteq> None \<or> fails CreateFile (the (file_path f c)) \<noteq> None")
    case True
    then have "c' = c \<and> (size_limiter c = None \<or> d' = d)"
      using save.hyps(2) by (auto simp: save_file_def Let_def split: option.splits if_splits)
    then show ?thesis using save.prems(2) by (auto simp: cache_ok_def)
  next
    case False
    then obtain L p where L: "size_limiter c = Some L" "file_path f c = Some p"
      "fails CreateDir (butlast p) = None" "fails CreateFile p = None"
      by auto
    then have ok: "limiter_ok Q E L" "in_use L \<le> size_limit L" "tracks L d" using save.prems(2) by (simp_all add: cache_ok_def)
    obtain L1 V L' d1 and r' :: "unit cache_result" where s: "limiter_ok Q E L'" "pruned E fails V L1 (d(p \<mapsto> b)) L' d1" "tracks L1 (d(p \<mapsto> b))"
      "save_file Q fails now f (b, True) c d =
        Some (case r' of Inl e \<Rightarrow> Err e | Inr _ \<Rightarrow> Ok p, c\<lparr>size_limiter := Some L'\<rparr>, d1)"
      using save_file_ok [OF L(1) ok save.hyps(1) [OF L(1)] L(2-4), of now] by blast
    then have "c' = c\<lparr>size_limiter := Some L'\<rparr>" "d' = d1" using save.hyps(2) by simp_all
    then show ?thesis using s(1) tracks_pruned [OF s(2,3)] s(2) by (simp add: cache_ok_def pruned_def)
  qed
next
  case (remove fails f c d r c' d')
  show ?case
  proof (cases "size_limiter c = None \<or> file_path f c = None \<or> (\<exists>k. fst (fs_remove fails (the (file_path f c)) d) = Inl k)")
    case True
    then have "c' = c \<and> (size_limiter c = None \<or> d' = d)"
      using remove.hyps by (auto simp: remove_file_def fs_remove_def split: option.splits if_splits)
    then show ?thesis using remove.prems(2) by (auto simp: cache_ok_def)
  next
    case False
    then obtain L p where L: "size_limiter c = Some L" "file_path f c = Some p" by auto
    then have ok: "limiter_ok Q E L" "in_use L \<le> size_limit L" "tracks L d" using remove.prems(2) by (simp_all add: cache_ok_def)
    have fs: "fs_remove fails p d = (Ok (), d(p := None))"
      using False L by (auto simp: fs_remove_def split: option.splits if_splits)
    obtain L' where L': "limiter_remove Q p L = (Ok (p \<in> dom (sizes L)), L')" "limiter_ok Q E L'"
      "sizes L' = (sizes L)(p := None)" "size_limit L' = size_limit L"
      using limiter_remove_ok [OF ok(1)] by blast
    then have "c' = c\<lparr>size_limiter := Some L'\<rparr>" "d' = d(p := None)" using remove.hyps L fs by (auto simp: remove_file_def)
    moreover have "in_use L' \<le> in_use L"
      using total_remove [OF limiter_okD(4) [OF ok(1)], of p] limiter_okD(3) [OF ok(1)] limiter_okD(3) [OF L'(2)] L'(3) by simp
    moreover have "tracks L' (d(p := None))" using ok(3) by (simp add: tracks_def L'(3))
    ultimately show ?thesis using L' ok(2) by (simp add: cache_ok_def)
  qed
next
  case (volume c fails v d)
  from volume.prems(2) show ?case
    by (rule cache_ok_frame) (use volume.hyps in \<open>auto simp: save_volume_def split: option.splits\<close>)
next
  case (credentials c fails json d)
  from credentials.prems(2) show ?case
    by (rule cache_ok_frame) (use credentials.hyps in \<open>auto simp: save_credentials_def split: option.splits\<close>)
qed

interpretation cache: invariant_system "cache_init Q E" "cache_step Q" "\<lambda>s. pq_laws Q E \<and> cache_ok Q E s" for Q E
  by unfold_locales (auto dest: cache_init_ok intro: cache_step_ok)

section \<open>A queue with the laws\<close>

fun least :: "(PathBuf \<times> nat) list \<Rightarrow> (PathBuf \<times> nat) option" where
  "least [] = None"
| "least (x # xs) = (case least xs of None \<Rightarrow> Some x | Some y \<Rightarrow> Some (if snd x \<le> snd y then x else y))"

lemma least_Some: "least xs = Some x \<Longrightarrow> x \<in> set xs \<and> (\<forall>y\<in>set xs. snd x \<le> snd y)"
proof (induction xs arbitrary: x)
  case (Cons a xs)
  show ?case
  proof (cases "least xs")
    case None
    then have "xs = []" by (cases xs) (auto split: option.splits)
    then show ?thesis using Cons.prems by simp
  next
    case (Some y)
    from Cons.IH [OF Some] have "y \<in> set xs" "\<forall>z\<in>set xs. snd y \<le> snd z" by simp_all
    then show ?thesis using Cons.prems Some by (auto split: if_splits)
  qed
qed simp

lemma least_None [simp]: "least xs = None \<longleftrightarrow> xs = []"
  by (cases xs) (auto split: option.splits)

definition list_queue :: "(PathBuf \<times> nat) list PriorityQueue" where
  "list_queue =
     \<lparr>pq_new = [], pq_push = (\<lambda>p t q. (p, t) # q),
      pq_pop = (\<lambda>q. case least (filter (\<lambda>(p, t). map_of q p = Some t) q) of
                      None \<Rightarrow> (None, q)
                    | Some (p, t) \<Rightarrow> (Some (p, t), filter (\<lambda>x. fst x \<noteq> p) q)),
      pq_change_priority = (\<lambda>p t q. (map_of q p, if map_of q p = None then q else (p, t) # q)),
      pq_remove = (\<lambda>p q. (map_option (Pair p) (map_of q p), filter (\<lambda>x. fst x \<noteq> p) q))\<rparr>"

lemma map_of_filter_fst: "map_of (filter (\<lambda>x. fst x \<noteq> p) q) = (map_of q)(p := None)"
  by (induction q) auto

lemma list_queue_pop:
  assumes "map_of q \<noteq> Map.empty"
  shows "\<exists>p t q'. pq_pop list_queue q = (Some (p, t), q') \<and> map_of q p = Some t \<and> map_of q' = (map_of q)(p := None) \<and>
    (\<forall>p' t'. map_of q p' = Some t' \<longrightarrow> t \<le> t')"
proof -
  let ?live = "filter (\<lambda>(p, t). map_of q p = Some t) q"
  have live: "(p, t) \<in> set ?live" if "map_of q p = Some t" for p t using that map_of_SomeD [OF that] by simp
  obtain p t where "map_of q p = Some t" using assms by (auto simp: fun_eq_iff)
  then have "?live \<noteq> []" using live by (metis empty_iff empty_set)
  then have "least ?live \<noteq> None" unfolding least_None .
  then obtain x where "least ?live = Some x" by blast
  moreover obtain p t where "x = (p, t)" by (cases x)
  ultimately have l: "least ?live = Some (p, t)" by simp
  then have pt: "map_of q p = Some t" "\<forall>y\<in>set ?live. t \<le> snd y" using least_Some [OF l] by auto
  have "t \<le> t'" if "map_of q p' = Some t'" for p' t' using pt(2) live [OF that] by (metis snd_conv)
  moreover have "pq_pop list_queue q = (Some (p, t), filter (\<lambda>x. fst x \<noteq> p) q)"
    by (simp add: list_queue_def l)
  ultimately show ?thesis using pt(1) map_of_filter_fst by metis
qed

lemma list_queue_laws: "pq_laws list_queue map_of"
  unfolding pq_laws_def
proof (intro conjI allI impI)
  show "fst (pq_pop list_queue q) = None" "map_of (snd (pq_pop list_queue q)) = Map.empty" if "map_of q = Map.empty" for q
    using that by (simp_all add: list_queue_def)
qed (use list_queue_pop in \<open>simp_all add: list_queue_def map_of_filter_fst finite_dom_map_of\<close>)

text \<open>A cache of five bytes in an empty directory, and the same cache with one file of three bytes.\<close>

definition calm :: failures where
  "calm op p = None"

definition sample_cache :: "(PathBuf \<times> nat) list Cache" where
  "sample_cache = \<lparr>credentials_location = None, volume_location = None, audio_location = Some [''c''],
     size_limiter = Some (limiter_new list_queue 5)\<rparr>"

lemma sample_cache_init: "cache_init list_queue map_of (sample_cache, Map.empty)"
proof (rule cache_init.opened [OF list_queue_laws])
  show "\<forall>p. listed Map.empty ((\<lambda>_. Unreadable) p)" by simp
  show "cache_new list_queue calm 0 (\<lambda>_. Unreadable) None None (Some [''c'']) (Some 5) Map.empty =
      Some (Ok sample_cache, Map.empty)"
    by (simp add: cache_new_def create_dir_all_def calm_def fs_limiter_new_def prune_internal_def prune_loop_idle
        exceeds_limit_def limiter_new_def sample_cache_def)
qed

definition cached_id :: FileId where
  "cached_id = file_id_from_raw [7]"

definition cached_path :: PathBuf where
  "cached_path = [''c'', ''07'', replicate 38 CHR ''0'']"

lemma cached_file_path: "file_path cached_id sample_cache = Some cached_path"
  by code_simp

definition sample_cache_saved :: "(PathBuf \<times> nat) list cache_state" where
  "sample_cache_saved = (sample_cache\<lparr>size_limiter := Some \<lparr>queue = [(cached_path, 1)], sizes = [cached_path \<mapsto> 3],
     size_limit = 5, in_use = 3\<rparr>\<rparr>, [cached_path \<mapsto> [1, 2, 3]])"

lemma sample_cache_step: "cache_step list_queue (sample_cache, Map.empty) sample_cache_saved"
  unfolding sample_cache_saved_def
proof (rule cache_step.save)
  show "size_limit L + length [1, 2, 3 :: u8] < 2 ^ 64" if "size_limiter sample_cache = Some L" for L
    using that by (auto simp: sample_cache_def limiter_new_def)
  have L: "size_limiter sample_cache = Some (limiter_new list_queue 5)" by (simp add: sample_cache_def)
  have add: "limiter_add list_queue cached_path (length [1, 2, 3 :: u8]) 1 (limiter_new list_queue 5) =
      (Ok (), \<lparr>queue = [(cached_path, 1)], sizes = [cached_path \<mapsto> 3], size_limit = 5, in_use = 3\<rparr>)"
  proof -
    have "length [1, 2, 3 :: u8] = 3" by simp
    then show ?thesis
      by (simp only:) (simp add: limiter_add_def limiter_new_def list_queue_def)
  qed
  show "save_file list_queue calm 1 cached_id ([1, 2, 3], True) sample_cache Map.empty =
      Some (Ok cached_path, sample_cache\<lparr>size_limiter := Some \<lparr>queue = [(cached_path, 1)], sizes = [cached_path \<mapsto> 3],
        size_limit = 5, in_use = 3\<rparr>\<rparr>, [cached_path \<mapsto> [1, 2, 3]])"
    by (simp add: save_file_def cached_file_path calm_def prune_internal_def prune_loop_idle exceeds_limit_def L add
        del: One_nat_def list.size)
qed

section \<open>Properties\<close>



text \<open>
  C26. Saving a file evicts the least recently used files and no more than needed: saving returns; the
  files that go are not used later than any that stays; what stays is within the limit and was not
  before the last one of them went; and of the other files on the disk none is touched.
\<close>

theorem save_evicts_lru:
  assumes "cache_init Q E s" and "(cache_step Q)\<^sup>*\<^sup>* s (c, d)" and "size_limiter c = Some L"
    and "size_limit L + length b < 2 ^ 64" and "file_path f c = Some p"
    and "fails CreateDir (butlast p) = None" and "fails CreateFile p = None"
  shows "\<exists>r V L' d'. save_file Q fails now f (b, True) c d = Some (r, c\<lparr>size_limiter := Some L'\<rparr>, d') \<and> r \<noteq> Err Panic \<and>
    V \<subseteq> insert p (dom (sizes L)) \<and> sizes L' = (sizes L)(p \<mapsto> length b) |` (- V) \<and>
    (\<forall>v\<in>V. \<forall>q\<in>insert p (dom (sizes L)) - V.
       the (((E (queue L))(p \<mapsto> now)) v) \<le> the (((E (queue L))(p \<mapsto> now)) q)) \<and>
    in_use L' \<le> size_limit L \<and>
    (V = {} \<or> (\<exists>v\<in>V. size_limit L < in_use L' + the (((sizes L)(p \<mapsto> length b)) v))) \<and>
    (\<forall>q. d' q = (if q \<in> V \<and> fails UnlinkFile q = None then None else (d(p \<mapsto> b)) q))"
proof -
  have ok: "limiter_ok Q E L" "in_use L \<le> size_limit L" "tracks L d"
    using cache.reachable_inv [OF assms(1,2)] assms(3) by (simp_all add: cache_ok_def)
  obtain L1 V L' d' and r :: "unit cache_result" where s: "sizes L1 = (sizes L)(p \<mapsto> length b)"
    "E (queue L1) = (E (queue L))(p \<mapsto> now)" "size_limit L1 = size_limit L" "r \<noteq> Err Panic"
    "pruned E fails V L1 (d(p \<mapsto> b)) L' d'"
    "save_file Q fails now f (b, True) c d =
       Some (case r of Inl e \<Rightarrow> Err e | Inr _ \<Rightarrow> Ok p, c\<lparr>size_limiter := Some L'\<rparr>, d')"
    using save_file_ok [OF assms(3) ok assms(4-7), of now] by blast
  have r: "(case r of Inl e \<Rightarrow> Err e | Inr _ \<Rightarrow> Ok p) \<noteq> Err Panic" using s(4) by (cases r) auto
  have "V \<subseteq> insert p (dom (sizes L))" "dom (sizes L1) = insert p (dom (sizes L))"
    using s(1,5) by (auto simp: pruned_def)
  then show ?thesis using s(5,6) r unfolding pruned_def s(1-3)
    by (intro exI [of _ "case r of Inl e \<Rightarrow> Err e | Inr _ \<Rightarrow> Ok p"] exI [of _ V] exI [of _ L'] exI [of _ d']) simp
qed

theorem save_evicts_lru_witness:
  "\<exists>r L' d'. save_file list_queue calm 1 cached_id ([1, 2, 3], True) sample_cache Map.empty =
     Some (r, sample_cache\<lparr>size_limiter := Some L'\<rparr>, d') \<and> in_use L' \<le> 5"
proof -
  have L: "size_limiter sample_cache = Some (limiter_new list_queue 5)" by (simp add: sample_cache_def)
  from save_evicts_lru [OF sample_cache_init rtranclp.rtrancl_refl L _ cached_file_path, of "[1, 2, 3]" calm 1] show ?thesis
    by (auto simp: calm_def limiter_new_def)
qed

text \<open>
  A file that is larger than the whole limit empties the cache, itself included: saving it evicts
  every file, and although the saved file is gone from the disk the call reports success with its
  path.
\<close>

theorem oversize_save_empties:
  assumes "cache_init Q E s" and "(cache_step Q)\<^sup>*\<^sup>* s (c, d)" and "size_limiter c = Some L"
    and "size_limit L + length b < 2 ^ 64" and "file_path f c = Some p"
    and "\<forall>op q. fails op q = None" and "size_limit L < length b"
    and "\<forall>q t. E (queue L) q = Some t \<longrightarrow> t < now"
  shows "\<exists>L' d'. save_file Q fails now f (b, True) c d = Some (Ok p, c\<lparr>size_limiter := Some L'\<rparr>, d') \<and>
    d' p = None \<and> sizes L' = Map.empty"
proof -
  have ok: "limiter_ok Q E L" "in_use L \<le> size_limit L" "tracks L d"
    using cache.reachable_inv [OF assms(1,2)] assms(3) by (simp_all add: cache_ok_def)
  have fine: "fails CreateDir (butlast p) = None" "fails CreateFile p = None" "fails UnlinkFile = (\<lambda>_. None)"
    using assms(6) by auto
  obtain L1 V L' d' and r :: "unit cache_result" where s: "sizes L1 = (sizes L)(p \<mapsto> length b)"
    "E (queue L1) = (E (queue L))(p \<mapsto> now)" "size_limit L1 = size_limit L" "r = Ok ()" "limiter_ok Q E L'"
    "pruned E fails V L1 (d(p \<mapsto> b)) L' d'"
    "save_file Q fails now f (b, True) c d =
       Some (case r of Inl e \<Rightarrow> Err e | Inr _ \<Rightarrow> Ok p, c\<lparr>size_limiter := Some L'\<rparr>, d')"
    using save_file_ok [OF assms(3) ok assms(4,5) fine(1,2), of now] fine(3) by blast
  note pr = s(6) [unfolded pruned_def s(1-3)]
  have p: "p \<in> V"
  proof (rule ccontr)
    assume "p \<notin> V"
    then have "size_of (sizes L') p = length b" using pr by (simp add: size_of_def restrict_map_def)
    then show False using limiter_okD(5) [OF s(5), of p] pr assms(7) by simp
  qed
  have "q \<in> V" if q: "q \<in> dom (sizes L)" "q \<noteq> p" for q
  proof (rule ccontr)
    assume "q \<notin> V"
    with q pr p have "the (((E (queue L))(p \<mapsto> now)) p) \<le> the (((E (queue L))(p \<mapsto> now)) q)" by fastforce
    moreover obtain t where "E (queue L) q = Some t" using q(1) limiter_okD(2) [OF ok(1)] by blast
    ultimately show False using assms(8) q(2) by force
  qed
  with p pr have "sizes L' = Map.empty" by (fastforce simp: restrict_map_def)
  with s(4,7) pr p assms(6) show ?thesis by auto
qed

theorem oversize_save_empties_witness:
  "\<exists>L' d'. save_file list_queue calm 1 cached_id ([1, 2, 3, 4, 5, 6], True) sample_cache Map.empty =
     Some (Ok cached_path, sample_cache\<lparr>size_limiter := Some L'\<rparr>, d') \<and> d' cached_path = None"
proof -
  have L: "size_limiter sample_cache = Some (limiter_new list_queue 5)" by (simp add: sample_cache_def)
  from oversize_save_empties [OF sample_cache_init rtranclp.rtrancl_refl L _ cached_file_path, of "[1, 2, 3, 4, 5, 6]" calm 1]
  show ?thesis by (auto simp: calm_def limiter_new_def list_queue_def)
qed

text \<open>
  A save that breaks off, for instance on a full disk, is reported as a missing cache location,
  and the incomplete file stays: the next lookup hands it out as the cached file.
\<close>

theorem broken_save_served:
  assumes "file_path f c = Some p" and "\<forall>op q. fails op q = None"
  shows "save_file Q fails now f (b, False) c d = Some (Err (Fail (cache_error CachePath)), c, d(p \<mapsto> b)) \<and>
    fst (cache_file Q fails now' f c (d(p \<mapsto> b))) = Some b"
  using assms by (simp add: save_file_def cache_file_def fs_open_def)

theorem broken_save_served_witness:
  "fst (cache_file list_queue calm 2 cached_id sample_cache [cached_path \<mapsto> [1, 2]]) = Some [1, 2]"
  using broken_save_served [OF cached_file_path, of calm list_queue 1 "[1, 2]" Map.empty 2] by (simp add: calm_def)

end
