(* ===== verification/Player_Audio.thy ===== *)
theory Player_Audio
  imports Floats Core_Error
begin

text \<open>
  What the player does to samples (\<open>playback/src/player.rs\<close>, \<open>playback/src/decoder/mod.rs\<close>,
  \<open>playback/src/config.rs\<close>): the normalisation factor of a track, volume, and the limiter. Samples are
  finite double-precision numbers. The functions of the mathematical library are parameters:
  \<open>to_ratio\<close> is \<open>db_to_ratio\<close>, and \<open>to_db\<close> is \<open>ratio_to_db\<close>, which is \<open>None\<close> for the infinite value at zero.
\<close>

section \<open>Data\<close>

datatype AudioPacket = Samples "rat list" | Raw "u8 list"

definition packet_samples :: "AudioPacket \<Rightarrow> rat list option" where
  "packet_samples p = (case p of Samples s \<Rightarrow> Some s | Raw d \<Rightarrow> None)"

definition packet_is_empty :: "AudioPacket \<Rightarrow> bool" where
  "packet_is_empty p = (case p of Samples s \<Rightarrow> s = [] | Raw d \<Rightarrow> d = [])"

record AudioPacketPosition =
  packet_position_ms :: u32
  skipped :: bool

datatype Bitrate = Bitrate96 | Bitrate160 | Bitrate320

datatype NormalisationType = AlbumGain | TrackGain | AutoGain

datatype NormalisationMethod = BasicMethod | DynamicMethod

text \<open>Times are in nanoseconds.\<close>

record PlayerConfig =
  bitrate :: Bitrate
  gapless :: bool
  passthrough :: bool
  normalisation :: bool
  normalisation_type :: NormalisationType
  normalisation_method :: NormalisationMethod
  normalisation_pregain_db :: rat
  normalisation_threshold_dbfs :: rat
  normalisation_attack_cf :: rat
  normalisation_release_cf :: rat
  normalisation_knee_db :: rat
  position_update_interval :: "nat option"

record NormalisationData =
  track_gain_db :: rat
  track_peak :: rat
  album_gain_db :: rat
  album_peak :: rat

definition normalisation_data_default :: NormalisationData where
  "normalisation_data_default = \<lparr>track_gain_db = 0, track_peak = 1, album_gain_db = 0, album_peak = 1\<rparr>"

record MathLibrary =
  to_ratio :: "rat \<Rightarrow> rat"
  to_db :: "rat \<Rightarrow> rat option"

section \<open>The factor of a track\<close>

definition f64_mul :: "rat \<Rightarrow> rat \<Rightarrow> rat" where
  "f64_mul a b = f64 (a * b)"

definition f64_add :: "rat \<Rightarrow> rat \<Rightarrow> rat" where
  "f64_add a b = f64 (a + b)"

text \<open>\<open>f64::min(a, 1.0 / b)\<close>; the quotient by zero is infinite.\<close>

definition min_inverse :: "rat \<Rightarrow> rat \<Rightarrow> rat" where
  "min_inverse a b = (if b = 0 then a else min a (f64 (1 / b)))"

definition get_factor :: "MathLibrary \<Rightarrow> PlayerConfig \<Rightarrow> NormalisationData \<Rightarrow> rat" where
  "get_factor M config data =
     (if \<not> normalisation config then 1
      else let (gain_db, gain_peak) =
                 (if normalisation_type config = AlbumGain then (album_gain_db data, album_peak data)
                  else (track_gain_db data, track_peak data));
               ratio = to_ratio M (f64_add gain_db (normalisation_pregain_db config))
           in if normalisation_method config = BasicMethod
              then let factor = min_inverse ratio gain_peak in if 1 < factor then 1 else factor
              else ratio)"

text \<open>The type of normalisation that \<open>start_playback\<close> picks.\<close>

definition resolve_normalisation :: "bool \<Rightarrow> PlayerConfig \<Rightarrow> PlayerConfig" where
  "resolve_normalisation auto_normalise_as_album config =
     (if normalisation_type config = AutoGain
      then config\<lparr>normalisation_type := (if auto_normalise_as_album then AlbumGain else TrackGain)\<rparr>
      else config)"

section \<open>The limiter\<close>

record Limiter =
  normalisation_integrators :: "rat \<times> rat"
  normalisation_peaks :: "rat \<times> rat"
  normalisation_channel :: bool
  normalisation_knee_factor :: rat

text \<open>\<open>f64::MIN_POSITIVE\<close>.\<close>

definition MIN_POSITIVE :: rat where
  "MIN_POSITIVE = pow2 (- 1022)"

text \<open>The element of a pair that a channel has, the right one for channel 1.\<close>

definition channel_get :: "bool \<Rightarrow> 'a \<times> 'a \<Rightarrow> 'a" where
  "channel_get c p = (if c then snd p else fst p)"

definition channel_set :: "bool \<Rightarrow> 'a \<Rightarrow> 'a \<times> 'a \<Rightarrow> 'a \<times> 'a" where
  "channel_set c v p = (if c then (fst p, v) else (v, snd p))"

definition limiter_gain_db :: "MathLibrary \<Rightarrow> PlayerConfig \<Rightarrow> rat \<Rightarrow> rat \<Rightarrow> rat" where
  "limiter_gain_db M config knee_factor sample =
     (case to_db M \<bar>sample\<bar> of
        None \<Rightarrow> 0
      | Some db \<Rightarrow>
          (let bias_db = f64 (db - normalisation_threshold_dbfs config);
               knee_db = normalisation_knee_db config;
               knee_boundary_db = f64_mul bias_db 2
           in if knee_boundary_db < - knee_db then 0
              else if \<bar>knee_boundary_db\<bar> \<le> knee_db
              then let term = f64_add knee_boundary_db knee_db in f64_mul (f64_mul term term) knee_factor
              else bias_db))"

definition smooth :: "rat \<Rightarrow> rat \<Rightarrow> rat \<Rightarrow> rat" where
  "smooth cf old new = f64_add (f64_mul cf old) (f64_mul (f64 (1 - cf)) new)"

definition limit_sample :: "MathLibrary \<Rightarrow> PlayerConfig \<Rightarrow> rat \<Rightarrow> rat \<Rightarrow> rat \<Rightarrow> Limiter \<Rightarrow> rat \<times> Limiter" where
  "limit_sample M config factor volume sample lm =
     (let sample = f64_add (f64_mul sample factor) MIN_POSITIVE;
          limiter_db = limiter_gain_db M config (normalisation_knee_factor lm) sample;
          channel = normalisation_channel lm;
          integrator = max limiter_db
            (smooth (normalisation_release_cf config) (channel_get channel (normalisation_integrators lm)) limiter_db);
          peak = smooth (normalisation_attack_cf config) (channel_get channel (normalisation_peaks lm)) integrator;
          peaks = channel_set channel peak (normalisation_peaks lm);
          max_peak = max (fst peaks) (snd peaks)
      in (f64_mul sample (f64_mul (to_ratio M (- max_peak)) volume),
          lm\<lparr>normalisation_integrators := channel_set channel integrator (normalisation_integrators lm),
              normalisation_peaks := peaks,
              normalisation_channel := \<not> channel\<rparr>))"

fun limit_samples :: "MathLibrary \<Rightarrow> PlayerConfig \<Rightarrow> rat \<Rightarrow> rat \<Rightarrow> rat list \<Rightarrow> Limiter \<Rightarrow> rat list \<times> Limiter" where
  "limit_samples M config factor volume [] lm = ([], lm)"
| "limit_samples M config factor volume (s # ss) lm =
     (let (s', lm') = limit_sample M config factor volume s lm;
          (ss', lm'') = limit_samples M config factor volume ss lm'
      in (s' # ss', lm''))"

text \<open>What \<open>handle_packet\<close> does to the samples of a packet.\<close>

definition process_samples :: "MathLibrary \<Rightarrow> PlayerConfig \<Rightarrow> rat \<Rightarrow> rat \<Rightarrow> rat list \<Rightarrow> Limiter \<Rightarrow> rat list \<times> Limiter" where
  "process_samples M config factor volume data lm =
     (if \<not> normalisation config
      then (if volume < 1 then map (\<lambda>s. f64_mul s volume) data else data, lm)
      else if normalisation_method config = DynamicMethod then limit_samples M config factor volume data lm
      else (if factor < 1 \<or> volume < 1 then map (\<lambda>s. f64_mul s (f64_mul factor volume)) data else data, lm))"

end
