(* ===== verification/Player.thy ===== *)
theory Player
  imports Player_Audio Spotify_Uri Wire "HOL-Library.Monad_Syntax"
begin

text \<open>
  The player thread of \<open>playback/src/player.rs\<close>: its state, the commands, and the loop that handles
  commands, loaders, preloading and packets. Decoders, sinks, stream controllers and audio items are
  type parameters; what they do is a record of operations, the environment, which may change from one
  round of the loop to the next. An operation that ends the process (\<open>exit(1)\<close>) has the result \<open>None\<close>.

  The clock is read once per round, in nanoseconds. An event is kept with the senders that took it.
\<close>

section \<open>Data\<close>

datatype SinkStatus = SinkRunning | SinkClosed | SinkTemporarilyClosed

record QueueTrack =
  queue_uri :: string
  queue_provider :: string

datatype 'i PlayerEvent =
    EvPlayRequestIdChanged u64
  | EvStopped u64 SpotifyUri
  | EvLoading u64 SpotifyUri u32
  | EvPreloading SpotifyUri
  | EvPlaying u64 SpotifyUri u32
  | EvPaused u64 SpotifyUri u32
  | EvTimeToPreloadNextTrack u64 SpotifyUri
  | EvEndOfTrack u64 SpotifyUri
  | EvUnavailable u64 SpotifyUri
  | EvVolumeChanged u16
  | EvPositionCorrection u64 SpotifyUri u32
  | EvPositionChanged u64 SpotifyUri u32
  | EvSeeked u64 SpotifyUri u32
  | EvTrackChanged 'i
  | EvSessionConnected string string
  | EvSessionDisconnected string string
  | EvSessionClientChanged string string string string
  | EvShuffleChanged bool
  | EvRepeatChanged bool bool
  | EvAutoPlayChanged bool
  | EvFilterExplicitContentChanged bool
  | EvSetQueue string "QueueTrack option" "QueueTrack list" "QueueTrack list"

fun get_play_request_id :: "'i PlayerEvent \<Rightarrow> u64 option" where
  "get_play_request_id (EvLoading i _ _) = Some i"
| "get_play_request_id (EvUnavailable i _) = Some i"
| "get_play_request_id (EvPlaying i _ _) = Some i"
| "get_play_request_id (EvTimeToPreloadNextTrack i _) = Some i"
| "get_play_request_id (EvEndOfTrack i _) = Some i"
| "get_play_request_id (EvPaused i _ _) = Some i"
| "get_play_request_id (EvStopped i _) = Some i"
| "get_play_request_id (EvPositionCorrection i _ _) = Some i"
| "get_play_request_id (EvSeeked i _ _) = Some i"
| "get_play_request_id _ = None"

datatype PlayerCommand =
    CmdLoad SpotifyUri bool u32
  | CmdPreload SpotifyUri
  | CmdPlay
  | CmdPause
  | CmdStop
  | CmdSeek u32
  | CmdSetSession nat
  | CmdAddEventSender nat
  | CmdSetSinkEventCallback bool
  | CmdEmitVolumeChangedEvent u16
  | CmdSetAutoNormaliseAsAlbum bool
  | CmdEmitSessionDisconnectedEvent string string
  | CmdEmitSessionConnectedEvent string string
  | CmdEmitSessionClientChangedEvent string string string string
  | CmdEmitFilterExplicitContentChangedEvent bool
  | CmdEmitShuffleChangedEvent bool
  | CmdEmitRepeatChangedEvent bool bool
  | CmdEmitAutoPlayChangedEvent bool
  | CmdEmitSetQueueEvent string "QueueTrack option" "QueueTrack list" "QueueTrack list"

record ('d, 'i, 'c) PlayerLoadedTrackData =
  decoder :: 'd
  normalisation_data :: NormalisationData
  stream_loader_controller :: 'c
  audio_item :: 'i
  bytes_per_second :: nat
  duration_ms :: u32
  stream_position_ms :: u32
  is_explicit :: bool

text \<open>A loader: the number of its thread, what it loads, and whether the future has completed.\<close>

record Loader =
  loader_thread :: nat
  loader_uri :: SpotifyUri
  loader_position_ms :: u32
  is_terminated :: bool

datatype ('d, 'i, 'c) PlayerPreload =
    PreloadNone
  | PreloadLoading SpotifyUri Loader
  | PreloadReady SpotifyUri "('d, 'i, 'c) PlayerLoadedTrackData"

text \<open>What the states \<open>Paused\<close> and \<open>Playing\<close> have in common.\<close>

record ('d, 'i, 'c) ActiveTrack =
  track_id :: SpotifyUri
  play_request_id :: u64
  loaded :: "('d, 'i, 'c) PlayerLoadedTrackData"
  normalisation_factor :: rat
  suggested_to_preload_next_track :: bool

datatype ('d, 'i, 'c) PlayerState =
    StStopped
  | StLoading SpotifyUri u64 bool Loader
  | StPaused "('d, 'i, 'c) ActiveTrack"
  | StPlaying "('d, 'i, 'c) ActiveTrack" "int option"
  | StEndOfTrack SpotifyUri u64 "('d, 'i, 'c) PlayerLoadedTrackData"
  | StInvalid

record ('d, 'i, 'c, 's) PlayerInternal =
  player_session :: nat
  config :: PlayerConfig
  threads_started :: nat
  state :: "('d, 'i, 'c) PlayerState"
  preload :: "('d, 'i, 'c) PlayerPreload"
  sink :: 's
  sink_status :: SinkStatus
  sink_event_callback :: bool
  sink_events :: "SinkStatus list"
  event_senders :: "nat list"
  sent :: "(nat list \<times> 'i PlayerEvent) list"
  limiter :: Limiter
  auto_normalise_as_album :: bool
  play_request_id_generator :: u64
  last_progress_update :: int

datatype DecoderError = PassthroughDecoderError | SymphoniaDecoderError

datatype PlayerCause = InvalidState | DecoderCause DecoderError | FetchCause

record ('d, 'c, 's) PlayerEnv =
  dec_seek :: "u32 \<Rightarrow> 'd \<Rightarrow> (DecoderError + u32) \<times> 'd"
  dec_next_packet :: "'d \<Rightarrow> (DecoderError + (AudioPacketPosition \<times> AudioPacket) option) \<times> 'd"
  start_sink :: "'s \<Rightarrow> bool \<times> 's"
  stop_sink :: "'s \<Rightarrow> bool \<times> 's"
  write_sink :: "AudioPacket \<Rightarrow> 's \<Rightarrow> bool \<times> 's"
  to_end_available :: "'c \<Rightarrow> bool"
  fetch_and_wait :: "nat \<Rightarrow> nat \<Rightarrow> 'c \<Rightarrow> (ErrorKind + unit) \<times> 'c"
  sender_alive :: "nat \<Rightarrow> bool"
  instant_now :: int
  instant_checked_sub :: "int \<Rightarrow> nat \<Rightarrow> int option"
  attenuation_factor :: rat
  read_ahead_secs :: rat
  math :: MathLibrary

section \<open>Events and the sink\<close>

definition player_new :: "nat \<Rightarrow> PlayerConfig \<Rightarrow> 's \<Rightarrow> rat \<Rightarrow> int \<Rightarrow> ('d, 'i, 'c, 's) PlayerInternal" where
  "player_new session cfg snk knee_factor t =
     \<lparr>player_session = session, config = cfg, threads_started = 0, state = StStopped, preload = PreloadNone,
      sink = snk, sink_status = SinkClosed, sink_event_callback = False, sink_events = [],
      event_senders = [], sent = [],
      limiter = \<lparr>normalisation_integrators = (0, 0), normalisation_peaks = (0, 0),
                 normalisation_channel = False, normalisation_knee_factor = knee_factor\<rparr>,
      auto_normalise_as_album = False, play_request_id_generator = 0, last_progress_update = t\<rparr>"

definition send_event ::
  "('d, 'c, 's) PlayerEnv \<Rightarrow> 'i PlayerEvent \<Rightarrow> ('d, 'i, 'c, 's) PlayerInternal \<Rightarrow> ('d, 'i, 'c, 's) PlayerInternal" where
  "send_event E event p =
     (let took = filter (sender_alive E) (event_senders p)
      in p\<lparr>event_senders := took, sent := sent p @ [(took, event)]\<rparr>)"

definition call_back :: "SinkStatus \<Rightarrow> ('d, 'i, 'c, 's) PlayerInternal \<Rightarrow> ('d, 'i, 'c, 's) PlayerInternal" where
  "call_back status p = (if sink_event_callback p then p\<lparr>sink_events := sink_events p @ [status]\<rparr> else p)"

definition ensure_sink_stopped ::
  "('d, 'c, 's) PlayerEnv \<Rightarrow> bool \<Rightarrow> ('d, 'i, 'c, 's) PlayerInternal \<Rightarrow> ('d, 'i, 'c, 's) PlayerInternal option" where
  "ensure_sink_stopped E temporarily p =
     (case sink_status p of
        SinkRunning \<Rightarrow>
          (let (ok, snk) = stop_sink E (sink p); p = p\<lparr>sink := snk\<rparr>
           in if ok
              then let status = (if temporarily then SinkTemporarilyClosed else SinkClosed)
                   in Some (call_back status (p\<lparr>sink_status := status\<rparr>))
              else None)
      | SinkTemporarilyClosed \<Rightarrow>
          if \<not> temporarily then Some (call_back SinkClosed (p\<lparr>sink_status := SinkClosed\<rparr>)) else Some p
      | SinkClosed \<Rightarrow> Some p)"

section \<open>Transitions of the state\<close>

fun is_playing :: "('d, 'i, 'c) PlayerState \<Rightarrow> bool option" where
  "is_playing (StPlaying a t) = Some True"
| "is_playing StInvalid = None"
| "is_playing _ = Some False"

fun playing_to_end_of_track :: "('d, 'i, 'c) PlayerState \<Rightarrow> ('d, 'i, 'c) PlayerState option" where
  "playing_to_end_of_track (StPlaying a t) = Some (StEndOfTrack (track_id a) (play_request_id a) (loaded a))"
| "playing_to_end_of_track _ = None"

text \<open>The instant at which a track at this position would have started.\<close>

definition nominal_start :: "('d, 'c, 's) PlayerEnv \<Rightarrow> u32 \<Rightarrow> int option" where
  "nominal_start E position_ms = instant_checked_sub E (instant_now E) (unat position_ms * 1000000)"

fun paused_to_playing :: "('d, 'c, 's) PlayerEnv \<Rightarrow> ('d, 'i, 'c) PlayerState \<Rightarrow> ('d, 'i, 'c) PlayerState option" where
  "paused_to_playing E (StPaused a) = Some (StPlaying a (nominal_start E (stream_position_ms (loaded a))))"
| "paused_to_playing E _ = None"

fun playing_to_paused :: "('d, 'i, 'c) PlayerState \<Rightarrow> ('d, 'i, 'c) PlayerState option" where
  "playing_to_paused (StPlaying a t) = Some (StPaused a)"
| "playing_to_paused _ = None"

definition handle_pause ::
  "('d, 'c, 's) PlayerEnv \<Rightarrow> ('d, 'i, 'c, 's) PlayerInternal \<Rightarrow> ('d, 'i, 'c, 's) PlayerInternal option" where
  "handle_pause E p =
     (case state p of
        StPaused a \<Rightarrow> ensure_sink_stopped E False p
      | StPlaying a t \<Rightarrow> do {
          st \<leftarrow> playing_to_paused (state p);
          p \<leftarrow> ensure_sink_stopped E False (p\<lparr>state := st\<rparr>);
          Some (send_event E (EvPaused (play_request_id a) (track_id a) (stream_position_ms (loaded a))) p)
        }
      | StLoading uri i start_playback l \<Rightarrow> Some (p\<lparr>state := StLoading uri i False l\<rparr>)
      | _ \<Rightarrow> Some p)"

definition ensure_sink_running ::
  "('d, 'c, 's) PlayerEnv \<Rightarrow> ('d, 'i, 'c, 's) PlayerInternal \<Rightarrow> ('d, 'i, 'c, 's) PlayerInternal option" where
  "ensure_sink_running E p =
     (if sink_status p \<noteq> SinkRunning
      then let p = call_back SinkRunning p; (ok, snk) = start_sink E (sink p); p = p\<lparr>sink := snk\<rparr>
           in if ok then Some (p\<lparr>sink_status := SinkRunning\<rparr>) else handle_pause E p
      else Some p)"

definition handle_play ::
  "('d, 'c, 's) PlayerEnv \<Rightarrow> ('d, 'i, 'c, 's) PlayerInternal \<Rightarrow> ('d, 'i, 'c, 's) PlayerInternal option" where
  "handle_play E p =
     (case state p of
        StPaused a \<Rightarrow> do {
          st \<leftarrow> paused_to_playing E (state p);
          ensure_sink_running E
            (send_event E (EvPlaying (play_request_id a) (track_id a) (stream_position_ms (loaded a))) (p\<lparr>state := st\<rparr>))
        }
      | StLoading uri i start_playback l \<Rightarrow> Some (p\<lparr>state := StLoading uri i True l\<rparr>)
      | _ \<Rightarrow> Some p)"

definition handle_player_stop ::
  "('d, 'c, 's) PlayerEnv \<Rightarrow> ('d, 'i, 'c, 's) PlayerInternal \<Rightarrow> ('d, 'i, 'c, 's) PlayerInternal option" where
  "handle_player_stop E p =
     (let stop = (\<lambda>i uri. do {
            p \<leftarrow> ensure_sink_stopped E False p;
            Some ((send_event E (EvStopped i uri) p)\<lparr>state := StStopped\<rparr>)
          })
      in case state p of
           StPlaying a t \<Rightarrow> stop (play_request_id a) (track_id a)
         | StPaused a \<Rightarrow> stop (play_request_id a) (track_id a)
         | StEndOfTrack uri i lt \<Rightarrow> stop i uri
         | StLoading uri i start_playback l \<Rightarrow> stop i uri
         | StStopped \<Rightarrow> Some p
         | StInvalid \<Rightarrow> None)"

section \<open>Packets\<close>

definition handle_packet ::
  "('d, 'c, 's) PlayerEnv \<Rightarrow> (AudioPacketPosition \<times> AudioPacket) option \<Rightarrow> rat
   \<Rightarrow> ('d, 'i, 'c, 's) PlayerInternal \<Rightarrow> ('d, 'i, 'c, 's) PlayerInternal option" where
  "handle_packet E packet factor p =
     (case packet of
        Some (_, packet) \<Rightarrow>
          if packet_is_empty packet then Some p
          else let (packet, p) =
                     (case packet of
                        Samples data \<Rightarrow>
                          (let (data, lm) = process_samples (math E) (config p) factor (attenuation_factor E) data (limiter p)
                           in (Samples data, p\<lparr>limiter := lm\<rparr>))
                      | Raw d \<Rightarrow> (Raw d, p));
                   (ok, snk) = write_sink E packet (sink p);
                   p = p\<lparr>sink := snk\<rparr>
               in if ok then Some p else handle_pause E p
      | None \<Rightarrow> do {
          st \<leftarrow> playing_to_end_of_track (state p);
          case st of
            StEndOfTrack uri i lt \<Rightarrow> Some (send_event E (EvEndOfTrack i uri) (p\<lparr>state := st\<rparr>))
          | _ \<Rightarrow> None
        })"

section \<open>Loading\<close>

definition start_playback ::
  "('d, 'c, 's) PlayerEnv \<Rightarrow> SpotifyUri \<Rightarrow> u64 \<Rightarrow> ('d, 'i, 'c) PlayerLoadedTrackData \<Rightarrow> bool
   \<Rightarrow> ('d, 'i, 'c, 's) PlayerInternal \<Rightarrow> ('d, 'i, 'c, 's) PlayerInternal option" where
  "start_playback E uri request_id loaded_track play p =
     (let p = send_event E (EvTrackChanged (audio_item loaded_track)) p;
          position_ms = stream_position_ms loaded_track;
          cfg = resolve_normalisation (auto_normalise_as_album p) (config p);
          active = \<lparr>track_id = uri, play_request_id = request_id, loaded = loaded_track,
                    normalisation_factor = get_factor (math E) cfg (normalisation_data loaded_track),
                    suggested_to_preload_next_track = False\<rparr>
      in if play
         then do {
           p \<leftarrow> ensure_sink_running E p;
           Some ((send_event E (EvPlaying request_id uri position_ms) p)
                   \<lparr>state := StPlaying active (nominal_start E position_ms)\<rparr>)
         }
         else do {
           p \<leftarrow> ensure_sink_stopped E False p;
           Some (send_event E (EvPaused request_id uri position_ms) (p\<lparr>state := StPaused active\<rparr>))
         })"

text \<open>\<open>load_track\<close>: a thread is started, the future waits for it.\<close>

definition load_track ::
  "SpotifyUri \<Rightarrow> u32 \<Rightarrow> ('d, 'i, 'c, 's) PlayerInternal \<Rightarrow> Loader \<times> ('d, 'i, 'c, 's) PlayerInternal" where
  "load_track uri position_ms p =
     (\<lparr>loader_thread = threads_started p, loader_uri = uri, loader_position_ms = position_ms, is_terminated = False\<rparr>,
      p\<lparr>threads_started := Suc (threads_started p)\<rparr>)"

text \<open>Moves the decoder of a loaded track, unless it is at the position already.\<close>

definition seek_loaded ::
  "('d, 'c, 's) PlayerEnv \<Rightarrow> u32 \<Rightarrow> ('d, 'i, 'c) PlayerLoadedTrackData
   \<Rightarrow> (PlayerCause Error + unit) \<times> ('d, 'i, 'c) PlayerLoadedTrackData" where
  "seek_loaded E position_ms lt =
     (if position_ms \<noteq> stream_position_ms lt
      then case dec_seek E position_ms (decoder lt) of
             (Inr pos, d) \<Rightarrow> (Ok (), lt\<lparr>decoder := d, stream_position_ms := pos\<rparr>)
           | (Inl e, d) \<Rightarrow> (Err (aborted (DecoderCause e)), lt\<lparr>decoder := d\<rparr>)
      else (Ok (), lt))"

type_synonym ('d, 'i, 'c, 's) handled = "((PlayerCause Error + unit) \<times> ('d, 'i, 'c, 's) PlayerInternal) option"

definition handled_ok :: "('d, 'i, 'c, 's) PlayerInternal option \<Rightarrow> ('d, 'i, 'c, 's) handled" where
  "handled_ok r = map_option (Pair (Ok ())) r"

text \<open>The last part of \<open>handle_command_load\<close>: the track is loaded afresh, or by the loader that preloads it.\<close>

definition load_afresh ::
  "('d, 'c, 's) PlayerEnv \<Rightarrow> SpotifyUri \<Rightarrow> u64 \<Rightarrow> bool \<Rightarrow> u32
   \<Rightarrow> ('d, 'i, 'c, 's) PlayerInternal \<Rightarrow> ('d, 'i, 'c, 's) PlayerInternal" where
  "load_afresh E uri request_id play position_ms p =
     (let p = send_event E (EvLoading request_id uri position_ms) p;
          pending = (case preload p of
                       PreloadLoading preloading l \<Rightarrow> if uri = preloading \<and> position_ms = 0 then Some l else None
                     | _ \<Rightarrow> None);
          p = p\<lparr>preload := PreloadNone\<rparr>;
          (l, p) = (case pending of Some l \<Rightarrow> (l, p) | None \<Rightarrow> load_track uri position_ms p)
      in p\<lparr>state := StLoading uri request_id play l\<rparr>)"

text \<open>The request of a load: the one given, or a new one; the generator moves on in both cases.\<close>

definition load_request ::
  "('d, 'c, 's) PlayerEnv \<Rightarrow> u64 option \<Rightarrow> ('d, 'i, 'c, 's) PlayerInternal \<Rightarrow> u64 \<times> ('d, 'i, 'c, 's) PlayerInternal" where
  "load_request E request_id_option p =
     (let (fresh, gen) = seq_get (play_request_id_generator p);
          request_id = (case request_id_option of Some i \<Rightarrow> i | None \<Rightarrow> fresh)
      in (request_id, send_event E (EvPlayRequestIdChanged request_id) (p\<lparr>play_request_id_generator := gen\<rparr>)))"

text \<open>The track has been preloaded, or else it is loaded afresh.\<close>

definition load_preloaded ::
  "('d, 'c, 's) PlayerEnv \<Rightarrow> SpotifyUri \<Rightarrow> u64 \<Rightarrow> bool \<Rightarrow> u32
   \<Rightarrow> ('d, 'i, 'c, 's) PlayerInternal \<Rightarrow> ('d, 'i, 'c, 's) handled" where
  "load_preloaded E uri request_id play position_ms p =
     (case preload p of
        PreloadReady ready lt \<Rightarrow>
          if uri = ready
          then let p = p\<lparr>preload := PreloadNone\<rparr>; (r, lt) = seek_loaded E position_ms lt
               in case r of
                    Inl e \<Rightarrow> Some (Err e, p)
                  | Inr _ \<Rightarrow> handled_ok (start_playback E ready request_id lt play p)
          else Some (Ok (), load_afresh E uri request_id play position_ms p)
      | _ \<Rightarrow> Some (Ok (), load_afresh E uri request_id play position_ms p))"

text \<open>
  The track is the one at hand: a seek is enough. When it fails the state becomes \<open>failed\<close> of the
  track data; the state is invalid while playback starts.
\<close>

definition load_at_hand ::
  "('d, 'c, 's) PlayerEnv \<Rightarrow> SpotifyUri \<Rightarrow> u64 \<Rightarrow> bool \<Rightarrow> u32 \<Rightarrow> ('d, 'i, 'c) PlayerLoadedTrackData
   \<Rightarrow> (('d, 'i, 'c) PlayerLoadedTrackData \<Rightarrow> ('d, 'i, 'c) PlayerState)
   \<Rightarrow> ('d, 'i, 'c, 's) PlayerInternal \<Rightarrow> ('d, 'i, 'c, 's) handled" where
  "load_at_hand E uri request_id play position_ms lt failed p =
     (let (r, lt) = seek_loaded E position_ms lt
      in case r of
           Inl e \<Rightarrow> Some (Err e, p\<lparr>state := failed lt\<rparr>)
         | Inr _ \<Rightarrow> handled_ok (start_playback E uri request_id lt play (p\<lparr>state := StInvalid, preload := PreloadNone\<rparr>)))"

definition handle_command_load ::
  "('d, 'c, 's) PlayerEnv \<Rightarrow> SpotifyUri \<Rightarrow> u64 option \<Rightarrow> bool \<Rightarrow> u32
   \<Rightarrow> ('d, 'i, 'c, 's) PlayerInternal \<Rightarrow> ('d, 'i, 'c, 's) handled" where
  "handle_command_load E uri request_id_option play position_ms p =
     (let (request_id, p) = load_request E request_id_option p in do {
       p \<leftarrow> (if \<not> gapless (config p) then ensure_sink_stopped E play p else Some p);
       case state p of
         StInvalid \<Rightarrow> Some (Err (internal InvalidState), p)
       | StEndOfTrack previous i lt \<Rightarrow>
           if previous = uri then load_at_hand E uri request_id play position_ms lt (\<lambda>lt. StInvalid) p
           else load_preloaded E uri request_id play position_ms p
       | StPlaying a t \<Rightarrow>
           if track_id a = uri
           then load_at_hand E uri request_id play position_ms (loaded a) (\<lambda>lt. StPlaying (a\<lparr>loaded := lt\<rparr>) t) p
           else load_preloaded E uri request_id play position_ms p
       | StPaused a \<Rightarrow>
           if track_id a = uri
           then load_at_hand E uri request_id play position_ms (loaded a) (\<lambda>lt. StPaused (a\<lparr>loaded := lt\<rparr>)) p
           else load_preloaded E uri request_id play position_ms p
       | _ \<Rightarrow> load_preloaded E uri request_id play position_ms p
     })"

definition handle_command_preload :: "SpotifyUri \<Rightarrow> ('d, 'i, 'c, 's) PlayerInternal \<Rightarrow> ('d, 'i, 'c, 's) PlayerInternal" where
  "handle_command_preload uri p =
     (let preloading = (case preload p of
                          PreloadLoading u l \<Rightarrow> Some u
                        | PreloadReady u lt \<Rightarrow> Some u
                        | PreloadNone \<Rightarrow> None);
          p = (if preloading \<noteq> None \<and> preloading \<noteq> Some uri then p\<lparr>preload := PreloadNone\<rparr> else p);
          current = (case state p of
                       StPlaying a t \<Rightarrow> Some (track_id a)
                     | StPaused a \<Rightarrow> Some (track_id a)
                     | StEndOfTrack u i lt \<Rightarrow> Some u
                     | _ \<Rightarrow> None)
      in if preloading = Some uri \<or> current = Some uri then p
         else let (l, p) = load_track uri 0 p in p\<lparr>preload := PreloadLoading uri l\<rparr>)"

section \<open>Seeking\<close>

definition preload_data_before_playback ::
  "('d, 'c, 's) PlayerEnv \<Rightarrow> ('d, 'i, 'c, 's) PlayerInternal \<Rightarrow> (PlayerCause Error + unit) \<times> ('d, 'i, 'c, 's) PlayerInternal" where
  "preload_data_before_playback E p =
     (case state p of
        StPlaying a t \<Rightarrow>
          (let lt = loaded a;
               request_data_length = f32_as_usize (f32_mul (read_ahead_secs E) (f32_of_usize (bytes_per_second lt)));
               wait_for_data_length = f32_as_usize (f32_mul (read_ahead_secs E) (f32_of_usize (bytes_per_second lt)));
               (r, ctl) = fetch_and_wait E request_data_length wait_for_data_length (stream_loader_controller lt);
               p = p\<lparr>state := StPlaying (a\<lparr>loaded := lt\<lparr>stream_loader_controller := ctl\<rparr>\<rparr>) t\<rparr>
           in (case r of Inl k \<Rightarrow> Err (error_new k FetchCause) | Inr _ \<Rightarrow> Ok (), p))
      | _ \<Rightarrow> (Ok (), p))"

text \<open>A seek in a loaded track: the new track data, and the new position if there is one.\<close>

definition seek_active ::
  "('d, 'c, 's) PlayerEnv \<Rightarrow> u32 \<Rightarrow> ('d, 'i, 'c) ActiveTrack \<Rightarrow> ('d, 'i, 'c) ActiveTrack \<times> u32 option" where
  "seek_active E position_ms a =
     (case dec_seek E position_ms (decoder (loaded a)) of
        (Inr pos, d) \<Rightarrow> (a\<lparr>loaded := (loaded a)\<lparr>decoder := d, stream_position_ms := pos\<rparr>\<rparr>, Some pos)
      | (Inl e, d) \<Rightarrow> (a\<lparr>loaded := (loaded a)\<lparr>decoder := d\<rparr>\<rparr>, None))"

definition handle_command_seek ::
  "('d, 'c, 's) PlayerEnv \<Rightarrow> u32 \<Rightarrow> ('d, 'i, 'c, 's) PlayerInternal \<Rightarrow> ('d, 'i, 'c, 's) handled" where
  "handle_command_seek E position_ms p =
     (let seeked = (\<lambda>a pos p. case pos of
            None \<Rightarrow> p
          | Some pos \<Rightarrow> send_event E (EvSeeked (play_request_id a) (track_id a) pos) p);
          finish = (\<lambda>p. case preload_data_before_playback E p of
            (Inl e, p) \<Rightarrow> Some (Err e, p)
          | (Inr _, p) \<Rightarrow>
              Some (Ok (), case state p of StPlaying a t \<Rightarrow> p\<lparr>state := StPlaying a (nominal_start E position_ms)\<rparr> | _ \<Rightarrow> p))
      in case state p of
           StLoading uri request_id play l \<Rightarrow> handle_command_load E uri (Some request_id) play position_ms p
         | StPlaying a t \<Rightarrow> (let (a', pos) = seek_active E position_ms a in finish (seeked a pos (p\<lparr>state := StPlaying a' t\<rparr>)))
         | StPaused a \<Rightarrow> (let (a', pos) = seek_active E position_ms a in finish (seeked a pos (p\<lparr>state := StPaused a'\<rparr>)))
         | StInvalid \<Rightarrow> None
         | _ \<Rightarrow> finish p)"

section \<open>Commands\<close>

text \<open>A change of the filter: the explicit track that is loaded is reported as ended.\<close>

definition emit_filter_explicit ::
  "('d, 'c, 's) PlayerEnv \<Rightarrow> bool \<Rightarrow> ('d, 'i, 'c, 's) PlayerInternal \<Rightarrow> ('d, 'i, 'c, 's) PlayerInternal" where
  "emit_filter_explicit E filtered p =
     (let p = send_event E (EvFilterExplicitContentChanged filtered) p;
          skip = (\<lambda>a. if is_explicit (loaded a) then send_event E (EvEndOfTrack (play_request_id a) (track_id a)) p else p)
      in if filtered then case state p of StPlaying a t \<Rightarrow> skip a | StPaused a \<Rightarrow> skip a | _ \<Rightarrow> p else p)"

fun handle_command ::
  "('d, 'c, 's) PlayerEnv \<Rightarrow> PlayerCommand \<Rightarrow> ('d, 'i, 'c, 's) PlayerInternal \<Rightarrow> ('d, 'i, 'c, 's) handled" where
  "handle_command E (CmdLoad uri play position_ms) p = handle_command_load E uri None play position_ms p"
| "handle_command E (CmdPreload uri) p = Some (Ok (), handle_command_preload uri p)"
| "handle_command E (CmdSeek position_ms) p = handle_command_seek E position_ms p"
| "handle_command E CmdPlay p = handled_ok (handle_play E p)"
| "handle_command E CmdPause p = handled_ok (handle_pause E p)"
| "handle_command E CmdStop p = handled_ok (handle_player_stop E p)"
| "handle_command E (CmdSetSession session) p = Some (Ok (), p\<lparr>player_session := session\<rparr>)"
| "handle_command E (CmdAddEventSender sender) p = Some (Ok (), p\<lparr>event_senders := event_senders p @ [sender]\<rparr>)"
| "handle_command E (CmdSetSinkEventCallback callback) p = Some (Ok (), p\<lparr>sink_event_callback := callback\<rparr>)"
| "handle_command E (CmdEmitVolumeChangedEvent v) p = Some (Ok (), send_event E (EvVolumeChanged v) p)"
| "handle_command E (CmdEmitRepeatChangedEvent context track) p = Some (Ok (), send_event E (EvRepeatChanged context track) p)"
| "handle_command E (CmdEmitShuffleChangedEvent shuffle) p = Some (Ok (), send_event E (EvShuffleChanged shuffle) p)"
| "handle_command E (CmdEmitAutoPlayChangedEvent auto_play) p = Some (Ok (), send_event E (EvAutoPlayChanged auto_play) p)"
| "handle_command E (CmdEmitSessionClientChangedEvent i n b m) p = Some (Ok (), send_event E (EvSessionClientChanged i n b m) p)"
| "handle_command E (CmdEmitSessionConnectedEvent c u) p = Some (Ok (), send_event E (EvSessionConnected c u) p)"
| "handle_command E (CmdEmitSessionDisconnectedEvent c u) p = Some (Ok (), send_event E (EvSessionDisconnected c u) p)"
| "handle_command E (CmdSetAutoNormaliseAsAlbum setting) p = Some (Ok (), p\<lparr>auto_normalise_as_album := setting\<rparr>)"
| "handle_command E (CmdEmitSetQueueEvent c t ns ps) p = Some (Ok (), send_event E (EvSetQueue c t ns ps) p)"
| "handle_command E (CmdEmitFilterExplicitContentChangedEvent filtered) p = Some (Ok (), emit_filter_explicit E filtered p)"

section \<open>The loop\<close>

datatype 'a Polled = PollPending | PollReady 'a

text \<open>What a round of the loop finds: the command channel, and the results of loaders.\<close>

record ('d, 'i, 'c) PollInput =
  poll_command :: "PlayerCommand option Polled"
  poll_loader :: "Loader \<Rightarrow> (unit + ('d, 'i, 'c) PlayerLoadedTrackData) Polled"

definition poll_loading ::
  "('d, 'c, 's) PlayerEnv \<Rightarrow> ('d, 'i, 'c) PollInput \<Rightarrow> ('d, 'i, 'c, 's) PlayerInternal \<Rightarrow> ('d, 'i, 'c, 's) PlayerInternal option" where
  "poll_loading E inp p =
     (case state p of
        StLoading uri request_id play l \<Rightarrow>
          if is_terminated l then Some p
          else (case poll_loader inp l of
                  PollReady (Inr loaded_track) \<Rightarrow> do {
                    p \<leftarrow> start_playback E uri request_id loaded_track play p;
                    case state p of StLoading _ _ _ _ \<Rightarrow> None | _ \<Rightarrow> Some p
                  }
                | PollReady (Inl _) \<Rightarrow>
                    Some (send_event E (EvUnavailable request_id uri)
                            (p\<lparr>state := StLoading uri request_id play (l\<lparr>is_terminated := True\<rparr>)\<rparr>))
                | PollPending \<Rightarrow> Some p)
      | _ \<Rightarrow> Some p)"

definition poll_preloading ::
  "('d, 'c, 's) PlayerEnv \<Rightarrow> ('d, 'i, 'c) PollInput \<Rightarrow> ('d, 'i, 'c, 's) PlayerInternal \<Rightarrow> ('d, 'i, 'c, 's) PlayerInternal" where
  "poll_preloading E inp p =
     (case preload p of
        PreloadLoading uri l \<Rightarrow>
          (case poll_loader inp l of
             PollReady (Inr loaded_track) \<Rightarrow> (send_event E (EvPreloading uri) p)\<lparr>preload := PreloadReady uri loaded_track\<rparr>
           | PollReady (Inl _) \<Rightarrow>
               (let p = p\<lparr>preload := PreloadNone\<rparr>
                in case state p of
                     StPlaying a t \<Rightarrow> send_event E (EvUnavailable (play_request_id a) uri) p
                   | StPaused a \<Rightarrow> send_event E (EvUnavailable (play_request_id a) uri) p
                   | _ \<Rightarrow> p)
           | PollPending \<Rightarrow> p)
      | _ \<Rightarrow> p)"

text \<open>Whether the position is reported: packets were skipped, or playback is behind, by a second.\<close>

definition notify_about_position :: "('d, 'c, 's) PlayerEnv \<Rightarrow> int option \<Rightarrow> bool \<Rightarrow> u32 \<Rightarrow> u32 \<Rightarrow> bool" where
  "notify_about_position E start was_skipped expected_ms new_ms =
     (case start of
        None \<Rightarrow> True
      | Some start \<Rightarrow>
          (was_skipped \<and> unat expected_ms \<le> unat new_ms \<and> 1000 \<le> unat new_ms - unat expected_ms) \<or>
          (start \<le> instant_now E \<and> int (unat new_ms) * 1000000 \<le> instant_now E - start \<and>
           1000000000 \<le> instant_now E - start - int (unat new_ms) * 1000000))"

text \<open>The report of a position after a packet with samples.\<close>

definition report_position ::
  "('d, 'c, 's) PlayerEnv \<Rightarrow> bool \<Rightarrow> u32 \<Rightarrow> u32 \<Rightarrow> ('d, 'i, 'c) ActiveTrack \<Rightarrow> int option
   \<Rightarrow> ('d, 'i, 'c, 's) PlayerInternal \<Rightarrow> ('d, 'i, 'c, 's) PlayerInternal" where
  "report_position E was_skipped expected_ms new_ms a start p =
     (let p = (if notify_about_position E start was_skipped expected_ms new_ms
               then send_event E (EvPositionCorrection (play_request_id a) (track_id a) new_ms)
                      (p\<lparr>state := StPlaying a (nominal_start E new_ms)\<rparr>)
               else p)
      in case position_update_interval (config p) of
           None \<Rightarrow> p
         | Some interval \<Rightarrow>
             if int interval < max 0 (instant_now E - last_progress_update p)
             then send_event E (EvPositionChanged (play_request_id a) (track_id a) new_ms)
                    (p\<lparr>last_progress_update := instant_now E\<rparr>)
             else p)"

definition poll_playing ::
  "('d, 'c, 's) PlayerEnv \<Rightarrow> ('d, 'i, 'c, 's) PlayerInternal \<Rightarrow> ('d, 'i, 'c, 's) PlayerInternal option" where
  "poll_playing E p = do {
     playing \<leftarrow> is_playing (state p);
     if \<not> playing then Some p
     else do {
       p \<leftarrow> ensure_sink_running E p;
       case state p of
         StPlaying a start \<Rightarrow>
           (case dec_next_packet E (decoder (loaded a)) of
              (Inl e, d) \<Rightarrow>
                Some (send_event E (EvEndOfTrack (play_request_id a) (track_id a))
                        (p\<lparr>state := StPlaying (a\<lparr>loaded := (loaded a)\<lparr>decoder := d\<rparr>\<rparr>) start\<rparr>))
            | (Inr None, d) \<Rightarrow>
                handle_packet E None (normalisation_factor a)
                  (p\<lparr>state := StPlaying (a\<lparr>loaded := (loaded a)\<lparr>decoder := d\<rparr>\<rparr>) start\<rparr>)
            | (Inr (Some (pos, packet)), d) \<Rightarrow>
                (let new_ms = packet_position_ms pos;
                     expected_ms = stream_position_ms (loaded a);
                     a = a\<lparr>loaded := (loaded a)\<lparr>decoder := d, stream_position_ms := new_ms\<rparr>\<rparr>;
                     p = p\<lparr>state := StPlaying a start\<rparr>;
                     p = (if passthrough (config p) then p
                          else case packet_samples packet of
                                 Some _ \<Rightarrow> report_position E (skipped pos) expected_ms new_ms a start p
                               | None \<Rightarrow> send_event E (EvEndOfTrack (play_request_id a) (track_id a)) p)
                 in handle_packet E (Some (pos, packet)) (normalisation_factor a) p))
       | _ \<Rightarrow> None
     }
   }"

definition PRELOAD_NEXT_TRACK_BEFORE_END_DURATION_MS :: nat where
  "PRELOAD_NEXT_TRACK_BEFORE_END_DURATION_MS = 30000"

definition time_to_preload :: "('d, 'c, 's) PlayerEnv \<Rightarrow> ('d, 'i, 'c) ActiveTrack \<Rightarrow> bool" where
  "time_to_preload E a \<longleftrightarrow>
     \<not> suggested_to_preload_next_track a \<and>
     int (unat (duration_ms (loaded a))) - int (unat (stream_position_ms (loaded a)))
       < int PRELOAD_NEXT_TRACK_BEFORE_END_DURATION_MS \<and>
     to_end_available E (stream_loader_controller (loaded a))"

definition poll_suggest ::
  "('d, 'c, 's) PlayerEnv \<Rightarrow> ('d, 'i, 'c, 's) PlayerInternal \<Rightarrow> ('d, 'i, 'c, 's) PlayerInternal" where
  "poll_suggest E p =
     (let suggest = (\<lambda>a st. if time_to_preload E a
            then send_event E (EvTimeToPreloadNextTrack (play_request_id a) (track_id a))
                   (p\<lparr>state := st (a\<lparr>suggested_to_preload_next_track := True\<rparr>)\<rparr>)
            else p)
      in case state p of
           StPlaying a t \<Rightarrow> suggest a (\<lambda>a. StPlaying a t)
         | StPaused a \<Rightarrow> suggest a StPaused
         | _ \<Rightarrow> p)"

datatype PollOutcome = PollDone | PollWait | PollAgain

text \<open>One round of the loop in \<open>poll\<close>, with the way it ends. An error of a command is only logged.\<close>

definition poll_round ::
  "('d, 'c, 's) PlayerEnv \<Rightarrow> ('d, 'i, 'c) PollInput \<Rightarrow> ('d, 'i, 'c, 's) PlayerInternal
   \<Rightarrow> (PollOutcome \<times> ('d, 'i, 'c, 's) PlayerInternal) option" where
  "poll_round E inp p =
     (let rest = (\<lambda>not_ready p. do {
            p \<leftarrow> poll_loading E inp p;
            p \<leftarrow> poll_playing E (poll_preloading E inp p);
            let p = poll_suggest E p;
            playing \<leftarrow> is_playing (state p);
            Some (if \<not> playing \<and> not_ready then PollWait else PollAgain, p)
          })
      in case poll_command inp of
           PollReady None \<Rightarrow> Some (PollDone, p)
         | PollReady (Some cmd) \<Rightarrow> do {
             (_, p) \<leftarrow> handle_command E cmd p;
             rest False p
           }
         | PollPending \<Rightarrow> rest True p)"

text \<open>The thread: rounds until the commands end; \<open>None\<close> if the process exits.\<close>

fun poll_rounds ::
  "(('d, 'c, 's) PlayerEnv \<times> ('d, 'i, 'c) PollInput) list \<Rightarrow> ('d, 'i, 'c, 's) PlayerInternal
   \<Rightarrow> ('d, 'i, 'c, 's) PlayerInternal option" where
  "poll_rounds [] p = Some p"
| "poll_rounds ((E, inp) # rounds) p =
     (case poll_round E inp p of
        None \<Rightarrow> None
      | Some (PollDone, p) \<Rightarrow> Some p
      | Some (_, p) \<Rightarrow> poll_rounds rounds p)"

end
