(* ===== verification/Player_Steps.thy ===== *)
theory Player_Steps
  imports Player
begin

text \<open>
  What the player thread guarantees: the sink of a player that is paused or stopped is closed; the
  process does not exit and every event belongs to the latest request, as long as seeks succeed and
  the sink starts and stops; and what happens when they fail.
\<close>

section \<open>Fields that operations keep\<close>

lemma send_event_fields [simp]:
  "state (send_event E e p) = state p" "sink_status (send_event E e p) = sink_status p"
  "sink (send_event E e p) = sink p" "preload (send_event E e p) = preload p" "config (send_event E e p) = config p"
  "play_request_id_generator (send_event E e p) = play_request_id_generator p"
  "sink_event_callback (send_event E e p) = sink_event_callback p"
  "auto_normalise_as_album (send_event E e p) = auto_normalise_as_album p"
  "threads_started (send_event E e p) = threads_started p"
  "map snd (sent (send_event E e p)) = map snd (sent p) @ [e]"
  by (simp_all add: send_event_def Let_def)

lemma call_back_fields [simp]:
  "state (call_back s p) = state p" "sink_status (call_back s p) = sink_status p" "sink (call_back s p) = sink p"
  "preload (call_back s p) = preload p" "config (call_back s p) = config p" "sent (call_back s p) = sent p"
  "play_request_id_generator (call_back s p) = play_request_id_generator p"
  by (simp_all add: call_back_def)

lemma ensure_sink_stopped_fields:
  assumes "ensure_sink_stopped E temporarily p = Some p'"
  shows "state p' = state p" "sent p' = sent p" "preload p' = preload p" "config p' = config p"
    "\<not> temporarily \<longrightarrow> sink_status p' = SinkClosed" "sink_status p = SinkClosed \<longrightarrow> sink_status p' = SinkClosed"
  using assms by (auto simp: ensure_sink_stopped_def Let_def split_beta split: SinkStatus.splits if_splits)

text \<open>A pause without a failure of the sink.\<close>

lemma handle_pause_cases:
  assumes "handle_pause E p = Some p'"
  obtains (active) a where "state p' = StPaused a" "sink_status p' = SinkClosed"
      "state p = StPaused a \<or> (\<exists>t. state p = StPlaying a t)"
  | (load) uri i s l where "state p = StLoading uri i s l" "state p' = StLoading uri i False l"
  | (same) "p' = p" "\<And>a. state p \<noteq> StPaused a" "\<And>a t. state p \<noteq> StPlaying a t"
proof (cases "state p")
  case (StPaused a)
  then have "state p' = StPaused a" "sink_status p' = SinkClosed"
    using assms ensure_sink_stopped_fields [of E False p p'] by (simp_all add: handle_pause_def)
  then show ?thesis using active StPaused by blast
next
  case (StPlaying a t)
  then obtain q where q: "ensure_sink_stopped E False (p\<lparr>state := StPaused a\<rparr>) = Some q"
    and p': "p' = send_event E (EvPaused (play_request_id a) (track_id a) (stream_position_ms (loaded a))) q"
    using assms by (auto simp: handle_pause_def split: bind_splits)
  have "state p' = StPaused a" "sink_status p' = SinkClosed" using ensure_sink_stopped_fields [OF q] by (simp_all add: p')
  then show ?thesis using active StPlaying by blast
next
  case (StLoading uri i s l)
  then have "state p' = StLoading uri i False l" using assms by (auto simp: handle_pause_def)
  with StLoading show ?thesis by (rule load)
qed (use assms same in \<open>auto simp: handle_pause_def\<close>)

section \<open>The sink is closed while nothing plays\<close>

fun idle :: "('d, 'i, 'c) PlayerState \<Rightarrow> bool" where
  "idle (StPaused a) \<longleftrightarrow> True"
| "idle StStopped \<longleftrightarrow> True"
| "idle _ \<longleftrightarrow> False"

definition sink_quiet :: "('d, 'i, 'c, 's) PlayerInternal \<Rightarrow> bool" where
  "sink_quiet p \<longleftrightarrow> (idle (state p) \<longrightarrow> sink_status p = SinkClosed)"

lemma sink_quiet_cong: "sink_quiet p \<Longrightarrow> state p' = state p \<Longrightarrow> sink_status p' = sink_status p \<Longrightarrow> sink_quiet p'"
  by (simp add: sink_quiet_def)

lemma sink_quiet_send [simp]: "sink_quiet (send_event E e p) = sink_quiet p"
  by (simp add: sink_quiet_def)

lemma handle_pause_quiet: "handle_pause E p = Some p' \<Longrightarrow> sink_quiet p \<Longrightarrow> sink_quiet p'"
  by (erule handle_pause_cases) (simp_all add: sink_quiet_def)

lemma ensure_sink_running_cases:
  assumes "ensure_sink_running E p = Some p'"
  obtains (runs) "state p' = state p" "sent p' = sent p" "sink_status p' = SinkRunning"
  | (fails) q where "\<not> fst (start_sink E (sink p))" "state q = state p" "handle_pause E q = Some p'" "sink_status q = sink_status p"
proof (cases "sink_status p \<noteq> SinkRunning \<and> \<not> fst (start_sink E (sink p))")
  case True
  let ?q = "call_back SinkRunning p\<lparr>sink := snd (start_sink E (sink p))\<rparr>"
  have "handle_pause E ?q = Some p'" using assms True by (simp add: ensure_sink_running_def Let_def split_beta)
  then show ?thesis using fails [of ?q] True by simp
next
  case False
  then show ?thesis using assms runs by (auto simp: ensure_sink_running_def Let_def split_beta split: if_splits)
qed

lemma ensure_sink_running_quiet:
  assumes "ensure_sink_running E p = Some p'" "state p = StPlaying a t"
  shows "sink_quiet p'"
  using assms(1)
proof (cases rule: ensure_sink_running_cases)
  case runs
  then show ?thesis using assms(2) by (simp add: sink_quiet_def)
next
  case (fails q)
  have "sink_quiet q" using fails(2) assms(2) by (simp add: sink_quiet_def)
  then show ?thesis using handle_pause_quiet [OF fails(3)] by simp
qed

lemma handle_play_quiet: "handle_play E p = Some p' \<Longrightarrow> sink_quiet p \<Longrightarrow> sink_quiet p'"
  by (auto simp: handle_play_def sink_quiet_def [of "p\<lparr>state := _\<rparr>"] split: PlayerState.splits
      intro: ensure_sink_running_quiet)

lemma handle_player_stop_quiet:
  assumes "handle_player_stop E p = Some p'" "sink_quiet p"
  shows "sink_quiet p'"
proof -
  have stop: "sink_quiet (send_event E e q\<lparr>state := StStopped\<rparr>)" if "ensure_sink_stopped E False p = Some q" for q e
    using ensure_sink_stopped_fields(5) [OF that] by (simp add: sink_quiet_def)
  show ?thesis
    using assms stop by (auto simp: handle_player_stop_def Let_def split: PlayerState.splits bind_splits)
qed

lemma start_playback_quiet:
  assumes "start_playback E uri i lt play p = Some p'"
  shows "sink_quiet p'"
  using assms ensure_sink_stopped_fields(5)
  by (fastforce simp: start_playback_def Let_def sink_quiet_def split: if_splits bind_splits)

lemma load_afresh_quiet: "sink_quiet (load_afresh E uri i play pos p)"
  by (simp add: load_afresh_def Let_def split_beta sink_quiet_def)

lemma load_request_fields:
  assumes "load_request E r p = (i, q)"
  shows "state q = state p" "sink_status q = sink_status p" "preload q = preload p" "config q = config p"
    "sink q = sink p" "map snd (sent q) = map snd (sent p) @ [EvPlayRequestIdChanged i]"
  using assms by (auto simp: load_request_def Let_def split_beta)

lemma load_preloaded_quiet:
  assumes "load_preloaded E uri i play pos p = Some (r, p')" "sink_quiet p"
  shows "sink_quiet p'"
  using assms
  by (auto simp: load_preloaded_def handled_ok_def Let_def split_beta load_afresh_quiet
      split: PlayerPreload.splits if_splits sum.splits intro: start_playback_quiet sink_quiet_cong)

lemma load_at_hand_quiet:
  assumes "load_at_hand E uri i play pos lt failed p = Some (r, p')" "\<And>lt. sink_quiet (p\<lparr>state := failed lt\<rparr>)"
  shows "sink_quiet p'"
  using assms
  by (auto simp: load_at_hand_def handled_ok_def Let_def split_beta split: sum.splits intro: start_playback_quiet)

lemma handle_command_load_quiet:
  assumes "handle_command_load E uri ro play pos p = Some (r, p')" "sink_quiet p"
  shows "sink_quiet p'"
proof -
  obtain i q where q: "load_request E ro p = (i, q)" by (metis surj_pair)
  have "sink_quiet q" using load_request_fields [OF q] assms(2) by (simp add: sink_quiet_def)
  obtain q' where q': "(if \<not> gapless (config q) then ensure_sink_stopped E play q else Some q) = Some q'"
    using assms(1) q by (cases "if \<not> gapless (config q) then ensure_sink_stopped E play q else Some q")
      (auto simp: handle_command_load_def)
  then have quiet: "sink_quiet q'"
    using \<open>sink_quiet q\<close> ensure_sink_stopped_fields [of E play q q'] by (auto simp: sink_quiet_def split: if_splits)
  have load: "(case state q' of
      StInvalid \<Rightarrow> Some (Err (internal InvalidState), q')
    | StEndOfTrack previous j lt \<Rightarrow>
        if previous = uri then load_at_hand E uri i play pos lt (\<lambda>lt. StInvalid) q' else load_preloaded E uri i play pos q'
    | StPlaying a t \<Rightarrow>
        if track_id a = uri then load_at_hand E uri i play pos (loaded a) (\<lambda>lt. StPlaying (a\<lparr>loaded := lt\<rparr>) t) q'
        else load_preloaded E uri i play pos q'
    | StPaused a \<Rightarrow>
        if track_id a = uri then load_at_hand E uri i play pos (loaded a) (\<lambda>lt. StPaused (a\<lparr>loaded := lt\<rparr>)) q'
        else load_preloaded E uri i play pos q'
    | _ \<Rightarrow> load_preloaded E uri i play pos q') = Some (r, p')"
    using assms(1) q q' by (simp add: handle_command_load_def)
  have preloaded: "load_preloaded E uri i play pos q' = Some (r, p') \<Longrightarrow> sink_quiet p'"
    using load_preloaded_quiet quiet by blast
  show ?thesis
  proof (cases "state q'")
    case (StEndOfTrack u j lt)
    then show ?thesis using load preloaded by (auto simp: sink_quiet_def split: if_splits dest!: load_at_hand_quiet)
  next
    case (StPlaying a t)
    then show ?thesis using load preloaded by (auto simp: sink_quiet_def split: if_splits dest!: load_at_hand_quiet)
  next
    case (StPaused a)
    then have "sink_quiet (q'\<lparr>state := StPaused (a\<lparr>loaded := lt\<rparr>)\<rparr>)" for lt using quiet by (simp add: sink_quiet_def)
    then have "load_at_hand E uri i play pos (loaded a) (\<lambda>lt. StPaused (a\<lparr>loaded := lt\<rparr>)) q' = Some (r, p') \<Longrightarrow> sink_quiet p'"
      by (rule load_at_hand_quiet [rotated])
    then show ?thesis using load preloaded StPaused by (auto split: if_splits)
  qed (use load preloaded quiet in auto)
qed

lemma handle_command_seek_quiet:
  assumes "handle_command_seek E pos p = Some (r, p')" "sink_quiet p"
  shows "sink_quiet p'"
  using assms
  by (cases "state p") (auto simp: handle_command_seek_def preload_data_before_playback_def seek_active_def sink_quiet_def Let_def
      split_beta split: sum.splits option.splits prod.splits dest: handle_command_load_quiet)

lemma handle_command_preload_fields [simp]:
  "state (handle_command_preload uri p) = state p" "sink_status (handle_command_preload uri p) = sink_status p"
  "sent (handle_command_preload uri p) = sent p"
  by (simp_all add: handle_command_preload_def load_track_def Let_def)

lemma emit_filter_explicit_fields [simp]:
  "state (emit_filter_explicit E b p) = state p" "sink_status (emit_filter_explicit E b p) = sink_status p"
  by (simp_all add: emit_filter_explicit_def Let_def split: PlayerState.splits)

lemma handle_command_quiet:
  assumes "handle_command E cmd p = Some (r, p')" "sink_quiet p"
  shows "sink_quiet p'"
  using assms
  by (cases cmd) (auto simp: handled_ok_def intro: handle_play_quiet handle_pause_quiet handle_player_stop_quiet
      handle_command_load_quiet handle_command_seek_quiet sink_quiet_cong)

lemma poll_loading_quiet:
  assumes "poll_loading E inp p = Some p'" "sink_quiet p"
  shows "sink_quiet p'"
proof (cases "state p")
  case (StLoading uri i play l)
  then show ?thesis
    using assms start_playback_quiet
    by (fastforce simp: poll_loading_def sink_quiet_def split: if_splits Polled.splits sum.splits bind_splits PlayerState.splits)
qed (use assms in \<open>auto simp: poll_loading_def\<close>)

lemma poll_preloading_fields [simp]:
  "state (poll_preloading E inp p) = state p" "sink_status (poll_preloading E inp p) = sink_status p"
  by (simp_all add: poll_preloading_def Let_def split: PlayerPreload.splits Polled.splits sum.splits PlayerState.splits)

lemma report_position_fields:
  "state p = StPlaying a t \<Longrightarrow> \<exists>t'. state (report_position E sk x y a t p) = StPlaying a t'"
  "sink_status (report_position E sk x y a t p) = sink_status p"
  by (simp_all add: report_position_def Let_def split: option.splits)

lemma sink_quiet_playing: "state p = StPlaying a t \<Longrightarrow> sink_quiet p"
  by (simp add: sink_quiet_def)

lemma handle_pause_playing: "handle_pause E p = Some p' \<Longrightarrow> (\<exists>a t. state p = StPlaying a t) \<longrightarrow> sink_quiet p'"
  using handle_pause_quiet sink_quiet_playing by blast

lemma handle_packet_quiet:
  assumes "handle_packet E packet f p = Some p'" "state p = StPlaying a t"
  shows "sink_quiet p'"
proof (cases packet)
  case None
  then show ?thesis using assms by (auto simp: handle_packet_def sink_quiet_def)
next
  case (Some x)
  then show ?thesis using assms
    by (cases x; cases "snd x")
       (auto simp: handle_packet_def Let_def split_beta packet_is_empty_def split: if_splits
             intro: sink_quiet_playing dest!: handle_pause_playing)
qed

lemma poll_playing_quiet:
  assumes "poll_playing E p = Some p'" "sink_quiet p"
  shows "sink_quiet p'"
proof (cases "state p")
  case (StPlaying a t)
  then obtain q where q: "ensure_sink_running E p = Some q"
    using assms(1) by (auto simp: poll_playing_def split: bind_splits)
  with assms(1) StPlaying obtain b u where b: "state q = StPlaying b u"
    by (auto simp: poll_playing_def split: PlayerState.splits)
  show ?thesis
  proof (cases "dec_next_packet E (decoder (loaded b))")
    case (Pair res d)
    consider (err) e where "res = Inl e" | (none) "res = Inr None" | (packet) pos pk where "res = Inr (Some (pos, pk))"
      by (metis surj_pair not_None_eq sumE)
    then show ?thesis
    proof cases
      case err
      then show ?thesis using assms(1) StPlaying q b Pair by (auto simp: poll_playing_def sink_quiet_def)
    next
      case none
      then show ?thesis using assms(1) StPlaying q b Pair by (auto simp: poll_playing_def intro: handle_packet_quiet)
    next
      case packet
      define b' where "b' = b\<lparr>loaded := (loaded b)\<lparr>decoder := d, stream_position_ms := packet_position_ms pos\<rparr>\<rparr>"
      define q' where "q' = (if passthrough (config q) then q\<lparr>state := StPlaying b' u\<rparr>
        else case packet_samples pk of
               Some _ \<Rightarrow> report_position E (skipped pos) (stream_position_ms (loaded b)) (packet_position_ms pos) b' u (q\<lparr>state := StPlaying b' u\<rparr>)
             | None \<Rightarrow> send_event E (EvEndOfTrack (play_request_id b') (track_id b')) (q\<lparr>state := StPlaying b' u\<rparr>))"
      have "\<exists>u'. state q' = StPlaying b' u'"
        using report_position_fields(1) [of "q\<lparr>state := StPlaying b' u\<rparr>" b' u] by (auto simp: q'_def split: option.splits)
      moreover have "handle_packet E (Some (pos, pk)) (normalisation_factor b') q' = Some p'"
        using assms(1) StPlaying q b Pair packet by (simp add: poll_playing_def q'_def b'_def Let_def cong: if_cong option.case_cong)
      ultimately show ?thesis using handle_packet_quiet by blast
    qed
  qed
qed (use assms in \<open>auto simp: poll_playing_def\<close>)

lemma poll_suggest_fields [simp]:
  "idle (state (poll_suggest E p)) = idle (state p)" "sink_status (poll_suggest E p) = sink_status p"
  by (simp_all add: poll_suggest_def Let_def split: PlayerState.splits)

lemma poll_round_quiet:
  assumes "poll_round E inp p = Some (r, p')" "sink_quiet p"
  shows "sink_quiet p'"
proof -
  have rest: "sink_quiet p'" if "poll_loading E inp q = Some q1" "poll_playing E (poll_preloading E inp q1) = Some q2"
    "p' = poll_suggest E q2" "sink_quiet q" for q q1 q2
  proof -
    have "sink_quiet (poll_preloading E inp q1)" using poll_loading_quiet [OF that(1,4)] by (simp add: sink_quiet_def)
    then have "sink_quiet q2" by (rule poll_playing_quiet [OF that(2)])
    then show ?thesis by (simp add: that(3) sink_quiet_def)
  qed
  show ?thesis
    using assms rest handle_command_quiet
    by (fastforce simp: poll_round_def Let_def split: Polled.splits option.splits bind_splits)
qed

inductive player_step :: "('d, 'i, 'c, 's) PlayerInternal \<Rightarrow> ('d, 'i, 'c, 's) PlayerInternal \<Rightarrow> bool" where
  "poll_round E inp p = Some (r, p') \<Longrightarrow> player_step p p'"

definition player_init :: "('d, 'i, 'c, 's) PlayerInternal \<Rightarrow> bool" where
  "player_init p \<longleftrightarrow> (\<exists>session cfg snk knee t. p = player_new session cfg snk knee t)"

interpretation sink_idle: invariant_system player_init player_step sink_quiet
  by unfold_locales (auto simp: player_init_def player_new_def sink_quiet_def elim!: player_step.cases dest: poll_round_quiet)

section \<open>Events belong to the latest request\<close>

fun last_announced :: "u64 option \<Rightarrow> 'i PlayerEvent list \<Rightarrow> u64 option" where
  "last_announced i [] = i"
| "last_announced i (EvPlayRequestIdChanged j # es) = last_announced (Some j) es"
| "last_announced i (e # es) = last_announced i es"

text \<open>Every event that has a request has the one that was announced last.\<close>

fun events_current :: "u64 option \<Rightarrow> 'i PlayerEvent list \<Rightarrow> bool" where
  "events_current i [] \<longleftrightarrow> True"
| "events_current i (e # es) \<longleftrightarrow>
     (get_play_request_id e = None \<or> get_play_request_id e = i) \<and> events_current (last_announced i [e]) es"

lemma last_announced_append: "last_announced i (es @ es') = last_announced (last_announced i es) es'"
  by (induction i es rule: last_announced.induct) auto

lemma last_announced_Cons: "last_announced i (e # es) = last_announced (last_announced i [e]) es"
  using last_announced_append [of i "[e]" es] by simp

lemma events_current_append: "events_current i (es @ es') \<longleftrightarrow> events_current i es \<and> events_current (last_announced i es) es'"
  by (induction i es rule: events_current.induct) (auto simp: last_announced_Cons [of _ _ "_ # _"] last_announced_Cons [symmetric])

definition events :: "('d, 'i, 'c, 's) PlayerInternal \<Rightarrow> 'i PlayerEvent list" where
  "events p = map snd (sent p)"

text \<open>The events are current and the last announced request is \<open>i\<close>.\<close>

definition current :: "u64 option \<Rightarrow> ('d, 'i, 'c, 's) PlayerInternal \<Rightarrow> bool" where
  "current i p \<longleftrightarrow> events_current None (events p) \<and> last_announced None (events p) = i"

lemma current_send:
  assumes "current i p" "get_play_request_id e = None \<or> get_play_request_id e = i" "last_announced i [e] = i"
  shows "current i (send_event E e p)"
  using assms by (simp add: current_def events_def events_current_append last_announced_append)

lemma current_announce: "current i p \<Longrightarrow> current (Some j) (send_event E (EvPlayRequestIdChanged j) p)"
  by (simp add: current_def events_def events_current_append last_announced_append)

lemma current_cong: "sent p' = sent p \<Longrightarrow> current i p' = current i p"
  by (simp add: current_def events_def)

fun state_request :: "('d, 'i, 'c) PlayerState \<Rightarrow> u64 option" where
  "state_request (StLoading uri i s l) = Some i"
| "state_request (StPaused a) = Some (play_request_id a)"
| "state_request (StPlaying a t) = Some (play_request_id a)"
| "state_request (StEndOfTrack uri i lt) = Some i"
| "state_request _ = None"

text \<open>An environment in which seeks succeed and the sink starts and stops.\<close>

definition calm_env :: "('d, 'c, 's) PlayerEnv \<Rightarrow> bool" where
  "calm_env E \<longleftrightarrow> (\<forall>pos d. \<exists>x d'. dec_seek E pos d = (Inr x, d')) \<and>
     (\<forall>s. fst (start_sink E s)) \<and> (\<forall>s. fst (stop_sink E s))"

definition player_ok :: "('d, 'i, 'c, 's) PlayerInternal \<Rightarrow> bool" where
  "player_ok p \<longleftrightarrow> state p \<noteq> StInvalid \<and> (\<exists>i. current i p \<and> (state_request (state p) = None \<or> state_request (state p) = i))"

lemma player_okI:
  "current i p \<Longrightarrow> state p \<noteq> StInvalid \<Longrightarrow> state_request (state p) = None \<or> state_request (state p) = i \<Longrightarrow> player_ok p"
  by (auto simp: player_ok_def)

lemma player_okE:
  assumes "player_ok p"
  obtains i where "current i p" "state p \<noteq> StInvalid" "state_request (state p) = None \<or> state_request (state p) = i"
  using assms by (auto simp: player_ok_def)

lemma calm_stop:
  assumes "calm_env E"
  obtains p' where "ensure_sink_stopped E b p = Some p'" "state p' = state p" "sent p' = sent p" "preload p' = preload p" "config p' = config p"
proof -
  have "ensure_sink_stopped E b p \<noteq> None"
    using assms by (cases "sink_status p") (auto simp: ensure_sink_stopped_def calm_env_def Let_def split_beta)
  then obtain p' where "ensure_sink_stopped E b p = Some p'" by blast
  then show ?thesis using that ensure_sink_stopped_fields [of E b p p'] by blast
qed

lemma calm_run:
  assumes "calm_env E"
  obtains p' where "ensure_sink_running E p = Some p'" "state p' = state p" "sent p' = sent p" "preload p' = preload p" "config p' = config p"
  using assms by (cases "sink_status p \<noteq> SinkRunning") (auto simp: ensure_sink_running_def calm_env_def Let_def split_beta)

lemma calm_seek_loaded:
  assumes "calm_env E"
  obtains lt' where "seek_loaded E pos lt = (Ok (), lt')"
proof -
  obtain x d' where "dec_seek E pos (decoder lt) = (Inr x, d')" using assms unfolding calm_env_def by blast
  then show ?thesis using that by (cases "pos = stream_position_ms lt") (auto simp: seek_loaded_def)
qed

lemma start_playback_ok:
  assumes "calm_env E" "current (Some i) p"
  shows "\<exists>p'. start_playback E uri i lt play p = Some p' \<and> player_ok p' \<and> (\<forall>u j s l. state p' \<noteq> StLoading u j s l)"
proof -
  define q where "q = send_event E (EvTrackChanged (audio_item lt)) p"
  have q: "current (Some i) q" unfolding q_def by (rule current_send [OF assms(2)]) simp_all
  obtain q1 where q1: "ensure_sink_running E q = Some q1" "sent q1 = sent q" by (rule calm_run [OF assms(1)])
  obtain q2 where q2: "ensure_sink_stopped E False q = Some q2" "sent q2 = sent q" by (rule calm_stop [OF assms(1)])
  let ?a = "\<lparr>track_id = uri, play_request_id = i, loaded = lt,
      normalisation_factor = get_factor (math E) (resolve_normalisation (auto_normalise_as_album q) (config q)) (normalisation_data lt),
      suggested_to_preload_next_track = False\<rparr>"
  let ?on = "(send_event E (EvPlaying i uri (stream_position_ms lt)) q1)\<lparr>state := StPlaying ?a (nominal_start E (stream_position_ms lt))\<rparr>"
  let ?off = "send_event E (EvPaused i uri (stream_position_ms lt)) (q2\<lparr>state := StPaused ?a\<rparr>)"
  have r: "start_playback E uri i lt play p = Some (if play then ?on else ?off)"
    using q1(1) q2(1) by (simp add: start_playback_def q_def Let_def)
  have "current (Some i) (send_event E (EvPlaying i uri (stream_position_ms lt)) q1)"
    by (rule current_send) (use q q1(2) in \<open>simp_all add: current_def events_def\<close>)
  then have on: "player_ok ?on" by (intro player_okI [of "Some i"]) (simp_all add: current_def events_def)
  have "current (Some i) ?off"
    by (rule current_send) (use q q2(2) in \<open>simp_all add: current_def events_def\<close>)
  then have "player_ok ?off" by (intro player_okI [of "Some i"]) simp_all
  with on r show ?thesis by (cases play) simp_all
qed

fun announces :: "'i PlayerEvent \<Rightarrow> bool" where
  "announces (EvPlayRequestIdChanged i) \<longleftrightarrow> True"
| "announces _ \<longleftrightarrow> False"

lemma last_announced_single: "\<not> announces e \<Longrightarrow> last_announced i [e] = i"
  by (cases e) simp_all

lemma player_ok_send:
  assumes "player_ok p" "\<not> announces e" "get_play_request_id e = None \<or> get_play_request_id e = state_request (state p)"
  shows "player_ok (send_event E e p)"
proof -
  obtain i where i: "current i p" "state p \<noteq> StInvalid" "state_request (state p) = None \<or> state_request (state p) = i"
    using assms(1) by (rule player_okE)
  have "current i (send_event E e p)" by (rule current_send [OF i(1)]) (use assms(2,3) i(3) last_announced_single in auto)
  then show ?thesis using i by (intro player_okI [of i]) simp_all
qed

lemma player_ok_state:
  assumes "player_ok p" "st \<noteq> StInvalid" "state_request st = None \<or> state_request st = state_request (state p)"
  shows "player_ok (p\<lparr>state := st\<rparr>)"
  using assms by (auto simp: player_ok_def current_def events_def)

lemma player_ok_same: "player_ok p \<Longrightarrow> state p' = state p \<Longrightarrow> sent p' = sent p \<Longrightarrow> player_ok p'"
  by (auto simp: player_ok_def current_def events_def)

lemma handle_pause_ok:
  assumes "calm_env E" "player_ok p"
  shows "\<exists>p'. handle_pause E p = Some p' \<and> player_ok p'"
proof (cases "state p")
  case (StPaused a)
  obtain p' where "ensure_sink_stopped E False p = Some p'" "state p' = state p" "sent p' = sent p" by (rule calm_stop [OF assms(1)])
  then show ?thesis using StPaused player_ok_same [OF assms(2)] by (auto simp: handle_pause_def)
next
  case (StPlaying a t)
  obtain q where q: "ensure_sink_stopped E False (p\<lparr>state := StPaused a\<rparr>) = Some q" "state q = StPaused a" "sent q = sent p"
    by (rule calm_stop [OF assms(1), of False "p\<lparr>state := StPaused a\<rparr>"]) simp
  have "player_ok (p\<lparr>state := StPaused a\<rparr>)" by (rule player_ok_state [OF assms(2)]) (simp_all add: StPlaying)
  then have "player_ok q" by (rule player_ok_same) (simp_all add: q(2,3))
  then have "player_ok (send_event E (EvPaused (play_request_id a) (track_id a) (stream_position_ms (loaded a))) q)"
    by (rule player_ok_send) (simp_all add: q(2))
  then show ?thesis using q(1) StPlaying by (simp add: handle_pause_def)
next
  case (StLoading u i s l)
  then show ?thesis using player_ok_state [OF assms(2), of "StLoading u i False l"] by (simp add: handle_pause_def)
qed (use assms(2) in \<open>auto simp: handle_pause_def\<close>)

lemma handle_play_ok:
  assumes "calm_env E" "player_ok p"
  shows "\<exists>p'. handle_play E p = Some p' \<and> player_ok p'"
proof (cases "state p")
  case (StPaused a)
  let ?st = "StPlaying a (nominal_start E (stream_position_ms (loaded a)))"
  let ?q = "send_event E (EvPlaying (play_request_id a) (track_id a) (stream_position_ms (loaded a))) (p\<lparr>state := ?st\<rparr>)"
  obtain p' where p': "ensure_sink_running E ?q = Some p'" "state p' = state ?q" "sent p' = sent ?q" by (rule calm_run [OF assms(1)])
  have "player_ok (p\<lparr>state := ?st\<rparr>)" by (rule player_ok_state [OF assms(2)]) (simp_all add: StPaused)
  then have "player_ok ?q" by (rule player_ok_send) simp_all
  then have "player_ok p'" using p'(2,3) by (rule player_ok_same)
  then show ?thesis using p'(1) StPaused by (simp add: handle_play_def)
next
  case (StLoading u i s l)
  then show ?thesis using player_ok_state [OF assms(2), of "StLoading u i True l"] by (simp add: handle_play_def)
qed (use assms(2) in \<open>auto simp: handle_play_def\<close>)

lemma handle_player_stop_ok:
  assumes "calm_env E" "player_ok p"
  shows "\<exists>p'. handle_player_stop E p = Some p' \<and> player_ok p'"
proof -
  obtain q where q: "ensure_sink_stopped E False p = Some q" "state q = state p" "sent q = sent p" by (rule calm_stop [OF assms(1)])
  have ok: "player_ok q" using assms(2) q(2,3) by (rule player_ok_same)
  have stop: "player_ok ((send_event E (EvStopped i uri) q)\<lparr>state := StStopped\<rparr>)" if "state_request (state p) = Some i" for i uri
    by (rule player_ok_state [OF player_ok_send [OF ok]]) (simp_all add: q(2) that)
  have "state p \<noteq> StInvalid" using assms(2) by (simp add: player_ok_def)
  then show ?thesis using q(1) stop assms(2) by (cases "state p") (simp_all add: handle_player_stop_def)
qed

lemma current_load_request:
  assumes "player_ok p" "load_request E ro p = (i, q)"
  shows "current (Some i) q"
proof -
  obtain j where "current j p" using assms(1) by (rule player_okE)
  then show ?thesis
    using load_request_fields [OF assms(2)] by (simp add: current_def events_def events_current_append last_announced_append)
qed

lemma load_afresh_ok: "current (Some i) p \<Longrightarrow> player_ok (load_afresh E uri i play pos p)"
proof (rule player_okI [of "Some i"])
  assume "current (Some i) p"
  then have "current (Some i) (send_event E (EvLoading i uri pos) p)" by (rule current_send) simp_all
  then show "current (Some i) (load_afresh E uri i play pos p)"
    by (simp add: load_afresh_def Let_def split_beta load_track_def current_def events_def split: option.splits)
qed (simp_all add: load_afresh_def Let_def split_beta)

lemma load_preloaded_ok:
  assumes "calm_env E" "current (Some i) p"
  shows "\<exists>r p'. load_preloaded E uri i play pos p = Some (r, p') \<and> player_ok p'"
proof (cases "\<exists>lt. preload p = PreloadReady uri lt")
  case True
  then obtain lt where lt: "preload p = PreloadReady uri lt" by blast
  obtain lt' where s: "seek_loaded E pos lt = (Ok (), lt')" by (rule calm_seek_loaded [OF assms(1)])
  have "current (Some i) (p\<lparr>preload := PreloadNone\<rparr>)" using assms(2) by (simp add: current_def events_def)
  from start_playback_ok [OF assms(1) this, of uri lt' play]
  show ?thesis using lt s by (auto simp: load_preloaded_def handled_ok_def)
next
  case False
  then have "load_preloaded E uri i play pos p = Some (Ok (), load_afresh E uri i play pos p)"
    by (cases "preload p") (auto simp: load_preloaded_def)
  then show ?thesis using load_afresh_ok [OF assms(2)] by blast
qed

lemma load_at_hand_ok:
  assumes "calm_env E" "current (Some i) p"
  shows "\<exists>r p'. load_at_hand E uri i play pos lt failed p = Some (r, p') \<and> player_ok p'"
proof -
  obtain lt' where s: "seek_loaded E pos lt = (Ok (), lt')" by (rule calm_seek_loaded [OF assms(1)])
  have "current (Some i) (p\<lparr>state := StInvalid, preload := PreloadNone\<rparr>)" using assms(2) by (simp add: current_def events_def)
  from start_playback_ok [OF assms(1) this, of uri lt' play]
  show ?thesis using s by (auto simp: load_at_hand_def handled_ok_def)
qed

lemma handle_command_load_ok:
  assumes "calm_env E" "player_ok p"
  shows "\<exists>r p'. handle_command_load E uri ro play pos p = Some (r, p') \<and> player_ok p'"
proof -
  obtain i q where q: "load_request E ro p = (i, q)" by (metis surj_pair)
  have cur: "current (Some i) q" by (rule current_load_request [OF assms(2) q])
  obtain s where s: "ensure_sink_stopped E play q = Some s" "state s = state q" "sent s = sent q"
    by (rule calm_stop [OF assms(1)])
  define q' where "q' = (if gapless (config q) then q else s)"
  have q': "(if \<not> gapless (config q) then ensure_sink_stopped E play q else Some q) = Some q'"
    "state q' = state q" "sent q' = sent q"
    using s by (simp_all add: q'_def)
  have cur': "current (Some i) q'" using cur q'(3) by (simp add: current_def events_def)
  have valid: "state q' \<noteq> StInvalid" using assms(2) load_request_fields(1) [OF q] q'(2) by (simp add: player_ok_def)
  show ?thesis
    using q q'(1) valid load_preloaded_ok [OF assms(1) cur'] load_at_hand_ok [OF assms(1) cur']
    by (cases "state q'") (simp_all add: handle_command_load_def)
qed

lemma preload_data_ok:
  assumes "player_ok p"
  shows "player_ok (snd (preload_data_before_playback E p))"
proof (cases "state p")
  case (StPlaying a t)
  then show ?thesis
    by (simp add: preload_data_before_playback_def Let_def split_beta player_ok_state [OF assms])
qed (use assms in \<open>simp_all add: preload_data_before_playback_def\<close>)

lemma seek_active_fields:
  "play_request_id (fst (seek_active E pos a)) = play_request_id a" "track_id (fst (seek_active E pos a)) = track_id a"
  by (simp_all add: seek_active_def split: prod.splits sum.splits)

lemma handle_command_seek_ok:
  fixes p :: "('d, 'i, 'c, 's) PlayerInternal"
  assumes "calm_env E" "player_ok p"
  shows "\<exists>r p'. handle_command_seek E pos p = Some (r, p') \<and> player_ok p'"
proof -
  define finish where "finish = (\<lambda>p :: ('d, 'i, 'c, 's) PlayerInternal. case preload_data_before_playback E p of
      (Inl e, p) \<Rightarrow> Some (Err e, p)
    | (Inr _, p) \<Rightarrow>
        Some (Ok (), case state p of StPlaying a t \<Rightarrow> p\<lparr>state := StPlaying a (nominal_start E pos)\<rparr> | _ \<Rightarrow> p))"
  have fin: "\<exists>r p'. finish q = Some (r, p') \<and> player_ok p'" if "player_ok q" for q
  proof -
    obtain r q' where q': "preload_data_before_playback E q = (r, q')" by (metis surj_pair)
    then have ok: "player_ok q'" using preload_data_ok [OF that, of E] by simp
    have "player_ok (case state q' of StPlaying a t \<Rightarrow> q'\<lparr>state := StPlaying a (nominal_start E pos)\<rparr> | _ \<Rightarrow> q')"
      using ok player_ok_state [OF ok] by (auto split: PlayerState.splits)
    with ok q' show ?thesis by (cases r) (simp_all add: finish_def)
  qed
  have seeked: "player_ok (case x of None \<Rightarrow> q | Some y \<Rightarrow> send_event E (EvSeeked (play_request_id a) (track_id a) y) q)"
    if "player_ok q" "state_request (state q) = Some (play_request_id a)" for q :: "('d, 'i, 'c, 's) PlayerInternal" and x and a :: "('d, 'i, 'c) ActiveTrack"
    using that by (auto intro!: player_ok_send split: option.splits)
  show ?thesis
  proof (cases "state p")
    case (StLoading u i s l)
    then show ?thesis using handle_command_load_ok [OF assms] by (simp add: handle_command_seek_def)
  next
    case (StPlaying a t)
    have "player_ok (p\<lparr>state := StPlaying (fst (seek_active E pos a)) t\<rparr>)"
      by (rule player_ok_state [OF assms(2)]) (simp_all add: StPlaying seek_active_fields)
    then have "player_ok (case snd (seek_active E pos a) of None \<Rightarrow> p\<lparr>state := StPlaying (fst (seek_active E pos a)) t\<rparr>
        | Some y \<Rightarrow> send_event E (EvSeeked (play_request_id a) (track_id a) y) (p\<lparr>state := StPlaying (fst (seek_active E pos a)) t\<rparr>))"
      by (rule seeked) (simp add: seek_active_fields)
    from fin [OF this] show ?thesis using StPlaying by (simp add: handle_command_seek_def finish_def split_beta)
  next
    case (StPaused a)
    have "player_ok (p\<lparr>state := StPaused (fst (seek_active E pos a))\<rparr>)"
      by (rule player_ok_state [OF assms(2)]) (simp_all add: StPaused seek_active_fields)
    then have "player_ok (case snd (seek_active E pos a) of None \<Rightarrow> p\<lparr>state := StPaused (fst (seek_active E pos a))\<rparr>
        | Some y \<Rightarrow> send_event E (EvSeeked (play_request_id a) (track_id a) y) (p\<lparr>state := StPaused (fst (seek_active E pos a))\<rparr>))"
      by (rule seeked) (simp add: seek_active_fields)
    from fin [OF this] show ?thesis using StPaused by (simp add: handle_command_seek_def finish_def split_beta)
  next
    case StInvalid
    then show ?thesis using assms(2) by (simp add: player_ok_def)
  qed (use fin [OF assms(2)] in \<open>simp_all add: handle_command_seek_def finish_def\<close>)
qed

lemma emit_filter_explicit_ok:
  assumes "player_ok p"
  shows "player_ok (emit_filter_explicit E b p)"
proof -
  have ok: "player_ok (send_event E (EvFilterExplicitContentChanged b) p)" by (rule player_ok_send [OF assms]) simp_all
  have "player_ok (send_event E (EvEndOfTrack (play_request_id a) (track_id a)) (send_event E (EvFilterExplicitContentChanged b) p))"
    if "state p = StPaused a \<or> (\<exists>t. state p = StPlaying a t)" for a
    by (rule player_ok_send [OF ok]) (use that in auto)
  with ok show ?thesis by (cases "state p"; cases b) (simp_all add: emit_filter_explicit_def Let_def)
qed

lemma handle_command_ok:
  assumes "calm_env E" "player_ok p"
  shows "\<exists>r p'. handle_command E cmd p = Some (r, p') \<and> player_ok p'"
proof -
  have event: "player_ok (send_event E e p)" if "\<not> announces e" "get_play_request_id e = None" for e
    by (rule player_ok_send [OF assms(2)]) (use that in auto)
  have same: "player_ok (p\<lparr>player_session := n\<rparr>)" "player_ok (p\<lparr>event_senders := ns\<rparr>)"
    "player_ok (p\<lparr>sink_event_callback := b\<rparr>)" "player_ok (p\<lparr>auto_normalise_as_album := b\<rparr>)"
    "player_ok (handle_command_preload uri p)" for n ns b uri
    using assms(2) by (rule player_ok_same; simp)+
  show ?thesis
    using handle_command_load_ok [OF assms] handle_command_seek_ok [OF assms] handle_play_ok [OF assms]
      handle_pause_ok [OF assms] handle_player_stop_ok [OF assms] emit_filter_explicit_ok [OF assms(2)]
    by (cases cmd) (auto simp: handled_ok_def event same)
qed

section \<open>Rounds of the loop\<close>

lemma poll_loading_ok:
  assumes "calm_env E" "player_ok p"
  shows "\<exists>p'. poll_loading E inp p = Some p' \<and> player_ok p'"
proof (cases "\<exists>u i s l. state p = StLoading u i s l")
  case True
  then obtain u i s l where st: "state p = StLoading u i s l" by blast
  with assms(2) have cur: "current (Some i) p" by (auto simp: player_ok_def)
  have "player_ok (p\<lparr>state := StLoading u i s (l\<lparr>is_terminated := True\<rparr>)\<rparr>)"
    by (rule player_ok_state [OF assms(2)]) (simp_all add: st)
  then have gone: "player_ok (send_event E (EvUnavailable i u) (p\<lparr>state := StLoading u i s (l\<lparr>is_terminated := True\<rparr>)\<rparr>))"
    by (rule player_ok_send) simp_all
  show ?thesis
  proof (cases "poll_loader inp l")
    case PollPending
    then show ?thesis using assms(2) st by (simp add: poll_loading_def)
  next
    case (PollReady r)
    show ?thesis
    proof (cases r)
      case (Inl e)
      then show ?thesis using PollReady gone assms(2) st by (simp add: poll_loading_def)
    next
      case (Inr lt)
      obtain p' where "start_playback E u i lt s p = Some p'" "player_ok p'" "\<forall>u j s l. state p' \<noteq> StLoading u j s l"
        using start_playback_ok [OF assms(1) cur] by blast
      then show ?thesis using Inr PollReady assms(2) st by (cases "state p'") (auto simp: poll_loading_def)
    qed
  qed
next
  case False
  then show ?thesis using assms(2) by (cases "state p") (auto simp: poll_loading_def)
qed

lemma poll_preloading_ok:
  assumes "player_ok p"
  shows "player_ok (poll_preloading E inp p)"
proof -
  have none: "player_ok (p\<lparr>preload := x\<rparr>)" for x by (rule player_ok_same [OF assms]) simp_all
  have gone: "player_ok (send_event E (EvUnavailable i u) (p\<lparr>preload := x\<rparr>))" if "state_request (state p) = Some i" for i u x
    by (rule player_ok_send [OF none]) (simp_all add: that)
  have "player_ok (send_event E (EvPreloading u) p)" for u by (rule player_ok_send [OF assms]) simp_all
  then have ready: "player_ok ((send_event E (EvPreloading u) p)\<lparr>preload := x\<rparr>)" for u x by (rule player_ok_same) simp_all
  show ?thesis using assms none gone ready
    by (auto simp: poll_preloading_def Let_def split: PlayerPreload.splits Polled.splits sum.splits PlayerState.splits)
qed

lemma report_position_ok:
  fixes p :: "('d, 'i, 'c, 's) PlayerInternal"
  assumes "player_ok p" "state p = StPlaying a t"
  shows "player_ok (report_position E sk x y a t p)"
proof -
  have "player_ok (p\<lparr>state := StPlaying a (nominal_start E y)\<rparr>)" by (rule player_ok_state [OF assms(1)]) (simp_all add: assms(2))
  then have corrected: "player_ok (send_event E (EvPositionCorrection (play_request_id a) (track_id a) y) (p\<lparr>state := StPlaying a (nominal_start E y)\<rparr>))"
    by (rule player_ok_send) simp_all
  have changed: "player_ok (send_event E (EvPositionChanged i u y) (q\<lparr>last_progress_update := n\<rparr>))" if "player_ok q"
    for q :: "('d, 'i, 'c, 's) PlayerInternal" and i u n
  proof -
    have "player_ok (q\<lparr>last_progress_update := n\<rparr>)" by (rule player_ok_same [OF that]) simp_all
    then show ?thesis by (rule player_ok_send) simp_all
  qed
  show ?thesis using assms(1) corrected changed
    by (simp add: report_position_def Let_def split: option.splits)
qed

lemma handle_packet_ok:
  assumes "calm_env E" "player_ok p" "state p = StPlaying a t"
  shows "\<exists>p'. handle_packet E packet f p = Some p' \<and> player_ok p'"
proof (cases packet)
  case None
  have "player_ok (p\<lparr>state := StEndOfTrack (track_id a) (play_request_id a) (loaded a)\<rparr>)"
    by (rule player_ok_state [OF assms(2)]) (simp_all add: assms(3))
  then have "player_ok (send_event E (EvEndOfTrack (play_request_id a) (track_id a))
      (p\<lparr>state := StEndOfTrack (track_id a) (play_request_id a) (loaded a)\<rparr>))"
    by (rule player_ok_send) simp_all
  then show ?thesis using None assms(3) by (simp add: handle_packet_def)
next
  case (Some x)
  obtain pos pk where x: "x = (pos, pk)" by (cases x)
  have same: "player_ok (p\<lparr>sink := s\<rparr>)" "player_ok (p\<lparr>limiter := l, sink := s\<rparr>)" for s l
    using assms(2) by (rule player_ok_same; simp)+
  show ?thesis
    using assms(2) same handle_pause_ok [OF assms(1) same(1)] handle_pause_ok [OF assms(1) same(2)]
    by (cases pk) (auto simp: Some x handle_packet_def packet_is_empty_def Let_def split_beta)
qed

lemma poll_playing_ok:
  assumes "calm_env E" "player_ok p"
  shows "\<exists>p'. poll_playing E p = Some p' \<and> player_ok p'"
proof (cases "\<exists>a t. state p = StPlaying a t")
  case True
  then obtain a t where st: "state p = StPlaying a t" by blast
  obtain q where q: "ensure_sink_running E p = Some q" "state q = state p" "sent q = sent p" by (rule calm_run [OF assms(1)])
  have ok: "player_ok q" using assms(2) q(2,3) by (rule player_ok_same)
  have ok': "player_ok (q\<lparr>state := StPlaying (a\<lparr>loaded := lt\<rparr>) t\<rparr>)" for lt
    by (rule player_ok_state [OF ok]) (simp_all add: q(2) st)
  obtain res d where nxt: "dec_next_packet E (decoder (loaded a)) = (res, d)" by (metis surj_pair)
  consider (err) e where "res = Inl e" | (none) "res = Inr None" | (packet) pos pk where "res = Inr (Some (pos, pk))"
    by (metis surj_pair not_None_eq sumE)
  then show ?thesis
  proof cases
    case err
    have "player_ok (send_event E (EvEndOfTrack (play_request_id a) (track_id a)) (q\<lparr>state := StPlaying (a\<lparr>loaded := lt\<rparr>) t\<rparr>))" for lt
      by (rule player_ok_send [OF ok']) simp_all
    then show ?thesis using err q(1,2) st nxt by (simp add: poll_playing_def)
  next
    case none
    then show ?thesis using handle_packet_ok [OF assms(1) ok'] q(1,2) st nxt by (simp add: poll_playing_def)
  next
    case packet
    define b where "b = a\<lparr>loaded := (loaded a)\<lparr>decoder := d, stream_position_ms := packet_position_ms pos\<rparr>\<rparr>"
    define q' where "q' = (if passthrough (config q) then q\<lparr>state := StPlaying b t\<rparr>
      else case packet_samples pk of
             Some _ \<Rightarrow> report_position E (skipped pos) (stream_position_ms (loaded a)) (packet_position_ms pos) b t (q\<lparr>state := StPlaying b t\<rparr>)
           | None \<Rightarrow> send_event E (EvEndOfTrack (play_request_id b) (track_id b)) (q\<lparr>state := StPlaying b t\<rparr>))"
    have okb: "player_ok (q\<lparr>state := StPlaying b t\<rparr>)" using ok' by (simp add: b_def)
    have "player_ok (send_event E (EvEndOfTrack (play_request_id b) (track_id b)) (q\<lparr>state := StPlaying b t\<rparr>))"
      by (rule player_ok_send [OF okb]) simp_all
    then have "player_ok q'" using okb report_position_ok [OF okb] by (auto simp: q'_def split: option.splits)
    moreover have "\<exists>t'. state q' = StPlaying b t'"
      using report_position_fields(1) [of "q\<lparr>state := StPlaying b t\<rparr>" b t] by (auto simp: q'_def split: option.splits)
    ultimately obtain p' where "handle_packet E (Some (pos, pk)) (normalisation_factor b) q' = Some p'" "player_ok p'"
      using handle_packet_ok [OF assms(1)] by blast
    moreover have "poll_playing E p = handle_packet E (Some (pos, pk)) (normalisation_factor b) q'"
      using q(1,2) st nxt packet by (simp add: poll_playing_def q'_def b_def Let_def cong: if_cong option.case_cong)
    ultimately show ?thesis by simp
  qed
next
  case False
  then show ?thesis using assms(2) by (cases "state p") (auto simp: poll_playing_def player_ok_def)
qed

lemma poll_suggest_ok:
  assumes "player_ok p"
  shows "player_ok (poll_suggest E p)"
proof -
  have "player_ok (send_event E (EvTimeToPreloadNextTrack i u) (p\<lparr>state := st\<rparr>))"
    if "state_request st = Some i" "state_request (state p) = Some i" for i u st
  proof -
    have "player_ok (p\<lparr>state := st\<rparr>)" by (rule player_ok_state [OF assms]) (use that in auto)
    then show ?thesis by (rule player_ok_send) (simp_all add: that(1))
  qed
  then show ?thesis using assms by (cases "state p") (simp_all add: poll_suggest_def Let_def)
qed

lemma poll_round_ok:
  assumes "calm_env E" "player_ok p"
  shows "\<exists>r p'. poll_round E inp p = Some (r, p') \<and> player_ok p'"
proof -
  have rest: "\<exists>p1 p2 b. poll_loading E inp q = Some p1 \<and> poll_playing E (poll_preloading E inp p1) = Some p2 \<and>
      is_playing (state (poll_suggest E p2)) = Some b \<and> player_ok (poll_suggest E p2)" if q: "player_ok q" for q
  proof -
    obtain p1 where p1: "poll_loading E inp q = Some p1" "player_ok p1" using poll_loading_ok [OF assms(1) q] by blast
    obtain p2 where p2: "poll_playing E (poll_preloading E inp p1) = Some p2" "player_ok p2"
      using poll_playing_ok [OF assms(1) poll_preloading_ok [OF p1(2)]] by blast
    have ok: "player_ok (poll_suggest E p2)" by (rule poll_suggest_ok [OF p2(2)])
    then obtain b where "is_playing (state (poll_suggest E p2)) = Some b"
      by (cases "state (poll_suggest E p2)") (auto simp: player_ok_def)
    with p1(1) p2(1) ok show ?thesis by blast
  qed
  show ?thesis
  proof (cases "poll_command inp")
    case PollPending
    then show ?thesis using rest [OF assms(2)] by (auto simp: poll_round_def)
  next
    case (PollReady c)
    show ?thesis
    proof (cases c)
      case None
      then show ?thesis using PollReady assms(2) by (simp add: poll_round_def)
    next
      case (Some cmd)
      obtain r q where q: "handle_command E cmd p = Some (r, q)" "player_ok q" using handle_command_ok [OF assms] by blast
      then show ?thesis using rest [OF q(2)] PollReady Some by (auto simp: poll_round_def)
    qed
  qed
qed

lemma poll_rounds_ok:
  "\<forall>x \<in> set rounds. calm_env (fst x) \<Longrightarrow> player_ok p \<Longrightarrow> \<exists>p'. poll_rounds rounds p = Some p' \<and> player_ok p'"
proof (induction rounds arbitrary: p)
  case (Cons x rounds)
  obtain E inp where x: "x = (E, inp)" by (cases x)
  obtain r q where q: "poll_round E inp p = Some (r, q)" "player_ok q"
    using poll_round_ok [of E p inp] Cons.prems x by auto
  then show ?case using Cons x by (cases r) auto
qed simp

section \<open>What the player guarantees\<close>

definition sample_config :: PlayerConfig where
  "sample_config = \<lparr>bitrate = Bitrate160, gapless = True, passthrough = False, normalisation = False,
     normalisation_type = AutoGain, normalisation_method = DynamicMethod, normalisation_pregain_db = 0,
     normalisation_threshold_dbfs = - 2, normalisation_attack_cf = 1 / 2, normalisation_release_cf = 1 / 2,
     normalisation_knee_db = 5, position_update_interval = None\<rparr>"

definition sample_player :: "(unit, unit, unit, unit) PlayerInternal" where
  "sample_player = player_new 0 sample_config () (1 / 40) 0"

text \<open>An environment without audio; whether seeks and starts of the sink succeed is given.\<close>

definition sample_env :: "bool \<Rightarrow> bool \<Rightarrow> (unit, unit, unit) PlayerEnv" where
  "sample_env seeks starts =
     \<lparr>dec_seek = \<lambda>pos d. (if seeks then Inr pos else Inl SymphoniaDecoderError, d), dec_next_packet = \<lambda>d. (Inr None, d),
      start_sink = \<lambda>s. (starts, s), stop_sink = \<lambda>s. (True, s), write_sink = \<lambda>pk s. (True, s),
      to_end_available = \<lambda>c. False, fetch_and_wait = \<lambda>m n c. (Inr (), c), sender_alive = \<lambda>n. True, instant_now = 0,
      instant_checked_sub = \<lambda>t d. Some (t - int d), attenuation_factor = 1, read_ahead_secs = 5,
      math = \<lparr>to_ratio = \<lambda>x. 1, to_db = \<lambda>x. None\<rparr>\<rparr>"

definition sample_loaded :: "(unit, unit, unit) PlayerLoadedTrackData" where
  "sample_loaded = \<lparr>decoder = (), normalisation_data = normalisation_data_default, stream_loader_controller = (),
     audio_item = (), bytes_per_second = 20480, duration_ms = 60000, stream_position_ms = 0, is_explicit = False\<rparr>"

definition sample_input :: "PlayerCommand \<Rightarrow> (unit, unit, unit) PollInput" where
  "sample_input cmd = \<lparr>poll_command = PollReady (Some cmd), poll_loader = \<lambda>l. PollReady (Inr sample_loaded)\<rparr>"

definition sample_uri :: "nat \<Rightarrow> SpotifyUri" where
  "sample_uri n = Track \<lparr>id_u128 = of_nat n\<rparr>"

definition sample_active :: "SpotifyUri \<Rightarrow> (unit, unit, unit) ActiveTrack" where
  "sample_active uri = \<lparr>track_id = uri, play_request_id = 3, loaded = sample_loaded, normalisation_factor = 1,
     suggested_to_preload_next_track = False\<rparr>"

lemma calm_sample_env: "calm_env (sample_env True True)"
  by (simp add: calm_env_def sample_env_def)

text \<open>
  C22. In every state the player thread can reach, whatever decoders, loaders and the sink do, the sink is
  closed while the player is stopped or paused.
\<close>

theorem idle_sink_closed:
  assumes "player_init p" "player_step\<^sup>*\<^sup>* p q" "state q = StStopped \<or> state q = StPaused a"
  shows "sink_status q = SinkClosed"
  using sink_idle.reachable_inv [OF assms(1,2)] assms(3) by (auto simp: sink_quiet_def)

theorem idle_sink_closed_witness: "sink_status sample_player = SinkClosed"
proof -
  have "player_init sample_player" unfolding player_init_def sample_player_def by blast
  then show ?thesis by (rule idle_sink_closed [OF _ rtranclp.rtrancl_refl]) (simp add: sample_player_def player_new_def)
qed

text \<open>
  C18. As long as seeks succeed and the sink starts and stops, the player never ends the process: every
  sequence of commands, loader results and packets is worked off, the state is valid afterwards, and
  every event that names a request names the one that was announced last, which is also the one the
  state is for.
\<close>

theorem player_never_exits:
  assumes "\<forall>x \<in> set rounds. calm_env (fst x)"
  shows "\<exists>p. poll_rounds rounds (player_new session cfg snk knee t) = Some p \<and> state p \<noteq> StInvalid \<and>
    events_current None (events p) \<and>
    (state_request (state p) = None \<or> state_request (state p) = last_announced None (events p))"
proof -
  have "player_ok (player_new session cfg snk knee t)"
    by (rule player_okI [of None]) (simp_all add: player_new_def current_def events_def)
  from poll_rounds_ok [OF assms this] show ?thesis by (auto simp: player_ok_def current_def)
qed

theorem player_never_exits_witness:
  "\<exists>p. poll_rounds [(sample_env True True, sample_input (CmdLoad (sample_uri 5) True 0)), (sample_env True True, sample_input (CmdSeek 7))]
         sample_player = Some p \<and> state p \<noteq> StInvalid \<and> events_current None (events p)"
  using player_never_exits [of "[(sample_env True True, sample_input (CmdLoad (sample_uri 5) True 0)),
      (sample_env True True, sample_input (CmdSeek 7))]"] calm_sample_env
  unfolding sample_player_def by fastforce

text \<open>
  C23. Gapless playback: when a track has ended and the next one was preloaded, loading it starts it at
  once. The sink keeps running without a call, nothing is loaded, and the listeners see the new
  request, the new track and its start.
\<close>

theorem preloaded_track_starts_gaplessly:
  assumes "gapless (config p)" "state p = StEndOfTrack ended i lt0" "ended \<noteq> uri" "preload p = PreloadReady uri lt"
    and "sink_status p = SinkRunning" "stream_position_ms lt = pos"
  shows "\<exists>p' a. handle_command_load E uri None True pos p = Some (Ok (), p') \<and>
    state p' = StPlaying a (nominal_start E pos) \<and> track_id a = uri \<and> loaded a = lt \<and>
    play_request_id a = play_request_id_generator p \<and>
    preload p' = PreloadNone \<and> sink p' = sink p \<and> sink_status p' = SinkRunning \<and> threads_started p' = threads_started p \<and>
    events p' = events p @ [EvPlayRequestIdChanged (play_request_id_generator p), EvTrackChanged (audio_item lt),
      EvPlaying (play_request_id_generator p) uri pos]"
proof -
  obtain j q where q: "load_request E None p = (j, q)" by (metis surj_pair)
  have j: "j = play_request_id_generator p" using q by (auto simp: load_request_def seq_get_def Let_def)
  note f = load_request_fields [OF q]
  have t: "threads_started q = threads_started p" using q by (auto simp: load_request_def seq_get_def Let_def)
  have load: "handle_command_load E uri None True pos p = load_preloaded E uri j True pos q"
    using q f assms(1-3) by (simp add: handle_command_load_def)
  show ?thesis unfolding load
    using f t assms j
    by (simp add: load_preloaded_def handled_ok_def seek_loaded_def start_playback_def ensure_sink_running_def Let_def events_def)
qed

theorem preloaded_track_starts_gaplessly_witness:
  "\<exists>p'. handle_command_load (sample_env True True) (sample_uri 2) None True 0
     (sample_player\<lparr>state := StEndOfTrack (sample_uri 1) 3 sample_loaded, preload := PreloadReady (sample_uri 2) sample_loaded,
        sink_status := SinkRunning\<rparr>) = Some (Ok (), p') \<and> sink_status p' = SinkRunning"
proof -
  let ?p = "sample_player\<lparr>state := StEndOfTrack (sample_uri 1) 3 sample_loaded,
    preload := PreloadReady (sample_uri 2) sample_loaded, sink_status := SinkRunning\<rparr>"
  have "gapless (config ?p)" "state ?p = StEndOfTrack (sample_uri 1) 3 sample_loaded" "sample_uri 1 \<noteq> sample_uri 2"
    "preload ?p = PreloadReady (sample_uri 2) sample_loaded" "sink_status ?p = SinkRunning" "stream_position_ms sample_loaded = 0"
    by (simp_all add: sample_player_def player_new_def sample_config_def sample_loaded_def sample_uri_def)
  from preloaded_track_starts_gaplessly [OF this] show ?thesis by blast
qed

text \<open>
  C36. Loading the track that is playing at another position announces a new request before it seeks.
  When the seek fails the command is an error and the track goes on under its old request, so that
  the next event about it names a request that is no longer the announced one.
\<close>

theorem failed_reload_keeps_request:
  assumes "gapless (config p)" "state p = StPlaying a t" "track_id a = uri" "stream_position_ms (loaded a) \<noteq> pos"
    and "dec_seek E pos (decoder (loaded a)) = (Inl e, d)" "play_request_id a \<noteq> play_request_id_generator p"
  shows "\<exists>p' b. handle_command_load E uri None play pos p = Some (Err (aborted (DecoderCause e)), p') \<and>
    state p' = StPlaying b t \<and> play_request_id b = play_request_id a \<and>
    last_announced None (events p') = Some (play_request_id_generator p) \<and>
    \<not> events_current None (events (send_event E' (EvEndOfTrack (play_request_id b) (track_id b)) p'))"
proof -
  obtain j q where q: "load_request E None p = (j, q)" by (metis surj_pair)
  have j: "j = play_request_id_generator p" using q by (auto simp: load_request_def seq_get_def Let_def)
  note f = load_request_fields [OF q]
  let ?b = "a\<lparr>loaded := (loaded a)\<lparr>decoder := d\<rparr>\<rparr>"
  let ?p = "q\<lparr>state := StPlaying ?b t\<rparr>"
  have load: "handle_command_load E uri None play pos p = Some (Err (aborted (DecoderCause e)), ?p)"
    using q f assms(1-5) by (simp add: handle_command_load_def load_at_hand_def seek_loaded_def)
  have "last_announced None (events ?p) = Some (play_request_id_generator p)"
    using f(6) j by (simp add: events_def last_announced_append)
  moreover from this have "\<not> events_current None (events (send_event E' (EvEndOfTrack (play_request_id ?b) (track_id ?b)) ?p))"
    using assms(6) by (simp add: events_def events_current_append)
  moreover have "state ?p = StPlaying ?b t" "play_request_id ?b = play_request_id a" by simp_all
  ultimately show ?thesis using load by blast
qed

theorem failed_reload_keeps_request_witness:
  "\<exists>p' b. handle_command_load (sample_env False True) (sample_uri 1) None True 9
       (sample_player\<lparr>state := StPlaying (sample_active (sample_uri 1)) None\<rparr>) =
       Some (Err (aborted (DecoderCause SymphoniaDecoderError)), p') \<and> state p' = StPlaying b None \<and> play_request_id b = 3"
proof -
  let ?p = "sample_player\<lparr>state := StPlaying (sample_active (sample_uri 1)) None\<rparr>"
  have "gapless (config ?p)" "state ?p = StPlaying (sample_active (sample_uri 1)) None"
    "track_id (sample_active (sample_uri 1)) = sample_uri 1"
    "stream_position_ms (loaded (sample_active (sample_uri 1))) \<noteq> 9"
    "dec_seek (sample_env False True) 9 (decoder (loaded (sample_active (sample_uri 1)))) = (Inl SymphoniaDecoderError, ())"
    "play_request_id (sample_active (sample_uri 1)) \<noteq> play_request_id_generator ?p"
    by (simp_all add: sample_player_def player_new_def sample_config_def sample_active_def sample_loaded_def sample_env_def)
  from failed_reload_keeps_request [OF this, of True] show ?thesis by (fastforce simp: sample_active_def)
qed

text \<open>
  Repeating a track that has ended: when the seek to the start fails the track is lost, the state is
  left invalid, and the round that handled the command ends the process.
\<close>

theorem failed_repeat_exits:
  assumes "poll_command inp = PollReady (Some (CmdLoad uri play pos))" "gapless (config p)" "state p = StEndOfTrack uri i lt"
    and "stream_position_ms lt \<noteq> pos" "dec_seek E pos (decoder lt) = (Inl e, d)"
  shows "poll_round E inp p = None"
proof -
  obtain j q where q: "load_request E None p = (j, q)" by (metis surj_pair)
  note f = load_request_fields [OF q]
  have "handle_command_load E uri None play pos p = Some (Err (aborted (DecoderCause e)), q\<lparr>state := StInvalid\<rparr>)"
    using q f assms(2-5) by (simp add: handle_command_load_def load_at_hand_def seek_loaded_def)
  then show ?thesis using assms(1) poll_preloading_fields(1) [of E inp "q\<lparr>state := StInvalid\<rparr>"]
    by (simp add: poll_round_def poll_loading_def poll_playing_def)
qed

theorem failed_repeat_exits_witness:
  "poll_round (sample_env False True) (sample_input (CmdLoad (sample_uri 1) True 9))
     (sample_player\<lparr>state := StEndOfTrack (sample_uri 1) 3 sample_loaded\<rparr>) = None"
proof -
  have "stream_position_ms sample_loaded \<noteq> 9" by (simp add: sample_loaded_def)
  moreover have "dec_seek (sample_env False True) 9 (decoder sample_loaded) = (Inl SymphoniaDecoderError, ())"
    by (simp add: sample_env_def)
  ultimately show ?thesis
    by (intro failed_repeat_exits [where uri = "sample_uri 1" and pos = 9 and lt = sample_loaded and i = 3])
       (simp_all add: sample_input_def sample_player_def player_new_def sample_config_def)
qed



end
