(* ===== verification/Context_Resolver.thy ===== *)
theory Context_Resolver
  imports Connect_Steps
begin

text \<open>
  The queue of contexts that still have to be resolved: \<open>connect/src/context_resolver.rs\<close>. An entry
  says what to fetch, where the result goes and whether it replaces or extends what is there. The
  two requests to the service are arguments: each gives a context or the kind of the error. Times
  are nanoseconds of a monotonic clock. A panic of the connect state stays one, also where the code
  only logs errors.
\<close>

section \<open>Entries\<close>

datatype Resolve = ResolveUri string | ResolveContext Context

datatype ContextAction = Append | Replace

record ResolveContext =
  resolve :: Resolve
  fallback :: "string option"
  update :: ContextType
  action :: ContextAction

definition append_context :: "string \<Rightarrow> ResolveContext" where
  "append_context u = \<lparr>resolve = ResolveUri u, fallback = None, update = DefaultContext, action = Append\<rparr>"

definition resolve_from_uri :: "string \<Rightarrow> string \<Rightarrow> ContextType \<Rightarrow> ContextAction \<Rightarrow> ResolveContext" where
  "resolve_from_uri u fallback_uri ty a =
     \<lparr>resolve = ResolveUri u, fallback = (if fallback_uri = [] then None else Some fallback_uri),
      update = ty, action = a\<rparr>"

definition resolve_from_context :: "Context \<Rightarrow> ContextType \<Rightarrow> ContextAction \<Rightarrow> ResolveContext" where
  "resolve_from_context c ty a = \<lparr>resolve = ResolveContext c, fallback = None, update = ty, action = a\<rparr>"

definition resolve_uri :: "ResolveContext \<Rightarrow> string option" where
  "resolve_uri r =
     (case (case resolve r of
              ResolveUri u \<Rightarrow> valid_resolve_uri u
            | ResolveContext c \<Rightarrow> find_valid_uri (c_uri c) (get (c_pages c) 0)) of
        Some u \<Rightarrow> Some u
      | None \<Rightarrow> fallback r)"

definition resolve_context_uri :: "ResolveContext \<Rightarrow> string" where
  "resolve_context_uri r =
     (case resolve r of ResolveUri u \<Rightarrow> u | ResolveContext c \<Rightarrow> unwrap_or (c_uri c) [])"

section \<open>The queue\<close>

datatype ContextResolverError = NoNext | UnexpectedPagesSize usize | NotAllowedContext string

datatype ResolveError =
    ResolverErr ContextResolverError
  | ResolveState ConnectError
  | ResolveRequest ErrorKind

text \<open>The errors of the connect state that stand for a panic.\<close>

fun is_panic :: "ConnectError \<Rightarrow> bool" where
  "is_panic ArithmeticOverflow = True"
| "is_panic EmptyRange = True"
| "is_panic _ = False"

definition lift_state :: "(ConnectError \<Rightarrow> 'e) \<Rightarrow> (ConnectError, 'a) result \<Rightarrow> ('e, 'a) fallible" where
  "lift_state f r = (case r of Inl e \<Rightarrow> Err (if is_panic e then Panic else Fail (f e)) | Inr x \<Rightarrow> Ok x)"

record ContextResolver =
  resolver_queue :: "ResolveContext list"
  unavailable_contexts :: "ResolveContext \<rightharpoonup> nat"

definition RETRY_UNAVAILABLE :: nat where
  "RETRY_UNAVAILABLE = 3600 * 10 ^ 9"

definition context_resolver_new :: ContextResolver where
  "context_resolver_new = \<lparr>resolver_queue = [], unavailable_contexts = Map.empty\<rparr>"

definition resolver_add :: "nat \<Rightarrow> ResolveContext \<Rightarrow> ContextResolver \<Rightarrow> ContextResolver" where
  "resolver_add now r q =
     (let retry = (case unavailable_contexts q r of Some t \<Rightarrow> now - t > RETRY_UNAVAILABLE | None \<Rightarrow> False);
          q1 = (if retry then q\<lparr>unavailable_contexts := (unavailable_contexts q)(r := None)\<rparr> else q)
      in if unavailable_contexts q1 r \<noteq> None then q1
         else if r \<in> set (resolver_queue q1) then q1
         else q1\<lparr>resolver_queue := resolver_queue q1 @ [r]\<rparr>)"

definition resolver_add_list :: "nat \<Rightarrow> ResolveContext list \<Rightarrow> ContextResolver \<Rightarrow> ContextResolver" where
  "resolver_add_list now = fold (resolver_add now)"

text \<open>The first entry with an uri to resolve, that uri, and the number of invalid entries before it.\<close>

fun find_next_from :: "nat \<Rightarrow> ResolveContext list \<Rightarrow> (ResolveContext \<times> string \<times> nat) option" where
  "find_next_from idx [] = None"
| "find_next_from idx (r # rs) =
     (case resolve_uri r of None \<Rightarrow> find_next_from (idx + 1) rs | Some u \<Rightarrow> Some (r, u, idx))"

definition find_next :: "ContextResolver \<Rightarrow> (ResolveContext \<times> string \<times> nat) option" where
  "find_next q = find_next_from 0 (resolver_queue q)"

definition has_next :: "ContextResolver \<Rightarrow> bool" where
  "has_next q \<longleftrightarrow> find_next q \<noteq> None"

definition remove_used_and_invalid :: "ContextResolver \<Rightarrow> ContextResolver" where
  "remove_used_and_invalid q =
     (let rs = (case find_next q of
                  Some (_, _, n) \<Rightarrow> drop n (resolver_queue q)
                | None \<Rightarrow> resolver_queue q)
      in q\<lparr>resolver_queue := tl rs\<rparr>)"

definition resolver_clear :: "ContextResolver \<Rightarrow> ContextResolver" where
  "resolver_clear q = q\<lparr>resolver_queue := []\<rparr>"

definition mark_next_unavailable :: "nat \<Rightarrow> ContextResolver \<Rightarrow> ContextResolver" where
  "mark_next_unavailable now q =
     (case find_next q of
        Some (r, _, _) \<Rightarrow> q\<lparr>unavailable_contexts := (unavailable_contexts q)(r \<mapsto> now)\<rparr>
      | None \<Rightarrow> q)"

section \<open>Resolving\<close>

text \<open>What the service answers to the request for a context and for an autoplay context.\<close>

record SpClient =
  sp_get_context :: "string \<Rightarrow> ErrorKind + Context"
  sp_get_autoplay_context :: "string \<Rightarrow> string list \<Rightarrow> ErrorKind + Context"

definition get_next_context ::
  "SpClient \<Rightarrow> string list \<Rightarrow> ContextResolver \<Rightarrow> (ResolveError, Context) result" where
  "get_next_context S recent q =
     (case find_next q of
        None \<Rightarrow> Err (ResolverErr NoNext)
      | Some (r, u, _) \<Rightarrow>
          (case update r of
             DefaultContext \<Rightarrow>
               (case sp_get_context S u of
                  Inl k \<Rightarrow> Err (ResolveRequest k)
                | Inr c \<Rightarrow> Ok (c\<lparr>c_uri := Some (resolve_context_uri r),
                                 c_url := Some (''context://'' @ resolve_context_uri r)\<rparr>))
           | AutoplayContext \<Rightarrow>
               (if str_contains u ''spotify:show:'' \<or> str_contains u ''spotify:episode:''
                then Err (ResolverErr (NotAllowedContext u))
                else (case sp_get_autoplay_context S u recent of
                        Inl k \<Rightarrow> Err (ResolveRequest k)
                      | Inr c \<Rightarrow> Ok c))))"

definition apply_next_context ::
  "(nat \<Rightarrow> nat \<Rightarrow> string) \<Rightarrow> ContextResolver \<Rightarrow> Context \<Rightarrow> ConnectState \<Rightarrow>
   (ResolveError, ResolveContext list option) fallible \<times> ConnectState" where
  "apply_next_context U q c st =
     (case find_next q of
        None \<Rightarrow> (Err (Fail (ResolverErr NoNext)), st)
      | Some (r, _, _) \<Rightarrow>
          (case action r of
             Append \<Rightarrow>
               (case c_pages c of
                  [page] \<Rightarrow>
                    (let (res, st1) = fill_context_from_page (U 0) page st
                     in (lift_state ResolveState (and_then res (\<lambda>_. Ok None)), st1))
                | _ \<Rightarrow> (Err (Fail (ResolverErr (UnexpectedPagesSize (length (c_pages c))))), st))
           | Replace \<Rightarrow>
               (let (res, st1) = update_context U c (update r) st;
                    st2 = (case resolve r of
                             ResolveContext ctx \<Rightarrow>
                               snd (merge_context (if c_pages ctx = [] then None else Some (last (c_pages ctx))) st1)
                           | ResolveUri _ \<Rightarrow> st1)
                in (lift_state ResolveState (and_then res (\<lambda>uris. Ok (map_option (map append_context) uris))), st2))))"

text \<open>How \<open>try_finish\<close> sets the state up, once the last context of a kind has arrived.\<close>

definition setup_state ::
  "(string list \<Rightarrow> u64) \<Rightarrow> 'g Rng \<Rightarrow> u64 \<Rightarrow> (nat \<Rightarrow> string) \<Rightarrow> ContextType \<Rightarrow> TransferState option \<Rightarrow>
   ConnectState \<Rightarrow> (ConnectError, unit) result \<times> ConnectState" where
  "setup_state H R seed U ty transfer st =
     (case transfer of
        Some t \<Rightarrow> finish_transfer H R seed U t st
      | None \<Rightarrow>
          (if shuffling st \<and> ty = DefaultContext then shuffle_new H R seed st
           else (case get_context st (active_context st) of
                   Inr ctx \<Rightarrow>
                     (if index_track (sc_index ctx) = 0 then
                        (let idx = (case find_index_in_context ctx (\<lambda>t. uri t = uri (current_track st)) of
                                      Inr i \<Rightarrow> Some i | Inl _ \<Rightarrow> None)
                         in reset_playback_to_position H idx st)
                      else fill_up_next_tracks H st)
                 | Inl _ \<Rightarrow> fill_up_next_tracks H st)))"

text \<open>Whether the state is set up, the state, and the transfer that still waits.\<close>

definition try_finish ::
  "(string list \<Rightarrow> u64) \<Rightarrow> 'g Rng \<Rightarrow> u64 \<Rightarrow> (nat \<Rightarrow> string) \<Rightarrow> ContextResolver \<Rightarrow> ConnectState \<Rightarrow>
   TransferState option \<Rightarrow> (ResolveError, bool) fallible \<times> ConnectState \<times> TransferState option" where
  "try_finish H R seed U q st transfer =
     (case find_next q of
        None \<Rightarrow> (Ok False, st, transfer)
      | Some (r, _, _) \<Rightarrow>
          (if length (filter (\<lambda>x. update x = update r) (resolver_queue q)) \<noteq> 1 then (Ok False, st, transfer)
           else if update r = DefaultContext \<and> active_context st \<noteq> DefaultContext then (Ok False, st, transfer)
           else
             (let (res, st1) = setup_state H R seed U (update r) transfer st
              in case res of
                   Inl e \<Rightarrow>
                     (if is_panic e then (Err Panic, st1, None)
                      else (Ok True, update_queue_revision H (update_restrictions st1), None))
                 | Inr _ \<Rightarrow> (Ok True, update_queue_revision H (update_restrictions st1), None))))"

end
