(* ===== verification/Dealer_Requests.thy ===== *)
theory Dealer_Requests
  imports Player_Messages
begin

text \<open>
  The commands a dealer request can carry: \<open>core/src/dealer/protocol/request.rs\<close>. Their JSON form is
  read by a library; an endpoint it does not know is kept as the name that stands in the JSON, when
  there is one.
\<close>

record LoggingParams =
  interaction_ids :: "string list option"
  device_identifier :: "string option"
  command_initiated_time :: "64 word option"
  page_instance_ids :: "string list option"
  command_id :: "string option"

record RequestTransferOptions =
  restore_paused :: "string option"
  restore_position :: "string option"
  restore_track :: "string option"
  retain_session :: "string option"

record TransferCommand =
  tc_data :: "TransferState option"
  tc_options :: RequestTransferOptions
  from_device_identifier :: string
  tc_logging_params :: LoggingParams

record SkipTo =
  track_uid :: "string option"
  track_uri :: "string option"
  track_index :: "u32 option"

record ContextPlayerOptionOverrides =
  ov_shuffling_context :: "bool option"
  ov_repeating_context :: "bool option"
  ov_repeating_track :: "bool option"
  ov_playback_speed :: "f32 option"
  ov_modes :: "string \<rightharpoonup> string"

record PlayOptions =
  skip_to :: "SkipTo option"
  player_options_override :: "ContextPlayerOptionOverrides option"
  license :: "string option"
  po_seek_to :: "u32 option"
  always_play_something :: "bool option"
  audio_stream :: "string option"
  initially_paused :: "bool option"
  prefetch_level :: "string option"
  system_initiated :: "bool option"

record PlayCommand =
  pc_context :: Context
  pc_play_origin :: PlayOrigin
  pc_options :: PlayOptions
  pc_logging_params :: LoggingParams

record SeekToCommand =
  seek_value :: u32
  seek_position :: u32
  seek_logging_params :: LoggingParams

record SkipNextCommand =
  skip_track :: "ProvidedTrack option"
  skip_logging_params :: LoggingParams

record SetValueCommand =
  set_value :: bool
  set_logging_params :: LoggingParams

record AddToQueueCommand =
  added_track :: ProvidedTrack
  added_logging_params :: LoggingParams

record SetQueueCommand =
  sq_next_tracks :: "ProvidedTrack list"
  sq_prev_tracks :: "ProvidedTrack list"
  sq_queue_revision :: string
  sq_logging_params :: LoggingParams

record OptionsOptions =
  only_for_local_device :: bool
  override_restrictions :: bool
  oo_system_initiated :: bool

record SetOptionsCommand =
  so_shuffling_context :: "bool option"
  so_repeating_context :: "bool option"
  so_repeating_track :: "bool option"
  so_options :: "OptionsOptions option"
  so_logging_params :: LoggingParams

record UpdateContextCommand =
  uc_context :: Context
  uc_session_id :: "string option"

datatype Command =
    Transfer TransferCommand
  | Play PlayCommand
  | Pause LoggingParams
  | SeekTo SeekToCommand
  | SetShufflingContext SetValueCommand
  | SetRepeatingTrack SetValueCommand
  | SetRepeatingContext SetValueCommand
  | AddToQueue AddToQueueCommand
  | SetQueue SetQueueCommand
  | SetOptions SetOptionsCommand
  | UpdateContext UpdateContextCommand
  | SkipNext SkipNextCommand
  | SkipPrev LoggingParams
  | Resume LoggingParams
  | UnknownEndpoint "string option"

record Request =
  message_id :: u32
  sent_by_device_id :: string
  command :: Command

text \<open>\<open>Display\<close>: the endpoint of a command.\<close>

fun endpoint :: "Command \<Rightarrow> string" where
  "endpoint (Transfer _) = ''transfer''"
| "endpoint (Play _) = ''play''"
| "endpoint (Pause _) = ''pause''"
| "endpoint (SeekTo _) = ''seek_to''"
| "endpoint (SetShufflingContext _) = ''set_shuffling_context''"
| "endpoint (SetRepeatingContext _) = ''set_repeating_context''"
| "endpoint (SetRepeatingTrack _) = ''set_repeating_track''"
| "endpoint (AddToQueue _) = ''add_to_queue''"
| "endpoint (SetQueue _) = ''set_queue''"
| "endpoint (SetOptions _) = ''set_options''"
| "endpoint (UpdateContext _) = ''update_context''"
| "endpoint (SkipNext _) = ''skip_next''"
| "endpoint (SkipPrev _) = ''skip_prev''"
| "endpoint (Resume _) = ''resume''"
| "endpoint (UnknownEndpoint name) = unwrap_or name ''???''"

definition show_command :: "Command \<Rightarrow> string" where
  "show_command c =
     ''endpoint: '' @ (case c of UnknownEndpoint _ \<Rightarrow> ''unknown '' | _ \<Rightarrow> []) @ endpoint c"

end
