(* ===== verification/Spirc.thy ===== *)
theory Spirc
  imports Context_Resolver Dealer_Requests Dealer Player
begin

text \<open>
  The controller of a connect device: \<open>connect/src/spirc.rs\<close> and the requests of
  \<open>connect/src/model.rs\<close>. A task holds the connect state, the resolver and the session, reacts to
  commands of the program, requests and updates of the service and events of the player, and tells
  the player what to do.

  The mixer is a type parameter. Everything else from outside is the environment of a round: clocks,
  uuids, seeds and random draws (numbered by the place that draws them), the answers of the service
  (numbered by the request), parsers. What the task sends is kept in the order of sending: commands
  to the player, requests to the service, replies to the dealer, volumes to the cache. A panic, and
  the end of the process after a change of the account, is \<open>Panic\<close>: nothing handles it. The loop that
  skips tracks need not end, so what calls it has \<open>None\<close> for not returning. Times are milliseconds
  in 64 bits; their differences are taken modulo \<open>2 ^ 64\<close>. Logging is left out.
\<close>

section \<open>Requests of the program\<close>

datatype PlayContext = ContextUri string | ContextTracks "string list"

record LoadOptions =
  lo_shuffle :: bool
  lo_repeat :: bool
  lo_repeat_track :: bool

datatype LoadContextOptions = LoadWith LoadOptions | LoadAutoplay

datatype PlayingTrack = PlayingIndex u32 | PlayingUri string | PlayingUid string

record LoadRequestOptions =
  start_playing :: bool
  seek_to :: u32
  context_options :: "LoadContextOptions option"
  playing_track :: "PlayingTrack option"

record LoadRequest =
  lr_context :: PlayContext
  lr_options :: LoadRequestOptions

definition options_from_overrides :: "ContextPlayerOptionOverrides \<Rightarrow> LoadOptions" where
  "options_from_overrides v =
     \<lparr>lo_shuffle = unwrap_or (ov_shuffling_context v) False,
      lo_repeat = unwrap_or (ov_repeating_context v) False,
      lo_repeat_track = unwrap_or (ov_repeating_track v) False\<rparr>"

definition playing_track_from_skip :: "SkipTo \<Rightarrow> PlayingTrack option" where
  "playing_track_from_skip v =
     (case track_uri v of
        Some u \<Rightarrow> Some (PlayingUri u)
      | None \<Rightarrow>
          (case track_uid v of
             Some u \<Rightarrow> Some (PlayingUid u)
           | None \<Rightarrow> map_option PlayingIndex (track_index v)))"

datatype SpircCommand =
    SpircPlay | SpircPlayPause | SpircPause | SpircPrev | SpircNext | SpircVolumeUp | SpircVolumeDown
  | SpircShutdown | SpircShuffle bool | SpircRepeat bool | SpircRepeatTrack bool | SpircDisconnect bool
  | SpircSetPosition u32 | SpircSetVolume u16 | SpircActivate
  | SpircTransfer "RequestTransferOptions option" | SpircLoad LoadRequest | SpircAddToQueue SpotifyUri

section \<open>Errors\<close>

datatype SpircError = NoData | NoUri string | InvalidUri string | FailedDealerSetup | UnknownSpircEndpoint "string option"

fun spirc_error_kind :: "SpircError \<Rightarrow> ErrorKind" where
  "spirc_error_kind NoData = Unavailable"
| "spirc_error_kind (NoUri _) = Unavailable"
| "spirc_error_kind (InvalidUri _) = Aborted"
| "spirc_error_kind FailedDealerSetup = Aborted"
| "spirc_error_kind (UnknownSpircEndpoint _) = Unimplemented"

datatype SpircCause =
    SpircCause SpircError
  | StateCause Connect_State.ConnectError
  | UriCause SpotifyUriError
  | RequestCause ErrorKind
  | IntCause
  | Utf8StringCause
  | ReplyCause

section \<open>The task\<close>

datatype PutStateReason = PLAYER_STATE_CHANGED | NEW_DEVICE | VOLUME_CHANGED

datatype SpRequest =
    PutConnectState PutStateReason ConnectState
  | PutConnectStateInactive
  | PostTransfer "RequestTransferOptions option"
  | DeleteConnectState

record 'm SpircTask =
  mixer :: 'm
  connect_state :: ConnectState
  connect_established :: bool
  current_request_id :: "u64 option"
  play_status :: SpircPlayStatus
  commands_open :: bool
  context_resolver :: ContextResolver
  emit_set_queue_events :: bool
  shutdown :: bool
  session :: Ap_Session.Session
  transfer_state :: "TransferState option"
  update_volume :: bool
  update_state :: bool
  player_commands :: "PlayerCommand list"
  service_requests :: "SpRequest list"
  sent_replies :: "HandlerReply list"
  saved_volumes :: "u16 list"

record Cluster =
  active_device_id :: string
  cluster_session_id :: string
  transfer_data :: "u8 list"

record ('i, 'm, 'g) SpircEnv =
  unix_ms :: nat
  monotonic_ns :: nat
  rng :: "'g Rng"
  seeds :: "nat \<Rightarrow> u64"
  draws :: "nat \<Rightarrow> nat"
  uuids :: "nat \<Rightarrow> nat \<Rightarrow> nat \<Rightarrow> string"
  queue_hash :: "string list \<Rightarrow> u64"
  spclient :: SpClient
  put_answer :: "nat \<Rightarrow> ErrorKind + u8 list"
  device_id :: string
  autoplay_config :: "bool option"
  has_cache :: bool
  mixer_volume :: "'m \<Rightarrow> u16"
  mixer_set_volume :: "u16 \<Rightarrow> 'm \<Rightarrow> 'm"
  item_duration_ms :: "'i \<Rightarrow> u32"
  parse_cluster :: "u8 list \<Rightarrow> Cluster option"
  parse_transfer :: "u8 list \<Rightarrow> TransferState option"

type_synonym 'm spirc_result = "(SpircCause, unit) fallible \<times> 'm SpircTask"

definition send_player :: "PlayerCommand \<Rightarrow> 'm SpircTask \<Rightarrow> 'm SpircTask" where
  "send_player c s = s\<lparr>player_commands := player_commands s @ [c]\<rparr>"

definition upd_state :: "(ConnectState \<Rightarrow> ConnectState) \<Rightarrow> 'm SpircTask \<Rightarrow> 'm SpircTask" where
  "upd_state f s = s\<lparr>connect_state := f (connect_state s)\<rparr>"

text \<open>A fallible operation of the connect state.\<close>

definition state_op ::
  "(ConnectState \<Rightarrow> (Connect_State.ConnectError, 'a) result \<times> ConnectState) \<Rightarrow> 'm SpircTask \<Rightarrow>
   (SpircCause, 'a) fallible \<times> 'm SpircTask" where
  "state_op f s =
     (let (r, st) = f (connect_state s) in (lift_state StateCause r, s\<lparr>connect_state := st\<rparr>))"

definition resolver_op :: "(ContextResolver \<Rightarrow> ContextResolver) \<Rightarrow> 'm SpircTask \<Rightarrow> 'm SpircTask" where
  "resolver_op f s = s\<lparr>context_resolver := f (context_resolver s)\<rparr>"

text \<open>An error that is only logged.\<close>

definition logged :: "(SpircCause, unit) fallible \<times> 'm SpircTask \<Rightarrow> 'm spirc_result" where
  "logged r = (case r of (Inl (Fail _), s) \<Rightarrow> (Ok (), s) | _ \<Rightarrow> r)"

definition now_ms :: "('i, 'm, 'g) SpircEnv \<Rightarrow> 'm SpircTask \<Rightarrow> 64 word" where
  "now_ms E s = of_nat (unix_ms E) + 1000 * of_int (time_delta (sess_data (session s)))"

text \<open>The answer to the next request to the service.\<close>

definition spclient_request ::
  "('i, 'm, 'g) SpircEnv \<Rightarrow> SpRequest \<Rightarrow> 'm SpircTask \<Rightarrow> (SpircCause, u8 list) fallible \<times> 'm SpircTask" where
  "spclient_request E r s =
     ((case put_answer E (length (service_requests s)) of
         Inl k \<Rightarrow> Err (Fail (RequestCause k))
       | Inr b \<Rightarrow> Ok b), s\<lparr>service_requests := service_requests s @ [r]\<rparr>)"

definition send_with_reason ::
  "('i, 'm, 'g) SpircEnv \<Rightarrow> PutStateReason \<Rightarrow> 'm SpircTask \<Rightarrow> (SpircCause, u8 list) fallible \<times> 'm SpircTask" where
  "send_with_reason E reason s = spclient_request E (PutConnectState reason (connect_state s)) s"

definition notify :: "('i, 'm, 'g) SpircEnv \<Rightarrow> 'm SpircTask \<Rightarrow> 'm spirc_result" where
  "notify E s =
     (let s1 = upd_state (set_status (play_status s)) s;
          s2 = (if Connect_State.is_playing (connect_state s1)
                then upd_state (update_position_in_relation (now_ms E s1)) s1 else s1);
          s3 = upd_state (set_now (now_ms E s2)) s2
      in sr_bind (send_with_reason E PLAYER_STATE_CHANGED s3) (\<lambda>_ s4. (Ok (), s4)))"

definition spirc_set_volume :: "('i, 'm, 'g) SpircEnv \<Rightarrow> u16 \<Rightarrow> 'm SpircTask \<Rightarrow> 'm SpircTask" where
  "spirc_set_volume E v s =
     (if volume (connect_state s) \<noteq> ucast v \<or> mixer_volume E (mixer s) \<noteq> v then
        (let s1 = upd_state (set_volume (ucast v)) (s\<lparr>update_volume := True\<rparr>);
             s2 = s1\<lparr>mixer := mixer_set_volume E v (mixer s1)\<rparr>;
             s3 = (if has_cache E then s2\<lparr>saved_volumes := saved_volumes s2 @ [v]\<rparr> else s2)
         in if is_active (connect_state s3) then send_player (CmdEmitVolumeChangedEvent v) s3 else s3)
      else s)"

section \<open>Playback\<close>

definition emit_set_queue_event :: "'m SpircTask \<Rightarrow> 'm SpircTask" where
  "emit_set_queue_event s =
     (let p = player (connect_state s);
          q = (\<lambda>t. \<lparr>queue_uri = uri t, queue_provider = provider t\<rparr>)
      in if \<not> emit_set_queue_events s then s
         else send_player (CmdEmitSetQueueEvent (context_uri p) (map_option q (track p))
                (map q (next_tracks p)) (map q (prev_tracks p))) s)"

definition handle_stop :: "('i, 'm, 'g) SpircEnv \<Rightarrow> 'm SpircTask \<Rightarrow> 'm spirc_result" where
  "handle_stop E s =
     (let s1 = send_player CmdStop s;
          s2 = upd_state (update_position 0 (now_ms E s1)) s1;
          s3 = upd_state clear_next_tracks s2
      in logged (state_op (reset_playback_to_position (queue_hash E) None) s3))"

definition spirc_load_track ::
  "('i, 'm, 'g) SpircEnv \<Rightarrow> bool \<Rightarrow> u32 \<Rightarrow> 'm SpircTask \<Rightarrow> 'm spirc_result" where
  "spirc_load_track E start position_ms s =
     (if track (player (connect_state s)) = None then handle_stop E s
      else (case from_uri (uri (current_track (connect_state s))) of
              Inl e \<Rightarrow> (Err (Fail (UriCause e)), s)
            | Inr i \<Rightarrow>
                (let s1 = send_player (CmdLoad i start position_ms) s;
                     s2 = upd_state (update_position position_ms (now_ms E s1)) s1;
                     s3 = s2\<lparr>play_status := (if start then LoadingPlay position_ms else LoadingPause position_ms)\<rparr>
                 in (Ok (), upd_state (set_status (play_status s3)) s3))))"

definition spirc_handle_play :: "('i, 'm, 'g) SpircEnv \<Rightarrow> 'm SpircTask \<Rightarrow> 'm SpircTask" where
  "spirc_handle_play E s =
     (case play_status s of
        Paused position_ms preloading \<Rightarrow>
          (let s1 = send_player CmdPlay s;
               s2 = upd_state (update_position position_ms (now_ms E s1)) s1;
               s3 = s2\<lparr>play_status := Playing (now_ms E s2 - ucast position_ms) preloading\<rparr>
           in spirc_set_volume E (mixer_volume E (mixer s3)) s3)
      | LoadingPause position_ms \<Rightarrow>
          (let s1 = (send_player CmdPlay s)\<lparr>play_status := LoadingPlay position_ms\<rparr>
           in spirc_set_volume E (mixer_volume E (mixer s1)) s1)
      | _ \<Rightarrow> s)"

definition spirc_handle_pause :: "('i, 'm, 'g) SpircEnv \<Rightarrow> 'm SpircTask \<Rightarrow> 'm SpircTask" where
  "spirc_handle_pause E s =
     (case play_status s of
        Playing nominal_start_time preloading \<Rightarrow>
          (let s1 = send_player CmdPause s;
               position_ms = ucast (now_ms E s1 - nominal_start_time);
               s2 = upd_state (update_position position_ms (now_ms E s1)) s1
           in s2\<lparr>play_status := Paused position_ms preloading\<rparr>)
      | LoadingPlay position_ms \<Rightarrow> (send_player CmdPause s)\<lparr>play_status := LoadingPause position_ms\<rparr>
      | _ \<Rightarrow> s)"

definition handle_play_pause :: "('i, 'm, 'g) SpircEnv \<Rightarrow> 'm SpircTask \<Rightarrow> 'm SpircTask" where
  "handle_play_pause E s =
     (case play_status s of
        Paused _ _ \<Rightarrow> spirc_handle_play E s
      | LoadingPause _ \<Rightarrow> spirc_handle_play E s
      | Playing _ _ \<Rightarrow> spirc_handle_pause E s
      | LoadingPlay _ \<Rightarrow> spirc_handle_pause E s
      | Stopped \<Rightarrow> s)"

definition handle_seek :: "('i, 'm, 'g) SpircEnv \<Rightarrow> u32 \<Rightarrow> 'm SpircTask \<Rightarrow> 'm SpircTask" where
  "handle_seek E position_ms s =
     (if int (unat position_ms) > sint (duration (player (connect_state s))) then s
      else
        (let s1 = upd_state (update_position position_ms (now_ms E s)) s;
             s2 = send_player (CmdSeek position_ms) s1;
             now = now_ms E s2
         in s2\<lparr>play_status :=
                 (case play_status s2 of
                    Stopped \<Rightarrow> Stopped
                  | LoadingPause _ \<Rightarrow> LoadingPause position_ms
                  | LoadingPlay _ \<Rightarrow> LoadingPlay position_ms
                  | Paused _ preloading \<Rightarrow> Paused position_ms preloading
                  | Playing _ preloading \<Rightarrow> Playing (now - ucast position_ms) preloading)\<rparr>))"

definition spirc_handle_shuffle :: "('i, 'm, 'g) SpircEnv \<Rightarrow> bool \<Rightarrow> 'm SpircTask \<Rightarrow> 'm spirc_result" where
  "spirc_handle_shuffle E b s =
     state_op (handle_shuffle (queue_hash E) (rng E) (seeds E 0) b) (send_player (CmdEmitShuffleChangedEvent b) s)"

definition handle_repeat_context :: "('i, 'm, 'g) SpircEnv \<Rightarrow> bool \<Rightarrow> 'm SpircTask \<Rightarrow> 'm spirc_result" where
  "handle_repeat_context E b s =
     state_op (handle_set_repeat_context (queue_hash E) b)
       (send_player (CmdEmitRepeatChangedEvent b (repeat_track (connect_state s))) s)"

definition handle_repeat_track :: "bool \<Rightarrow> 'm SpircTask \<Rightarrow> 'm SpircTask" where
  "handle_repeat_track b s =
     upd_state (set_repeat_track b) (send_player (CmdEmitRepeatChangedEvent (repeat_context (connect_state s)) b) s)"

definition handle_preload_next_track :: "'m SpircTask \<Rightarrow> 'm SpircTask" where
  "handle_preload_next_track s =
     (let s1 = s\<lparr>play_status :=
                   (case play_status s of
                      Paused position_ms _ \<Rightarrow> Paused position_ms True
                    | Playing nominal_start_time _ \<Rightarrow> Playing nominal_start_time True
                    | st \<Rightarrow> st)\<rparr>
      in case preview_next_track (connect_state s1) of
           Some i \<Rightarrow> send_player (CmdPreload i) s1
         | None \<Rightarrow> s1)"

definition handle_unavailable :: "('i, 'm, 'g) SpircEnv \<Rightarrow> SpotifyUri \<Rightarrow> 'm SpircTask \<Rightarrow> 'm spirc_result" where
  "handle_unavailable E i s =
     sr_bind (state_op (mark_unavailable (queue_hash E) i) s) (\<lambda>_ s1. (Ok (), handle_preload_next_track s1))"

definition CONTEXT_FETCH_THRESHOLD :: nat where
  "CONTEXT_FETCH_THRESHOLD = 2"

definition add_autoplay_resolving_when_required ::
  "('i, 'm, 'g) SpircEnv \<Rightarrow> 'm SpircTask \<Rightarrow> 'm SpircTask" where
  "add_autoplay_resolving_when_required E s =
     (let st = connect_state s; current = context_uri (player st)
      in if \<not> has_next_tracks st (Some CONTEXT_FETCH_THRESHOLD) \<and> autoplay (autoplay_config E) (session s) \<and>
            current \<noteq> [] then
           (let has_tracks = (case get_context st AutoplayContext of
                                Inr c \<Rightarrow> track_list c \<noteq> [] | Inl _ \<Rightarrow> False)
            in resolver_op (resolver_add (monotonic_ns E)
                 (resolve_from_uri current (uri (current_track st)) AutoplayContext
                    (if has_tracks then Append else Replace))) s)
         else s)"

text \<open>The loop of \<open>handle_next\<close>: whether there is a next track, when the loop ends.\<close>

partial_function (option) skip_loop ::
  "(string list \<Rightarrow> u64) \<Rightarrow> string option \<Rightarrow> ConnectState \<Rightarrow>
   ((Connect_State.ConnectError, bool) result \<times> ConnectState) option" where
  "skip_loop H target st =
     (case next_track H st of
        (Inl e, st1) \<Rightarrow> Some (Inl e, st1)
      | (Inr idx, st1) \<Rightarrow>
          (if target \<noteq> None \<and> target \<noteq> Some (uri (current_track st1)) then skip_loop H target st1
           else Some (Inr (idx \<noteq> None), st1)))"

definition handle_next ::
  "('i, 'm, 'g) SpircEnv \<Rightarrow> string option \<Rightarrow> 'm SpircTask \<Rightarrow> 'm spirc_result option" where
  "handle_next E target s =
     (let continue_playing = Connect_State.is_playing (connect_state s);
          finish = (\<lambda>has_next_track s1.
             if has_next_track
             then spirc_load_track E continue_playing 0 (add_autoplay_resolving_when_required E s1)
             else handle_stop E s1)
      in if target = Some (uri (current_track (connect_state s))) then Some (finish True s)
         else (case skip_loop (queue_hash E) target (connect_state s) of
                 None \<Rightarrow> None
               | Some (r, st) \<Rightarrow>
                   Some (sr_bind (lift_state StateCause r, s\<lparr>connect_state := st\<rparr>) finish)))"

definition spirc_position :: "('i, 'm, 'g) SpircEnv \<Rightarrow> 'm SpircTask \<Rightarrow> u32" where
  "spirc_position E s =
     (case play_status s of
        Stopped \<Rightarrow> 0
      | LoadingPlay position_ms \<Rightarrow> position_ms
      | LoadingPause position_ms \<Rightarrow> position_ms
      | Paused position_ms _ \<Rightarrow> position_ms
      | Playing nominal_start_time _ \<Rightarrow> ucast (now_ms E s - nominal_start_time))"

definition handle_prev :: "('i, 'm, 'g) SpircEnv \<Rightarrow> 'm SpircTask \<Rightarrow> 'm spirc_result" where
  "handle_prev E s =
     (if spirc_position E s < 3000 then
        (let repeat = repeat_context (connect_state s)
         in sr_bind (state_op (prev_track (queue_hash E)) s) (\<lambda>t s1.
              case t of
                None \<Rightarrow>
                  sr_bind (state_op (reset_playback_to_position (queue_hash E) None) s1) (\<lambda>_ s2.
                    if repeat then (Ok (), s2) else handle_stop E s2)
              | Some _ \<Rightarrow> spirc_load_track E (Connect_State.is_playing (connect_state s1)) 0 s1))
      else (Ok (), handle_seek E 0 s))"

text \<open>The volume of the device as a \<open>u16\<close>, stepped with saturation.\<close>

definition handle_volume_up :: "('i, 'm, 'g) SpircEnv \<Rightarrow> 'm SpircTask \<Rightarrow> 'm SpircTask" where
  "handle_volume_up E s =
     (let v = ucast (volume (connect_state s)) :: u16; step = volume_step_size (connect_state s)
      in spirc_set_volume E (if unat v + unat step < 2 ^ 16 then v + step else 0xFFFF) s)"

definition handle_volume_down :: "('i, 'm, 'g) SpircEnv \<Rightarrow> 'm SpircTask \<Rightarrow> 'm SpircTask" where
  "handle_volume_down E s =
     (let v = ucast (volume (connect_state s)) :: u16; step = volume_step_size (connect_state s)
      in spirc_set_volume E (if step \<le> v then v - step else 0) s)"

section \<open>Contexts\<close>

text \<open>Whether the state has been set up from the context that was resolved.\<close>

definition handle_next_context ::
  "('i, 'm, 'g) SpircEnv \<Rightarrow> (ResolveError, Context) result \<Rightarrow> 'm SpircTask \<Rightarrow>
   (SpircCause, bool) fallible \<times> 'm SpircTask" where
  "handle_next_context E next_context s =
     (case next_context of
        Inl _ \<Rightarrow>
          (Ok False, resolver_op remove_used_and_invalid (resolver_op (mark_next_unavailable (monotonic_ns E)) s))
      | Inr c \<Rightarrow>
          (case apply_next_context (uuids E 0) (context_resolver s) c (connect_state s) of
             (Inl Panic, st) \<Rightarrow> (Err Panic, s\<lparr>connect_state := st\<rparr>)
           | (r, st) \<Rightarrow>
               (let s1 = s\<lparr>connect_state := st\<rparr>;
                    s2 = (case r of
                            Inr (Some remaining) \<Rightarrow> resolver_op (resolver_add_list (monotonic_ns E) remaining) s1
                          | _ \<Rightarrow> s1)
                in case try_finish (queue_hash E) (rng E) (seeds E 1) (uuids E 2 0) (context_resolver s2)
                          (connect_state s2) (transfer_state s2) of
                     (Inl _, st3, tr3) \<Rightarrow> (Err Panic, s2\<lparr>connect_state := st3, transfer_state := tr3\<rparr>)
                   | (Inr finished, st3, tr3) \<Rightarrow>
                       (let s3 = s2\<lparr>connect_state := st3, transfer_state := tr3\<rparr>;
                            s4 = (if finished
                                  then emit_set_queue_event (add_autoplay_resolving_when_required E s3) else s3)
                        in (Ok finished, resolver_op remove_used_and_invalid s4)))))"

definition handle_activate :: "('i, 'm, 'g) SpircEnv \<Rightarrow> 'm SpircTask \<Rightarrow> 'm SpircTask" where
  "handle_activate E s =
     (let s1 = upd_state (set_active (of_nat (unix_ms E)) True) s;
          d = sess_data (session s1); st = connect_state s1
      in s1\<lparr>player_commands := player_commands s1 @
          [CmdEmitSessionConnectedEvent (connection_id d) (canonical_username (user_data d)),
           CmdEmitSessionClientChangedEvent (client_id d) (client_name d) (client_brand_name d) (client_model_name d),
           CmdEmitVolumeChangedEvent (ucast (volume st)),
           CmdEmitAutoPlayChangedEvent (autoplay (autoplay_config E) (session s1)),
           CmdEmitFilterExplicitContentChangedEvent (filter_explicit_content (session s1)),
           CmdEmitShuffleChangedEvent (shuffling st),
           CmdEmitRepeatChangedEvent (repeat_context st) (repeat_track st)]\<rparr>)"

definition load_context_from_uri ::
  "('i, 'm, 'g) SpircEnv \<Rightarrow> string \<Rightarrow> ContextPage option \<Rightarrow> bool \<Rightarrow> 'm SpircTask \<Rightarrow> 'm spirc_result" where
  "load_context_from_uri E u page auto s =
     (let s1 = (if is_active (connect_state s) then s else handle_activate E s);
          update_context = (if auto then AutoplayContext else DefaultContext);
          s2 = upd_state (set_active_context update_context) s1
      in case (case page of Some p \<Rightarrow> find_valid_uri (Some u) (Some p) | None \<Rightarrow> Some u) of
           None \<Rightarrow> (Err (Fail (SpircCause (InvalidUri u))), s2)
         | Some fb \<Rightarrow>
             (if context_uri (player (connect_state s2)) = u \<and> fb = u then (Ok (), s2)
              else
                (let s3 = resolver_op resolver_clear s2;
                     s4 = resolver_op (resolver_add (monotonic_ns E) (resolve_from_uri u fb update_context Replace)) s3;
                     c = get_next_context (spclient E) [] (context_resolver s4)
                 in sr_bind (handle_next_context E c s4) (\<lambda>_ s5. (Ok (), s5)))))"

definition WEB_API_URI :: string where
  "WEB_API_URI = ''spotify:web-api''"

definition load_context_from_tracks ::
  "('i, 'm, 'g) SpircEnv \<Rightarrow> ContextPage \<Rightarrow> 'm SpircTask \<Rightarrow> 'm spirc_result" where
  "load_context_from_tracks E page s =
     (let ctx = context_new\<lparr>c_uri := Some WEB_API_URI, c_url := Some (''context://'' @ WEB_API_URI), c_pages := [page]\<rparr>
      in sr_bind (state_op (update_context (uuids E 3) ctx DefaultContext) s) (\<lambda>_ s1.
           (Ok (), emit_set_queue_event s1)))"

text \<open>The position in the context a load starts at; an index that cannot be found is replaced.\<close>

definition load_index ::
  "usize option \<Rightarrow> PlayingTrack option \<Rightarrow> ConnectState \<Rightarrow> (Connect_State.ConnectError, usize option) result" where
  "load_index fallback_index playing st =
     (let found = (\<lambda>r. case r of Inr i \<Rightarrow> Some i | Inl _ \<Rightarrow> Some (unwrap_or fallback_index 0))
      in case playing of
           None \<Rightarrow> Ok None
         | Some (PlayingIndex i) \<Rightarrow> Ok (Some (unat i))
         | Some (PlayingUri u) \<Rightarrow>
             and_then (get_context st DefaultContext) (\<lambda>ctx. Ok (found (find_index_in_context ctx (\<lambda>t. uri t = u))))
         | Some (PlayingUid u) \<Rightarrow>
             and_then (get_context st DefaultContext) (\<lambda>ctx. Ok (found (find_index_in_context ctx (\<lambda>t. uid t = u)))))"

definition load_options :: "LoadContextOptions option \<Rightarrow> ConnectState \<Rightarrow> ConnectState" where
  "load_options opts st =
     (case opts of
        Some (LoadWith opt) \<Rightarrow>
          set_repeat_track (lo_repeat_track opt) (set_repeat_context (lo_repeat opt) (set_shuffle (lo_shuffle opt) st))
      | _ \<Rightarrow> st)"

definition load_shuffled :: "LoadContextOptions option \<Rightarrow> bool" where
  "load_shuffled opts = (case opts of Some (LoadWith opt) \<Rightarrow> lo_shuffle opt | _ \<Rightarrow> False)"

text \<open>The part of \<open>handle_load\<close> that places the current track.\<close>

definition load_position ::
  "('i, 'm, 'g) SpircEnv \<Rightarrow> bool \<Rightarrow> usize option \<Rightarrow> 'm SpircTask \<Rightarrow> 'm spirc_result" where
  "load_position E shuffled pos s =
     (if shuffled then
        sr_bind (case pos of
                   Some i \<Rightarrow> state_op (set_current_track i) s
                 | None \<Rightarrow> state_op (set_current_track_random (draws E)) s) (\<lambda>_ s1.
          if has_next (context_resolver s1) then (Ok (), upd_state (update_queue_revision (queue_hash E)) s1)
          else sr_bind (state_op (shuffle_new (queue_hash E) (rng E) (seeds E 2)) s1) (\<lambda>_ s2.
                 (Ok (), add_autoplay_resolving_when_required E s2)))
      else
        sr_bind (state_op (set_current_track (unwrap_or pos 0)) s) (\<lambda>_ s1.
        sr_bind (state_op (reset_playback_to_position (queue_hash E) pos) s1) (\<lambda>_ s2.
        (Ok (), add_autoplay_resolving_when_required E s2))))"

definition handle_load ::
  "('i, 'm, 'g) SpircEnv \<Rightarrow> LoadRequest \<Rightarrow> ContextPage option \<Rightarrow> usize option \<Rightarrow> 'm SpircTask \<Rightarrow> 'm spirc_result" where
  "handle_load E cmd page fallback_index s =
     (let opts = lr_options cmd;
          s1 = upd_state (reset_context
                 (case lr_context cmd of ContextUri u \<Rightarrow> WhenDifferent u | ContextTracks _ \<Rightarrow> Completely)) s;
          s2 = upd_state reset_options s1;
          auto = (context_options opts = Some LoadAutoplay)
      in sr_bind (case lr_context cmd of
                    ContextUri u \<Rightarrow> load_context_from_uri E u page auto s2
                  | ContextTracks uris \<Rightarrow> load_context_from_tracks E (page_from_uris uris) s2) (\<lambda>_ s3.
         let s4 = upd_state (set_active_context DefaultContext) s3;
             s5 = upd_state (\<lambda>st. snd (merge_context page st)) s4;
             s6 = upd_state (\<lambda>st. clear_restrictions (clear_next_tracks st)) s5
         in case load_index fallback_index (playing_track opts) (connect_state s6) of
              Inl e \<Rightarrow> (lift_state StateCause (Inl e), s6)
            | Inr pos \<Rightarrow>
                sr_bind (load_position E (load_shuffled (context_options opts)) pos
                           (upd_state (load_options (context_options opts)) s6)) (\<lambda>_ s7.
                if track (player (connect_state s7)) \<noteq> None
                then spirc_load_track E (start_playing opts) (seek_to opts) s7
                else handle_stop E s7)))"

definition handle_disconnect :: "('i, 'm, 'g) SpircEnv \<Rightarrow> 'm SpircTask \<Rightarrow> 'm spirc_result" where
  "handle_disconnect E s =
     (let s1 = (resolver_op resolver_clear s)\<lparr>play_status := Stopped\<rparr>;
          s2 = upd_state (update_position_in_relation (now_ms E s1)) s1
      in sr_bind (notify E s2) (\<lambda>_ s3.
         sr_bind (spclient_request E PutConnectStateInactive
                    (upd_state (became_inactive (of_nat (unix_ms E))) s3)) (\<lambda>_ s4.
         (Ok (), send_player (CmdEmitSessionDisconnectedEvent (connection_id (sess_data (session s4)))
                   (canonical_username (user_data (sess_data (session s4))))) s4))))"

section \<open>Transfers\<close>

text \<open>The position to continue at: a track that went on playing has advanced since its time stamp.\<close>

definition transfer_position :: "Playback \<Rightarrow> 64 word \<Rightarrow> int" where
  "transfer_position pb now =
     (case pb_position_as_of_timestamp pb of
        Some p \<Rightarrow>
          (if unwrap_or (pb_is_paused pb) False then sint p
           else if sint p > 0 then sint p + sint (now - unwrap_or (pb_timestamp pb) 0)
           else 0)
      | None \<Rightarrow> 0)"

text \<open>The context a transfer continues in, from its uri or its tracks; its uri may be unknown.\<close>

definition transfer_context ::
  "('i, 'm, 'g) SpircEnv \<Rightarrow> string option \<Rightarrow> ContextTrack list \<Rightarrow> string \<Rightarrow> 'm SpircTask \<Rightarrow>
   (SpircCause, string option) fallible \<times> 'm SpircTask" where
  "transfer_context E ctx_uri all_tracks fb s =
     (case ctx_uri of
        Some u \<Rightarrow>
          (Ok (Some u), resolver_op (resolver_add (monotonic_ns E) (resolve_from_uri u fb DefaultContext Replace)) s)
      | None \<Rightarrow>
          (if all_tracks \<noteq> []
           then sr_bind (load_context_from_tracks E (page_from_tracks all_tracks) s) (\<lambda>_ s1. (Ok None, s1))
           else (Ok (Some fb), s)))"

text \<open>What is left of a transfer once its context is known: wait for it, or set the position.\<close>

definition transfer_rest ::
  "('i, 'm, 'g) SpircEnv \<Rightarrow> bool \<Rightarrow> TransferState \<Rightarrow> 'm SpircTask \<Rightarrow> 'm spirc_result" where
  "transfer_rest E load_from_context_uri t s =
     (if load_from_context_uri then (Ok (), s\<lparr>transfer_state := Some t\<rparr>)
      else (case get_context (connect_state s) DefaultContext of
              Inl _ \<Rightarrow> (Ok (), s\<lparr>transfer_state := Some t\<rparr>)
            | Inr ctx \<Rightarrow>
                (case find_index_in_context ctx (\<lambda>pt. uri pt = uri (current_track (connect_state s))) of
                   Inl e \<Rightarrow> (lift_state StateCause (Inl e), s)
                 | Inr idx \<Rightarrow> state_op (reset_playback_to_position (queue_hash E) (Some idx)) s)))"

definition handle_transfer :: "('i, 'm, 'g) SpircEnv \<Rightarrow> TransferState \<Rightarrow> 'm SpircTask \<Rightarrow> 'm spirc_result" where
  "handle_transfer E t s =
     (let ctx = session_context (session_of t)
      in case c_uri ctx of
           None \<Rightarrow> (Err (Fail (SpircCause (NoUri ''transfer context''))), s)
         | Some u \<Rightarrow>
             (let ctx_uri0 = (if u = ''-'' \<or> u = [] then None else Some u);
                  s1 = upd_state (reset_context (case ctx_uri0 of Some c \<Rightarrow> WhenDifferent c | None \<Rightarrow> Completely)) s;
                  s2 = (case current_track_from_transfer (uuids E 1 0 0) (connect_state s1) t of
                          Inr tr \<Rightarrow> upd_state (set_track tr) s1 | Inl _ \<Rightarrow> s1);
                  auto = is_autoplay (current_track (connect_state s2));
                  ctx_uri1 = (if auto then map_option (str_replace ''station:'' []) ctx_uri0 else ctx_uri0);
                  fb = uri (current_track (connect_state s2))
              in sr_bind (transfer_context E ctx_uri1 (concat (map page_tracks (c_pages ctx))) fb s2) (\<lambda>ctx_uri s3.
                 let s4 = handle_activate E s3;
                     now = now_ms E s4;
                     (t1, st) = handle_initial_transfer (queue_hash E) t ctx_uri (connect_state s4);
                     s5 = s4\<lparr>connect_state := st\<lparr>active_context := (if auto then AutoplayContext else DefaultContext)\<rparr>\<rparr>;
                     position = transfer_position (playback_of t1) now;
                     s6 = (if is_autoplay (current_track (connect_state s5)) \<or> auto then
                             (case ctx_uri of
                                Some c \<Rightarrow> resolver_op (resolver_add (monotonic_ns E)
                                            (resolve_from_uri c fb AutoplayContext Replace)) s5
                              | None \<Rightarrow> s5)
                           else s5)
                 in sr_bind (transfer_rest E (ctx_uri1 \<noteq> None) t1 s6) (\<lambda>_ s7.
                    if 0 \<le> position \<and> position < 2 ^ 32
                    then spirc_load_track E (\<not> unwrap_or (pb_is_paused (playback_of t1)) False) (of_int position) s7
                    else (Err (Fail IntCause), s7)))))"

section \<open>Updates of the service\<close>

definition handle_connection_id_update ::
  "('i, 'm, 'g) SpircEnv \<Rightarrow> string \<Rightarrow> 'm SpircTask \<Rightarrow> 'm spirc_result" where
  "handle_connection_id_update E cid s =
     (let s1 = s\<lparr>session := set_connection_id cid (session s)\<rparr>;
          (r, s2) = send_with_reason E NEW_DEVICE s1
      in case (case r of Inr b \<Rightarrow> parse_cluster E b | Inl _ \<Rightarrow> None) of
           None \<Rightarrow> (Err (Fail (SpircCause FailedDealerSetup)), s2)
         | Some c \<Rightarrow>
             (let s3 = s2\<lparr>connect_established := True\<rparr>;
                  same_session = (cluster_session_id c = Ap_Session.session_id (sess_data (session s3)) \<or>
                                  cluster_session_id c = [])
              in if active_device_id c \<noteq> [] \<or> \<not> same_session then (Ok (), s3)
                 else if transfer_data c = [] then (Ok (), s3)
                 else (case parse_transfer E (transfer_data c) of
                         Some t \<Rightarrow> handle_transfer E t s3
                       | None \<Rightarrow> (Ok (), s3))))"

text \<open>A change of the attributes ends the process when the account is not a premium one.\<close>

definition handle_user_attributes_update ::
  "(string \<rightharpoonup> string) \<Rightarrow> 'm SpircTask \<Rightarrow> 'm spirc_result" where
  "handle_user_attributes_update pairs s =
     (let (r, ses) = set_user_attributes pairs (session s)
      in ((case r of Inl _ \<Rightarrow> Err Panic | Inr _ \<Rightarrow> Ok ()), s\<lparr>session := ses\<rparr>))"

definition toggled :: "string \<Rightarrow> string" where
  "toggled old = (if old = ''0'' then ''1'' else if old = ''1'' then ''0'' else old)"

definition mutate_attribute :: "('i, 'm, 'g) SpircEnv \<Rightarrow> string \<Rightarrow> 'm SpircTask \<Rightarrow> 'm spirc_result" where
  "mutate_attribute E key s =
     (if key = ''autoplay'' \<and> autoplay_config E \<noteq> None then (Ok (), s)
      else (case get_user_attribute key (session s) of
              None \<Rightarrow> (Ok (), s)
            | Some old \<Rightarrow>
                (let new = toggled old;
                     (r, ses) = set_user_attribute key new (session s)
                 in case r of
                      Inl _ \<Rightarrow> (Err Panic, s\<lparr>session := ses\<rparr>)
                    | Inr _ \<Rightarrow>
                        (let s1 = s\<lparr>session := ses\<rparr>;
                             s2 = (if key = ''filter-explicit-content'' \<and> new = ''1''
                                   then send_player (CmdEmitFilterExplicitContentChangedEvent (new = ''1'')) s1 else s1);
                             s3 = (if key = ''autoplay'' \<and> old \<noteq> new
                                   then add_autoplay_resolving_when_required E
                                          (send_player (CmdEmitAutoPlayChangedEvent (new = ''1'')) s2)
                                   else s2)
                         in (Ok (), s3)))))"

fun handle_user_attributes_mutation ::
  "('i, 'm, 'g) SpircEnv \<Rightarrow> string list \<Rightarrow> 'm SpircTask \<Rightarrow> 'm spirc_result" where
  "handle_user_attributes_mutation E [] s = (Ok (), s)"
| "handle_user_attributes_mutation E (key # keys) s =
     sr_bind (mutate_attribute E key s) (\<lambda>_ s1. handle_user_attributes_mutation E keys s1)"

definition handle_cluster_update ::
  "('i, 'm, 'g) SpircEnv \<Rightarrow> Cluster option \<Rightarrow> 'm SpircTask \<Rightarrow> 'm spirc_result" where
  "handle_cluster_update E cluster s =
     (case cluster of
        Some c \<Rightarrow>
          (if is_active (connect_state s) \<and> active_device_id c \<noteq> device_id E then
             sr_bind (handle_disconnect E s) (\<lambda>_ s1. handle_stop E s1)
           else if is_active (connect_state s) then (Ok (), s\<lparr>update_state := True\<rparr>)
           else (Ok (), s))
      | None \<Rightarrow>
          (if is_active (connect_state s) then
             sr_bind (spclient_request E PutConnectStateInactive
                        (upd_state (became_inactive (of_nat (unix_ms E))) s)) (\<lambda>_ s1. (Ok (), s1))
           else (Ok (), s)))"

definition handle_playlist_modification ::
  "('i, 'm, 'g) SpircEnv \<Rightarrow> u8 list option \<Rightarrow> 'm SpircTask \<Rightarrow> 'm spirc_result" where
  "handle_playlist_modification E modified s =
     (case modified of
        None \<Rightarrow> (Err (Fail (SpircCause (NoUri ''playlist modification''))), s)
      | Some b \<Rightarrow>
          (if \<not> utf8_valid b then (Err (Fail Utf8StringCause), s)
           else if context_uri (player (connect_state s)) \<noteq> bytes_str b then (Ok (), s)
           else (Ok (), resolver_op (resolver_add (monotonic_ns E)
                  (resolve_from_uri (bytes_str b) (uri (current_track (connect_state s))) DefaultContext Replace)) s)))"

text \<open>A session update that parsed, with the id of its session and the active device, if it has one.\<close>

definition handle_session_update ::
  "('i, 'm, 'g) SpircEnv \<Rightarrow> (string \<times> string option) option \<Rightarrow> 'm SpircTask \<Rightarrow> 'm SpircTask" where
  "handle_session_update E ses s =
     (case ses of
        Some (sid, active_device) \<Rightarrow>
          (if active_device = Some (device_id E) \<and> Ap_Session.session_id (sess_data (session s)) \<noteq> sid
           then upd_state (Connect_State.set_session_id sid) (s\<lparr>session := Ap_Session.set_session_id sid (session s)\<rparr>)
           else s)
      | None \<Rightarrow> s)"

section \<open>Requests of the dealer\<close>

definition play_request :: "('i, 'm, 'g) SpircEnv \<Rightarrow> PlayCommand \<Rightarrow> 'm SpircTask \<Rightarrow> 'm spirc_result" where
  "play_request E play s =
     (let s1 = (if is_active (connect_state s) then s else handle_activate E s);
          pages = c_pages (pc_context play); opts = pc_options play;
          cmd = (\<lambda>c. \<lparr>lr_context = c,
                  lr_options = \<lparr>start_playing = True, seek_to = unwrap_or (po_seek_to opts) 0,
                    context_options = map_option (\<lambda>v. LoadWith (options_from_overrides v)) (player_options_override opts),
                    playing_track = Option.bind (skip_to opts) playing_track_from_skip\<rparr>\<rparr>);
          fallback_index = map_option unat (Option.bind (skip_to opts) track_index)
      in case (case c_uri (pc_context play) of
                 Some u \<Rightarrow> Some (ContextUri u)
               | None \<Rightarrow> if pages \<noteq> [] then Some (ContextTracks (List.map_filter ct_uri (concat (map page_tracks pages))))
                         else None) of
           None \<Rightarrow> (Err (Fail (SpircCause (NoUri ''context''))), s1)
         | Some c \<Rightarrow>
             sr_bind (handle_load E (cmd c) (if pages = [] then None else Some (last pages)) fallback_index s1) (\<lambda>_ s2.
               (Ok (), upd_state (set_origin (pc_play_origin play)) s2)))"

definition set_options :: "('i, 'm, 'g) SpircEnv \<Rightarrow> SetOptionsCommand \<Rightarrow> 'm SpircTask \<Rightarrow> 'm spirc_result" where
  "set_options E opts s =
     sr_bind (case so_repeating_context opts of Some b \<Rightarrow> handle_repeat_context E b s | None \<Rightarrow> (Ok (), s)) (\<lambda>_ s1.
       let s2 = (case so_repeating_track opts of Some b \<Rightarrow> handle_repeat_track b s1 | None \<Rightarrow> s1)
       in case so_shuffling_context opts of Some b \<Rightarrow> spirc_handle_shuffle E b s2 | None \<Rightarrow> (Ok (), s2))"

definition update_context_request :: "('i, 'm, 'g) SpircEnv \<Rightarrow> Context \<Rightarrow> 'm SpircTask \<Rightarrow> 'm SpircTask" where
  "update_context_request E c s =
     (if (case c_uri c of Some u \<Rightarrow> u \<noteq> context_uri (player (connect_state s)) | None \<Rightarrow> False) then s
      else resolver_op (resolver_add (monotonic_ns E) (resolve_from_context c DefaultContext Replace)) s)"

text \<open>Most requests end with an update of the state later on.\<close>

definition updating :: "'m spirc_result \<Rightarrow> 'm spirc_result" where
  "updating r = sr_bind r (\<lambda>_ s. (Ok (), s\<lparr>update_state := True\<rparr>))"

definition spirc_handle_request ::
  "('i, 'm, 'g) SpircEnv \<Rightarrow> Command \<Rightarrow> 'm SpircTask \<Rightarrow> 'm spirc_result option" where
  "spirc_handle_request E cmd s =
     (case cmd of
        Transfer tr \<Rightarrow>
          (case tc_data tr of
             None \<Rightarrow> Some (Err (Fail (SpircCause NoData)), s)
           | Some t \<Rightarrow> Some (sr_bind (handle_transfer E t s) (\<lambda>_ s1. notify E s1)))
      | UnknownEndpoint name \<Rightarrow> Some (Err (Fail (SpircCause (UnknownSpircEndpoint name))), s)
      | UpdateContext u \<Rightarrow> Some (Ok (), update_context_request E (uc_context u) s)
      | Play play \<Rightarrow> Some (updating (play_request E play s))
      | Command.Pause _ \<Rightarrow> Some (updating (Ok (), spirc_handle_pause E s))
      | SeekTo seek \<Rightarrow> Some (updating (Ok (), handle_seek E (seek_value seek) s))
      | SetShufflingContext v \<Rightarrow> Some (updating (spirc_handle_shuffle E (set_value v) s))
      | SetRepeatingContext v \<Rightarrow> Some (updating (handle_repeat_context E (set_value v) s))
      | SetRepeatingTrack v \<Rightarrow> Some (updating (Ok (), handle_repeat_track (set_value v) s))
      | AddToQueue a \<Rightarrow>
          Some (updating (Ok (), emit_set_queue_event (upd_state (add_to_queue (queue_hash E) (added_track a) True) s)))
      | SetQueue q \<Rightarrow>
          Some (updating (Ok (), emit_set_queue_event
            (upd_state (handle_set_queue (queue_hash E) (sq_next_tracks q) (sq_prev_tracks q)) s)))
      | SetOptions opts \<Rightarrow> Some (updating (set_options E opts s))
      | SkipNext sk \<Rightarrow> map_option updating (handle_next E (map_option uri (skip_track sk)) s)
      | SkipPrev _ \<Rightarrow> Some (updating (handle_prev E s))
      | Resume _ \<Rightarrow>
          Some (updating (if play_status s = Stopped then spirc_load_track E True 0 s
                          else (Ok (), spirc_handle_play E s))))"

text \<open>The request with its answer; \<open>listening\<close> says whether the dealer still waits for it.\<close>

definition handle_connect_state_request ::
  "('i, 'm, 'g) SpircEnv \<Rightarrow> Request \<Rightarrow> bool \<Rightarrow> 'm SpircTask \<Rightarrow> 'm spirc_result option" where
  "handle_connect_state_request E req listening s =
     map_option (\<lambda>(r, s1).
         let answer = (\<lambda>reply. if listening then (Ok (), s1\<lparr>sent_replies := sent_replies s1 @ [reply]\<rparr>)
                               else (Err (Fail ReplyCause), s1))
         in case r of
              Inr _ \<Rightarrow> answer ReplySuccess
            | Inl (Fail _) \<Rightarrow> answer ReplyFailure
            | Inl Panic \<Rightarrow> (Err Panic, s1))
       (spirc_handle_request E (command req) (upd_state (set_last_command (message_id req) (sent_by_device_id req)) s))"

section \<open>Commands of the program\<close>

text \<open>\<open>Spirc::add_to_queue\<close> takes tracks, episodes, albums and playlists only.\<close>

fun queueable :: "SpotifyUri \<Rightarrow> bool" where
  "queueable (Track _) = True"
| "queueable (Episode _) = True"
| "queueable (Album _) = True"
| "queueable (Playlist _ _) = True"
| "queueable _ = False"

definition spirc_add_to_queue :: "SpotifyUri \<Rightarrow> ErrorKind + SpircCommand" where
  "spirc_add_to_queue u = (if queueable u then Ok (SpircAddToQueue u) else Err InvalidArgument)"

definition handle_add_to_queue :: "('i, 'm, 'g) SpircEnv \<Rightarrow> SpotifyUri \<Rightarrow> 'm SpircTask \<Rightarrow> 'm SpircTask" where
  "handle_add_to_queue E u s =
     (let of_context = (case sp_get_context (spclient E) (to_uri u) of
                          Inr c \<Rightarrow> Some (List.map_filter ct_uri (concat (map page_tracks (c_pages c))))
                        | Inl _ \<Rightarrow> None);
          uris = (case u of
                    Track _ \<Rightarrow> Some [to_uri u]
                  | Episode _ \<Rightarrow> Some [to_uri u]
                  | Album _ \<Rightarrow> of_context
                  | Playlist _ _ \<Rightarrow> of_context
                  | _ \<Rightarrow> None)
      in case uris of
           None \<Rightarrow> s
         | Some us \<Rightarrow>
             emit_set_queue_event (upd_state
               (fold (\<lambda>x. add_to_queue (queue_hash E) (provided_track_new\<lparr>uri := x\<rparr>) True) us) s))"

definition spirc_handle_command ::
  "('i, 'm, 'g) SpircEnv \<Rightarrow> SpircCommand \<Rightarrow> 'm SpircTask \<Rightarrow> 'm spirc_result option" where
  "spirc_handle_command E cmd s =
     (let active = is_active (connect_state s);
          notified = (\<lambda>r. Some (sr_bind r (\<lambda>_ s1. notify E s1)))
      in if cmd = SpircShutdown then
           notified (sr_bind (handle_disconnect E (spirc_handle_pause E s)) (\<lambda>_ s1.
             (Ok (), s1\<lparr>shutdown := True, commands_open := False\<rparr>)))
         else if \<not> active then
           (case cmd of
              SpircTransfer t \<Rightarrow> Some (sr_bind (spclient_request E (PostTransfer t) s) (\<lambda>_ s1. (Ok (), s1)))
            | SpircActivate \<Rightarrow> Some (notify E (handle_activate E s))
            | _ \<Rightarrow> notified (Ok (), s))
         else
           (case cmd of
              SpircDisconnect pause \<Rightarrow> Some (handle_disconnect E (if pause then spirc_handle_pause E s else s))
            | SpircPlay \<Rightarrow> notified (Ok (), spirc_handle_play E s)
            | SpircPlayPause \<Rightarrow> notified (Ok (), handle_play_pause E s)
            | SpircPause \<Rightarrow> notified (Ok (), spirc_handle_pause E s)
            | SpircPrev \<Rightarrow> notified (handle_prev E s)
            | SpircNext \<Rightarrow> Option.bind (handle_next E None s) notified
            | SpircVolumeUp \<Rightarrow> notified (Ok (), handle_volume_up E s)
            | SpircVolumeDown \<Rightarrow> notified (Ok (), handle_volume_down E s)
            | SpircShuffle b \<Rightarrow> notified (spirc_handle_shuffle E b s)
            | SpircRepeat b \<Rightarrow> notified (handle_repeat_context E b s)
            | SpircRepeatTrack b \<Rightarrow> notified (Ok (), handle_repeat_track b s)
            | SpircSetPosition p \<Rightarrow> notified (Ok (), handle_seek E p s)
            | SpircSetVolume v \<Rightarrow> notified (Ok (), spirc_set_volume E v s)
            | SpircLoad l \<Rightarrow> notified (handle_load E l None None s)
            | SpircAddToQueue u \<Rightarrow> notified (Ok (), handle_add_to_queue E u s)
            | _ \<Rightarrow> notified (Ok (), s)))"

section \<open>Events of the player\<close>

text \<open>What an event leaves in the task; \<open>None\<close> when it changes nothing and no update is due.\<close>

definition event_playing :: "('i, 'm, 'g) SpircEnv \<Rightarrow> u32 \<Rightarrow> 'm SpircTask \<Rightarrow> 'm SpircTask option" where
  "event_playing E position_ms s =
     (let new_start = now_ms E s - ucast position_ms;
          moved = upd_state (update_position position_ms (now_ms E s)) s
      in case play_status s of
           Playing nominal_start_time preloading \<Rightarrow>
             (if \<bar>sint (nominal_start_time - new_start)\<bar> > 100
              then Some (moved\<lparr>play_status := Playing new_start preloading\<rparr>) else None)
         | LoadingPlay _ \<Rightarrow> Some (moved\<lparr>play_status := Playing new_start False\<rparr>)
         | LoadingPause _ \<Rightarrow> Some (moved\<lparr>play_status := Playing new_start False\<rparr>)
         | _ \<Rightarrow> None)"

definition event_paused :: "('i, 'm, 'g) SpircEnv \<Rightarrow> u32 \<Rightarrow> 'm SpircTask \<Rightarrow> 'm SpircTask option" where
  "event_paused E position_ms s =
     (if play_status s = Stopped then None
      else Some ((upd_state (update_position position_ms (now_ms E s)) s)\<lparr>play_status := Paused position_ms False\<rparr>))"

definition event_loading :: "('i, 'm, 'g) SpircEnv \<Rightarrow> 'm SpircTask \<Rightarrow> 'm SpircTask" where
  "event_loading E s =
     (let position = (case play_status s of LoadingPlay p \<Rightarrow> p | LoadingPause p \<Rightarrow> p | _ \<Rightarrow> 0)
      in upd_state (update_position position (now_ms E s)) s)"

definition current_event ::
  "('i, 'm, 'g) SpircEnv \<Rightarrow> 'i PlayerEvent \<Rightarrow> 'm SpircTask \<Rightarrow> 'm spirc_result option" where
  "current_event E ev s =
     (let unless = (\<lambda>t. Some (case t of Some s1 \<Rightarrow> updating (Ok (), s1) | None \<Rightarrow> (Ok (), s)))
      in case ev of
           EvEndOfTrack _ _ \<Rightarrow>
             (let st = connect_state s
              in map_option updating (handle_next E (if repeat_track st then Some (uri (current_track st)) else None) s))
         | EvLoading _ _ _ \<Rightarrow> Some (updating (Ok (), event_loading E s))
         | EvSeeked _ _ position_ms \<Rightarrow>
             Some (updating (Ok (), upd_state (update_position position_ms (now_ms E s)) s))
         | EvPlaying _ _ position_ms \<Rightarrow> unless (event_playing E position_ms s)
         | EvPositionCorrection _ _ position_ms \<Rightarrow> unless (event_playing E position_ms s)
         | EvPaused _ _ position_ms \<Rightarrow> unless (event_paused E position_ms s)
         | EvStopped _ _ \<Rightarrow>
             unless (if play_status s = Stopped then None else Some (s\<lparr>play_status := Stopped\<rparr>))
         | EvTimeToPreloadNextTrack _ _ \<Rightarrow> Some (Ok (), handle_preload_next_track s)
         | EvUnavailable _ i \<Rightarrow>
             (case handle_unavailable E i s of
                (Inl e, s1) \<Rightarrow> Some (Inl e, s1)
              | (Inr _, s1) \<Rightarrow>
                  (if uri (current_track (connect_state s1)) = to_uri i
                   then map_option updating (handle_next E None s1)
                   else Some (updating (Ok (), s1))))
         | _ \<Rightarrow> Some (Ok (), s))"

definition handle_player_event ::
  "('i, 'm, 'g) SpircEnv \<Rightarrow> 'i PlayerEvent \<Rightarrow> 'm SpircTask \<Rightarrow> 'm spirc_result option" where
  "handle_player_event E ev s =
     (case ev of
        EvTrackChanged item \<Rightarrow>
          Some (Ok (), (upd_state (update_duration (item_duration_ms E item)) s)\<lparr>update_state := True\<rparr>)
      | EvPlayRequestIdChanged i \<Rightarrow> Some (Ok (), s\<lparr>current_request_id := Some i\<rparr>)
      | _ \<Rightarrow>
          (if get_play_request_id ev \<noteq> None \<and> get_play_request_id ev = current_request_id s
           then current_event E ev s else Some (Ok (), s)))"

section \<open>The task's loop\<close>

text \<open>An item of a stream: the stream has ended, the item could not be parsed, or a value.\<close>

datatype 'a Item = Ended | Unparsed | Received 'a

text \<open>The arms of the \<open>select\<close>.\<close>

datatype 'i SpircArm =
    ArmConnectionId "string Item"
  | ArmCluster "Cluster option Item"
  | ArmRequest "(Request \<times> bool) option"
  | ArmVolume "32 word Item"
  | ArmLogout "unit option"
  | ArmPlaylist "u8 list option Item"
  | ArmAttributes "(string \<rightharpoonup> string) Item"
  | ArmMutation "string list Item"
  | ArmSession "(string \<times> string option) option Item"
  | ArmCommand "SpircCommand option"
  | ArmPlayerEvent "'i PlayerEvent option"
  | ArmStateDelay
  | ArmVolumeDelay
  | ArmContext

definition arm_enabled :: "'i SpircArm \<Rightarrow> 'm SpircTask \<Rightarrow> bool" where
  "arm_enabled a s =
     (case a of
        ArmCommand _ \<Rightarrow> connect_established s
      | ArmStateDelay \<Rightarrow> update_state s
      | ArmVolumeDelay \<Rightarrow> update_volume s
      | ArmContext \<Rightarrow> \<not> update_state s \<and> \<not> update_volume s \<and> has_next (context_resolver s)
      | _ \<Rightarrow> True)"

text \<open>How a round ends: the loop goes on, is left, or the task is gone.\<close>

datatype RoundEnd = Goes_on | Breaks | Dies

definition after_error :: "RoundEnd \<Rightarrow> 'm spirc_result \<Rightarrow> RoundEnd \<times> 'm SpircTask" where
  "after_error e r =
     (case r of (Inr _, s) \<Rightarrow> (Goes_on, s) | (Inl (Fail _), s) \<Rightarrow> (e, s) | (Inl Panic, s) \<Rightarrow> (Dies, s))"

definition round_item ::
  "RoundEnd \<Rightarrow> 'a Item \<Rightarrow> ('a \<Rightarrow> 'm SpircTask \<Rightarrow> 'm spirc_result) \<Rightarrow> 'm SpircTask \<Rightarrow> RoundEnd \<times> 'm SpircTask" where
  "round_item e item f s =
     (case item of Ended \<Rightarrow> (Breaks, s) | Unparsed \<Rightarrow> (Goes_on, s) | Received x \<Rightarrow> after_error e (f x s))"

definition delayed_volume_update :: "('i, 'm, 'g) SpircEnv \<Rightarrow> 'm SpircTask \<Rightarrow> 'm spirc_result" where
  "delayed_volume_update E s =
     (let (_, s1) = send_with_reason E VOLUME_CHANGED (s\<lparr>update_volume := False\<rparr>) in notify E s1)"

definition resolve_next_context :: "('i, 'm, 'g) SpircEnv \<Rightarrow> 'm SpircTask \<Rightarrow> 'm spirc_result" where
  "resolve_next_context E s =
     (let recent = filter (\<lambda>u. \<not> starts_with u ''spotify:local'') (recent_track_uris (connect_state s))
      in sr_bind (handle_next_context E (get_next_context (spclient E) recent (context_resolver s)) s) (\<lambda>finished s1.
           if finished then notify E s1 else (Ok (), s1)))"

definition spirc_round ::
  "('i, 'm, 'g) SpircEnv \<Rightarrow> 'i SpircArm \<Rightarrow> 'm SpircTask \<Rightarrow> (RoundEnd \<times> 'm SpircTask) option" where
  "spirc_round E arm s =
     (case arm of
        ArmConnectionId item \<Rightarrow> Some (round_item Breaks item (handle_connection_id_update E) s)
      | ArmCluster item \<Rightarrow> Some (round_item Goes_on item (handle_cluster_update E) s)
      | ArmRequest req \<Rightarrow>
          (case req of
             None \<Rightarrow> Some (Breaks, s)
           | Some (r, listening) \<Rightarrow> map_option (after_error Goes_on) (handle_connect_state_request E r listening s))
      | ArmVolume item \<Rightarrow>
          Some (round_item Goes_on item (\<lambda>v s.
            if 0 \<le> sint v \<and> sint v < 2 ^ 16 then (Ok (), spirc_set_volume E (ucast v) s) else (Ok (), s)) s)
      | ArmLogout item \<Rightarrow> Some (if item = None then Breaks else Goes_on, s)
      | ArmPlaylist item \<Rightarrow> Some (round_item Goes_on item (handle_playlist_modification E) s)
      | ArmAttributes item \<Rightarrow> Some (round_item Goes_on item handle_user_attributes_update s)
      | ArmMutation item \<Rightarrow> Some (round_item Goes_on item (handle_user_attributes_mutation E) s)
      | ArmSession item \<Rightarrow> Some (round_item Goes_on item (\<lambda>u s. (Ok (), handle_session_update E u s)) s)
      | ArmCommand cmd \<Rightarrow>
          (case cmd of
             None \<Rightarrow> Some (Goes_on, s)
           | Some c \<Rightarrow> map_option (after_error Goes_on) (spirc_handle_command E c s))
      | ArmPlayerEvent ev \<Rightarrow>
          (case ev of
             None \<Rightarrow> Some (Goes_on, s)
           | Some e \<Rightarrow> map_option (after_error Goes_on) (handle_player_event E e s))
      | ArmStateDelay \<Rightarrow> Some (after_error Goes_on (notify E (s\<lparr>update_state := False\<rparr>)))
      | ArmVolumeDelay \<Rightarrow> Some (after_error Goes_on (delayed_volume_update E s))
      | ArmContext \<Rightarrow> Some (after_error Goes_on (resolve_next_context E s)))"

text \<open>The condition of the loop, and what follows it.\<close>

definition spirc_running :: "'m SpircTask \<Rightarrow> bool" where
  "spirc_running s \<longleftrightarrow> \<not> is_invalid (session s) \<and> \<not> shutdown s"

definition run_end :: "('i, 'm, 'g) SpircEnv \<Rightarrow> 'm SpircTask \<Rightarrow> 'm spirc_result" where
  "run_end E s =
     sr_bind (if \<not> shutdown s \<and> is_active (connect_state s) then logged (handle_disconnect E s) else (Ok (), s)) (\<lambda>_ s1.
       (Ok (), snd (spclient_request E DeleteConnectState s1)))"

text \<open>The task \<open>Spirc::new\<close> starts, from the configured volume and the number of volume steps.\<close>

definition spirc_new ::
  "('i, 'm, 'g) SpircEnv \<Rightarrow> u16 \<Rightarrow> u16 \<Rightarrow> bool \<Rightarrow> Ap_Session.Session \<Rightarrow> 'm \<Rightarrow> 'm SpircTask" where
  "spirc_new E initial_volume volume_steps emit_queue ses m =
     (let st = connect_state_new (of_nat (unix_ms E)) initial_volume volume_steps (Ap_Session.session_id (sess_data ses));
          s = \<lparr>mixer = m, connect_state = st, connect_established = False, current_request_id = None,
               play_status = Stopped, commands_open = True, context_resolver = context_resolver_new,
               emit_set_queue_events = emit_queue, shutdown = False, session = ses, transfer_state = None,
               update_volume = False, update_state = False, player_commands = [], service_requests = [],
               sent_replies = [], saved_volumes = []\<rparr>;
          v = volume (connect_state s);
          s1 = upd_state (set_volume 0) s
      in if unat v < 2 ^ 16 then (spirc_set_volume E (ucast v) s1)\<lparr>update_volume := False\<rparr> else s1)"

end
