(* ===== verification/Spirc_Steps.thy ===== *)
theory Spirc_Steps
  imports Spirc
begin

text \<open>
  The controller over the connect state: every round of its loop is a sequence of operations of the
  connect state, so the invariant of that state holds in the controller; and what the controller
  does with commands, events and requests.
\<close>

section \<open>Rounds as sequences of state operations\<close>

definition reaches :: "('i, 'm, 'g) SpircEnv \<Rightarrow> ConnectState \<Rightarrow> ConnectState \<Rightarrow> bool" where
  "reaches E = (connect_step (rng E) (queue_hash E))\<^sup>*\<^sup>*"

named_theorems reach "what keeps the connect state reachable"

lemma reaches_refl [simp]: "reaches E st st"
  by (simp add: reaches_def)

lemma reaches_step: "connect_step (rng E) (queue_hash E) st st' \<Longrightarrow> reaches E st0 st \<Longrightarrow> reaches E st0 st'"
  unfolding reaches_def by (rule rtranclp.rtrancl_into_rtrancl)

lemma reaches_trans: "reaches E st st' \<Longrightarrow> reaches E st0 st \<Longrightarrow> reaches E st0 st'"
  unfolding reaches_def by (rule rtranclp_trans)

lemmas reaches_ops [reach] = connect_step.intros [THEN reaches_step]

lemma reach_upd_state [reach]:
  "reaches E st0 (f (connect_state s)) \<Longrightarrow> reaches E st0 (connect_state (upd_state f s))"
  by (simp add: upd_state_def)

lemma reach_state_op [reach]:
  "reaches E st0 (snd (f (connect_state s))) \<Longrightarrow> reaches E st0 (connect_state (snd (state_op f s)))"
  by (simp add: state_op_def split_beta Let_def)

lemma reach_frames [simp]:
  "connect_state (send_player c s) = connect_state s"
  "connect_state (resolver_op g s) = connect_state s"
  "connect_state (snd (spclient_request E r s)) = connect_state s"
  "connect_state (snd (send_with_reason E reason s)) = connect_state s"
  "connect_state (emit_set_queue_event s) = connect_state s"
  "connect_state (snd (logged res)) = connect_state (snd res)"
  "connect_state (handle_preload_next_track s) = connect_state s"
  "connect_state (add_autoplay_resolving_when_required E s) = connect_state s"
  by (simp_all add: send_player_def resolver_op_def spclient_request_def send_with_reason_def emit_set_queue_event_def
      logged_def handle_preload_next_track_def add_autoplay_resolving_when_required_def Let_def
      split: option.split prod.split sum.split fault.split)

lemma reach_bind [reach]:
  assumes "reaches E st0 (connect_state (snd r))"
    and "\<And>x s. reaches E st0 (connect_state s) \<Longrightarrow> reaches E st0 (connect_state (snd (f x s)))"
  shows "reaches E st0 (connect_state (snd (sr_bind r f)))"
  by (rule sr_bind_state_inv) (use assms in \<open>auto\<close>)

lemma reach_notify [reach]:
  "reaches E st0 (connect_state s) \<Longrightarrow> reaches E st0 (connect_state (snd (notify E s)))"
  by (simp add: notify_def Let_def reach)

lemma reach_set_volume [reach]:
  "reaches E st0 (connect_state s) \<Longrightarrow> reaches E st0 (connect_state (spirc_set_volume E v s))"
  by (simp add: spirc_set_volume_def Let_def upd_state_def reach)

lemma reach_handle_stop [reach]:
  "reaches E st0 (connect_state s) \<Longrightarrow> reaches E st0 (connect_state (snd (handle_stop E s)))"
  by (simp add: handle_stop_def Let_def reach)

lemma reach_load_track [reach]:
  "reaches E st0 (connect_state s) \<Longrightarrow> reaches E st0 (connect_state (snd (spirc_load_track E b p s)))"
  by (simp add: spirc_load_track_def Let_def reach upd_state_def split: sum.split)

lemma reach_play_pause [reach]:
  assumes "reaches E st0 (connect_state s)"
  shows "reaches E st0 (connect_state (spirc_handle_play E s))" "reaches E st0 (connect_state (spirc_handle_pause E s))"
    and "reaches E st0 (connect_state (handle_play_pause E s))" "reaches E st0 (connect_state (handle_seek E p s))"
  using assms by (simp_all add: spirc_handle_play_def spirc_handle_pause_def handle_play_pause_def handle_seek_def
      Let_def reach split: SpircPlayStatus.split)

lemma reach_options [reach]:
  assumes "rng_in_range (rng E)" "reaches E st0 (connect_state s)"
  shows "reaches E st0 (connect_state (snd (spirc_handle_shuffle E b s)))"
    and "reaches E st0 (connect_state (snd (handle_repeat_context E b s)))"
    and "reaches E st0 (connect_state (handle_repeat_track b s))"
    and "reaches E st0 (connect_state (snd (handle_unavailable E i s)))"
  using assms by (simp_all add: spirc_handle_shuffle_def handle_repeat_context_def handle_repeat_track_def
      handle_unavailable_def reach)

lemma reach_volume [reach]:
  assumes "reaches E st0 (connect_state s)"
  shows "reaches E st0 (connect_state (handle_volume_up E s))" "reaches E st0 (connect_state (handle_volume_down E s))"
  using assms by (simp_all add: handle_volume_up_def handle_volume_down_def Let_def reach)

lemma reach_skip_loop:
  assumes "skip_loop (queue_hash E) target st = Some y" "reaches E st0 st"
  shows "reaches E st0 (snd y)"
proof -
  have "H = queue_hash E \<longrightarrow> reaches E st0 st \<longrightarrow> reaches E st0 (snd y)" if "skip_loop H target st = Some y" for H
  proof (rule skip_loop.raw_induct [OF _ that, where P = "\<lambda>H t st y. H = queue_hash E \<longrightarrow> reaches E st0 st \<longrightarrow> reaches E st0 (snd y)"])
    fix loop H' t' st' y'
    assume IH: "\<And>H t st y. loop H t st = Some y \<Longrightarrow> H = queue_hash E \<longrightarrow> reaches E st0 st \<longrightarrow> reaches E st0 (snd y)"
      and body: "(case next_track H' st' of (Inl e, st1) \<Rightarrow> Some (Inl e, st1)
        | (Inr idx, st1) \<Rightarrow> if t' \<noteq> None \<and> t' \<noteq> Some (uri (current_track st1)) then loop H' t' st1
                            else Some (Inr (idx \<noteq> None), st1)) = Some y'"
    show "H' = queue_hash E \<longrightarrow> reaches E st0 st' \<longrightarrow> reaches E st0 (snd y')"
    proof (intro impI)
      assume "H' = queue_hash E" "reaches E st0 st'"
      then have "reaches E st0 (snd (next_track H' st'))" by (simp add: reach)
      with IH body \<open>H' = queue_hash E\<close> show "reaches E st0 (snd y')"
        by (auto split: prod.splits sum.splits if_splits)
    qed
  qed
  with assms show ?thesis by blast
qed

lemma reach_handle_next:
  assumes "handle_next E target s = Some r" "reaches E st0 (connect_state s)"
  shows "reaches E st0 (connect_state (snd r))"
proof (cases "target = Some (uri (current_track (connect_state s)))")
  case True
  with assms show ?thesis by (auto simp: handle_next_def Let_def reach)
next
  case False
  with assms(1) obtain q st where loop: "skip_loop (queue_hash E) target (connect_state s) = Some (q, st)"
    by (auto simp: handle_next_def Let_def split: option.splits)
  from reach_skip_loop [OF this assms(2)] have "reaches E st0 st" by simp
  with assms(1) False loop show ?thesis by (auto simp: handle_next_def Let_def reach)
qed

lemma reach_handle_prev [reach]:
  "reaches E st0 (connect_state s) \<Longrightarrow> reaches E st0 (connect_state (snd (handle_prev E s)))"
  by (simp add: handle_prev_def Let_def reach split: option.split)

lemma reach_apply_next_context [reach]:
  "reaches E st0 st \<Longrightarrow> reaches E st0 (snd (apply_next_context U q c st))"
  by (simp add: apply_next_context_def Let_def split_beta reach
      split: option.split ContextAction.split list.split Resolve.split)

lemma reach_setup_state [reach]:
  "rng_in_range (rng E) \<Longrightarrow> reaches E st0 st \<Longrightarrow> reaches E st0 (snd (setup_state (queue_hash E) (rng E) seed U ty tr st))"
  by (simp add: setup_state_def Let_def reach split: option.split sum.split)

lemma reach_try_finish [reach]:
  "rng_in_range (rng E) \<Longrightarrow> reaches E st0 st \<Longrightarrow>
   reaches E st0 (fst (snd (try_finish (queue_hash E) (rng E) seed U q st tr)))"
  using reach_setup_state [of E st0 st seed U "update (fst (the (find_next q)))" tr]
  by (auto simp: try_finish_def Let_def split_beta reach split: option.split sum.split)

lemma reach_handle_next_context [reach]:
  assumes rng: "rng_in_range (rng E)" and s: "reaches E st0 (connect_state s)"
  shows "reaches E st0 (connect_state (snd (handle_next_context E next_context s)))"
proof (cases next_context)
  case (Inr c)
  obtain r st where ap: "apply_next_context (uuids E 0) (context_resolver s) c (connect_state s) = (r, st)"
    by fastforce
  with reach_apply_next_context [OF s, of "uuids E 0" "context_resolver s" c] have st: "reaches E st0 st" by simp
  show ?thesis
    using reach_try_finish [OF rng st] st
    by (auto simp: handle_next_context_def Inr ap Let_def split: sum.split fault.split option.split prod.split)
       (metis fst_conv snd_conv)+
qed (simp add: handle_next_context_def s)

lemma reach_handle_activate [reach]:
  "reaches E st0 (connect_state s) \<Longrightarrow> reaches E st0 (connect_state (handle_activate E s))"
  by (simp add: handle_activate_def Let_def upd_state_def reach)

lemma reach_load_context [reach]:
  assumes "rng_in_range (rng E)" "reaches E st0 (connect_state s)"
  shows "reaches E st0 (connect_state (snd (load_context_from_uri E u page auto s)))"
    and "reaches E st0 (connect_state (snd (load_context_from_tracks E page' s)))"
  using assms by (simp_all add: load_context_from_uri_def load_context_from_tracks_def Let_def reach split: option.split)

lemma reach_load_position [reach]:
  assumes "rng_in_range (rng E)" "reaches E st0 (connect_state s)"
  shows "reaches E st0 (connect_state (snd (load_position E shuffled pos s)))"
  using assms by (simp add: load_position_def reach split: option.split)

lemma reach_load_options [reach]: "reaches E st0 st \<Longrightarrow> reaches E st0 (load_options opts st)"
  by (simp add: load_options_def reach split: option.split LoadContextOptions.split)

lemma reach_handle_load [reach]:
  assumes "rng_in_range (rng E)" "reaches E st0 (connect_state s)"
  shows "reaches E st0 (connect_state (snd (handle_load E cmd page idx s)))"
  using assms by (simp add: handle_load_def Let_def reach split: PlayContext.split sum.split)

lemma reach_handle_disconnect [reach]:
  "reaches E st0 (connect_state s) \<Longrightarrow> reaches E st0 (connect_state (snd (handle_disconnect E s)))"
  by (simp add: handle_disconnect_def Let_def reach)

lemma reach_transfer_parts [reach]:
  assumes "rng_in_range (rng E)" "reaches E st0 (connect_state s)"
  shows "reaches E st0 (connect_state (snd (transfer_context E cu ts fb s)))"
    and "reaches E st0 (connect_state (snd (transfer_rest E b t s)))"
  using assms by (simp_all add: transfer_context_def transfer_rest_def Let_def reach split: option.split sum.split)

lemma reach_handle_transfer [reach]:
  assumes "rng_in_range (rng E)" "reaches E st0 (connect_state s)"
  shows "reaches E st0 (connect_state (snd (handle_transfer E t s)))"
  using assms by (simp add: handle_transfer_def Let_def split_beta reach split: option.split sum.split)

lemma reach_handle_connection_id [reach]:
  assumes "rng_in_range (rng E)" "reaches E st0 (connect_state s)"
  shows "reaches E st0 (connect_state (snd (handle_connection_id_update E cid s)))"
  using assms by (simp add: handle_connection_id_update_def Let_def split_beta reach split: option.split sum.split)

lemma reach_mutate_attribute [reach]:
  "reaches E st0 (connect_state s) \<Longrightarrow> reaches E st0 (connect_state (snd (mutate_attribute E key s)))"
  by (simp add: mutate_attribute_def Let_def split_beta split: option.split sum.split)

lemma reach_attributes [reach]:
  assumes "reaches E st0 (connect_state s)"
  shows "reaches E st0 (connect_state (snd (handle_user_attributes_update pairs s)))"
    and "reaches E st0 (connect_state (snd (handle_user_attributes_mutation E keys s)))"
proof -
  show "reaches E st0 (connect_state (snd (handle_user_attributes_update pairs s)))"
    using assms by (simp add: handle_user_attributes_update_def split_beta)
  show "reaches E st0 (connect_state (snd (handle_user_attributes_mutation E keys s)))"
    using assms by (induction keys arbitrary: s) (simp_all add: reach)
qed

lemma reach_updates [reach]:
  assumes "reaches E st0 (connect_state s)"
  shows "reaches E st0 (connect_state (snd (handle_cluster_update E cluster s)))"
    and "reaches E st0 (connect_state (snd (handle_playlist_modification E modified s)))"
    and "reaches E st0 (connect_state (handle_session_update E ses s))"
    and "reaches E st0 (connect_state (update_context_request E c s))"
  using assms by (simp_all add: handle_cluster_update_def handle_playlist_modification_def handle_session_update_def
      update_context_request_def reach upd_state_def split: option.split prod.split)

lemma reach_updating [reach]:
  "reaches E st0 (connect_state (snd r)) \<Longrightarrow> reaches E st0 (connect_state (snd (updating r)))"
  by (simp add: updating_def reach)

lemma reach_play_request [reach]:
  assumes "rng_in_range (rng E)" "reaches E st0 (connect_state s)"
  shows "reaches E st0 (connect_state (snd (play_request E play s)))"
    and "reaches E st0 (connect_state (snd (set_options E opts s)))"
  using assms by (simp_all add: play_request_def set_options_def Let_def reach split: option.split)

text \<open>A received queue is taken as it is, so it has to be acceptable.\<close>

fun command_ok :: "Command \<Rightarrow> bool" where
  "command_ok (SetQueue q) = received_ok (sq_next_tracks q) (sq_prev_tracks q)"
| "command_ok _ = True"

lemma reach_handle_request:
  assumes "spirc_handle_request E cmd s = Some r" "rng_in_range (rng E)" "command_ok cmd" "reaches E st0 (connect_state s)"
  shows "reaches E st0 (connect_state (snd r))"
proof (cases cmd)
  case (SkipNext sk)
  with assms(1) obtain r' where "handle_next E (map_option uri (skip_track sk)) s = Some r'" "r = updating r'"
    by (auto simp: spirc_handle_request_def)
  with reach_handle_next [OF _ assms(4)] show ?thesis by (simp add: reach)
qed (use assms in \<open>auto simp: spirc_handle_request_def reach split: option.splits\<close>)

lemma reach_connect_state_request:
  assumes "handle_connect_state_request E req listening s = Some r" "rng_in_range (rng E)"
    "command_ok (command req)" "reaches E st0 (connect_state s)"
  shows "reaches E st0 (connect_state (snd r))"
proof -
  let ?s = "upd_state (set_last_command (message_id req) (sent_by_device_id req)) s"
  from assms(1) obtain r' where r': "spirc_handle_request E (command req) ?s = Some r'"
    by (auto simp: handle_connect_state_request_def)
  have "reaches E st0 (connect_state ?s)" using assms(4) by (simp add: reach)
  from reach_handle_request [OF r' assms(2,3) this] show ?thesis
    using assms(1) r' by (auto simp: handle_connect_state_request_def Let_def split: sum.splits fault.splits prod.splits if_splits)
qed

lemma reach_add_to_queue [reach]:
  assumes "reaches E st0 (connect_state s)"
  shows "reaches E st0 (connect_state (handle_add_to_queue E u s))"
proof -
  have "reaches E st0 (fold (\<lambda>x. add_to_queue (queue_hash E) (provided_track_new\<lparr>uri := x\<rparr>) True) us st)"
    if "reaches E st0 st" for us st
    using that by (induction us arbitrary: st) (simp_all add: reach)
  then show ?thesis using assms
    by (simp add: handle_add_to_queue_def Let_def reach split: option.split)
qed

lemma reach_handle_command:
  assumes "spirc_handle_command E cmd s = Some r" "rng_in_range (rng E)" "reaches E st0 (connect_state s)"
  shows "reaches E st0 (connect_state (snd r))"
proof (cases "cmd = SpircNext \<and> is_active (connect_state s)")
  case True
  with assms(1) obtain r' where "handle_next E None s = Some r'" "r = sr_bind r' (\<lambda>_ s1. notify E s1)"
    by (auto simp: spirc_handle_command_def Let_def bind_eq_Some_conv)
  with reach_handle_next [OF _ assms(3)] show ?thesis by (simp add: reach)
next
  case False
  then show ?thesis using assms
    by (cases cmd) (auto simp: spirc_handle_command_def Let_def reach split: if_splits)
qed

lemma reach_event_loading [reach]:
  "reaches E st0 (connect_state s) \<Longrightarrow> reaches E st0 (connect_state (event_loading E s))"
  by (simp add: event_loading_def Let_def reach)

lemma reach_events:
  assumes s: "reaches E st0 (connect_state s)"
  shows "event_playing E p s = Some s' \<Longrightarrow> reaches E st0 (connect_state s')"
    and "event_paused E p s = Some s' \<Longrightarrow> reaches E st0 (connect_state s')"
proof -
  have "reaches E st0 (connect_state ((upd_state (update_position p (now_ms E s)) s)\<lparr>play_status := x\<rparr>))" for x
    using s by (simp add: reach)
  then show "event_playing E p s = Some s' \<Longrightarrow> reaches E st0 (connect_state s')"
    "event_paused E p s = Some s' \<Longrightarrow> reaches E st0 (connect_state s')"
    by (cases "play_status s"; simp add: event_playing_def event_paused_def Let_def split: if_splits; blast)+
qed

lemma reach_current_event:
  assumes r: "current_event E ev s = Some r" and rng: "rng_in_range (rng E)" and s: "reaches E st0 (connect_state s)"
  shows "reaches E st0 (connect_state (snd r))"
proof (cases ev)
  case (EvEndOfTrack i t)
  then show ?thesis using r reach_handle_next [OF _ s] by (auto simp: current_event_def Let_def reach)
next
  case (EvUnavailable i t)
  obtain q s1 where q: "handle_unavailable E t s = (q, s1)" by fastforce
  with reach_options(4) [OF rng s, of t] have s1: "reaches E st0 (connect_state s1)" by simp
  show ?thesis
  proof (cases q)
    case (Inl e)
    then show ?thesis using r s1 by (simp add: EvUnavailable current_event_def q) (metis snd_conv)
  next
    case (Inr u)
    then show ?thesis using r s1 reach_handle_next [OF _ s1]
      by (auto simp: EvUnavailable current_event_def q reach split: if_splits)
  qed
qed (use r s reach_events(1,2) [OF s] in \<open>auto simp: current_event_def Let_def reach split: option.splits if_splits\<close>)

lemma reach_handle_player_event:
  assumes "handle_player_event E ev s = Some r" "rng_in_range (rng E)" "reaches E st0 (connect_state s)"
  shows "reaches E st0 (connect_state (snd r))"
  using assms reach_current_event [OF _ assms(2,3)]
  by (cases ev) (auto simp: handle_player_event_def reach split: if_splits)

lemma reach_after_error:
  "after_error e r = (e', s') \<Longrightarrow> reaches E st0 (connect_state (snd r)) \<Longrightarrow> reaches E st0 (connect_state s')"
  by (auto simp: after_error_def split: prod.splits sum.splits fault.splits)

lemma reach_round_item:
  assumes "round_item e item f s = (e', s')" "reaches E st0 (connect_state s)"
    and "\<And>x. item = Received x \<Longrightarrow> reaches E st0 (connect_state (snd (f x s)))"
  shows "reaches E st0 (connect_state s')"
  using assms by (auto simp: round_item_def split: Item.splits dest: reach_after_error)

fun arm_ok :: "'i SpircArm \<Rightarrow> bool" where
  "arm_ok (ArmRequest (Some (req, _))) = command_ok (command req)"
| "arm_ok _ = True"

lemma reach_delayed [reach]:
  assumes "rng_in_range (rng E)" "reaches E st0 (connect_state s)"
  shows "reaches E st0 (connect_state (snd (delayed_volume_update E s)))"
    and "reaches E st0 (connect_state (snd (resolve_next_context E s)))"
  using assms by (simp_all add: delayed_volume_update_def resolve_next_context_def Let_def split_beta reach)

lemma reach_round:
  assumes r: "spirc_round E arm s = Some (e, s')" and rng: "rng_in_range (rng E)" and ok: "arm_ok arm"
    and s: "reaches E st0 (connect_state s)"
  shows "reaches E st0 (connect_state s')"
proof (cases arm)
  case (ArmRequest req)
  then show ?thesis using r rng ok s
    by (auto simp: spirc_round_def split: option.splits dest!: reach_connect_state_request intro: reach_after_error)
next
  case (ArmCommand cmd)
  then show ?thesis using r rng s
    by (auto simp: spirc_round_def split: option.splits dest!: reach_handle_command intro: reach_after_error)
next
  case (ArmPlayerEvent ev)
  then show ?thesis using r rng s
    by (auto simp: spirc_round_def split: option.splits dest!: reach_handle_player_event intro: reach_after_error)
qed (use r rng s in \<open>auto simp: spirc_round_def reach intro: reach_round_item [OF _ s] reach_after_error\<close>)

section \<open>Skipping to a track\<close>

lemma next_track_contexts:
  assumes "length (prev_of st) \<le> SPOTIFY_MAX_PREV_TRACKS_SIZE"
  shows "map_option tracks (context_of ty (snd (next_track H st))) = map_option tracks (context_of ty st)"
proof -
  let ?L = "next_track_loop (leave_track st)"
  have ctx: "context_of ty (snd ?L) = context_of ty st" for ty
    using next_track_loop_spec [of "leave_track st"] same_contexts_eqs(1) [OF same_contexts_leave_track, of ty st]
      same_contexts_eqs(1) [OF same_contexts_set(1)] same_contexts_eqs(1) [OF same_contexts_set(2)]
    by (simp add: Let_def leave_track_fields keep_last_def split: list.split)
  have fill: "map_option tracks (context_of ty (snd (fill_up_next_tracks H st3))) = map_option tracks (context_of ty st3)" for ty st3
  proof (cases "context_of (fill_up_context st3) st3")
    case (Some c)
    then obtain st4 where "fill_up_next_tracks H st3 = (Ok (), st4)" "fill_frame st3 st4"
      by (rule fill_up_next_tracks_spec [of st3 c H])
    then show ?thesis using fill_frame_fields(8,9) [of st3 st4] by (cases ty) (simp_all add: context_of_def)
  qed (simp add: fill_up_next_tracks_no_context)
  obtain nt st3 where L: "?L = (nt, st3)" by fastforce
  show ?thesis
  proof (cases nt)
    case (Some t)
    obtain r st4 where f: "fill_up_next_tracks H st3 = (r, st4)" by fastforce
    with fill [of ty st3] show ?thesis using ctx [of ty] assms
      by (cases r) (simp_all add: next_track_unfold L Some f)
  qed (use ctx [of ty] assms L in \<open>simp add: next_track_unfold\<close>)
qed

text \<open>Nothing that could be played, listed or in a context, has this uri.\<close>

definition absent :: "string \<Rightarrow> ConnectState \<Rightarrow> bool" where
  "absent u st \<longleftrightarrow> (\<forall>t \<in> set (next_of st). playable t \<longrightarrow> uri t \<noteq> u) \<and>
     (\<forall>ty ctx. context_of ty st = Some ctx \<longrightarrow> (\<forall>t \<in> set (track_list ctx). uri t \<noteq> u))"

definition skippable :: "ConnectState \<Rightarrow> bool" where
  "skippable st \<longleftrightarrow> length (prev_of st) \<le> SPOTIFY_MAX_PREV_TRACKS_SIZE \<and> context_of (fill_up_context st) st \<noteq> None"

lemma set_repeated: "set (repeated st ts it n) \<subseteq> range new_delimiter \<union> set ts"
  by (induction n arbitrary: it) auto

lemma set_upcoming:
  assumes "t \<in> set (upcoming st)"
  shows "(\<exists>it. t = new_delimiter it) \<or> (\<exists>ty ctx. context_of ty st = Some ctx \<and> t \<in> set (track_list ctx))"
proof -
  from assms obtain ctx where ctx: "context_of (fill_up_context st) st = Some ctx"
    and t: "t \<in> set (upcoming_from st ctx (index_track (sc_index ctx)) (index_page (sc_index ctx))
            (SPOTIFY_MAX_NEXT_TRACKS_SIZE - length (next_of st)))"
    by (cases "context_of (fill_up_context st) st") (simp_all add: upcoming_def)
  have auto: "context_of AutoplayContext st = autoplay_context st" by (simp add: context_of_def)
  have "t \<in> set (track_list ctx) \<or>
      t \<in> set (repeated st (track_list ctx) (index_page (sc_index ctx)) (SPOTIFY_MAX_NEXT_TRACKS_SIZE - length (next_of st))) \<or>
      (\<exists>a. autoplay_context st = Some a \<and> ((\<exists>it. t = new_delimiter it) \<or> t \<in> set (track_list a)))"
    using t in_set_dropD [of t] unfolding upcoming_from_def
    by (cases "autoplay_context st"; cases "repeat_context st"; cases "fill_up_context st") auto
  moreover have "(\<exists>it. t = new_delimiter it) \<or> t \<in> set (track_list ctx)"
    if "t \<in> set (repeated st (track_list ctx) it n)" for it n
    using set_repeated [of st "track_list ctx" it n] that by auto
  ultimately show ?thesis using ctx auto by metis
qed

lemma delimiter_not_playable: "\<not> playable (new_delimiter it)"
  by (simp add: playable_def is_delimiter_def new_delimiter_def)

lemma next_track_absent:
  assumes sk: "skippable st" and ab: "absent u st" and u: "u \<noteq> []"
  obtains r st' where "next_track H st = (Ok r, st')" "skippable st'" "absent u st'" "uri (current_track st') \<noteq> u"
proof (cases "dropWhile (\<lambda>t. \<not> playable t) (next_of st)")
  case Nil
  have len: "length (prev_of st) \<le> SPOTIFY_MAX_PREV_TRACKS_SIZE" using sk by (simp add: skippable_def)
  let ?prev = "keep_last SPOTIFY_MAX_PREV_TRACKS_SIZE (prev_of st @ joins_prev (track (player st)) @
        filter is_delimiter (takeWhile (\<lambda>t. \<not> playable t) (next_of st)))"
  let ?st = "set_next [] (set_prev ?prev (leave_track st))"
  have same: "same_contexts st ?st"
    using same_contexts_leave_track same_contexts_set same_contexts_trans by meson
  show thesis
  proof (rule that)
    show "next_track H st = (Ok None, ?st)" by (rule next_track_None [OF len Nil])
    show "skippable ?st" using sk same_contexts_eqs(1,3) [OF same] by (simp add: skippable_def keep_last_def)
    show "absent u ?st" using ab same_contexts_eqs(1) [OF same] by (simp add: absent_def)
    show "uri (current_track ?st) \<noteq> u" using u by (simp add: current_track_def leave_track_fields provided_track_new_def)
  qed
next
  case (Cons t rest)
  have len: "length (prev_of st) \<le> SPOTIFY_MAX_PREV_TRACKS_SIZE" and ctx: "context_of (fill_up_context st) st \<noteq> None"
    using sk by (simp_all add: skippable_def)
  obtain i st' where st': "next_track H st = (Ok (Some i), st')" "track (player st') = Some t"
    "prev_of st' = keep_last SPOTIFY_MAX_PREV_TRACKS_SIZE
       (prev_of st @ joins_prev (track (player st)) @
        filter is_delimiter (takeWhile (\<lambda>t. \<not> playable t) (next_of st)))"
    "next_of st' = rest @ take (SPOTIFY_MAX_NEXT_TRACKS_SIZE - length rest) (upcoming (set_next rest st))"
    "context_of (fill_up_context st') st' \<noteq> None"
    by (rule next_track_Some [OF len ctx Cons])
  have t: "playable t" "t \<in> set (next_of st)" "set rest \<subseteq> set (next_of st)"
    using Cons hd_dropWhile [of "\<lambda>t. \<not> playable t" "next_of st"] set_dropWhileD
    by (force, metis list.set_intros(1) set_dropWhileD, metis (full_types) list.set_intros(2) set_dropWhileD subsetI)
  have ctxs: "map_option tracks (context_of ty st') = map_option tracks (context_of ty st)" for ty
    using next_track_contexts [OF len, of ty H] st'(1) by simp
  have c: "uri x \<noteq> u" if "context_of ty st' = Some c" "x \<in> set (track_list c)" for ty c x
    using ctxs [of ty] that ab by (cases "context_of ty st") (auto simp: absent_def)
  have up: "uri x \<noteq> u" if "playable x" "x \<in> set (upcoming (set_next rest st))" for x
    using set_upcoming [OF that(2)] that(1) ab same_contexts_eqs(1) [OF same_contexts_set(1), of _ rest st] delimiter_not_playable
    unfolding absent_def by metis
  show thesis
  proof (rule that)
    show "next_track H st = (Ok (Some i), st')" by fact
    show "skippable st'" using st'(3,5) by (simp add: skippable_def keep_last_def)
    have "uri x \<noteq> u" if "playable x" "x \<in> set (next_of st')" for x
    proof -
      have "x \<in> set rest \<or> x \<in> set (take (SPOTIFY_MAX_NEXT_TRACKS_SIZE - length rest) (upcoming (set_next rest st)))"
        using that(2) unfolding st'(4) set_append by (rule UnE) (rule disjI1, assumption, rule disjI2, assumption)
      then have "x \<in> set rest \<or> x \<in> set (upcoming (set_next rest st))" by (elim disj_forward in_set_takeD)
      then show ?thesis
      proof
        assume "x \<in> set rest"
        then have "x \<in> set (next_of st)" using t(3) by auto
        then show ?thesis using that(1) ab by (simp add: absent_def)
      qed (use up [OF that(1)] in simp)
    qed
    with c show "absent u st'" unfolding absent_def by blast
    show "uri (current_track st') \<noteq> u" using st'(2) t ab by (simp add: current_track_def absent_def unwrap_or_def)
  qed
qed

lemma skip_loop_absent:
  assumes "skippable st" "absent u st" "u \<noteq> []"
  shows "skip_loop H (Some u) st = None"
proof (rule ccontr)
  assume "skip_loop H (Some u) st \<noteq> None"
  then obtain y where y: "skip_loop H (Some u) st = Some y" by blast
  have "t = Some u \<longrightarrow> skippable st \<longrightarrow> absent u st \<longrightarrow> False" if "skip_loop H t st = Some y" for t
  proof (rule skip_loop.raw_induct [OF _ that, where P = "\<lambda>H t st y. t = Some u \<longrightarrow> skippable st \<longrightarrow> absent u st \<longrightarrow> False"])
    fix loop H' t' st' y'
    assume IH: "\<And>H t st y. loop H t st = Some y \<Longrightarrow> t = Some u \<longrightarrow> skippable st \<longrightarrow> absent u st \<longrightarrow> False"
      and body: "(case next_track H' st' of (Inl e, st1) \<Rightarrow> Some (Inl e, st1)
        | (Inr idx, st1) \<Rightarrow> if t' \<noteq> None \<and> t' \<noteq> Some (uri (current_track st1)) then loop H' t' st1
                            else Some (Inr (idx \<noteq> None), st1)) = Some y'"
    show "t' = Some u \<longrightarrow> skippable st' \<longrightarrow> absent u st' \<longrightarrow> False"
    proof (intro impI)
      assume t': "t' = Some u" and st': "skippable st'" "absent u st'"
      obtain r st2 where "next_track H' st' = (Ok r, st2)" "skippable st2" "absent u st2" "uri (current_track st2) \<noteq> u"
        by (rule next_track_absent [OF st' assms(3)])
      with body IH [of H' t' st2 y'] t' show False by simp
    qed
  qed
  with y assms show False by blast
qed

lemma dropWhile_append_keep: "\<not> P x \<Longrightarrow> dropWhile P (xs @ x # ys) = dropWhile P xs @ x # ys"
  by (induction xs) simp_all

lemma skip_loop_listed:
  assumes "skippable st" "next_of st = ts @ t # ts'" "playable t"
  shows "\<exists>st'. skip_loop H (Some (uri t)) st = Some (Ok True, st') \<and>
     uri (current_track st') = uri t \<and> track (player st') \<noteq> None"
  using assms
proof (induction "length ts" arbitrary: st ts ts' rule: less_induct)
  case less
  have len: "length (prev_of st) \<le> SPOTIFY_MAX_PREV_TRACKS_SIZE" and ctx: "context_of (fill_up_context st) st \<noteq> None"
    using less.prems(1) by (simp_all add: skippable_def)
  obtain x rest where x: "dropWhile (\<lambda>t. \<not> playable t) (next_of st) = x # rest"
    using less.prems(2,3) by (cases "dropWhile (\<lambda>t. \<not> playable t) (next_of st)") (auto simp: dropWhile_eq_Nil_conv)
  obtain i st1 where st1: "next_track H st = (Ok (Some i), st1)" "track (player st1) = Some x"
    "prev_of st1 = keep_last SPOTIFY_MAX_PREV_TRACKS_SIZE
       (prev_of st @ joins_prev (track (player st)) @
        filter is_delimiter (takeWhile (\<lambda>t. \<not> playable t) (next_of st)))"
    "next_of st1 = rest @ take (SPOTIFY_MAX_NEXT_TRACKS_SIZE - length rest) (upcoming (set_next rest st))"
    "context_of (fill_up_context st1) st1 \<noteq> None"
    by (rule next_track_Some [OF len ctx x])
  have cur: "current_track st1 = x" using st1(2) by (simp add: current_track_def unwrap_or_def)
  show ?case
  proof (cases "uri x = uri t")
    case True
    with st1 cur show ?thesis by (subst skip_loop.simps) simp
  next
    case False
    have sk: "skippable st1" using st1(3,5) by (simp add: skippable_def keep_last_def)
    obtain us where us: "rest = us @ t # ts'" "length us < length ts"
    proof -
      have "x # rest = dropWhile (\<lambda>t. \<not> playable t) ts @ t # ts'"
        using x less.prems(2,3) by (simp add: dropWhile_append_keep)
      with False obtain us where "dropWhile (\<lambda>t. \<not> playable t) ts = x # us" "rest = us @ t # ts'"
        by (cases "dropWhile (\<lambda>t. \<not> playable t) ts") auto
      moreover from this have "length us < length ts"
        using length_dropWhile_le [of "\<lambda>t. \<not> playable t" ts] by simp
      ultimately show thesis using that by blast
    qed
    have "next_of st1 = us @ t # (ts' @ take (SPOTIFY_MAX_NEXT_TRACKS_SIZE - length rest) (upcoming (set_next rest st)))"
      using st1(4) us(1) by simp
    from less.hyps [OF us(2) sk this less.prems(3)] st1(1) cur False show ?thesis
      by (subst skip_loop.simps) auto
  qed
qed

section \<open>The transition system\<close>

text \<open>
  One step per round of the loop that goes on, in any environment that can occur (\<open>K\<close>) and whose
  random generator stays in range, on any enabled arm; a received queue has to be acceptable.
\<close>

inductive spirc_step :: "(('i, 'm, 'g) SpircEnv \<Rightarrow> bool) \<Rightarrow> 'm SpircTask \<Rightarrow> 'm SpircTask \<Rightarrow> bool"
  for K :: "('i, 'm, 'g) SpircEnv \<Rightarrow> bool" where
  round: "K E \<Longrightarrow> rng_in_range (rng E) \<Longrightarrow> spirc_running s \<Longrightarrow> arm_enabled arm s \<Longrightarrow> arm_ok arm \<Longrightarrow>
    spirc_round E arm s = Some (Goes_on, s') \<Longrightarrow> spirc_step K s s'"

definition spirc_init :: "(('i, 'm, 'g) SpircEnv \<Rightarrow> bool) \<Rightarrow> 'm SpircTask \<Rightarrow> bool" where
  "spirc_init K s \<longleftrightarrow> (\<exists>E v n b ses m. K E \<and> s = spirc_new E v n b ses m)"

definition spirc_ok :: "'m SpircTask \<Rightarrow> bool" where
  "spirc_ok s \<longleftrightarrow> connect_ok (connect_state s)"

lemma reaches_ok: "reaches E st st' \<Longrightarrow> connect_ok st \<Longrightarrow> connect_ok st'"
  unfolding reaches_def by (induction rule: rtranclp_induct) (auto intro: connect_step_ok)

lemma spirc_new_reaches:
  "reaches E (connect_state_new (of_nat (unix_ms E)) v n (Ap_Session.session_id (sess_data ses)))
     (connect_state (spirc_new E v n b ses m))"
  by (simp add: spirc_new_def Let_def reach)

interpretation controller: invariant_system "spirc_init K" "spirc_step K" spirc_ok
  for K :: "('i, 'm, 'g) SpircEnv \<Rightarrow> bool"
proof unfold_locales
  show "spirc_ok s" if "spirc_init K s" for s
  proof -
    from that obtain E :: "('i, 'm, 'g) SpircEnv" and v n b ses m where s: "s = spirc_new E v n b ses m" unfolding spirc_init_def by blast
    have "connect_ok (connect_state_new (of_nat (unix_ms E)) v n (Ap_Session.session_id (sess_data ses)))"
      by (rule connect_init_ok) (auto simp: connect_init_def)
    from reaches_ok [OF spirc_new_reaches this] show ?thesis by (simp add: s spirc_ok_def)
  qed
  show "spirc_ok t" if "spirc_ok s" "spirc_step K s t" for s t
    using that(2)
  proof cases
    case (round E arm)
    from reach_round [OF round(6,2,5) reaches_refl] show ?thesis
      using that(1) by (auto simp: spirc_ok_def dest: reaches_ok)
  qed
qed

section \<open>Properties\<close>

text \<open>Small tasks for the witnesses: an active device whose mixer is its volume.\<close>

definition sample_service :: SpClient where
  "sample_service = \<lparr>sp_get_context = \<lambda>u. Err NotFound, sp_get_autoplay_context = \<lambda>u r. Err NotFound\<rparr>"

definition sample_spirc_env :: "bool \<Rightarrow> (unit, u16, nat) SpircEnv" where
  "sample_spirc_env online =
     \<lparr>unix_ms = 5000, monotonic_ns = 0, rng = lcg, seeds = \<lambda>k. 7, draws = \<lambda>n. 0, uuids = \<lambda>i j k. ''uuid'',
      queue_hash = sample_hash, spclient = sample_service,
      put_answer = (\<lambda>k. if online then Ok [] else Err Unavailable), device_id = ''device'', autoplay_config = None,
      has_cache = False, mixer_volume = \<lambda>m. m, mixer_set_volume = \<lambda>v m. v, item_duration_ms = \<lambda>i. 0,
      parse_cluster = \<lambda>b. None, parse_transfer = \<lambda>b. None\<rparr>"

definition sample_task :: "u16 SpircTask" where
  "sample_task = (spirc_new (sample_spirc_env True) 100 64 False (session_new [] ''id'') 0)
     \<lparr>connect_state := sample_state\<lparr>is_active := True\<rparr>\<rparr>"




text \<open>A first round of a new task: another device queues a track.\<close>

definition sample_queueing :: Request where
  "sample_queueing = \<lparr>message_id = 1, sent_by_device_id = ''phone'',
     command = AddToQueue \<lparr>added_track = provided_track_new,
       added_logging_params = \<lparr>interaction_ids = None, device_identifier = None, command_initiated_time = None,
         page_instance_ids = None, command_id = None\<rparr>\<rparr>\<rparr>"

lemma sample_queues:
  fixes E :: "('i, 'm, 'g) SpircEnv"
  obtains s' where "spirc_round E (ArmRequest (Some (sample_queueing, True))) s = Some (Goes_on, s')"
    "connect_state s' = add_to_queue (queue_hash E) provided_track_new True
       (set_last_command 1 ''phone'' (connect_state s))"
  by (cases "emit_set_queue_events s")
    (auto simp: spirc_round_def handle_connect_state_request_def spirc_handle_request_def sample_queueing_def
      updating_def after_error_def emit_set_queue_event_def send_player_def upd_state_def Let_def)


section \<open>Loading and skipping\<close>

lemma load_track_effect:
  assumes "track (player (connect_state s)) \<noteq> None" "from_uri (uri (current_track (connect_state s))) = Ok i"
  shows "fst (spirc_load_track E start pos s) = Ok ()"
    and "player_commands (snd (spirc_load_track E start pos s)) = player_commands s @ [CmdLoad i start pos]"
    and "play_status (snd (spirc_load_track E start pos s)) = (if start then LoadingPlay pos else LoadingPause pos)"
    and "track (player (connect_state (snd (spirc_load_track E start pos s)))) = track (player (connect_state s))"
    and "next_of (connect_state (snd (spirc_load_track E start pos s))) = next_of (connect_state s)"
proof -
  from assms(1) obtain y where "track (player (connect_state s)) = Some y" by blast
  with assms(2) have eq: "spirc_load_track E start pos s =
      (Ok (), s\<lparr>player_commands := player_commands s @ [CmdLoad i start pos],
              play_status := (if start then LoadingPlay pos else LoadingPause pos),
              connect_state := set_status (if start then LoadingPlay pos else LoadingPause pos)
                (update_position pos (now_ms E (send_player (CmdLoad i start pos) s)) (connect_state s))\<rparr>)"
    by (simp add: spirc_load_track_def Let_def send_player_def upd_state_def)
  show "fst (spirc_load_track E start pos s) = Ok ()"
    "player_commands (snd (spirc_load_track E start pos s)) = player_commands s @ [CmdLoad i start pos]"
    "play_status (snd (spirc_load_track E start pos s)) = (if start then LoadingPlay pos else LoadingPause pos)"
    by (simp_all add: eq)
  have "track (player (set_status x (update_position p n st))) = track (player st)"
    "next_of (set_status x (update_position p n st)) = next_of st" for x p n st
    by (simp_all add: set_status_def update_position_def update_restrictions_def Let_def)
  then show "track (player (connect_state (snd (spirc_load_track E start pos s)))) = track (player (connect_state s))"
    "next_of (connect_state (snd (spirc_load_track E start pos s))) = next_of (connect_state s)"
    by (simp_all add: eq)
qed

lemma autoplay_frames [simp]:
  "player_commands (add_autoplay_resolving_when_required E s) = player_commands s"
  "play_status (add_autoplay_resolving_when_required E s) = play_status s"
  "emit_set_queue_events (add_autoplay_resolving_when_required E s) = emit_set_queue_events s"
  by (simp_all add: add_autoplay_resolving_when_required_def resolver_op_def Let_def)

text \<open>
  C17. A skip to a track that is listed always ends: the tracks before it are passed over and the
  player is told to load it, playing or paused as before.
\<close>

theorem skip_to_listed_track:
  assumes "skippable (connect_state s)" "t \<in> set (next_of (connect_state s))" "playable t" "from_uri (uri t) = Ok i"
    and "track (player (connect_state s)) \<noteq> None"
  shows "\<exists>s'. handle_next E (Some (uri t)) s = Some (Ok (), s') \<and>
    uri (current_track (connect_state s')) = uri t \<and>
    player_commands s' = player_commands s @ [CmdLoad i (Connect_State.is_playing (connect_state s)) 0]"
proof -
  have load: "\<exists>s'. spirc_load_track E b 0 (add_autoplay_resolving_when_required E s1) = (Ok (), s') \<and>
      uri (current_track (connect_state s')) = uri t \<and> player_commands s' = player_commands s1 @ [CmdLoad i b 0]"
    if "track (player (connect_state s1)) \<noteq> None" "uri (current_track (connect_state s1)) = uri t" for s1 :: "'a SpircTask" and b
    using load_track_effect(1,2,4) [of "add_autoplay_resolving_when_required E s1" i E b 0] that assms(4)
    by (cases "spirc_load_track E b 0 (add_autoplay_resolving_when_required E s1)") (simp add: current_track_def)
  show ?thesis
  proof (cases "uri t = uri (current_track (connect_state s))")
    case True
    with load [OF assms(5)] show ?thesis by (simp add: handle_next_def Let_def)
  next
    case False
    from split_list [OF assms(2)] obtain ts ts' where "next_of (connect_state s) = ts @ t # ts'" by blast
    from skip_loop_listed [OF assms(1) this assms(3), of "queue_hash E"] obtain st where
      "skip_loop (queue_hash E) (Some (uri t)) (connect_state s) = Some (Ok True, st)" "uri (current_track st) = uri t"
      "track (player st) \<noteq> None" by blast
    with False load [of "s\<lparr>connect_state := st\<rparr>"] show ?thesis
      by (simp add: handle_next_def Let_def lift_state_def)
  qed
qed

lemma last_command_frames:
  "context_of ty (set_last_command i d st) = context_of ty st" "current_track (set_last_command i d st) = current_track st"
  "fill_up_context (set_last_command i d st) = fill_up_context st" "player (set_last_command i d st) = player st"
  by (cases ty) (simp_all add: context_of_def set_last_command_def current_track_def)

text \<open>
  C40. A skip to a track that is neither playing nor listed nor in a context never ends: the loop takes
  one track after the other and does not stop where there is none left. The round, and with it the
  controller, is stuck.
\<close>

theorem skip_to_missing_track_hangs:
  assumes "command req = SkipNext sk" "skip_track sk = Some t" "uri t \<noteq> []"
    and "uri t \<noteq> uri (current_track (connect_state s))" "skippable (connect_state s)" "absent (uri t) (connect_state s)"
  shows "spirc_round E (ArmRequest (Some (req, listening))) s = None"
proof -
  let ?s = "upd_state (set_last_command (message_id req) (sent_by_device_id req)) s"
  have "skippable (connect_state ?s)" "absent (uri t) (connect_state ?s)" "current_track (connect_state ?s) = current_track (connect_state s)"
    using assms(5,6) by (simp_all add: upd_state_def skippable_def absent_def last_command_frames)
  then have "handle_next E (Some (uri t)) ?s = None"
    using assms(3,4) skip_loop_absent by (simp add: handle_next_def Let_def)
  then show ?thesis
    using assms(1,2) by (simp add: spirc_round_def handle_connect_state_request_def spirc_handle_request_def)
qed

definition sample_skip :: "string \<Rightarrow> Request" where
  "sample_skip u =
     \<lparr>message_id = 1, sent_by_device_id = ''phone'',
      command = SkipNext \<lparr>skip_track = Some (provided_track_new\<lparr>uri := u\<rparr>),
        skip_logging_params = \<lparr>interaction_ids = None, device_identifier = None, command_initiated_time = None,
          page_instance_ids = None, command_id = None\<rparr>\<rparr>\<rparr>"

lemma sample_task_state [simp]: "connect_state sample_task = sample_state\<lparr>is_active := True\<rparr>"
  by (simp add: sample_task_def)

theorem skip_to_missing_track_hangs_witness:
  "spirc_round (sample_spirc_env True) (ArmRequest (Some (sample_skip ''z'', True))) sample_task = None"
proof -
  have "skippable (connect_state sample_task)"
    by (simp add: skippable_def sample_state_def connect_state_default_def player_state_default_def context_of_def)
  moreover have "absent ''z'' (connect_state sample_task)"
    by (simp add: absent_def sample_state_def connect_state_default_def player_state_default_def context_of_def
        sample_context_def sample_track_def split: ContextType.split)
       (simp add: from_vec_def sample_track_def eval_nat_numeral)
  ultimately show ?thesis
    by (intro skip_to_missing_track_hangs [where sk = "case command (sample_skip ''z'') of SkipNext sk \<Rightarrow> sk"
          and t = "provided_track_new\<lparr>uri := ''z''\<rparr>"])
       (simp_all add: sample_skip_def sample_state_def current_track_def sample_track_def player_state_default_def unwrap_or_def)
qed

definition sample_listed :: ProvidedTrack where
  "sample_listed = (sample_track CHR ''g'' 5)\<lparr>uri := to_uri (Track \<lparr>id_u128 = 1\<rparr>)\<rparr>"

lemma sample_listed_uri: "from_uri (uri sample_listed) = Ok (Track \<lparr>id_u128 = 1\<rparr>)"
  using from_to_uri [of "Track \<lparr>id_u128 = 1\<rparr>"] by (simp add: sample_listed_def del: to_uri.simps) 

theorem skip_to_listed_track_witness:
  "\<exists>s'. handle_next (sample_spirc_env True) (Some (uri sample_listed))
      (sample_task\<lparr>connect_state := set_next [sample_track CHR ''b'' 1, sample_listed] sample_state\<rparr>) = Some (Ok (), s') \<and>
    last (player_commands s') = CmdLoad (Track \<lparr>id_u128 = 1\<rparr>) False 0"
proof -
  let ?s = "sample_task\<lparr>connect_state := set_next [sample_track CHR ''b'' 1, sample_listed] sample_state\<rparr>"
  have "skippable (connect_state ?s)" "sample_listed \<in> set (next_of (connect_state ?s))" "playable sample_listed"
    "track (player (connect_state ?s)) \<noteq> None" "\<not> Connect_State.is_playing (connect_state ?s)"
    by (simp_all add: skippable_def sample_state_def connect_state_default_def player_state_default_def context_of_def set_next_def
        playable_def sample_listed_def sample_track_def is_delimiter_def IDENTIFIER_DELIMITER_def starts_with_def is_unavailable_def
        Connect_State.is_playing_def)
  with skip_to_listed_track [OF this(1,2,3) sample_listed_uri this(4), of "sample_spirc_env True"] show ?thesis by auto
qed

lemma snd_bind_unit [simp]: "snd (sr_bind r (\<lambda>_ s. (Ok (), s))) = snd r"
  by (cases r; cases "fst r") simp_all

lemma request_frames [simp]:
  "player_commands (snd (spclient_request E q s)) = player_commands s" "play_status (snd (spclient_request E q s)) = play_status s"
  "mixer (snd (spclient_request E q s)) = mixer s" "shutdown (snd (spclient_request E q s)) = shutdown s"
  "context_resolver (snd (spclient_request E q s)) = context_resolver s" "session (snd (spclient_request E q s)) = session s"
  by (simp_all add: spclient_request_def)

lemma upd_state_frames [simp]:
  "player_commands (upd_state f s) = player_commands s" "play_status (upd_state f s) = play_status s"
  "mixer (upd_state f s) = mixer s" "shutdown (upd_state f s) = shutdown s" "connect_state (upd_state f s) = f (connect_state s)"
  "context_resolver (upd_state f s) = context_resolver s" "session (upd_state f s) = session s"
  by (simp_all add: upd_state_def)

lemma status_frames:
  "track (player (set_status x st)) = track (player st)" "next_of (set_status x st) = next_of st" "prev_of (set_status x st) = prev_of st"
  "context_of ty (set_status x st) = context_of ty st" "is_active (set_status x st) = is_active st"
  "track (player (set_now n st)) = track (player st)" "next_of (set_now n st) = next_of st" "prev_of (set_now n st) = prev_of st"
  "context_of ty (set_now n st) = context_of ty st" "is_active (set_now n st) = is_active st"
  "track (player (update_position_in_relation m st)) = track (player st)" "next_of (update_position_in_relation m st) = next_of st"
  "prev_of (update_position_in_relation m st) = prev_of st" "context_of ty (update_position_in_relation m st) = context_of ty st"
  "is_active (update_position_in_relation m st) = is_active st"
  by (cases ty; simp add: set_status_def set_now_def update_position_in_relation_def update_restrictions_def Let_def context_of_def
      split: option.split)+

lemma notify_frames:
  "player_commands (snd (notify E s)) = player_commands s" "play_status (snd (notify E s)) = play_status s"
  "mixer (snd (notify E s)) = mixer s" "shutdown (snd (notify E s)) = shutdown s"
  "next_of (connect_state (snd (notify E s))) = next_of (connect_state s)"
  "prev_of (connect_state (snd (notify E s))) = prev_of (connect_state s)"
  "track (player (connect_state (snd (notify E s)))) = track (player (connect_state s))"
  "context_of ty (connect_state (snd (notify E s))) = context_of ty (connect_state s)"
  "is_active (connect_state (snd (notify E s))) = is_active (connect_state s)"
  by (simp_all add: notify_def Let_def send_with_reason_def status_frames)

text \<open>
  C38. A device that is not active leaves the player alone: no command of the program but a shutdown or
  an activation sends it anything, and none but these changes the track lists, the contexts or the
  play status.
\<close>

theorem inactive_device_ignores_commands:
  assumes "\<not> is_active (connect_state s)" "cmd \<noteq> SpircShutdown" "cmd \<noteq> SpircActivate"
    and "spirc_handle_command E cmd s = Some (r, s')"
  shows "player_commands s' = player_commands s \<and> play_status s' = play_status s \<and> mixer s' = mixer s \<and>
    next_of (connect_state s') = next_of (connect_state s) \<and> prev_of (connect_state s') = prev_of (connect_state s) \<and>
    track (player (connect_state s')) = track (player (connect_state s)) \<and>
    context_of ty (connect_state s') = context_of ty (connect_state s) \<and> \<not> is_active (connect_state s')"
proof -
  have "s' = snd (the (spirc_handle_command E cmd s))" using assms(4) by simp
  then have "s' = snd (notify E s) \<or> (\<exists>q. s' = snd (spclient_request E q s))"
    using assms(1-3) by (cases cmd) (auto simp: spirc_handle_command_def Let_def)
  then show ?thesis using assms(1) by (auto simp: notify_frames)
qed

theorem inactive_device_ignores_commands_witness:
  "\<exists>r s'. spirc_handle_command (sample_spirc_env True) SpircNext (sample_task\<lparr>connect_state := sample_state\<rparr>) = Some (r, s') \<and>
     player_commands s' = player_commands sample_task"
proof -
  let ?s = "sample_task\<lparr>connect_state := sample_state\<rparr>"
  have a: "\<not> is_active (connect_state ?s)" by (simp add: sample_state_def connect_state_default_def)
  then obtain r s' where "spirc_handle_command (sample_spirc_env True) SpircNext ?s = Some (r, s')"
    by (simp add: spirc_handle_command_def Let_def) (metis surj_pair)
  with inactive_device_ignores_commands [OF a _ _ this] show ?thesis by auto
qed

lemma request_fails:
  "put_answer E (length (service_requests s)) = Inl k \<Longrightarrow>
   spclient_request E q s = (Err (Fail (RequestCause k)), s\<lparr>service_requests := service_requests s @ [q]\<rparr>)"
  by (simp add: spclient_request_def)

lemma notify_fails:
  assumes "put_answer E (length (service_requests s)) = Inl k"
  shows "fst (notify E s) = Err (Fail (RequestCause k))"
  using assms by (simp add: notify_def send_with_reason_def Let_def request_fails upd_state_def)

lemma handle_disconnect_fails:
  assumes "put_answer E (length (service_requests s)) = Inl k"
  obtains s' where "handle_disconnect E s = (Err (Fail (RequestCause k)), s')" "player_commands s' = player_commands s"
    "is_active (connect_state s') = is_active (connect_state s)" "shutdown s' = shutdown s" "play_status s' = Stopped"
proof -
  let ?s = "upd_state (update_position_in_relation (now_ms E ((resolver_op resolver_clear s)\<lparr>play_status := Stopped\<rparr>)))
      ((resolver_op resolver_clear s)\<lparr>play_status := Stopped\<rparr>)"
  have "fst (notify E ?s) = Err (Fail (RequestCause k))"
    by (rule notify_fails) (use assms in \<open>simp add: upd_state_def resolver_op_def\<close>)
  then obtain s' where n: "notify E ?s = (Err (Fail (RequestCause k)), s')" by (cases "notify E ?s") auto
  then have "handle_disconnect E s = (Err (Fail (RequestCause k)), s')" by (simp add: handle_disconnect_def Let_def)
  then show thesis
    using that [of s'] notify_frames(1,2,4,9) [of E ?s] n by (simp add: status_frames) (simp add: resolver_op_def)
qed

lemma pause_frames [simp]:
  "service_requests (spirc_handle_pause E s) = service_requests s" "shutdown (spirc_handle_pause E s) = shutdown s"
  "is_active (connect_state (spirc_handle_pause E s)) = is_active (connect_state s)"
  by (simp_all add: spirc_handle_pause_def send_player_def upd_state_def update_position_def Let_def split: SpircPlayStatus.split)

text \<open>
  C39. When the service does not take the update, giving up the device stops half way. A shutdown is lost:
  the task goes on running, as an active device. And a device that another one has taken over from
  does not stop its player, although its own status says that it has.
\<close>

theorem failed_update_keeps_device:
  assumes "put_answer E (length (service_requests s)) = Inl k" "is_active (connect_state s)"
  shows "(\<exists>s'. spirc_round E (ArmCommand (Some SpircShutdown)) s = Some (Goes_on, s') \<and>
      shutdown s' = shutdown s \<and> is_active (connect_state s')) \<and>
    (active_device_id c \<noteq> device_id E \<longrightarrow>
      (\<exists>s'. spirc_round E (ArmCluster (Received (Some c))) s = Some (Goes_on, s') \<and>
        player_commands s' = player_commands s \<and> play_status s' = Stopped \<and> is_active (connect_state s')))"
proof (intro conjI impI)
  have "put_answer E (length (service_requests (spirc_handle_pause E s))) = Inl k" using assms(1) by simp
  then obtain s' where "handle_disconnect E (spirc_handle_pause E s) = (Err (Fail (RequestCause k)), s')"
    "is_active (connect_state s') = is_active (connect_state (spirc_handle_pause E s))" "shutdown s' = shutdown (spirc_handle_pause E s)"
    by (rule handle_disconnect_fails)
  with assms(2) show "\<exists>s'. spirc_round E (ArmCommand (Some SpircShutdown)) s = Some (Goes_on, s') \<and>
      shutdown s' = shutdown s \<and> is_active (connect_state s')"
    by (simp add: spirc_round_def spirc_handle_command_def after_error_def)
next
  assume other: "active_device_id c \<noteq> device_id E"
  obtain s' where "handle_disconnect E s = (Err (Fail (RequestCause k)), s')" "player_commands s' = player_commands s"
    "is_active (connect_state s') = is_active (connect_state s)" "play_status s' = Stopped"
    by (rule handle_disconnect_fails [OF assms(1)])
  with assms(2) other show "\<exists>s'. spirc_round E (ArmCluster (Received (Some c))) s = Some (Goes_on, s') \<and>
      player_commands s' = player_commands s \<and> play_status s' = Stopped \<and> is_active (connect_state s')"
    by (simp add: spirc_round_def round_item_def handle_cluster_update_def after_error_def)
qed

theorem failed_update_keeps_device_witness:
  "\<exists>s'. spirc_round (sample_spirc_env False) (ArmCommand (Some SpircShutdown)) sample_task = Some (Goes_on, s') \<and>
     \<not> shutdown s' \<and> is_active (connect_state s')"
proof -
  have "put_answer (sample_spirc_env False) (length (service_requests sample_task)) = Inl Unavailable"
    by (simp add: sample_spirc_env_def)
  moreover have "\<not> shutdown sample_task"
    by (simp add: sample_task_def spirc_new_def Let_def upd_state_def spirc_set_volume_def send_player_def)
  ultimately show ?thesis
    using failed_update_keeps_device [of "sample_spirc_env False" sample_task Unavailable "\<lparr>active_device_id = [], cluster_session_id = [], transfer_data = []\<rparr>"]
    by simp
qed

section \<open>Loading a list of tracks\<close>

text \<open>An uri that a context track can have and that prints as it was read.\<close>

definition plain_uri :: "string \<Rightarrow> bool" where
  "plain_uri u \<longleftrightarrow> u \<noteq> [] \<and> CHR ''?'' \<notin> set u \<and>
     (case from_uri u of Inr i \<Rightarrow> str_replace ''unknown'' ''track'' (to_uri i) = u | Inl _ \<Rightarrow> False)"

lemma plain_track:
  assumes "plain_uri u" "u \<notin> set (unavailable_uri st)"
  obtains t where "context_to_provided_track uuid st (context_track_new\<lparr>ct_uri := Some u\<rparr>) cu ci pm None = Ok t"
    "uri t = u" "provider t = ''context''"
proof -
  obtain i where i: "from_uri u = Inr i" "str_replace ''unknown'' ''track'' (to_uri i) = u"
    using assms(1) by (auto simp: plain_uri_def split: sum.splits)
  with assms have "track_spotify_uri (context_track_new\<lparr>ct_uri := Some u\<rparr>) = Ok i"
    by (simp add: track_spotify_uri_def plain_uri_def)
  with i(2) assms(2) have "\<exists>t. context_to_provided_track uuid st (context_track_new\<lparr>ct_uri := Some u\<rparr>) cu ci pm None = Ok t \<and>
      uri t = u \<and> provider t = ''context''"
    by (simp add: context_to_provided_track_def Let_def)
  then show thesis using that by blast
qed

lemma convert_plain:
  assumes "list_all plain_uri uris" "set uris \<inter> set (unavailable_uri st) = {}"
  shows "map uri (convert_tracks U st cu len pm None k (map (\<lambda>u. context_track_new\<lparr>ct_uri := Some u\<rparr>) uris)) = uris \<and>
     list_all (\<lambda>t. provider t = ''context'')
       (convert_tracks U st cu len pm None k (map (\<lambda>u. context_track_new\<lparr>ct_uri := Some u\<rparr>) uris))"
  using assms
proof (induction uris arbitrary: k)
  case (Cons u uris)
  from Cons.prems have "plain_uri u" "u \<notin> set (unavailable_uri st)" by auto
  then obtain t where "context_to_provided_track (U k) st (context_track_new\<lparr>ct_uri := Some u\<rparr>) (Some cu)
      (map_option (\<lambda>l. l + k) len) (Some pm) None = Ok t" "uri t = u" "provider t = ''context''"
    by (rule plain_track)
  with Cons show ?case by simp
qed simp

text \<open>The state once the list is its context.\<close>

definition listed_context :: "string list \<Rightarrow> ConnectState \<Rightarrow> bool" where
  "listed_context uris st \<longleftrightarrow> active_context st = DefaultContext \<and> autoplay_context st = None \<and> \<not> repeat_context st \<and>
     (case context_field st of
        None \<Rightarrow> False
      | Some ctx \<Rightarrow> map uri (track_list ctx) = uris \<and> list_all (\<lambda>t. provider t = ''context'') (track_list ctx) \<and>
          sc_metadata ctx = Map.empty \<and> sc_index ctx = context_index_new)"

lemma reset_context_completely:
  "context_field (reset_context Completely st) = None" "autoplay_context (reset_context Completely st) = None"
  "active_context (reset_context Completely st) = DefaultContext" "context_uri (player (reset_context Completely st)) = []"
  "next_of (reset_context Completely st) = next_of st" "unavailable_uri (reset_context Completely st) = unavailable_uri st"
  by (simp_all add: reset_context_def Let_def set_active_context_def update_restrictions_def get_context_def context_of_def
      put_context_def split: sum.split option.split)

lemma reset_options_fields:
  "context_field (reset_options st) = context_field st" "autoplay_context (reset_options st) = autoplay_context st"
  "active_context (reset_options st) = active_context st" "context_uri (player (reset_options st)) = context_uri (player st)"
  "next_of (reset_options st) = next_of st" "unavailable_uri (reset_options st) = unavailable_uri st"
  "\<not> repeat_context (reset_options st)"
  by (auto simp: reset_options_def set_repeat_context_def set_repeat_track_def set_shuffle_def update_options_def
      add_options_if_empty_def repeat_context_def player_options_def Let_def)

lemma load_tracks_state:
  assumes "list_all plain_uri uris" "uris \<noteq> []" "set uris \<inter> set (unavailable_uri st) = {}"
    and "st2 = reset_options (reset_context Completely st)"
    and "c = context_new\<lparr>c_uri := Some WEB_API_URI, c_url := x, c_pages := [page_from_uris uris]\<rparr>"
  obtains st3 where "update_context U c DefaultContext st2 = (Ok None, st3)" "listed_context uris st3" "next_of st3 = next_of st"
proof -
  let ?new = "state_context_from_page (U 0) st2 (page_from_uris uris) (c_metadata c) (c_restrictions c) (c_uri c) (Some 0) None"
  note r = reset_options_fields [of "reset_context Completely st"] reset_context_completely [of st]
  have "list_all (\<lambda>p. page_tracks p = []) (c_pages c) = False" using assms(2,5) by (simp add: page_from_uris_def)
  moreover have "\<not> starts_with WEB_API_URI LOCAL_FILES_IDENTIFIER"
    by (simp add: WEB_API_URI_def LOCAL_FILES_IDENTIFIER_def starts_with_def)
  moreover have "split_first_page (c_pages c) = (Some (page_from_uris uris), [])"
    using assms(2,5) by (simp add: page_from_uris_def)
  ultimately have up: "update_context U c DefaultContext st2 = (Ok None, update_default_context (U 0) c (page_from_uris uris) st2)"
    using assms(5) by (simp add: update_context_def)
  have "c_uri c \<noteq> Some (context_uri (player st2))" using r assms(4,5) by (simp add: WEB_API_URI_def)
  then have f: "context_field (update_default_context (U 0) c (page_from_uris uris) st2) = Some ?new"
    "autoplay_context (update_default_context (U 0) c (page_from_uris uris) st2) = autoplay_context st2"
    "active_context (update_default_context (U 0) c (page_from_uris uris) st2) = active_context st2"
    "next_of (update_default_context (U 0) c (page_from_uris uris) st2) = next_of st2"
    "repeat_context (update_default_context (U 0) c (page_from_uris uris) st2) = repeat_context st2"
    by (simp_all add: update_default_context_def Let_def repeat_context_def player_options_def)
  have "list_all plain_uri uris \<and> set uris \<inter> set (unavailable_uri st2) = {}" using assms(1,3,4) r by simp
  then have "map uri (track_list ?new) = uris" "list_all (\<lambda>t. provider t = ''context'') (track_list ?new)"
    using convert_plain [of uris st2 "U 0"]
    by (simp_all add: state_context_from_page_def Let_def from_vec_def page_from_uris_def context_page_new_def)
  moreover have "sc_metadata ?new = Map.empty" "sc_index ?new = context_index_new"
    using assms(5) by (simp_all add: state_context_from_page_def Let_def context_new_def)
  ultimately have "listed_context uris (update_default_context (U 0) c (page_from_uris uris) st2)"
    using f r assms(4) by (simp add: listed_context_def)
  moreover have "next_of (update_default_context (U 0) c (page_from_uris uris) st2) = next_of st" using f(4) r assms(4) by simp
  ultimately show thesis by (rule that [OF up])
qed

lemma listed_context_frames:
  assumes "listed_context uris st"
  shows "listed_context uris (set_active_context DefaultContext st)" "listed_context uris (clear_restrictions st)"
    and "listed_context uris (clear_next_tracks st)" "listed_context uris (update_current_index f st)" "listed_context uris (set_track t st)"
  using assms by (simp_all add: listed_context_def set_active_context_def clear_restrictions_def clear_next_tracks_eq set_next_def
      update_current_index_def set_track_def repeat_context_def player_options_def Let_def split: option.splits sum.split)

lemma merge_context_none: "snd (merge_context None st) = st"
  by (simp add: merge_context_def split: sum.split)

lemma next_frames:
  "next_of (set_active_context ty st) = next_of st" "next_of (clear_restrictions st) = next_of st"
  "next_of (update_current_index f st) = next_of st" "next_of (set_track t st) = next_of st"
  by (simp_all add: set_active_context_def clear_restrictions_def update_current_index_def set_track_def Let_def
      split: sum.split option.split)

lemma load_listed_position:
  assumes "listed_context uris st" "i < length uris" "length uris < 2 ^ 32"
    and "st1 = update_current_index (\<lambda>x. x\<lparr>index_track := as_u32 i\<rparr>) (set_track (track_list (the (context_field st)) ! i) st)"
  shows "set_current_track i st = (Ok (), st1)"
    and "\<exists>st2. reset_playback_to_position H (Some i) st1 = (Ok (), st2) \<and> uri (current_track st2) = uris ! i \<and>
      track (player st2) \<noteq> None \<and>
      map uri (next_of st2) = map uri (takeWhile is_queue (next_of st)) @
        take (SPOTIFY_MAX_NEXT_TRACKS_SIZE - length (takeWhile is_queue (next_of st))) (drop (Suc i) uris)"
proof -
  obtain ctx where ctx: "context_field st = Some ctx" "map uri (track_list ctx) = uris"
    "list_all (\<lambda>t. provider t = ''context'') (track_list ctx)" "sc_metadata ctx = Map.empty" "sc_index ctx = context_index_new"
    "active_context st = DefaultContext" "autoplay_context st = None" "\<not> repeat_context st"
    using assms(1) by (auto simp: listed_context_def split: option.splits)
  have len: "i < length (track_list ctx)" using assms(2) ctx(2) by auto
  have st1: "context_field st1 = Some ctx" "active_context st1 = DefaultContext"
    "current_track st1 = track_list ctx ! i" "next_of st1 = next_of st" "autoplay_context st1 = None" "\<not> repeat_context st1"
    using assms(4) ctx by (simp_all add: update_current_index_def set_track_def current_track_def
        unwrap_or_def repeat_context_def player_options_def)
  show "set_current_track i st = (Ok (), st1)"
    using ctx len assms(4) by (simp add: set_current_track_def get_context_def context_of_def get_def)
  have p: "provider t = ''context''" if "t \<in> set (track_list ctx)" for t using ctx(3) that by (simp add: list_all_iff)
  have skip: "\<not> is_skip_track st' t it" if "context_field st' = Some ctx" "active_context st' = DefaultContext" for st' t it
    using that ctx(4) by (simp add: is_skip_track_def get_context_def context_of_def get_initial_track_def)
  have cond: "context_of (active_context st1) st1 = Some ctx" "\<not> is_queue (current_track st1)"
    "\<not> is_skip_track st1 (current_track st1) None"
    using st1 p len skip by (simp_all add: context_of_def is_queue_def)
  let ?s = "st1\<lparr>fill_up_context := active_context st1\<rparr>"
  have loads: "filter (loads ?s it) ts = ts" if "set ts \<subseteq> set (track_list ctx)" for ts it
    using that p skip st1 by (intro filter_True) (auto simp: loads_def is_unavailable_def)
  have up: "upcoming_from ?s ctx (as_u32 (i + 1)) (index_page (sc_index ctx)) m = drop (Suc i) (track_list ctx)" for m
    using loads [OF set_drop_subset] st1 assms(2,3) by (simp add: upcoming_from_def repeat_context_def player_options_def)
  from reset_playback_repositions [OF cond(1) len cond(2,3), of H] up
  obtain st2 where "reset_playback_to_position H (Some i) st1 = (Ok (), st2)" "track (player st2) = Some (track_list ctx ! i)"
    "next_of st2 = takeWhile is_queue (next_of st1) @
       take (SPOTIFY_MAX_NEXT_TRACKS_SIZE - length (takeWhile is_queue (next_of st1))) (drop (Suc i) (track_list ctx))"
    by (auto simp: Let_def split_beta) (metis prod.collapse)
  then show "\<exists>st2. reset_playback_to_position H (Some i) st1 = (Ok (), st2) \<and> uri (current_track st2) = uris ! i \<and>
      track (player st2) \<noteq> None \<and>
      map uri (next_of st2) = map uri (takeWhile is_queue (next_of st)) @
        take (SPOTIFY_MAX_NEXT_TRACKS_SIZE - length (takeWhile is_queue (next_of st))) (drop (Suc i) uris)"
    using st1(4) ctx(2) len by (auto simp: current_track_def unwrap_or_def take_map drop_map)
qed


definition sample_local :: "char \<Rightarrow> SpotifyUri" where
  "sample_local c = Local [c] ''album'' ''title'' (duration_from_secs 5)"

lemma sample_locals:
  "to_uri (sample_local CHR ''a'') = ''spotify:local:a:album:title:5''"
  "to_uri (sample_local CHR ''b'') = ''spotify:local:b:album:title:5''"
  by code_simp+

lemma sample_locals_from:
  "from_uri ''spotify:local:a:album:title:5'' = Ok (sample_local CHR ''a'')"
  "from_uri ''spotify:local:b:album:title:5'' = Ok (sample_local CHR ''b'')"
  using from_to_uri [of "sample_local CHR ''a''"] from_to_uri [of "sample_local CHR ''b''"] unfolding sample_locals
  by (simp_all add: sample_local_def duration_from_secs_def)

lemma sample_locals_plain: "plain_uri ''spotify:local:a:album:title:5''" "plain_uri ''spotify:local:b:album:title:5''"
  by (simp_all add: plain_uri_def sample_locals sample_locals_from starts_with_def)


end
