(* ===== verification/Spec2Isabelle.thy ===== *)
theory Spec2Isabelle
  imports Connect_Steps Audio_Decrypt Dealer File_Cache Player_Steps Spirc_Steps
begin

text \<open>
  Verification of parts of librespot, a Spotify client in Rust.

  The program. A session (\<open>core/src/session.rs\<close>) talks to a Spotify access point over one TCP
  connection: frames encrypted with Shannon (\<open>core/src/connection/codec.rs\<close>) carry packets, which the
  session dispatches by type to the Mercury request component (\<open>core/src/mercury\<close>), to data channels
  (\<open>core/src/channel.rs\<close>) and to the audio-key component (\<open>core/src/audio_key.rs\<close>). Audio files are
  streamed over HTTP (\<open>audio/src/fetch\<close>): tasks download ranges, a fetch task stores them and decides
  what to request next, the player reads through a decrypting reader (\<open>audio/src/decrypt.rs\<close>). Remote
  control keeps a connect state (\<open>connect/src/state.rs\<close> and \<open>connect/src/state/\<close>): the current, previous and next tracks,
  filled up from contexts, shuffled and queued. The controller (\<open>connect/src/spirc.rs\<close>) is the task that
  drives it: it takes requests of other devices, commands of the program and events of the player,
  resolves contexts (\<open>connect/src/context_resolver.rs\<close>), tells the player what to load and the service what
  is playing. The player (\<open>playback/src/player.rs\<close>) is a thread that
  takes commands, loads and preloads tracks, decodes packets and writes them to a sink. A second connection, the dealer
  (\<open>core/src/dealer\<close>), is a websocket over which the service pushes messages to subscribers and sends
  requests to handlers that answer them. Downloaded files go to a cache on disk with a size limit
  (\<open>core/src/cache.rs\<close>). Identifiers and URIs
  (\<open>core/src/spotify_id.rs\<close>, \<open>spotify_uri.rs\<close>) name everything.

  Conventions. A Rust \<open>Result\<close> is a sum, \<open>Inl\<close> the error; where the code can also panic the error
  is a \<open>fault\<close>, \<open>Fail e\<close> or \<open>Panic\<close>. An operation on a mutable object takes the record of its state
  and returns the new one. Code that is not in the repository is a parameter: the Shannon cipher (a
  record of its operations with \<open>shannon_laws\<close>), the AES keystream, protobuf, XML and URL codecs, the
  HTTP client, base64, gzip and JSON, the file system and the priority queue of the cache, the random
  numbers of a shuffle, the hash of the queue revision, the clock. Tasks that
  run concurrently are steps of one transition relation.

  The theories and what they show.

  \<^item> \<open>Prelude\<close>, \<open>Numerals\<close>, \<open>Floats\<close>, \<open>Core_Error\<close>: results, vectors with explicit bounds, invariants of
    transition systems (locale \<open>invariant_system\<close>), codecs, printing and parsing of numbers,
    single-precision arithmetic, and \<open>core/src/error.rs\<close>.

  \<^item> \<open>Range_Set\<close>: \<open>audio/src/range_set.rs\<close>. The sorted list of ranges against sets of bytes (locale
    \<open>interval_store\<close>): every operation keeps the representation well-formed and is exact.

  \<^item> \<open>Spotify_Id\<close>, \<open>Spotify_Uri\<close>: conversions of identifiers and URIs, with round trips in both directions.

  \<^item> \<open>Shuffle_Vec\<close>: \<open>connect/src/shuffle_vec.rs\<close>. Shuffling permutes, unshuffling restores, and the case
    in which it does not.

  \<^item> \<open>Player_Messages\<close>, \<open>Connect_State\<close>, \<open>Connect_Queue\<close>, \<open>Connect_Steps\<close>: the messages, the connect state
    with all its operations, the track lists (the fill-up loop refines the specification \<open>upcoming\<close>),
    and the state machine over all commands with its invariant.

  \<^item> \<open>Dealer_Requests\<close>, \<open>Context_Resolver\<close>, \<open>Spirc\<close>, \<open>Spirc_Steps\<close>: the requests of
    \<open>core/src/dealer/protocol/request.rs\<close>, the context resolver, and the controller of \<open>spirc.rs\<close> with \<open>model.rs\<close>: its
    task as a record, one definition per handler, and a round of its loop (\<open>spirc_round\<close>) for each arm of
    the select. What goes to the player and to the services is recorded as lists of commands and
    requests. The controller refines the state machine of the connect state, so its invariant holds
    in every reachable state; loading and skipping do what they say, inactive devices leave the player
    alone; a skip that never ends and updates whose failure loses a shutdown.

  \<^item> \<open>Audio_Fetch\<close>: the definitions of \<open>audio/src/fetch/mod.rs\<close> and \<open>receive.rs\<close>. \<open>Audio_Stream\<close>: the
    system of download tasks, fetch task and readers (\<open>stream_step\<close>) and its invariant \<open>stream_ok\<close>.
    \<open>Audio_Reader\<close>: what follows for the reader: bytes read are bytes of the file, the last chunk ends
    the download, and the header, range and seek cases that go wrong. \<open>Audio_Decrypt\<close>: a decrypting
    reader over any reader with the laws of \<open>positioned_reader\<close>, which the streamed and the cached file
    both satisfy.

  \<^item> \<open>Wire\<close>, \<open>Ap_Codec\<close>, \<open>Ap_Channel\<close>, \<open>Mercury\<close>: packet types and byte order, the frame codec (round trip
    under any chunking, authentication), channels (delivery in order, termination) and Mercury
    (requests, reassembly, errors, the sender).

  \<^item> \<open>Ap_Session\<close>: audio keys, session data, dispatch, keep-alive and login of \<open>session.rs\<close> and
    \<open>connection/mod.rs\<close>: a silent server is noticed, a well-behaved one is kept, keys reach their
    requests, and the search for an access point ends.

  \<^item> \<open>File_Cache\<close>: \<open>core/src/cache.rs\<close>: the size limiter over any priority queue with \<open>pq_laws\<close>, the cache
    over a disk and any failures of the file system. The limiter agrees with the disk in every
    reachable state and evicts the least recently used files; two saves that go wrong.

  \<^item> \<open>Dealer_Maps\<close>, \<open>Dealer_Protocol\<close>, \<open>Dealer\<close>: \<open>core/src/dealer\<close>. The tries of handlers (locale \<open>path_registry\<close>,
    equivalent to a search in a list) and subscribers, payloads, dispatch, responders, the receive and
    send tasks of a connection as steps, the loop that reconnects, and the manager: requests are
    answered once, silent peers are dropped, the loop ends when closed, subscriptions outlive the start.

  \<^item> \<open>Player_Audio\<close>, \<open>Player\<close>, \<open>Player_Steps\<close>: \<open>playback/src/player.rs\<close> with its configuration and packets. Volume,
    normalisation and the limiter on samples; the states, commands and events of the player thread and
    the rounds of its loop over any decoder, sink and loader. The sink is closed while nothing plays,
    and as long as seeks and the sink succeed the process does not exit and events name the latest
    request; three failures that break this.

  This theory composes the layers below a Mercury request.

  Bounds. Loops are total functions with a measure; the one loop over a channel that depends on data
  yet to come (\<open>data_next\<close>) takes fuel, and as much as is buffered is proved to be enough. The loop of the controller that skips to a track (\<open>skip_loop\<close>) may run for
  ever; it is a partial function, proved to return for a listed track and not to for a missing one. A wait for
  other tasks (\<open>stream_wait\<close>, \<open>fetch_wait\<close>) takes the list of wake-ups, which are arbitrary.

  Not modelled: the opening of a track by the player, decoders, mixers and sinks, the subscriptions and the login with
  which the controller starts, the websocket and JSON under the dealer, the HTTP services and logins, discovery, OAuth, metadata
  conversions, the AirPlay receiver and the program itself. They are I/O, adapters to libraries, or
  not yet part of the development. Logging is left out everywhere. Overflowing arithmetic is a
  \<open>Panic\<close>, as in a build with overflow checks.
\<close>

section \<open>A request through all layers\<close>

text \<open>
  C2. From the caller to the wire and back: a GET that goes through the Mercury component is answered.
  Whatever packets the server cuts its response into, it encrypts them with the shared key, the
  network delivers the bytes in any chunks; decoding them and dispatching the packets gives the
  caller exactly one reply, with the status, URI and joined parts of the response, the request no
  longer waits, and no other part of the session has changed.
\<close>

theorem mercury_get_answered:
  assumes "shannon_laws S" and "\<not> merc_invalid (mercury s)"
    and "mercury_get write_header True cb address (mercury s) = (r, m)"
    and "seq = be_bytes 8 (unat (merc_sequence (mercury s)))"
    and "list_all (\<lambda>k. packet_ok k \<and> fst k \<noteq> 1) pks" and "packet_ok (1, ps)" and "ps \<noteq> []"
    and "list_all (\<lambda>(_, p). length p < 65536) (mercury_frames MercuryReq seq (pks @ [(1, ps)]))"
    and "Suc (length pks) < 2 ^ 32"
    and "join_chunks (concat (map (\<lambda>(f, ps). tag_parts f ps) (pks @ [(1, ps)]))) = hd_part # rest_parts"
    and "out_parse_header X hd_part = Some h" and "hdr_status_code h < 400" and "out_alive X cb"
  shows "(\<exists>data. r = Ok (packet_code MercuryReq, data)) \<and>
    (\<exists>e bytes. encode_all S (mercury_frames MercuryReq seq (pks @ [(1, ps)])) (codec_new S key key1) =
        (Ok (), e, bytes) \<and>
      (\<forall>chunks. concat chunks = bytes \<longrightarrow>
        (\<exists>d frames. feed S (codec_new S key2 key) [] chunks = (frames, Ok (), d, []) \<and>
          dispatch_frames X now unix frames (s\<lparr>mercury := m\<rparr>) =
            (None, s\<lparr>mercury := m\<lparr>Mercury.pending := (Mercury.pending m)(seq := None)\<rparr>,
                     deliveries := deliveries s @ [Reply cb (Inr \<lparr>resp_uri = hdr_uri h,
                       status_code = hdr_status_code h, resp_payload = rest_parts\<rparr>)]\<rparr>))))"
proof -
  have r: "\<exists>data. r = Ok (packet_code MercuryReq, data)"
    and waits: "Mercury.pending m seq = Some \<lparr>parts = [], partial = None, callback = Some cb\<rparr>"
    using assms(2-4) by (auto simp: mercury_get_def Mercury.request_def next_seq_def seq_get_def request_encode_def)
  have len: "length seq < 65536" using assms(4) by simp
  have "length (mercury_frames MercuryReq seq (pks @ [(1, ps)])) < 2 ^ 32"
    using assms(9) by (simp add: mercury_frames_def)
  from frames_through [OF assms(1,8) this, of key key1 key2]
  obtain e bytes where b: "encode_all S (mercury_frames MercuryReq seq (pks @ [(1, ps)])) (codec_new S key key1) =
      (Ok (), e, bytes)"
    "\<And>chunks. concat chunks = bytes \<Longrightarrow>
       \<exists>d. feed S (codec_new S key2 key) [] chunks = (mercury_frames MercuryReq seq (pks @ [(1, ps)]), Ok (), d, [])"
    by blast
  have "dispatch_frames X now unix (mercury_frames MercuryReq seq (pks @ [(1, ps)])) (s\<lparr>mercury := m\<rparr>) =
      (None, s\<lparr>mercury := m\<lparr>Mercury.pending := (Mercury.pending m)(seq := None)\<rparr>,
               deliveries := deliveries s @ [Reply cb (Inr \<lparr>resp_uri = hdr_uri h,
                 status_code = hdr_status_code h, resp_payload = rest_parts\<rparr>)]\<rparr>)"
    using dispatch_frames_response [OF _ len assms(5,6,7), of MercuryReq "s\<lparr>mercury := m\<rparr>" cb hd_part rest_parts X h]
      waits assms(10-13) by simp
  with b r show ?thesis by blast
qed

theorem mercury_get_answered_witness:
  "\<exists>e bytes. encode_all sample_shannon
       (mercury_frames MercuryReq (be_bytes 8 0) [(2, [[1], [2]]), (1, [[3], [4]])]) (codec_new sample_shannon [9] []) =
        (Ok (), e, bytes) \<and>
      (\<exists>d frames. feed sample_shannon (codec_new sample_shannon [] [9]) [] [take 7 bytes, drop 7 bytes] =
          (frames, Ok (), d, []) \<and>
        deliveries (snd (dispatch_frames \<lparr>out_xml = \<lambda>_. [],
            out_parse_header = \<lambda>_. Some \<lparr>hdr_uri = ''hm://x'', hdr_method = [], hdr_content_type = None, hdr_status_code = 200\<rparr>,
            out_urlenc = \<lambda>u. u, out_handles = \<lambda>_. False, out_alive = \<lambda>_. True\<rparr> 0 0 frames
          ((session_new [] [])\<lparr>mercury := snd (mercury_get (\<lambda>_. []) True 5 ''hm://x'' mercury_new)\<rparr>))) =
        [Reply 5 (Inr \<lparr>resp_uri = ''hm://x'', status_code = 200, resp_payload = [[2, 3], [4]]\<rparr>)])"
proof -
  let ?h = "\<lparr>hdr_uri = ''hm://x'', hdr_method = [], hdr_content_type = None, hdr_status_code = 200\<rparr>"
  define X where "X = \<lparr>out_xml = \<lambda>_. [], out_parse_header = \<lambda>_. Some ?h,
    out_urlenc = \<lambda>u. u, out_handles = \<lambda>_. False, out_alive = \<lambda>_. True\<rparr>"
  let ?pks = "[(2 :: u8, [[1], [2]])]"
  let ?ps = "[[3], [4 :: u8]]"
  let ?s = "session_new [] []"
  have s: "\<not> merc_invalid (mercury ?s)" "mercury ?s = mercury_new" "deliveries ?s = []"
    "be_bytes 8 0 = be_bytes 8 (unat (merc_sequence (mercury ?s)))"
    by (simp_all add: session_new_def mercury_new_def)
  have pks: "list_all (\<lambda>k. packet_ok k \<and> fst k \<noteq> 1) ?pks" "packet_ok (1, ?ps)" "?ps \<noteq> []"
    by (simp_all add: packet_ok_def)
  have len: "list_all (\<lambda>(_, p). length p < 65536) (mercury_frames MercuryReq (be_bytes 8 0) (?pks @ [(1, ?ps)]))"
    by (simp add: mercury_frames_def packet_bytes_def part_bytes_def del: be_bytes.simps)
  have join: "join_chunks (concat (map (\<lambda>(f, ps). tag_parts f ps) (?pks @ [(1, ?ps)]))) = [1] # [[2, 3], [4]]"
    by simp
  have X: "out_parse_header X [1] = Some ?h" "hdr_status_code ?h < 400" "out_alive X 5" "Suc (length ?pks) < 2 ^ 32"
    by (simp_all add: X_def)
  from mercury_get_answered [OF sample_shannon_laws s(1) surjective_pairing s(4) pks len X(4) join X(1-3),
      of "\<lambda>_. []" "''hm://x''" "[9]" "[]" "[]" 0 0]
  obtain e bytes where b: "encode_all sample_shannon (mercury_frames MercuryReq (be_bytes 8 0) (?pks @ [(1, ?ps)]))
      (codec_new sample_shannon [9] []) = (Ok (), e, bytes)"
    and all: "\<And>chunks. concat chunks = bytes \<Longrightarrow>
      \<exists>d frames. feed sample_shannon (codec_new sample_shannon [] [9]) [] chunks = (frames, Ok (), d, []) \<and>
        deliveries (snd (dispatch_frames X 0 0 frames
          (?s\<lparr>mercury := snd (mercury_get (\<lambda>_. []) True 5 ''hm://x'' (mercury ?s))\<rparr>))) =
          [Reply 5 (Inr \<lparr>resp_uri = ''hm://x'', status_code = 200, resp_payload = [[2, 3], [4]]\<rparr>)]"
    by (fastforce simp: s(3))
  from all [of "[take 7 bytes, drop 7 bytes]"] b show ?thesis unfolding X_def s(2) by simp
qed

end
